(* ===== verification/Prelude.thy ===== *)
theory Prelude
  imports Main "HOL-Library.Char_ord" "HOL-Library.List_Lexorder" "HOL-Library.Product_Lexorder"
begin

text \<open>
  Shared material of the development.

  \<^item> Fallible code returns \<open>'e + 'a\<close>: \<open>Inl\<close> is the raised exception, \<open>Inr\<close> the value.
    \<open>sbind\<close> sequences two such computations, the first error wins.
  \<^item> A SQLite table is the list of its rows in rowid order. \<open>fetchone\<close>, \<open>update_where\<close>,
    \<open>rowcount\<close> and \<open>max_by\<close> are the statements the stores issue
    (\<open>SELECT .. WHERE\<close>, \<open>UPDATE .. WHERE\<close>, \<open>cursor.rowcount\<close>,
    \<open>ORDER BY .. DESC LIMIT 1\<close>).
  \<^item> A write method of a store is one transaction \<open>'s \<Rightarrow> 'op \<Rightarrow> 'e + ('s \<times> 'r)\<close>; an exception
    rolls it back. The locales \<open>txn_system\<close>, \<open>fencing\<close> and \<open>append_log\<close> state what
    a store promises of its transactions and lift it to every sequence of calls.
  \<^item> Text is the list of its UTF-8 bytes, so \<open>length\<close> is the \<open>len(value.encode("utf-8"))\<close>
    the code bounds, and the byte order is Python's and SQLite's order of the texts.
\<close>

named_theorems row_simps "rewriting of table statements"

section \<open>Errors as values\<close>

definition sbind :: "'e + 'a \<Rightarrow> ('a \<Rightarrow> 'e + 'b) \<Rightarrow> 'e + 'b" where
  "sbind m f = (case m of Inl e \<Rightarrow> Inl e | Inr a \<Rightarrow> f a)"

lemma sbind_Inl [simp]: "sbind (Inl e) f = Inl e"
  by (simp add: sbind_def)

lemma sbind_Inr [simp]: "sbind (Inr a) f = f a"
  by (simp add: sbind_def)

lemma sbind_eq_Inr: "sbind m f = Inr b \<longleftrightarrow> (\<exists>a. m = Inr a \<and> f a = Inr b)"
  by (cases m) auto

lemma sbind_eq_Inl: "sbind m f = Inl e \<longleftrightarrow> m = Inl e \<or> (\<exists>a. m = Inr a \<and> f a = Inl e)"
  by (cases m) auto

lemma sbind_cong [fundef_cong]:
  "m = m' \<Longrightarrow> (\<And>a. m' = Inr a \<Longrightarrow> f a = g a) \<Longrightarrow> sbind m f = sbind m' g"
  by (cases m') auto

lemma if_Inl_eq_Inr: "(if b then Inl e else x) = Inr y \<longleftrightarrow> \<not> b \<and> x = Inr y"
  by auto

text \<open>The value of an optional row, or the exception raised where it is missing.\<close>

definition or_raise :: "'e \<Rightarrow> 'a option \<Rightarrow> 'e + 'a" where
  "or_raise e x = (case x of None \<Rightarrow> Inl e | Some a \<Rightarrow> Inr a)"

lemma or_raise_simps [simp]: "or_raise e None = Inl e" "or_raise e (Some a) = Inr a"
  by (simp_all add: or_raise_def)

lemma or_raise_eq_Inr [simp]: "or_raise e x = Inr a \<longleftrightarrow> x = Some a"
  by (cases x) auto

text \<open>\<open>COALESCE(new, old)\<close> of a nullable column.\<close>

definition coalesce :: "'a option \<Rightarrow> 'a option \<Rightarrow> 'a option" where
  "coalesce new old = (case new of None \<Rightarrow> old | Some a \<Rightarrow> Some a)"

text \<open>A set closed under a step relation holds every state reachable from its members.\<close>

lemma rtranclp_closed:
  "R\<^sup>*\<^sup>* s t \<Longrightarrow> s \<in> S \<Longrightarrow> (\<And>x y. x \<in> S \<Longrightarrow> R x y \<Longrightarrow> y \<in> S) \<Longrightarrow> t \<in> S"
  by (induction rule: rtranclp_induct) auto

section \<open>Tables\<close>

definition fetchone :: "('r \<Rightarrow> bool) \<Rightarrow> 'r list \<Rightarrow> 'r option" where
  "fetchone p t = List.find p t"

definition update_where :: "('r \<Rightarrow> bool) \<Rightarrow> ('r \<Rightarrow> 'r) \<Rightarrow> 'r list \<Rightarrow> 'r list" where
  "update_where p f t = map (\<lambda>r. if p r then f r else r) t"

definition rowcount :: "('r \<Rightarrow> bool) \<Rightarrow> 'r list \<Rightarrow> nat" where
  "rowcount p t = length (filter p t)"

fun max_by :: "('r \<Rightarrow> int) \<Rightarrow> 'r list \<Rightarrow> 'r option" where
  "max_by k [] = None"
| "max_by k (r # rs) =
     (case max_by k rs of None \<Rightarrow> Some r | Some m \<Rightarrow> Some (if k r < k m then m else r))"

lemma fetchone_Nil [simp]: "fetchone p [] = None"
  by (simp add: fetchone_def)

lemma fetchone_Cons [simp]: "fetchone p (r # rs) = (if p r then Some r else fetchone p rs)"
  by (simp add: fetchone_def)

lemma fetchone_None_iff: "fetchone p t = None \<longleftrightarrow> (\<forall>r \<in> set t. \<not> p r)"
  by (auto simp: fetchone_def find_None_iff)

lemma fetchone_SomeD: "fetchone p t = Some r \<Longrightarrow> r \<in> set t \<and> p r"
  by (auto simp: fetchone_def find_Some_iff)

lemma fetchone_append:
  "fetchone p (t @ u) = (case fetchone p t of None \<Rightarrow> fetchone p u | Some r \<Rightarrow> Some r)"
  by (induction t) auto

lemma fetchone_cong: "(\<And>r. r \<in> set t \<Longrightarrow> p r = q r) \<Longrightarrow> fetchone p t = fetchone q t"
  by (induction t) auto

lemma update_where_Nil [simp]: "update_where p f [] = []"
  by (simp add: update_where_def)

lemma update_where_Cons [simp]:
  "update_where p f (r # rs) = (if p r then f r else r) # update_where p f rs"
  by (simp add: update_where_def)

lemma update_where_append:
  "update_where p f (t @ u) = update_where p f t @ update_where p f u"
  by (simp add: update_where_def)

lemma length_update_where [simp]: "length (update_where p f t) = length t"
  by (simp add: update_where_def)

lemma set_update_where:
  "set (update_where p f t) = (\<lambda>r. if p r then f r else r) ` set t"
  by (simp add: update_where_def)

lemma map_update_where:
  "(\<And>r. r \<in> set t \<Longrightarrow> p r \<Longrightarrow> k (f r) = k r) \<Longrightarrow> map k (update_where p f t) = map k t"
  by (induction t) auto

lemma update_where_id: "(\<And>r. r \<in> set t \<Longrightarrow> \<not> p r) \<Longrightarrow> update_where p f t = t"
  by (induction t) auto

lemma update_where_all:
  "(\<And>r. r \<in> set t \<Longrightarrow> p r \<Longrightarrow> P (f r)) \<Longrightarrow> (\<And>r. r \<in> set t \<Longrightarrow> P r) \<Longrightarrow>
   r \<in> set (update_where p f t) \<Longrightarrow> P r"
  by (auto simp: set_update_where split: if_splits)

lemma rowcount_0: "rowcount p t = 0 \<longleftrightarrow> (\<forall>r \<in> set t. \<not> p r)"
  by (simp add: rowcount_def filter_empty_conv)

lemma rowcount_pos: "0 < rowcount p t \<longleftrightarrow> (\<exists>r \<in> set t. p r)"
  by (metis rowcount_0 gr0I less_numeral_extra(3))

lemma rowcount_simps [simp]:
  "rowcount p [] = 0"
  "rowcount p (r # rs) = (if p r then Suc (rowcount p rs) else rowcount p rs)"
  by (simp_all add: rowcount_def)

lemma rowcount_append [simp]: "rowcount p (t @ u) = rowcount p t + rowcount p u"
  by (simp add: rowcount_def)

text \<open>A key column: a row is found by its key, and a keyed update hits that row only.\<close>

lemma distinct_key_eq:
  "distinct (map k t) \<Longrightarrow> r \<in> set t \<Longrightarrow> r' \<in> set t \<Longrightarrow> k r = k r' \<Longrightarrow> r = r'"
  by (auto simp: distinct_map dest: inj_onD)

lemma fetchone_keyed:
  assumes "distinct (map k t)" "r \<in> set t" "p r" "\<And>r'. p r' \<Longrightarrow> k r' = k r"
  shows "fetchone p t = Some r"
proof (cases "fetchone p t")
  case None
  with assms show ?thesis by (auto simp: fetchone_None_iff)
next
  case (Some r')
  then have "r' \<in> set t" "p r'" by (auto dest: fetchone_SomeD)
  with assms have "r' = r" by (metis distinct_key_eq)
  with Some show ?thesis by simp
qed

lemma list_ex_key: "list_ex (\<lambda>r. k r = c) t \<longleftrightarrow> c \<in> k ` set t"
  by (auto simp: list_ex_iff)

lemma rowcount_keyed:
  assumes "distinct (map k t)" "\<And>r. p r \<Longrightarrow> k r = c"
  shows "rowcount p t \<le> 1"
  using assms(1)
proof (induction t)
  case Nil
  then show ?case by simp
next
  case (Cons r rs)
  have "p r \<Longrightarrow> rowcount p rs = 0"
    using Cons.prems assms(2) by (force simp: rowcount_0)
  with Cons show ?case by auto
qed

lemma rowcount_keyed_iff:
  assumes "distinct (map k t)" "\<And>r. p r \<Longrightarrow> k r = c"
  shows "rowcount p t = 1 \<longleftrightarrow> (\<exists>r \<in> set t. p r)"
  using rowcount_keyed[OF assms] rowcount_pos[of p t] by (metis One_nat_def le_SucE le_zero_eq less_numeral_extra(1) less_numeral_extra(3))

lemma rowcount_le1_eq:
  assumes "rowcount p t \<le> 1" "r \<in> set t" "p r" "r' \<in> set t" "p r'"
  shows "r = r'"
proof -
  have "length (filter p t) \<le> 1" using assms(1) by (simp add: rowcount_def)
  moreover have "r \<in> set (filter p t)" "r' \<in> set (filter p t)" using assms by auto
  ultimately show ?thesis by (cases "filter p t") auto
qed

lemma max_by_None [simp]: "max_by k t = None \<longleftrightarrow> t = []"
  by (cases t) (auto split: option.splits)

lemma max_by_SomeD: "max_by k t = Some r \<Longrightarrow> r \<in> set t \<and> (\<forall>r' \<in> set t. k r' \<le> k r)"
proof (induction t arbitrary: r)
  case Nil
  then show ?case by simp
next
  case (Cons a t)
  show ?case
  proof (cases "max_by k t")
    case None
    with Cons.prems show ?thesis by auto
  next
    case (Some m)
    with Cons.IH[OF Some] Cons.prems show ?thesis by (auto split: if_splits)
  qed
qed

lemma map_option_max_by_update:
  assumes "\<And>r. r \<in> set t \<Longrightarrow> p r \<Longrightarrow> k (f r) = k r"
  shows "map_option k (max_by k (update_where p f t)) = map_option k (max_by k t)"
  using assms
proof (induction t)
  case Nil
  then show ?case by simp
next
  case (Cons a t)
  then have "map_option k (max_by k (update_where p f t)) = map_option k (max_by k t)" by simp
  then show ?case using Cons.prems[of a]
    by (cases "max_by k t"; cases "max_by k (update_where p f t)") auto
qed

lemma max_by_append_greater:
  "(\<And>r. r \<in> set t \<Longrightarrow> k r < k l) \<Longrightarrow> max_by k (t @ [l]) = Some l"
  by (induction t) auto

lemma filter_update_where:
  "(\<And>r. r \<in> set t \<Longrightarrow> p r \<Longrightarrow> q (f r) = q r) \<Longrightarrow>
   filter q (update_where p f t) = update_where p f (filter q t)"
  by (induction t) auto

text \<open>Rows of two tables compared position by position.\<close>

lemma list_all2_update_where:
  "(\<And>r. r \<in> set t \<Longrightarrow> R r r) \<Longrightarrow> (\<And>r. r \<in> set t \<Longrightarrow> p r \<Longrightarrow> R r (f r)) \<Longrightarrow>
   list_all2 R t (update_where p f t)"
  by (induction t) auto

lemma list_all2_map_eq:
  "list_all2 R t u \<Longrightarrow> (\<And>r r'. R r r' \<Longrightarrow> k r' = k r) \<Longrightarrow> map k u = map k t"
  by (induction rule: list_all2_induct) auto

lemma list_all2_rowcount_le:
  "list_all2 R t u \<Longrightarrow> (\<And>r r'. R r r' \<Longrightarrow> q r' \<Longrightarrow> q r) \<Longrightarrow> rowcount q u \<le> rowcount q t"
  by (induction rule: list_all2_induct) (auto intro: le_SucI)

lemma list_all2_setD1:
  "list_all2 R t u \<Longrightarrow> r \<in> set t \<Longrightarrow> \<exists>r' \<in> set u. R r r'"
  by (induction rule: list_all2_induct) auto

lemma list_all2_setD2:
  "list_all2 R t u \<Longrightarrow> r' \<in> set u \<Longrightarrow> \<exists>r \<in> set t. R r r'"
  by (induction rule: list_all2_induct) auto

lemma list_all2_fetchone:
  assumes "list_all2 R t u" "\<And>r r'. R r r' \<Longrightarrow> q r' = q r" "fetchone q t = Some r"
  shows "\<exists>r'. fetchone q u = Some r' \<and> R r r'"
  using assms(1,3)
  by (induction rule: list_all2_induct) (auto simp: assms(2) split: if_splits)

lemma keyed_update_eq:
  assumes "distinct (map k t)" "\<And>x. p x \<Longrightarrow> k x = c" "r \<in> set t" "p r"
  shows "update_where p f t = update_where (\<lambda>x. k x = c) f t"
proof -
  have "x = r" if "x \<in> set t" "k x = c" for x
    using distinct_key_eq[OF assms(1) that(1) assms(3)] that(2) assms(2)[OF assms(4)] by simp
  then show ?thesis using assms(4) assms(2)
    by (auto simp: update_where_def)
qed

section \<open>Lists of numbered rows\<close>

lemma upto_snoc: "0 \<le> n \<Longrightarrow> [1 .. n + 1] = [1 .. n] @ [n + 1 :: int]"
  by (simp add: upto_rec2)

lemma upto_shape:
  assumes "map f xs = [1 .. n]" "0 \<le> n"
  shows "n = int (length xs)" "sorted (map f xs)" "xs \<noteq> [] \<Longrightarrow> f (last xs) = n" "xs = [] \<Longrightarrow> n = 0"
proof -
  have "length (map f xs) = nat n" unfolding assms(1) by simp
  then show n: "n = int (length xs)" using assms(2) by simp
  show "sorted (map f xs)" unfolding assms(1) by simp
  show "xs = [] \<Longrightarrow> n = 0" using n by simp
  assume "xs \<noteq> []"
  then have "f (last xs) = last [1 .. n]" using assms(1) by (metis last_map)
  moreover have "1 \<le> n" using n \<open>xs \<noteq> []\<close> by (cases xs) auto
  then have "last [1 .. n] = n" using upto_snoc[of "n - 1"] by simp
  ultimately show "f (last xs) = n" by simp
qed

lemma map_filter_snoc:
  "List.map_filter f (xs @ [x]) = List.map_filter f xs @ (case f x of None \<Rightarrow> [] | Some y \<Rightarrow> [y])"
  by (simp add: List.map_filter_def split: option.splits)

lemma map_filter_mem: "y \<in> set (List.map_filter f xs) \<longleftrightarrow> (\<exists>x \<in> set xs. f x = Some y)"
  by (induction xs) (auto simp: List.map_filter_simps split: option.splits)

lemma map_filter_distinct:
  "distinct (List.map_filter f xs) \<Longrightarrow> x \<in> set xs \<Longrightarrow> y \<in> set xs \<Longrightarrow> f x = Some a \<Longrightarrow> f y = Some a \<Longrightarrow> x = y"
  by (induction xs) (auto simp: List.map_filter_simps map_filter_mem split: option.splits)

lemma sorted_wrt_snoc_last:
  assumes "sorted_wrt (<) xs" "xs \<noteq> []" "last xs < (y::int)"
  shows "sorted_wrt (<) (xs @ [y])"
proof -
  have "x \<le> last xs" if "x \<in> set xs" for x
    using assms(1,2) that
  proof (induction xs)
    case (Cons z zs)
    then show ?case using last_in_set[of zs] by (cases "zs = []") (auto intro: less_imp_le)
  qed simp
  then show ?thesis using assms by (fastforce simp: sorted_wrt_append)
qed

lemma single_list:
  assumes "distinct xs" "h \<in> set xs" "\<And>x. x \<in> set xs \<Longrightarrow> x = h"
  shows "xs = [h]"
proof -
  have e: "set xs = {h}" using assms(2,3) by blast
  then have "length xs = Suc 0" using distinct_card[OF assms(1)] by simp
  then obtain y where "xs = [y]" by (metis length_0_conv length_Suc_conv)
  with e show ?thesis by simp
qed

section \<open>Transactional stores\<close>

text \<open>
  A sequence of calls: an exception rolls its transaction back, so the next call sees the
  state before it.
\<close>

fun run_txns :: "('s \<Rightarrow> 'op \<Rightarrow> 'e + ('s \<times> 'r)) \<Rightarrow> 's \<Rightarrow> 'op list \<Rightarrow> 's" where
  "run_txns step s [] = s"
| "run_txns step s (a # as) =
     run_txns step (case step s a of Inl _ \<Rightarrow> s | Inr (s', _) \<Rightarrow> s') as"

text \<open>The fencing tokens a sequence of calls hands out, in order.\<close>

fun granted :: "('s \<Rightarrow> 'op \<Rightarrow> 'e + ('s \<times> 'r)) \<Rightarrow> ('op \<Rightarrow> 'r \<Rightarrow> int option) \<Rightarrow> 's \<Rightarrow> 'op list \<Rightarrow> int list" where
  "granted step grant s [] = []"
| "granted step grant s (a # as) =
     (case step s a of
        Inl _ \<Rightarrow> granted step grant s as
      | Inr (s', r) \<Rightarrow>
          (case grant a r of None \<Rightarrow> [] | Some n \<Rightarrow> [n]) @ granted step grant s' as)"

locale txn_system =
  fixes step :: "'s \<Rightarrow> 'op \<Rightarrow> 'e + ('s \<times> 'r)"
    and inv :: "'s \<Rightarrow> bool"
  assumes step_inv: "inv s \<Longrightarrow> step s a = Inr (s', r) \<Longrightarrow> inv s'"
begin

lemma run_inv: "inv s \<Longrightarrow> inv (run_txns step s as)"
  by (induction as arbitrary: s) (auto simp: step_inv split: sum.splits)

text \<open>A preorder that every transaction follows holds between the ends of every sequence.\<close>

lemma run_preorder:
  assumes refl: "\<And>x. R x x" and trans: "\<And>x y z. R x y \<Longrightarrow> R y z \<Longrightarrow> R x z"
    and step: "\<And>x a y r. inv x \<Longrightarrow> step x a = Inr (y, r) \<Longrightarrow> R x y"
  shows "inv s \<Longrightarrow> R s (run_txns step s as)"
proof (induction as arbitrary: s)
  case Nil
  show ?case by (simp add: refl)
next
  case (Cons a as)
  show ?case
  proof (cases "step s a")
    case (Inl e)
    with Cons show ?thesis by simp
  next
    case (Inr p)
    obtain s' r where p: "p = (s', r)" by (cases p)
    have "R s s'" "R s' (run_txns step s' as)"
      using Cons Inr p step step_inv by blast+
    then show ?thesis using trans Inr p by simp
  qed
qed

end

text \<open>
  A store that hands out fencing tokens: a granting call returns the successor of the
  newest token, every other call leaves the newest token as it is.
\<close>

locale fencing = txn_system step inv
  for step :: "'s \<Rightarrow> 'op \<Rightarrow> 'e + ('s \<times> 'r)" and inv :: "'s \<Rightarrow> bool" +
  fixes token :: "'s \<Rightarrow> int"
    and grant :: "'op \<Rightarrow> 'r \<Rightarrow> int option"
  assumes step_grant:
    "inv s \<Longrightarrow> step s a = Inr (s', r) \<Longrightarrow> grant a r = Some n \<Longrightarrow> n = token s + 1 \<and> token s' = n"
    and step_no_grant:
    "inv s \<Longrightarrow> step s a = Inr (s', r) \<Longrightarrow> grant a r = None \<Longrightarrow> token s' = token s"
begin

lemma step_token_mono: "inv s \<Longrightarrow> step s a = Inr (s', r) \<Longrightarrow> token s \<le> token s'"
  using step_grant step_no_grant by (cases "grant a r") fastforce+

lemma granted_above: "inv s \<Longrightarrow> n \<in> set (granted step grant s as) \<Longrightarrow> token s < n"
proof (induction as arbitrary: s)
  case Nil
  then show ?case by simp
next
  case (Cons a as)
  show ?case
  proof (cases "step s a")
    case (Inl e)
    with Cons show ?thesis by simp
  next
    case (Inr p)
    obtain s' r where p: "p = (s', r)" by (cases p)
    have s': "inv s'" "token s \<le> token s'"
      using Cons.prems(1) Inr p step_inv step_token_mono by blast+
    show ?thesis
    proof (cases "n \<in> set (granted step grant s' as)")
      case True
      with Cons.IH[OF s'(1)] s'(2) show ?thesis by simp
    next
      case False
      with Cons.prems(2) Inr p have "grant a r = Some n"
        by (auto split: option.splits)
      with step_grant[OF Cons.prems(1)] Inr p show ?thesis by fastforce
    qed
  qed
qed

theorem granted_increasing: "inv s \<Longrightarrow> sorted_wrt (<) (granted step grant s as)"
proof (induction as arbitrary: s)
  case Nil
  then show ?case by simp
next
  case (Cons a as)
  show ?case
  proof (cases "step s a")
    case (Inl e)
    with Cons show ?thesis by simp
  next
    case (Inr p)
    obtain s' r where p: "p = (s', r)" by (cases p)
    have s': "inv s'" using Cons.prems Inr p step_inv by blast
    have tok: "\<And>n. grant a r = Some n \<Longrightarrow> token s' = n"
      using step_grant[OF Cons.prems] Inr p by blast
    show ?thesis
      using Cons.IH[OF s'] tok granted_above[OF s'] Inr p
      by (auto split: option.splits)
  qed
qed

end

text \<open>A store with an append-only log.\<close>

locale append_log = txn_system step inv
  for step :: "'s \<Rightarrow> 'op \<Rightarrow> 'e + ('s \<times> 'r)" and inv :: "'s \<Rightarrow> bool" +
  fixes log :: "'s \<Rightarrow> 'l list"
  assumes step_append: "inv s \<Longrightarrow> step s a = Inr (s', r) \<Longrightarrow> \<exists>es. log s' = log s @ es"
begin

lemma run_append: "inv s \<Longrightarrow> \<exists>es. log (run_txns step s as) = log s @ es"
proof (induction as arbitrary: s)
  case Nil
  then show ?case by simp
next
  case (Cons a as)
  show ?case
  proof (cases "step s a")
    case (Inl e)
    with Cons show ?thesis by simp
  next
    case (Inr p)
    obtain s' r where p: "p = (s', r)" by (cases p)
    obtain es where "log s' = log s @ es"
      using step_append Cons.prems Inr p by blast
    moreover obtain es' where "log (run_txns step s' as) = log s' @ es'"
      using Cons.IH step_inv Cons.prems Inr p by blast
    ultimately show ?thesis using Inr p by simp
  qed
qed

end

end
