(* ===== verification/SourceHistory.thy ===== *)
theory SourceHistory
  imports Prelude
begin

text \<open>
  The source history that the browser sidecar keeps in SQLite: the rows of
  \<open>history_sqlite_reader.py\<close>, the fact validators of \<open>history_contract.py\<close>, the scalar validators
  of \<open>wire_primitives.py\<close>, and the consistency check that every reader and every new sidecar
  generation makes (\<open>_verify_journal_consistency\<close>, \<open>_verify_head_aliases\<close>,
  \<open>_validate_authorization_histories\<close>).

  The event table and the head table have the same columns, so one record \<open>entry\<close> stands for an
  event row (\<open>journal_revision\<close>, \<open>event_generation\<close>) and for a head row
  (\<open>head_journal_revision\<close>, \<open>head_generation\<close>). Its \<open>en_cmd\<close> holds the nineteen columns that come
  from the \<open>AcceptedCommand\<close>. The phase column has a CHECK on four texts, here a datatype.
  \<open>hashlib.sha256(..).hexdigest()\<close> is the parameter \<open>sha\<close>. Pragmas and schema texts are not
  modelled.
\<close>

datatype phase = Accepted | DispatchIntent | ObservedResult | ObservedFailure

section \<open>Commands, entries and the journal\<close>

record accepted_command =
  ac_run_id :: string
  ac_operation_id :: string
  ac_source :: string
  ac_operation_kind :: string
  ac_idempotency_key :: string
  ac_request_hash :: string
  ac_attempt_no :: int
  ac_requirement_revision_id :: string
  ac_attempt_fence_ref :: string
  ac_intent_id :: string
  ac_intent_revision :: int
  ac_intent_digest :: string
  ac_profile_generation :: int
  ac_scope_id :: "string option"
  ac_controller_fence_ref :: "string option"
  ac_ordinal :: int
  ac_retry_ref :: "string option"
  ac_expected_ledger :: int
  ac_expected_reconciliation :: int

record entry =
  en_revision :: int
  en_generation :: int
  en_phase :: phase
  en_cmd :: accepted_command
  en_accepted_generation :: int
  en_accepted_revision :: int
  en_ack :: "string option"
  en_dispatch_ref :: "string option"
  en_dispatch_generation :: "int option"
  en_dispatch_revision :: "int option"
  en_obs_generation :: "int option"
  en_obs_revision :: "int option"
  en_obs_ref :: "string option"
  en_obs_hash :: "string option"
  en_reply :: "string option"

record generation_row =
  gn_generation :: int
  gn_instance_id :: string
  gn_retained :: int
  gn_complete :: int

record journal =
  jn_last_revision :: int
  jn_last_generation :: int
  jn_generations :: "generation_row list"
  jn_events :: "entry list"
  jn_heads :: "entry list"

definition empty_journal :: journal where
  "empty_journal = \<lparr>jn_last_revision = 0, jn_last_generation = 0, jn_generations = [],
     jn_events = [], jn_heads = []\<rparr>"

definition SQLITE_MAX_INTEGER :: int where
  "SQLITE_MAX_INTEGER = 2 ^ 63 - 1"

definition JSON_SAFE_INTEGER :: int where
  "JSON_SAFE_INTEGER = 2 ^ 53 - 1"

definition MAX_DURABLE_REPLY_BYTES :: int where
  "MAX_DURABLE_REPLY_BYTES = 65536"

section \<open>Scalars of the wire\<close>

text \<open>
  A control character (category Cc) in UTF-8: a byte below 32, the byte 127, or the byte C2
  followed by one of 80 to 9F.
\<close>

fun has_control :: "string \<Rightarrow> bool" where
  "has_control [] = False"
| "has_control (c # cs) =
     (let n = (of_char c :: int) in
      n < 32 \<or> n = 127 \<or>
      (n = 194 \<and> (case cs of [] \<Rightarrow> False | d # _ \<Rightarrow> 128 \<le> (of_char d :: int) \<and> (of_char d :: int) \<le> 159)) \<or>
      has_control cs)"

definition opaque_text :: "int \<Rightarrow> string \<Rightarrow> bool" where
  "opaque_text max_bytes s \<longleftrightarrow> s \<noteq> [] \<and> \<not> has_control s \<and> int (length s) \<le> max_bytes"

definition sha256_text :: "string \<Rightarrow> bool" where
  "sha256_text s \<longleftrightarrow> length s = 64 \<and> list_all (\<lambda>c. c \<in> set ''0123456789abcdef'') s"

definition positive_json :: "int \<Rightarrow> bool" where
  "positive_json n \<longleftrightarrow> 1 \<le> n \<and> n \<le> JSON_SAFE_INTEGER"

definition nonnegative_json :: "int \<Rightarrow> bool" where
  "nonnegative_json n \<longleftrightarrow> 0 \<le> n \<and> n \<le> JSON_SAFE_INTEGER"

text \<open>
  \<open>_non_bearer_retry_ref\<close>. \<open>str.strip\<close> removes Unicode white space; \<open>edge_spaces\<close> are its encodings.
  Of \<open>str.casefold\<close> only the characters that fold to an ASCII letter alone matter for the ASCII
  prefixes that are refused: the capitals, and the long s (bytes C5 BF), which folds to s.
\<close>

definition byte :: "int \<Rightarrow> char" where
  "byte n = char_of n"

definition edge_spaces :: "string list" where
  "edge_spaces = map (\<lambda>n. [byte n]) [9, 10, 11, 12, 13, 28, 29, 30, 31, 32] @
     map (map byte) ([[194, 133], [194, 160], [225, 154, 128]] @
       map (\<lambda>n. [226, 128, n]) ([128, 129, 130, 131, 132, 133, 134, 135, 136, 137, 138] @ [168, 169, 175]) @ [[226, 129, 159], [227, 128, 128]])"

definition stripped :: "string \<Rightarrow> bool" where
  "stripped s \<longleftrightarrow> list_all (\<lambda>w. take (length w) s \<noteq> w \<and> drop (length s - length w) s \<noteq> w) edge_spaces"

fun casefold_ascii :: "string \<Rightarrow> string" where
  "casefold_ascii [] = []"
| "casefold_ascii (c # cs) =
     (let n = (of_char c :: int) in
      if 65 \<le> n \<and> n \<le> 90 then byte (n + 32) # casefold_ascii cs
      else if n = 197
      then (case cs of
              [] \<Rightarrow> c # casefold_ascii cs
            | d # ds \<Rightarrow> if (of_char d :: int) = 191 then CHR ''s'' # casefold_ascii ds else c # casefold_ascii cs)
      else c # casefold_ascii cs)"

fun occurs_in :: "string \<Rightarrow> string \<Rightarrow> bool" where
  "occurs_in p [] = (p = [])"
| "occurs_in p (c # cs) = (take (length p) (c # cs) = p \<or> occurs_in p cs)"

definition bearer_text :: "string \<Rightarrow> bool" where
  "bearer_text s \<longleftrightarrow>
     (let l = casefold_ascii s in
      list_ex (\<lambda>p. take (length p) l = p)
        [''bearer '', ''basic '', ''authorization:'', ''authorization=''] \<or>
      occurs_in ''authorization='' l)"

definition retry_ref_text :: "string \<Rightarrow> bool" where
  "retry_ref_text s \<longleftrightarrow> opaque_text 256 s \<and> stripped s \<and> \<not> bearer_text s"

definition operation_kinds :: "string list" where
  "operation_kinds = [''verify_session'', ''search'', ''cards'', ''details'', ''continuation'', ''cleanup'']"

section \<open>Facts\<close>

definition command_fields_ok :: "accepted_command \<Rightarrow> bool" where
  "command_fields_ok a \<longleftrightarrow>
     opaque_text 96 (ac_run_id a) \<and> opaque_text 96 (ac_operation_id a) \<and> ac_source a = ''liepin'' \<and>
     ac_operation_kind a \<in> set operation_kinds \<and> opaque_text 128 (ac_idempotency_key a) \<and>
     sha256_text (ac_request_hash a) \<and> positive_json (ac_attempt_no a) \<and>
     opaque_text 96 (ac_requirement_revision_id a) \<and> sha256_text (ac_attempt_fence_ref a) \<and>
     positive_json (ac_ordinal a) \<and>
     (case ac_retry_ref a of None \<Rightarrow> True | Some r \<Rightarrow> retry_ref_text r) \<and>
     positive_json (ac_expected_ledger a) \<and> nonnegative_json (ac_expected_reconciliation a) \<and>
     opaque_text 96 (ac_intent_id a) \<and> positive_json (ac_intent_revision a) \<and>
     sha256_text (ac_intent_digest a) \<and> positive_json (ac_profile_generation a) \<and>
     (case ac_scope_id a of None \<Rightarrow> True | Some s \<Rightarrow> opaque_text 96 s) \<and>
     (case ac_controller_fence_ref a of None \<Rightarrow> True | Some s \<Rightarrow> sha256_text s)"

definition command_epoch_ok :: "accepted_command \<Rightarrow> bool" where
  "command_epoch_ok a \<longleftrightarrow>
     (if ac_ordinal a = 1
      then ac_retry_ref a = None \<and> ac_expected_ledger a = 1 \<and> ac_expected_reconciliation a = 0
      else ac_retry_ref a \<noteq> None \<and> ac_expected_reconciliation a \<noteq> 0)"

text \<open>\<open>_AcceptedFactBase\<close>.\<close>

definition accepted_fact_base :: "entry \<Rightarrow> bool" where
  "accepted_fact_base e \<longleftrightarrow> command_fields_ok (en_cmd e) \<and>
     positive_json (en_accepted_generation e) \<and> positive_json (en_accepted_revision e) \<and>
     positive_json (en_generation e) \<and> positive_json (en_revision e) \<and>
     en_accepted_generation e \<le> en_generation e \<and> en_accepted_revision e \<le> en_revision e \<and>
     command_epoch_ok (en_cmd e)"

text \<open>\<open>AcceptedNoDispatchFact\<close>.\<close>

definition accepted_fact :: "entry \<Rightarrow> bool" where
  "accepted_fact e \<longleftrightarrow> accepted_fact_base e \<and> en_generation e = en_accepted_generation e \<and>
     en_revision e = en_accepted_revision e"

text \<open>\<open>_DispatchedFactBase\<close>; a missing column fails the strict validation.\<close>

definition dispatched_fact_base :: "entry \<Rightarrow> bool" where
  "dispatched_fact_base e \<longleftrightarrow> accepted_fact_base e \<and>
     (case (en_dispatch_ref e, en_dispatch_generation e, en_dispatch_revision e) of
        (Some r, Some g, Some n) \<Rightarrow>
          opaque_text 256 r \<and> positive_json g \<and> positive_json n \<and>
          en_accepted_generation e \<le> g \<and> g \<le> en_generation e \<and>
          en_accepted_revision e < n \<and> n \<le> en_revision e
      | _ \<Rightarrow> False)"

text \<open>\<open>DispatchNotObservedFact\<close>.\<close>

definition dispatch_fact :: "entry \<Rightarrow> bool" where
  "dispatch_fact e \<longleftrightarrow> dispatched_fact_base e \<and> en_dispatch_generation e = Some (en_generation e) \<and>
     en_dispatch_revision e = Some (en_revision e)"

text \<open>\<open>_ObservedFactBase\<close> with the reference and hash of \<open>ObservedResultFact\<close> and \<open>ObservedFailureFact\<close>.\<close>

definition observed_fact :: "entry \<Rightarrow> bool" where
  "observed_fact e \<longleftrightarrow> dispatched_fact_base e \<and>
     (case (en_dispatch_generation e, en_dispatch_revision e, en_obs_generation e, en_obs_revision e,
            en_obs_ref e, en_obs_hash e) of
        (Some dg, Some dn, Some g, Some n, Some r, Some h) \<Rightarrow>
          positive_json g \<and> positive_json n \<and> opaque_text 256 r \<and> sha256_text h \<and>
          dg \<le> g \<and> g = en_generation e \<and> dn < n \<and> n = en_revision e
      | _ \<Rightarrow> False)"

text \<open>\<open>_fact_from_row\<close>: the fact a row stands for is valid.\<close>

fun phase_fact :: "phase \<Rightarrow> entry \<Rightarrow> bool" where
  "phase_fact Accepted e = accepted_fact e"
| "phase_fact DispatchIntent e = dispatch_fact e"
| "phase_fact ObservedResult e = observed_fact e"
| "phase_fact ObservedFailure e = observed_fact e"

definition valid_fact :: "entry \<Rightarrow> bool" where
  "valid_fact e \<longleftrightarrow> phase_fact (en_phase e) e"

definition valid_reply :: "string option \<Rightarrow> bool" where
  "valid_reply v \<longleftrightarrow>
     (case v of None \<Rightarrow> True | Some b \<Rightarrow> b \<noteq> [] \<and> int (length b) \<le> MAX_DURABLE_REPLY_BYTES)"

definition terminal_binding :: "(string \<Rightarrow> string) \<Rightarrow> string option \<Rightarrow> string option \<Rightarrow> string option \<Rightarrow> bool" where
  "terminal_binding sha ref h reply \<longleftrightarrow>
     (case reply of None \<Rightarrow> True | Some b \<Rightarrow> ref = Some (sha b) \<and> h = Some (sha b))"

definition head_key :: "entry \<Rightarrow> string \<times> string \<times> int" where
  "head_key h = (ac_run_id (en_cmd h), ac_operation_id (en_cmd h), ac_ordinal (en_cmd h))"

section \<open>The consistency check of the tables\<close>

definition generation_row_ok :: "generation_row \<Rightarrow> bool" where
  "generation_row_ok g \<longleftrightarrow> 1 \<le> gn_generation g \<and> gn_generation g \<le> SQLITE_MAX_INTEGER \<and>
     sha256_text (gn_instance_id g) \<and> gn_retained g \<in> {0, 1} \<and> gn_complete g \<in> {0, 1}"

definition generations_consistent :: "journal \<Rightarrow> bool" where
  "generations_consistent j \<longleftrightarrow>
     (let gs = sort_key gn_generation (jn_generations j) in
      jn_last_generation j = (if gs = [] then 0 else gn_generation (last gs)) \<and>
      list_all generation_row_ok gs)"

definition events_consistent :: "journal \<Rightarrow> bool" where
  "events_consistent j \<longleftrightarrow>
     (let es = sort_key en_revision (jn_events j) in
      jn_last_revision j = (if es = [] then 0 else en_revision (last es)) \<and>
      map en_revision es = [1 .. int (length es)])"

text \<open>\<open>_verify_head_aliases\<close>: three dictionaries filled by \<open>setdefault\<close>.\<close>

definition command_identity :: "accepted_command \<Rightarrow> string \<times> string \<times> string \<times> string \<times> string" where
  "command_identity a = (ac_source a, ac_operation_kind a, ac_idempotency_key a, ac_request_hash a,
     ac_requirement_revision_id a)"

definition logical_identity :: "entry \<Rightarrow> string \<times> string \<times> string \<times> string \<times> string" where
  "logical_identity h = command_identity (en_cmd h)"

fun verify_head_aliases ::
  "(string \<times> string \<Rightarrow> (string \<times> string \<times> string \<times> string \<times> string) option) \<Rightarrow>
   (string \<times> string \<Rightarrow> string option) \<Rightarrow> (string \<times> string \<Rightarrow> string option) \<Rightarrow> entry list \<Rightarrow> bool" where
  "verify_head_aliases logical op_by_run run_by_op [] = True"
| "verify_head_aliases logical op_by_run run_by_op (h # hs) =
     (let rid = ac_run_id (en_cmd h); oid = ac_operation_id (en_cmd h);
          key = ac_idempotency_key (en_cmd h);
          l = (case logical (rid, oid) of None \<Rightarrow> logical_identity h | Some x \<Rightarrow> x);
          p = (case op_by_run (rid, key) of None \<Rightarrow> oid | Some x \<Rightarrow> x);
          r = (case run_by_op (oid, key) of None \<Rightarrow> rid | Some x \<Rightarrow> x)
      in l = logical_identity h \<and> p = oid \<and> r = rid \<and>
         verify_head_aliases (logical((rid, oid) \<mapsto> l)) (op_by_run((rid, key) \<mapsto> p))
           (run_by_op((oid, key) \<mapsto> r)) hs)"

fun expected_phases :: "phase \<Rightarrow> phase list" where
  "expected_phases Accepted = [Accepted]"
| "expected_phases DispatchIntent = [Accepted, DispatchIntent]"
| "expected_phases ObservedResult = [Accepted, DispatchIntent, ObservedResult]"
| "expected_phases ObservedFailure = [Accepted, DispatchIntent, ObservedFailure]"

text \<open>The twenty-two immutable columns, the three dispatch columns and the five observation columns.\<close>

definition immutable_columns :: "entry \<Rightarrow> accepted_command \<times> int \<times> int \<times> string option" where
  "immutable_columns e = (en_cmd e, en_accepted_generation e, en_accepted_revision e, en_ack e)"

definition dispatch_columns :: "entry \<Rightarrow> string option \<times> int option \<times> int option" where
  "dispatch_columns e = (en_dispatch_ref e, en_dispatch_generation e, en_dispatch_revision e)"

definition no_observation :: "entry \<Rightarrow> bool" where
  "no_observation e \<longleftrightarrow> en_obs_generation e = None \<and> en_obs_revision e = None \<and>
     en_obs_ref e = None \<and> en_obs_hash e = None \<and> en_reply e = None"

definition no_dispatch_or_observation :: "entry \<Rightarrow> bool" where
  "no_dispatch_or_observation e \<longleftrightarrow> dispatch_columns e = (None, None, None) \<and> no_observation e"

definition dispatch_event_ok :: "entry \<Rightarrow> entry \<Rightarrow> bool" where
  "dispatch_event_ok d head \<longleftrightarrow>
     Some (en_revision d) = en_dispatch_revision head \<and>
     Some (en_generation d) = en_dispatch_generation head \<and>
     en_dispatch_revision d = Some (en_revision d) \<and>
     en_dispatch_generation d = Some (en_generation d) \<and>
     en_dispatch_ref d \<noteq> None \<and> en_dispatch_ref d = en_dispatch_ref head \<and> no_observation d"

definition observation_event_ok :: "(string \<Rightarrow> string) \<Rightarrow> entry \<Rightarrow> entry \<Rightarrow> bool" where
  "observation_event_ok sha e head \<longleftrightarrow>
     Some (en_revision e) = en_obs_revision head \<and>
     Some (en_generation e) = en_obs_generation head \<and>
     en_obs_revision e = Some (en_revision e) \<and>
     en_obs_generation e = Some (en_generation e) \<and>
     en_obs_ref e \<noteq> None \<and> en_obs_hash e \<noteq> None \<and>
     en_obs_ref e = en_obs_ref head \<and> en_obs_hash e = en_obs_hash head \<and>
     en_reply e = en_reply head \<and>
     terminal_binding sha (en_obs_ref e) (en_obs_hash e) (en_reply e) \<and>
     terminal_binding sha (en_obs_ref head) (en_obs_hash head) (en_reply head)"

text \<open>The checks of one head against the events of its key.\<close>

definition group_consistent :: "(string \<Rightarrow> string) \<Rightarrow> entry \<Rightarrow> entry list \<Rightarrow> bool" where
  "group_consistent sha head grouped \<longleftrightarrow>
     map en_phase grouped = expected_phases (en_phase head) \<and>
     sorted (map en_generation grouped) \<and>
     list_all (\<lambda>e. immutable_columns e = immutable_columns head) grouped \<and>
     list_all (\<lambda>r. valid_reply (en_ack r) \<and> valid_reply (en_reply r)) (grouped @ [head]) \<and>
     en_revision (grouped ! 0) = en_accepted_revision head \<and>
     en_generation (grouped ! 0) = en_accepted_generation head \<and>
     no_dispatch_or_observation (grouped ! 0) \<and>
     (length grouped = 1 \<longrightarrow> no_dispatch_or_observation head) \<and>
     (2 \<le> length grouped \<longrightarrow> dispatch_event_ok (grouped ! 1) head \<and>
        list_all (\<lambda>e. dispatch_columns e = dispatch_columns head) (tl grouped)) \<and>
     (length grouped = 2 \<longrightarrow> no_observation head) \<and>
     (length grouped = 3 \<longrightarrow> observation_event_ok sha (grouped ! 2) head) \<and>
     en_revision (last grouped) = en_revision head \<and>
     en_generation (last grouped) = en_generation head"

text \<open>\<open>_verify_journal_consistency\<close>: true where it raises nothing.\<close>

definition journal_consistent :: "(string \<Rightarrow> string) \<Rightarrow> journal \<Rightarrow> bool" where
  "journal_consistent sha j \<longleftrightarrow>
     (let es = sort_key en_revision (jn_events j); hs = sort_key head_key (jn_heads j) in
      generations_consistent j \<and> events_consistent j \<and>
      set (map head_key es) = set (map head_key hs) \<and>
      verify_head_aliases (\<lambda>_. None) (\<lambda>_. None) (\<lambda>_. None) hs \<and>
      list_all (\<lambda>h. group_consistent sha h (filter (\<lambda>e. head_key e = head_key h) es)) hs)"

section \<open>The authorization histories\<close>

text \<open>The checks of \<open>_validate_authorization_histories\<close> on the facts of one operation, by ordinal.\<close>

definition strictly_increasing :: "int list \<Rightarrow> bool" where
  "strictly_increasing xs \<longleftrightarrow> list_all (\<lambda>(p, c). p < c) (zip xs (tl xs))"

definition authorization_history_ok :: "entry list \<Rightarrow> bool" where
  "authorization_history_ok hist \<longleftrightarrow>
     map (\<lambda>f. ac_ordinal (en_cmd f)) hist = [1 .. int (length hist)] \<and>
     list_all (\<lambda>f. logical_identity f = logical_identity (hd hist)) hist \<and>
     distinct (List.map_filter (\<lambda>f. ac_retry_ref (en_cmd f)) hist) \<and>
     strictly_increasing (map (\<lambda>f. ac_attempt_no (en_cmd f)) hist) \<and>
     strictly_increasing (map (\<lambda>f. ac_intent_revision (en_cmd f)) hist) \<and>
     strictly_increasing (map (\<lambda>f. ac_expected_ledger (en_cmd f)) hist) \<and>
     strictly_increasing (map (\<lambda>f. ac_expected_reconciliation (en_cmd f)) hist)"

definition operation_history :: "journal \<Rightarrow> string \<times> string \<Rightarrow> entry list" where
  "operation_history j op =
     filter (\<lambda>h. (ac_run_id (en_cmd h), ac_operation_id (en_cmd h)) = op)
       (sort_key head_key (jn_heads j))"

text \<open>\<open>_load_validated_history_facts\<close>: true where it returns.\<close>

definition history_facts_valid :: "journal \<Rightarrow> bool" where
  "history_facts_valid j \<longleftrightarrow>
     list_all valid_fact (jn_heads j) \<and>
     list_all (\<lambda>h. authorization_history_ok
        (operation_history j (ac_run_id (en_cmd h), ac_operation_id (en_cmd h)))) (jn_heads j)"

definition journal_readable :: "(string \<Rightarrow> string) \<Rightarrow> journal \<Rightarrow> bool" where
  "journal_readable sha j \<longleftrightarrow> journal_consistent sha j \<and> history_facts_valid j"

end
