(* ===== verification/CommandJournal.thy ===== *)
theory CommandJournal
  imports SourceHistory
begin

text \<open>
  The command journal of the browser sidecar: \<open>source_port/_command_journal_engine.py\<close> with the
  values of \<open>_command_journal_types.py\<close>. Every accepted command moves through the phases
  accepted, dispatch intent, observed; each move appends one event and replaces the head of its
  key (run, operation, authorization ordinal).

  \<open>secrets.token_hex(32)\<close> is the argument \<open>instance_id\<close>. The file handling around the transactions
  (paths, pragmas, migration of older files) is not modelled. The table CHECKs repeat what the
  fact validators ask before, so only the unique keys are modelled. The columns a head has in its
  phase are never NULL (\<open>trace\<close> below), so \<open>int\<close> of them does not fail.
\<close>

section \<open>Errors and results\<close>

datatype conflict_reason =
    AcceptanceReplayConflict | CreatePathExists | DispatchReplayConflict | GenerationExhausted
  | HeadCasFailed | HeadMissing | IdentityConflict | InstanceIdConflict | ObservationReplayConflict
  | ObservationWithoutDispatch | PhaseRollback | RevisionExhausted | SessionGenerationInvalid
  | StaleHeadRevision

datatype journal_reason =
    JBusy | JCannotOpen | JCorrupt | JFull | JIoError | JPragmaMismatch | JReadonly | JSchemaMismatch

datatype journal_error =
    JConflict conflict_reason
  | JFailure journal_reason
  | JValueError string

abbreviation conflict :: "conflict_reason \<Rightarrow> journal_error + 'a" where
  "conflict r \<equiv> Inl (JConflict r)"

datatype disposition = Created | ExactReplay

record transition_result =
  tr_disposition :: disposition
  tr_startup_generation :: int
  tr_accepted_generation :: int
  tr_accepted_revision :: int
  tr_revision :: int
  tr_head_phase :: phase
  tr_ack :: "string option"
  tr_reply :: "string option"

section \<open>Parts of the transactions\<close>

definition require_reply :: "string option \<Rightarrow> string \<Rightarrow> journal_error + unit" where
  "require_reply v name =
     (if valid_reply v then Inr () else Inl (JValueError (''command_journal_invalid_'' @ name)))"

definition require_positive_integer :: "int \<Rightarrow> string \<Rightarrow> journal_error + unit" where
  "require_positive_integer n name =
     (if 1 \<le> n \<and> n \<le> SQLITE_MAX_INTEGER then Inr ()
      else Inl (JValueError (''command_journal_invalid_'' @ name)))"

text \<open>\<open>model_validate\<close> of a fact.\<close>

definition require_fact :: "bool \<Rightarrow> journal_error + unit" where
  "require_fact ok = (if ok then Inr () else Inl (JValueError ''validation_error''))"

lemma require_fact_Inr [simp]: "require_fact b = Inr u \<longleftrightarrow> b"
  by (simp add: require_fact_def)

lemma require_reply_Inr [simp]: "require_reply v name = Inr u \<longleftrightarrow> valid_reply v"
  by (simp add: require_reply_def)

lemma require_positive_integer_Inr [simp]:
  "require_positive_integer n name = Inr u \<longleftrightarrow> 1 \<le> n \<and> n \<le> SQLITE_MAX_INTEGER"
  by (simp add: require_positive_integer_def)

definition require_session_generation :: "journal \<Rightarrow> int \<Rightarrow> string \<Rightarrow> journal_error + unit" where
  "require_session_generation j generation instance_id =
     (case fetchone (\<lambda>g. gn_generation g = generation) (jn_generations j) of
        None \<Rightarrow> conflict SessionGenerationInvalid
      | Some g \<Rightarrow>
          if gn_instance_id g \<noteq> instance_id \<or> (gn_retained g, gn_complete g) \<noteq> (1, 1) \<or>
             jn_last_generation j \<noteq> generation
          then conflict SessionGenerationInvalid else Inr ())"

definition find_operation_head :: "journal \<Rightarrow> string \<Rightarrow> string \<Rightarrow> int \<Rightarrow> entry option" where
  "find_operation_head j rid oid ordinal =
     fetchone (\<lambda>h. ac_run_id (en_cmd h) = rid \<and> ac_operation_id (en_cmd h) = oid \<and>
                   ac_ordinal (en_cmd h) = ordinal) (jn_heads j)"

definition require_head :: "journal \<Rightarrow> string \<Rightarrow> string \<Rightarrow> int \<Rightarrow> journal_error + entry" where
  "require_head j rid oid ordinal = or_raise (JConflict HeadMissing) (find_operation_head j rid oid ordinal)"

definition require_safe_retry_predecessor :: "journal \<Rightarrow> accepted_command \<Rightarrow> journal_error + unit" where
  "require_safe_retry_predecessor j a =
     (case max_by (\<lambda>h. ac_ordinal (en_cmd h))
             (filter (\<lambda>h. ac_run_id (en_cmd h) = ac_run_id a \<and>
                          ac_operation_id (en_cmd h) = ac_operation_id a) (jn_heads j)) of
        None \<Rightarrow> conflict IdentityConflict
      | Some p \<Rightarrow>
          if ac_ordinal (en_cmd p) \<noteq> ac_ordinal a - 1 \<or> en_phase p \<noteq> Accepted \<or>
             ac_source (en_cmd p) \<noteq> ac_source a \<or>
             ac_operation_kind (en_cmd p) \<noteq> ac_operation_kind a \<or>
             ac_idempotency_key (en_cmd p) \<noteq> ac_idempotency_key a \<or>
             ac_request_hash (en_cmd p) \<noteq> ac_request_hash a \<or>
             ac_requirement_revision_id (en_cmd p) \<noteq> ac_requirement_revision_id a \<or>
             ac_expected_ledger (en_cmd p) \<ge> ac_expected_ledger a \<or>
             ac_expected_reconciliation (en_cmd p) \<ge> ac_expected_reconciliation a
          then conflict IdentityConflict else Inr ())"

definition require_no_identity_collision :: "journal \<Rightarrow> accepted_command \<Rightarrow> journal_error + unit" where
  "require_no_identity_collision j a =
     (let same_run = (\<lambda>h. ac_run_id (en_cmd h) = ac_run_id a);
          same_op = (\<lambda>h. ac_operation_id (en_cmd h) = ac_operation_id a);
          same_key = (\<lambda>h. ac_idempotency_key (en_cmd h) = ac_idempotency_key a)
      in if ac_ordinal a > 1
         then
           sbind (require_safe_retry_predecessor j a) (\<lambda>_.
           if list_ex (\<lambda>h. ((same_run h \<and> same_key h) \<or> (same_op h \<and> same_key h)) \<and>
                           \<not> (same_run h \<and> same_op h)) (jn_heads j)
           then conflict IdentityConflict else Inr ())
         else if list_ex (\<lambda>h. same_run h \<and> same_op h \<and> ac_ordinal (en_cmd h) = 1) (jn_heads j) \<or>
                 list_ex (\<lambda>h. same_run h \<and> same_key h) (jn_heads j) \<or>
                 list_ex (\<lambda>h. same_op h \<and> same_key h) (jn_heads j)
         then conflict IdentityConflict else Inr ())"

definition same_accepted_identity :: "entry \<Rightarrow> accepted_command \<Rightarrow> bool \<Rightarrow> bool" where
  "same_accepted_identity row a allow_transport_replay \<longleftrightarrow>
     (if allow_transport_replay
      then (en_cmd row)\<lparr>ac_attempt_fence_ref := ac_attempt_fence_ref a, ac_scope_id := ac_scope_id a,
                        ac_controller_fence_ref := ac_controller_fence_ref a\<rparr> = a
      else en_cmd row = a)"

definition reply_from_row :: "string option \<Rightarrow> journal_error + string option" where
  "reply_from_row v = (if valid_reply v then Inr v else Inl (JFailure JCorrupt))"

lemma reply_from_row_Inr [simp]: "reply_from_row v = Inr w \<longleftrightarrow> valid_reply v \<and> w = v"
  by (auto simp: reply_from_row_def)

definition transition_result_from_head ::
  "(string \<Rightarrow> string) \<Rightarrow> entry \<Rightarrow> int \<Rightarrow> int \<Rightarrow> journal_error + transition_result" where
  "transition_result_from_head sha h startup revision =
     sbind (reply_from_row (en_reply h)) (\<lambda>reply.
     if en_phase h \<in> {ObservedResult, ObservedFailure} \<and>
        \<not> terminal_binding sha (en_obs_ref h) (en_obs_hash h) reply
     then Inl (JFailure JCorrupt)
     else sbind (reply_from_row (en_ack h)) (\<lambda>ack.
       Inr \<lparr>tr_disposition = ExactReplay, tr_startup_generation = startup,
            tr_accepted_generation = en_accepted_generation h,
            tr_accepted_revision = en_accepted_revision h, tr_revision = revision,
            tr_head_phase = en_phase h, tr_ack = ack, tr_reply = reply\<rparr>))"

text \<open>The compare-and-set of the state row always hits: the same transaction read the value.\<close>

definition allocate_revision :: "journal \<Rightarrow> journal_error + (journal \<times> int)" where
  "allocate_revision j =
     (if jn_last_revision j < 0 \<or> jn_last_revision j \<ge> SQLITE_MAX_INTEGER
      then conflict RevisionExhausted
      else Inr (j\<lparr>jn_last_revision := jn_last_revision j + 1\<rparr>, jn_last_revision j + 1))"

text \<open>
  INSERT of an event; the trigger \<open>source_history_events_no_duplicate_revision\<close> aborts a revision
  that exists, which the engine reports as a corrupt journal.
\<close>

definition insert_event :: "entry \<Rightarrow> journal \<Rightarrow> journal_error + journal" where
  "insert_event e j =
     (if list_ex (\<lambda>x. en_revision x = en_revision e) (jn_events j) then Inl (JFailure JCorrupt)
      else Inr (j\<lparr>jn_events := jn_events j @ [e]\<rparr>))"

text \<open>INSERT of a head, with its primary key and the unique index of retry references.\<close>

definition insert_head :: "entry \<Rightarrow> journal \<Rightarrow> journal_error + journal" where
  "insert_head h j =
     (if list_ex (\<lambda>x. head_key x = head_key h \<or>
           (ac_run_id (en_cmd x) = ac_run_id (en_cmd h) \<and>
            ac_operation_id (en_cmd x) = ac_operation_id (en_cmd h) \<and>
            ac_retry_ref (en_cmd h) \<noteq> None \<and> ac_retry_ref (en_cmd x) = ac_retry_ref (en_cmd h)))
          (jn_heads j)
      then Inl (JFailure JCorrupt)
      else Inr (j\<lparr>jn_heads := jn_heads j @ [h]\<rparr>))"

text \<open>UPDATE of the head, guarded by the revision and the phase it was read with.\<close>

definition update_head :: "entry \<Rightarrow> int \<Rightarrow> phase \<Rightarrow> journal \<Rightarrow> journal_error + journal" where
  "update_head h expected_revision expected_phase j =
     (let p = (\<lambda>x. head_key x = head_key h \<and> en_revision x = expected_revision \<and>
                   en_phase x = expected_phase)
      in if rowcount p (jn_heads j) \<noteq> 1 then conflict HeadCasFailed
         else Inr (j\<lparr>jn_heads := update_where p (\<lambda>_. h) (jn_heads j)\<rparr>))"

section \<open>The transactions\<close>

text \<open>A new generation is granted on a journal whose full validation passes.\<close>

definition start_generation ::
  "(string \<Rightarrow> string) \<Rightarrow> journal \<Rightarrow> string \<Rightarrow> journal_error + (journal \<times> int)" where
  "start_generation sha j instance_id =
     (if \<not> journal_readable sha j then Inl (JFailure JCorrupt)
      else if jn_last_generation j < 0 \<or> jn_last_generation j \<ge> SQLITE_MAX_INTEGER
      then conflict GenerationExhausted
      else
        let generation = jn_last_generation j + 1
        in if list_ex (\<lambda>g. gn_instance_id g = instance_id) (jn_generations j)
           then conflict InstanceIdConflict
           else if list_ex (\<lambda>g. gn_generation g = generation) (jn_generations j) \<or> \<not> sha256_text instance_id
           then Inl (JFailure JCorrupt)
           else Inr (j\<lparr>jn_generations := jn_generations j @
                         [\<lparr>gn_generation = generation, gn_instance_id = instance_id,
                           gn_retained = 1, gn_complete = 1\<rparr>],
                       jn_last_generation := generation\<rparr>, generation))"

definition accepted_entry :: "int \<Rightarrow> int \<Rightarrow> accepted_command \<Rightarrow> string option \<Rightarrow> entry" where
  "accepted_entry generation revision a ack =
     \<lparr>en_revision = revision, en_generation = generation, en_phase = Accepted, en_cmd = a,
      en_accepted_generation = generation, en_accepted_revision = revision, en_ack = ack,
      en_dispatch_ref = None, en_dispatch_generation = None, en_dispatch_revision = None,
      en_obs_generation = None, en_obs_revision = None, en_obs_ref = None, en_obs_hash = None,
      en_reply = None\<rparr>"

definition validate_accepted_input :: "accepted_command \<Rightarrow> int \<Rightarrow> journal_error + unit" where
  "validate_accepted_input a generation =
     (if ac_ordinal a < 1 then Inl (JValueError ''command_journal_invalid_dispatch_authorization_ordinal'')
      else if ac_ordinal a = 1 \<and>
              (ac_retry_ref a \<noteq> None \<or> ac_expected_ledger a \<noteq> 1 \<or> ac_expected_reconciliation a \<noteq> 0)
      then Inl (JValueError ''command_journal_invalid_initial_authorization'')
      else if ac_ordinal a \<noteq> 1 \<and>
              (ac_retry_ref a \<in> {None, Some ''''} \<or> ac_expected_ledger a \<le> 1 \<or>
               ac_expected_reconciliation a < 1)
      then Inl (JValueError ''command_journal_invalid_safe_retry_authorization'')
      else require_fact (accepted_fact (accepted_entry generation 1 a None)))"

definition record_accepted ::
  "(string \<Rightarrow> string) \<Rightarrow> journal \<Rightarrow> int \<Rightarrow> string \<Rightarrow> accepted_command \<Rightarrow> string option \<Rightarrow>
   (int \<Rightarrow> int \<Rightarrow> string) option \<Rightarrow> bool \<Rightarrow> bool \<Rightarrow> bool \<Rightarrow> journal_error + (journal \<times> transition_result)" where
  "record_accepted sha j generation instance_id a ack_bytes ack_factory allow_existing_phase_replay
       allow_transport_replay require_existing_replay =
     (if ack_bytes \<noteq> None \<and> ack_factory \<noteq> None
      then Inl (JValueError ''accepted ack bytes and factory are mutually exclusive'')
      else
        sbind (validate_accepted_input a generation) (\<lambda>_.
        sbind (require_reply ack_bytes ''accepted_ack_bytes'') (\<lambda>_.
        sbind (require_session_generation j generation instance_id) (\<lambda>_.
        (case find_operation_head j (ac_run_id a) (ac_operation_id a) (ac_ordinal a) of
           Some existing \<Rightarrow>
             if \<not> same_accepted_identity existing a allow_transport_replay then conflict IdentityConflict
             else if en_phase existing \<noteq> Accepted \<and> \<not> allow_existing_phase_replay then conflict PhaseRollback
             else if en_accepted_generation existing \<noteq> generation \<and> \<not> allow_existing_phase_replay
             then conflict AcceptanceReplayConflict
             else sbind (transition_result_from_head sha existing generation (en_accepted_revision existing))
                    (\<lambda>r. Inr (j, r))
         | None \<Rightarrow>
             if require_existing_replay then conflict HeadMissing
             else
               sbind (require_no_identity_collision j a) (\<lambda>_.
               sbind (allocate_revision j) (\<lambda>(j1, revision).
               sbind (require_fact (accepted_fact (accepted_entry generation revision a None))) (\<lambda>_.
               let ack = (case ack_factory of None \<Rightarrow> ack_bytes | Some f \<Rightarrow> Some (f generation revision));
                   e = accepted_entry generation revision a ack
               in sbind (require_reply ack ''accepted_ack_bytes'') (\<lambda>_.
                  sbind (insert_event e j1) (\<lambda>j2.
                  sbind (insert_head e j2) (\<lambda>j3.
                  Inr (j3, \<lparr>tr_disposition = Created, tr_startup_generation = generation,
                            tr_accepted_generation = generation, tr_accepted_revision = revision,
                            tr_revision = revision, tr_head_phase = Accepted, tr_ack = ack,
                            tr_reply = None\<rparr>))))))))))))"

definition dispatch_entry :: "int \<Rightarrow> int \<Rightarrow> string \<Rightarrow> entry \<Rightarrow> entry" where
  "dispatch_entry generation revision ref head =
     head\<lparr>en_revision := revision, en_generation := generation, en_phase := DispatchIntent,
          en_dispatch_ref := Some ref, en_dispatch_generation := Some generation,
          en_dispatch_revision := Some revision\<rparr>"

definition record_dispatch_intent ::
  "(string \<Rightarrow> string) \<Rightarrow> journal \<Rightarrow> int \<Rightarrow> string \<Rightarrow> string \<Rightarrow> string \<Rightarrow> int \<Rightarrow> int \<Rightarrow> string \<Rightarrow>
   journal_error + (journal \<times> transition_result)" where
  "record_dispatch_intent sha j generation instance_id rid oid ordinal expected_revision ref =
     sbind (require_positive_integer expected_revision ''expected_head_journal_revision'') (\<lambda>_.
     sbind (require_positive_integer ordinal ''dispatch_authorization_ordinal'') (\<lambda>_.
     sbind (require_session_generation j generation instance_id) (\<lambda>_.
     sbind (require_head j rid oid ordinal) (\<lambda>head.
     if en_phase head = DispatchIntent
     then
       if en_accepted_revision head \<noteq> expected_revision \<or> en_dispatch_ref head \<noteq> Some ref
       then conflict DispatchReplayConflict
       else sbind (transition_result_from_head sha head generation
                     (case en_dispatch_revision head of None \<Rightarrow> 0 | Some n \<Rightarrow> n)) (\<lambda>r. Inr (j, r))
     else if en_phase head \<noteq> Accepted then conflict PhaseRollback
     else if en_generation head \<noteq> generation then conflict SessionGenerationInvalid
     else if en_revision head \<noteq> expected_revision then conflict StaleHeadRevision
     else
       sbind (allocate_revision j) (\<lambda>(j1, revision).
       let e = dispatch_entry generation revision ref head
       in sbind (require_fact (dispatch_fact e)) (\<lambda>_.
          sbind (reply_from_row (en_ack head)) (\<lambda>ack.
          sbind (insert_event e j1) (\<lambda>j2.
          sbind (update_head e expected_revision Accepted j2) (\<lambda>j3.
          Inr (j3, \<lparr>tr_disposition = Created, tr_startup_generation = generation,
                    tr_accepted_generation = en_accepted_generation head,
                    tr_accepted_revision = en_accepted_revision head, tr_revision = revision,
                    tr_head_phase = DispatchIntent, tr_ack = ack, tr_reply = None\<rparr>))))))))))"

text \<open>The observation kinds of the source, as phases.\<close>

datatype observation_kind = ResultKind | FailureKind

fun kind_phase :: "observation_kind \<Rightarrow> phase" where
  "kind_phase ResultKind = ObservedResult"
| "kind_phase FailureKind = ObservedFailure"

definition observation_entry ::
  "int \<Rightarrow> int \<Rightarrow> observation_kind \<Rightarrow> string \<Rightarrow> string \<Rightarrow> string option \<Rightarrow> entry \<Rightarrow> entry" where
  "observation_entry generation revision kind ref h reply head =
     head\<lparr>en_revision := revision, en_generation := generation, en_phase := kind_phase kind,
          en_obs_generation := Some generation, en_obs_revision := Some revision,
          en_obs_ref := Some ref, en_obs_hash := Some h, en_reply := reply\<rparr>"

definition record_observation ::
  "(string \<Rightarrow> string) \<Rightarrow> journal \<Rightarrow> int \<Rightarrow> string \<Rightarrow> string \<Rightarrow> string \<Rightarrow> int \<Rightarrow> int \<Rightarrow> observation_kind \<Rightarrow>
   string \<Rightarrow> string \<Rightarrow> string option \<Rightarrow> journal_error + (journal \<times> transition_result)" where
  "record_observation sha j generation instance_id rid oid ordinal expected_revision kind ref h reply =
     sbind (require_positive_integer expected_revision ''expected_head_journal_revision'') (\<lambda>_.
     sbind (require_positive_integer ordinal ''dispatch_authorization_ordinal'') (\<lambda>_.
     sbind (require_reply reply ''terminal_reply_bytes'') (\<lambda>_.
     sbind (require_session_generation j generation instance_id) (\<lambda>_.
     if \<not> terminal_binding sha (Some ref) (Some h) reply
     then Inl (JValueError ''command_journal_terminal_reply_bytes_digest_mismatch'')
     else
     sbind (require_head j rid oid ordinal) (\<lambda>head.
     if en_phase head \<in> {ObservedResult, ObservedFailure}
     then
       if en_phase head \<noteq> kind_phase kind then conflict PhaseRollback
       else if en_dispatch_revision head \<noteq> Some expected_revision \<or> en_obs_ref head \<noteq> Some ref \<or>
               en_obs_hash head \<noteq> Some h
       then conflict ObservationReplayConflict
       else
         sbind (if reply = None then Inr True
                else sbind (reply_from_row (en_reply head)) (\<lambda>stored. Inr (reply = stored))) (\<lambda>same.
         if \<not> same then conflict ObservationReplayConflict
         else sbind (transition_result_from_head sha head generation
                       (case en_obs_revision head of None \<Rightarrow> 0 | Some n \<Rightarrow> n)) (\<lambda>r. Inr (j, r)))
     else if en_phase head \<noteq> DispatchIntent then conflict ObservationWithoutDispatch
     else if en_generation head \<noteq> generation then conflict SessionGenerationInvalid
     else if en_revision head \<noteq> expected_revision then conflict StaleHeadRevision
     else
       sbind (allocate_revision j) (\<lambda>(j1, revision).
       let e = observation_entry generation revision kind ref h reply head
       in sbind (require_fact (observed_fact e)) (\<lambda>_.
          sbind (reply_from_row (en_ack head)) (\<lambda>ack.
          sbind (insert_event e j1) (\<lambda>j2.
          sbind (update_head e expected_revision DispatchIntent j2) (\<lambda>j3.
          Inr (j3, \<lparr>tr_disposition = Created, tr_startup_generation = generation,
                    tr_accepted_generation = en_accepted_generation head,
                    tr_accepted_revision = en_accepted_revision head, tr_revision = revision,
                    tr_head_phase = kind_phase kind, tr_ack = ack, tr_reply = reply\<rparr>)))))))))))"

section \<open>Replay and the traces of the heads\<close>

text \<open>The heads are a materialised view: the latest event of every key, in order of acceptance.\<close>

definition apply_event :: "entry \<Rightarrow> entry list \<Rightarrow> entry list" where
  "apply_event e hs =
     (if list_ex (\<lambda>h. head_key h = head_key e) hs
      then update_where (\<lambda>h. head_key h = head_key e) (\<lambda>_. e) hs else hs @ [e])"

definition replay :: "entry list \<Rightarrow> entry list" where
  "replay es = foldl (\<lambda>hs e. apply_event e hs) [] es"

text \<open>The events of one key and the head they lead to.\<close>

inductive trace :: "(string \<Rightarrow> string) \<Rightarrow> entry list \<Rightarrow> entry \<Rightarrow> bool" for sha where
  trace_accepted: "valid_reply ack \<Longrightarrow> e = accepted_entry g n a ack \<Longrightarrow> trace sha [e] e"
| trace_dispatch: "trace sha es h \<Longrightarrow> en_phase h = Accepted \<Longrightarrow> en_generation h = g \<Longrightarrow>
    e = dispatch_entry g n ref h \<Longrightarrow> trace sha (es @ [e]) e"
| trace_observed: "trace sha es h \<Longrightarrow> en_phase h = DispatchIntent \<Longrightarrow> en_generation h = g \<Longrightarrow>
    valid_reply reply \<Longrightarrow> terminal_binding sha (Some ref) (Some hash) reply \<Longrightarrow>
    e = observation_entry g n kind ref hash reply h \<Longrightarrow> trace sha (es @ [e]) e"

lemma entry_simps [simp]:
  "en_cmd (accepted_entry g n a ack) = a" "en_phase (accepted_entry g n a ack) = Accepted"
  "en_cmd (dispatch_entry g n ref h) = en_cmd h" "en_phase (dispatch_entry g n ref h) = DispatchIntent"
  "en_cmd (observation_entry g n kind ref hash reply h) = en_cmd h"
  "en_phase (observation_entry g n kind ref hash reply h) = kind_phase kind"
  "en_revision (accepted_entry g n a ack) = n" "en_generation (accepted_entry g n a ack) = g"
  "en_revision (dispatch_entry g n ref h) = n" "en_generation (dispatch_entry g n ref h) = g"
  "en_revision (observation_entry g n kind ref hash reply h) = n"
  "en_generation (observation_entry g n kind ref hash reply h) = g"
  by (simp_all add: accepted_entry_def dispatch_entry_def observation_entry_def)

lemma kind_phase_simps [simp]:
  "kind_phase kind \<noteq> Accepted" "kind_phase kind \<noteq> DispatchIntent"
  "Accepted \<noteq> kind_phase kind" "DispatchIntent \<noteq> kind_phase kind"
  "kind_phase kind \<in> {ObservedResult, ObservedFailure}"
  by (cases kind; simp)+

lemma trace_accepted_shape:
  "trace sha es h \<Longrightarrow> en_phase h = Accepted \<Longrightarrow>
   \<exists>g n a ack. es = [h] \<and> h = accepted_entry g n a ack \<and> valid_reply ack"
  by (induction rule: trace.induct) auto

lemma trace_dispatch_shape:
  "trace sha es h \<Longrightarrow> en_phase h = DispatchIntent \<Longrightarrow>
   \<exists>p g n ref. trace sha [p] p \<and> en_phase p = Accepted \<and> en_generation p = g \<and>
     h = dispatch_entry g n ref p \<and> es = [p, h]"
  by (induction rule: trace.induct) (auto dest: trace_accepted_shape)

lemma trace_observed_shape:
  "trace sha es h \<Longrightarrow> en_phase h \<in> {ObservedResult, ObservedFailure} \<Longrightarrow>
   \<exists>es' p g n kind ref hash reply. trace sha es' p \<and> en_phase p = DispatchIntent \<and>
     en_generation p = g \<and> h = observation_entry g n kind ref hash reply p \<and>
     valid_reply reply \<and> terminal_binding sha (Some ref) (Some hash) reply \<and> es = es' @ [h]"
proof (induction rule: trace.induct)
  case (trace_observed es h g reply ref hash e n kind)
  then show ?case by blast
qed simp_all

lemma entry_keys [simp]:
  "head_key (dispatch_entry g n ref h) = head_key h"
  "head_key (observation_entry g n kind ref hash reply h) = head_key h"
  "head_key (accepted_entry g n a ack) = (ac_run_id a, ac_operation_id a, ac_ordinal a)"
  by (simp_all add: head_key_def)

lemma trace_last: "trace sha es h \<Longrightarrow> es \<noteq> [] \<and> last es = h"
  by (induction rule: trace.induct) simp_all

text \<open>Every trace passes the reader's check of its group.\<close>

lemma phase_cases:
  obtains "en_phase h = Accepted" | "en_phase h = DispatchIntent"
  | "en_phase h \<in> {ObservedResult, ObservedFailure}"
  by (cases "en_phase h") auto

lemma valid_reply_None [simp]: "valid_reply None"
  by (simp add: valid_reply_def)

lemma trace_group: "trace sha es h \<Longrightarrow> group_consistent sha h es"
proof (cases rule: phase_cases[of h])
  assume t: "trace sha es h"
  {
    case 1
    with t obtain g n a ack where "es = [h]" "h = accepted_entry g n a ack" "valid_reply ack"
      using trace_accepted_shape by blast
    then show ?thesis
      by (simp add: group_consistent_def accepted_entry_def no_dispatch_or_observation_def
          dispatch_columns_def no_observation_def)
  next
    case 2
    with t obtain p g n ref where p: "trace sha [p] p" "en_phase p = Accepted" "en_generation p = g"
        "h = dispatch_entry g n ref p" "es = [p, h]"
      using trace_dispatch_shape by blast
    moreover obtain g' n' a ack where "p = accepted_entry g' n' a ack" "valid_reply ack"
      using trace_accepted_shape[OF p(1,2)] by blast
    ultimately show ?thesis
      by (simp add: group_consistent_def accepted_entry_def dispatch_entry_def
          no_dispatch_or_observation_def dispatch_columns_def no_observation_def immutable_columns_def
          dispatch_event_ok_def)
  next
    case 3
    with t obtain es' d g n kind ref hash reply where
      d: "trace sha es' d" "en_phase d = DispatchIntent" "en_generation d = g"
        "h = observation_entry g n kind ref hash reply d" "valid_reply reply"
        "terminal_binding sha (Some ref) (Some hash) reply" "es = es' @ [h]"
      using trace_observed_shape by blast
    obtain p g1 n1 ref1 where p: "trace sha [p] p" "en_phase p = Accepted" "en_generation p = g1"
        "d = dispatch_entry g1 n1 ref1 p" "es' = [p, d]"
      using trace_dispatch_shape[OF d(1,2)] by blast
    moreover obtain g' n' a ack where "p = accepted_entry g' n' a ack" "valid_reply ack"
      using trace_accepted_shape[OF p(1,2)] by blast
    moreover have "es = [p, d, h]" using d(7) p(5) by simp
    moreover have "expected_phases (en_phase h) = [Accepted, DispatchIntent, en_phase h]"
      using d(4) by (cases kind) simp_all
    ultimately show ?thesis
      using d(3-6)
      by (simp add: group_consistent_def accepted_entry_def dispatch_entry_def observation_entry_def
          no_dispatch_or_observation_def dispatch_columns_def no_observation_def immutable_columns_def
          dispatch_event_ok_def observation_event_ok_def)
  }
qed

section \<open>The invariant of the journal\<close>

definition same_operation :: "accepted_command \<Rightarrow> accepted_command \<Rightarrow> bool" where
  "same_operation a b \<longleftrightarrow> ac_run_id a = ac_run_id b \<and> ac_operation_id a = ac_operation_id b"

definition shared_key :: "accepted_command \<Rightarrow> accepted_command \<Rightarrow> bool" where
  "shared_key a b \<longleftrightarrow> ac_idempotency_key a = ac_idempotency_key b \<and>
     (ac_run_id a = ac_run_id b \<or> ac_operation_id a = ac_operation_id b)"

text \<open>
  Among the commands of the heads, an operation has one identity, and an idempotency key that two
  commands of one run, or of one operation id, share belongs to one operation.
\<close>

definition alias_pair :: "accepted_command \<Rightarrow> accepted_command \<Rightarrow> bool" where
  "alias_pair a b \<longleftrightarrow> (same_operation a b \<longrightarrow> command_identity a = command_identity b) \<and>
     (shared_key a b \<longrightarrow> same_operation a b)"

definition aliases_ok :: "accepted_command list \<Rightarrow> bool" where
  "aliases_ok cs \<longleftrightarrow> (\<forall>a \<in> set cs. \<forall>b \<in> set cs. alias_pair a b)"

definition of_operation :: "string \<times> string \<Rightarrow> accepted_command list \<Rightarrow> accepted_command list" where
  "of_operation op cs = filter (\<lambda>a. (ac_run_id a, ac_operation_id a) = op) cs"

text \<open>
  The authorizations of one operation, in order: their ordinals count from one, the two expected
  revisions grow, no retry reference is used twice.
\<close>

definition epochs_ok :: "accepted_command list \<Rightarrow> bool" where
  "epochs_ok hist \<longleftrightarrow> map ac_ordinal hist = [1 .. int (length hist)] \<and>
     sorted_wrt (<) (map ac_expected_ledger hist) \<and>
     sorted_wrt (<) (map ac_expected_reconciliation hist) \<and>
     distinct (List.map_filter ac_retry_ref hist)"

definition head_inv :: "(string \<Rightarrow> string) \<Rightarrow> journal \<Rightarrow> entry \<Rightarrow> bool" where
  "head_inv sha j h \<longleftrightarrow> trace sha (filter (\<lambda>e. head_key e = head_key h) (jn_events j)) h \<and>
     valid_fact h \<and> en_generation h \<le> jn_last_generation j \<and> en_revision h \<le> jn_last_revision j"

definition journal_inv :: "(string \<Rightarrow> string) \<Rightarrow> journal \<Rightarrow> bool" where
  "journal_inv sha j \<longleftrightarrow>
     0 \<le> jn_last_revision j \<and> map en_revision (jn_events j) = [1 .. jn_last_revision j] \<and>
     0 \<le> jn_last_generation j \<and> map gn_generation (jn_generations j) = [1 .. jn_last_generation j] \<and>
     list_all generation_row_ok (jn_generations j) \<and> distinct (map gn_instance_id (jn_generations j)) \<and>
     jn_heads j = replay (jn_events j) \<and> distinct (map head_key (jn_heads j)) \<and>
     (\<forall>h \<in> set (jn_heads j). head_inv sha j h) \<and> aliases_ok (map en_cmd (jn_heads j)) \<and>
     (\<forall>op. epochs_ok (of_operation op (map en_cmd (jn_heads j))))"

lemma journal_invD:
  assumes "journal_inv sha j"
  shows "distinct (map head_key (jn_heads j))" "jn_heads j = replay (jn_events j)"
    "h \<in> set (jn_heads j) \<Longrightarrow> head_inv sha j h"
    "aliases_ok (map en_cmd (jn_heads j))" "epochs_ok (of_operation op (map en_cmd (jn_heads j)))"
    "0 \<le> jn_last_revision j" "map en_revision (jn_events j) = [1 .. jn_last_revision j]"
  using assms unfolding journal_inv_def by blast+

lemma head_traceD:
  "journal_inv sha j \<Longrightarrow> h \<in> set (jn_heads j) \<Longrightarrow>
   trace sha (filter (\<lambda>e. head_key e = head_key h) (jn_events j)) h"
  by (drule (1) journal_invD(3)) (simp only: head_inv_def)

lemma empty_journal_inv: "journal_inv sha empty_journal"
  by (simp add: journal_inv_def empty_journal_def replay_def aliases_ok_def of_operation_def epochs_ok_def
      List.map_filter_def)

lemma replay_snoc: "replay (es @ [e]) = apply_event e (replay es)"
  by (simp add: replay_def)

lemma apply_event_keys: "head_key ` set (apply_event e hs) = insert (head_key e) (head_key ` set hs)"
proof (cases "list_ex (\<lambda>h. head_key h = head_key e) hs")
  case True
  have "map head_key (update_where (\<lambda>h. head_key h = head_key e) (\<lambda>_. e) hs) = map head_key hs"
    by (rule map_update_where) simp
  then have "head_key ` set (update_where (\<lambda>h. head_key h = head_key e) (\<lambda>_. e) hs) = head_key ` set hs"
    by (metis set_map)
  moreover have "head_key e \<in> head_key ` set hs" using True by (simp only: list_ex_key)
  ultimately show ?thesis using True by (simp add: apply_event_def insert_absorb)
qed (simp add: apply_event_def)

lemma replay_keys: "head_key ` set (replay es) = head_key ` set es"
  by (induction es rule: rev_induct) (simp_all add: replay_snoc apply_event_keys, simp add: replay_def)

text \<open>What every successful transaction does to the journal.\<close>

lemma allocate_revision_Inr:
  "allocate_revision j = Inr (j1, n) \<longleftrightarrow>
   0 \<le> jn_last_revision j \<and> jn_last_revision j < SQLITE_MAX_INTEGER \<and> n = jn_last_revision j + 1 \<and>
   j1 = j\<lparr>jn_last_revision := n\<rparr>"
  by (auto simp: allocate_revision_def split: if_splits)

lemma insert_event_Inr:
  "insert_event e j = Inr j' \<longleftrightarrow> (\<forall>x \<in> set (jn_events j). en_revision x \<noteq> en_revision e) \<and>
     j' = j\<lparr>jn_events := jn_events j @ [e]\<rparr>"
  by (auto simp: insert_event_def list_ex_iff split: if_splits)

lemma insert_head_Inr:
  "insert_head h j = Inr j' \<longleftrightarrow>
     (\<forall>x \<in> set (jn_heads j). head_key x \<noteq> head_key h \<and>
        \<not> (ac_run_id (en_cmd x) = ac_run_id (en_cmd h) \<and>
           ac_operation_id (en_cmd x) = ac_operation_id (en_cmd h) \<and>
           ac_retry_ref (en_cmd h) \<noteq> None \<and> ac_retry_ref (en_cmd x) = ac_retry_ref (en_cmd h))) \<and>
     j' = j\<lparr>jn_heads := jn_heads j @ [h]\<rparr>"
  by (auto simp: insert_head_def list_ex_iff split: if_splits)

lemma update_head_InrD:
  assumes "distinct (map head_key (jn_heads j))" "update_head e rv ph j = Inr j'"
  shows "j' = j\<lparr>jn_heads := apply_event e (jn_heads j)\<rparr> \<and>
    (\<exists>h \<in> set (jn_heads j). head_key h = head_key e \<and> en_revision h = rv \<and> en_phase h = ph)"
proof -
  let ?p = "\<lambda>x. head_key x = head_key e \<and> en_revision x = rv \<and> en_phase x = ph"
  have one: "rowcount ?p (jn_heads j) = 1" and j': "j' = j\<lparr>jn_heads := update_where ?p (\<lambda>_. e) (jn_heads j)\<rparr>"
    using assms(2) by (auto simp: update_head_def Let_def split: if_splits)
  from one obtain h where h: "h \<in> set (jn_heads j)" "?p h"
    using rowcount_keyed_iff[OF assms(1), of ?p "head_key e"] by auto
  have "update_where ?p (\<lambda>_. e) (jn_heads j) = update_where (\<lambda>x. head_key x = head_key e) (\<lambda>_. e) (jn_heads j)"
    by (rule keyed_update_eq[OF assms(1), of ?p "head_key e" h]) (use h in auto)
  moreover have "list_ex (\<lambda>x. head_key x = head_key e) (jn_heads j)" using h by (auto simp: list_ex_iff)
  ultimately show ?thesis using j' h by (auto simp: apply_event_def)
qed

text \<open>
  One append: the next revision, the event, and the head it makes. The two lemmas below show that
  an append keeps the invariant, for a new key and for a key that has a head.
\<close>

definition append_entry :: "entry \<Rightarrow> journal \<Rightarrow> journal" where
  "append_entry e j = j\<lparr>jn_last_revision := jn_last_revision j + 1, jn_events := jn_events j @ [e],
     jn_heads := apply_event e (jn_heads j)\<rparr>"

definition appendable :: "(string \<Rightarrow> string) \<Rightarrow> journal \<Rightarrow> entry \<Rightarrow> bool" where
  "appendable sha j e \<longleftrightarrow> en_revision e = jn_last_revision j + 1 \<and>
     en_generation e = jn_last_generation j \<and> valid_fact e \<and>
     trace sha (filter (\<lambda>x. head_key x = head_key e) (jn_events j) @ [e]) e"

lemma append_entry_simps [simp]:
  "jn_last_revision (append_entry e j) = jn_last_revision j + 1"
  "jn_last_generation (append_entry e j) = jn_last_generation j"
  "jn_generations (append_entry e j) = jn_generations j"
  "jn_events (append_entry e j) = jn_events j @ [e]"
  "jn_heads (append_entry e j) = apply_event e (jn_heads j)"
  by (simp_all add: append_entry_def)

lemma head_inv_append_other:
  assumes "head_inv sha j h" "head_key h \<noteq> head_key e"
  shows "head_inv sha (append_entry e j) h"
  using assms by (simp add: head_inv_def)

lemma head_inv_append_new: "appendable sha j e \<Longrightarrow> head_inv sha (append_entry e j) e"
  by (simp add: head_inv_def appendable_def)

lemma append_inv:
  assumes inv: "journal_inv sha j" and ok: "appendable sha j e"
    and cmds: "aliases_ok (map en_cmd (apply_event e (jn_heads j)))"
      "\<And>op. epochs_ok (of_operation op (map en_cmd (apply_event e (jn_heads j))))"
  shows "journal_inv sha (append_entry e j)"
proof -
  have D: "distinct (map head_key (jn_heads j))" by (rule journal_invD(1)[OF inv])
  have distinct': "distinct (map head_key (apply_event e (jn_heads j)))"
  proof (cases "list_ex (\<lambda>h. head_key h = head_key e) (jn_heads j)")
    case True
    have "map head_key (update_where (\<lambda>h. head_key h = head_key e) (\<lambda>_. e) (jn_heads j)) =
        map head_key (jn_heads j)"
      by (rule map_update_where) simp
    with True D show ?thesis by (simp add: apply_event_def)
  next
    case False
    with D show ?thesis by (auto simp: apply_event_def list_ex_iff)
  qed
  have "head_inv sha (append_entry e j) h" if "h \<in> set (apply_event e (jn_heads j))" for h
  proof -
    from that have "h = e \<or> (h \<in> set (jn_heads j) \<and> head_key h \<noteq> head_key e)"
      by (auto simp: apply_event_def set_update_where list_ex_iff split: if_splits)
    then show ?thesis
      using inv head_inv_append_new[OF ok] head_inv_append_other[of sha j h e]
      by (auto simp: journal_inv_def)
  qed
  moreover have "map en_revision (jn_events j @ [e]) = [1 .. jn_last_revision j + 1]"
    using journal_invD(6,7)[OF inv] ok by (simp add: appendable_def upto_snoc)
  moreover have "apply_event e (jn_heads j) = replay (jn_events j @ [e])"
    using journal_invD(2)[OF inv] by (simp add: replay_snoc)
  ultimately show ?thesis
    using inv cmds distinct' unfolding journal_inv_def by simp
qed

lemma append_existing_inv:
  assumes inv: "journal_inv sha j" and ok: "appendable sha j e"
    and h: "h \<in> set (jn_heads j)" "head_key h = head_key e" "en_cmd e = en_cmd h"
  shows "journal_inv sha (append_entry e j)"
proof (rule append_inv[OF inv ok])
  have D: "distinct (map head_key (jn_heads j))" by (rule journal_invD(1)[OF inv])
  have "map en_cmd (update_where (\<lambda>x. head_key x = head_key e) (\<lambda>_. e) (jn_heads j)) = map en_cmd (jn_heads j)"
  proof (rule map_update_where)
    fix x assume "x \<in> set (jn_heads j)" "head_key x = head_key e"
    then have "x = h" using distinct_key_eq[OF D _ h(1)] h(2) by simp
    then show "en_cmd e = en_cmd x" using h(3) by simp
  qed
  moreover have "list_ex (\<lambda>x. head_key x = head_key e) (jn_heads j)"
    using h by (auto simp: list_ex_iff)
  ultimately have "map en_cmd (apply_event e (jn_heads j)) = map en_cmd (jn_heads j)"
    by (simp add: apply_event_def)
  then show "aliases_ok (map en_cmd (apply_event e (jn_heads j)))"
    "\<And>op. epochs_ok (of_operation op (map en_cmd (apply_event e (jn_heads j))))"
    using inv by (auto simp: journal_inv_def)
qed

lemma append_new_inv:
  assumes inv: "journal_inv sha j" and ok: "appendable sha j e"
    and new: "head_key e \<notin> head_key ` set (jn_heads j)"
    and cmds: "aliases_ok (map en_cmd (jn_heads j) @ [en_cmd e])"
      "\<And>op. epochs_ok (of_operation op (map en_cmd (jn_heads j) @ [en_cmd e]))"
  shows "journal_inv sha (append_entry e j)"
proof -
  have "apply_event e (jn_heads j) = jn_heads j @ [e]"
    using new by (simp only: apply_event_def list_ex_key if_False)
  then show ?thesis using append_inv[OF inv ok] cmds by simp
qed

section \<open>Every transaction keeps the invariant\<close>

lemma session_generation_InrD:
  "require_session_generation j g inst = Inr u \<Longrightarrow> jn_last_generation j = g"
  by (auto simp: require_session_generation_def split: option.splits if_splits)

lemma find_head_SomeD:
  "find_operation_head j rid oid k = Some h \<Longrightarrow> h \<in> set (jn_heads j) \<and> head_key h = (rid, oid, k)"
  by (auto simp: find_operation_head_def head_key_def dest: fetchone_SomeD)

lemma head_key_split: "head_key h = (rid, oid, k) \<longleftrightarrow> ac_run_id (en_cmd h) = rid \<and>
    ac_operation_id (en_cmd h) = oid \<and> ac_ordinal (en_cmd h) = k"
  by (simp add: head_key_def)

lemma find_head_None:
  "find_operation_head j rid oid k = None \<longleftrightarrow> (rid, oid, k) \<notin> head_key ` set (jn_heads j)"
  by (auto simp: find_operation_head_def fetchone_None_iff head_key_def)

text \<open>The fact the code validates has no ack, the stored row has it: validity does not depend on it.\<close>

lemma valid_fact_ack: "accepted_fact (accepted_entry g n a ack) = accepted_fact (accepted_entry g n a None)"
  by (simp add: accepted_fact_def accepted_fact_base_def accepted_entry_def)

lemma record_accepted_InrD:
  assumes "record_accepted sha j g inst a ackb ackf ph tp req = Inr (j', r)"
  shows "(j' = j \<and> tr_disposition r = ExactReplay \<and>
      (\<exists>h \<in> set (jn_heads j). head_key h = (ac_run_id a, ac_operation_id a, ac_ordinal a) \<and>
         tr_revision r = en_accepted_revision h \<and> same_accepted_identity h a tp)) \<or>
    (\<exists>ack e. e = accepted_entry g (jn_last_revision j + 1) a ack \<and> valid_reply ack \<and> j' = append_entry e j \<and>
       tr_disposition r = Created \<and> tr_revision r = en_revision e \<and> tr_ack r = ack \<and>
       tr_reply r = None \<and> jn_last_generation j = g \<and> accepted_fact e \<and> head_key e \<notin> head_key ` set (jn_heads j) \<and>
       require_no_identity_collision j a = Inr () \<and> insert_head e j = Inr (j\<lparr>jn_heads := jn_heads j @ [e]\<rparr>) \<and>
       validate_accepted_input a g = Inr ())"
proof -
  from assms have v: "validate_accepted_input a g = Inr ()" and s: "require_session_generation j g inst = Inr ()"
    by (auto simp: record_accepted_def sbind_eq_Inr split: if_splits)
  note g = session_generation_InrD[OF s]
  show ?thesis
  proof (cases "find_operation_head j (ac_run_id a) (ac_operation_id a) (ac_ordinal a)")
    case (Some h)
    with assms find_head_SomeD[OF Some] show ?thesis
      by (intro disjI1)
        (auto simp: record_accepted_def sbind_eq_Inr transition_result_from_head_def split: if_splits)
  next
    case None
    with assms obtain ack j3 where
      col: "require_no_identity_collision j a = Inr ()" and
      max: "0 \<le> jn_last_revision j" "jn_last_revision j < SQLITE_MAX_INTEGER" and
      fact: "accepted_fact (accepted_entry g (jn_last_revision j + 1) a None)" and
      rep: "valid_reply ack" and
      ev: "\<forall>x \<in> set (jn_events j). en_revision x \<noteq> jn_last_revision j + 1" and
      hd: "insert_head (accepted_entry g (jn_last_revision j + 1) a ack)
             (j\<lparr>jn_last_revision := jn_last_revision j + 1,
                jn_events := jn_events j @ [accepted_entry g (jn_last_revision j + 1) a ack]\<rparr>) = Inr j'" and
      r: "tr_disposition r = Created" "tr_revision r = jn_last_revision j + 1" "tr_ack r = ack"
        "tr_reply r = None"
      by (auto simp: record_accepted_def sbind_eq_Inr Let_def allocate_revision_Inr insert_event_Inr
          split: if_splits)
    define e where "e = accepted_entry g (jn_last_revision j + 1) a ack"
    have new: "head_key e \<notin> head_key ` set (jn_heads j)"
      using None unfolding find_head_None e_def by simp
    have ins: "insert_head e j = Inr (j\<lparr>jn_heads := jn_heads j @ [e]\<rparr>)"
      using hd unfolding insert_head_Inr e_def[symmetric] by simp
    have "apply_event e (jn_heads j) = jn_heads j @ [e]"
      using new by (simp only: apply_event_def list_ex_key if_False)
    then have "j' = append_entry e j"
      using hd unfolding insert_head_Inr e_def[symmetric] by (simp add: append_entry_def)
    then show ?thesis
      using g v col rep r new ins fact valid_fact_ack[of g "jn_last_revision j + 1" a ack]
      by (intro disjI2 exI[of _ ack] exI[of _ e]) (simp add: e_def)
  qed
qed

lemma record_dispatch_InrD:
  assumes inv: "journal_inv sha j"
    and r: "record_dispatch_intent sha j g inst rid oid k n ref = Inr (j', r)"
  shows "\<exists>h \<in> set (jn_heads j). head_key h = (rid, oid, k) \<and>
    ((j' = j \<and> tr_disposition r = ExactReplay \<and> en_phase h = DispatchIntent \<and>
      en_accepted_revision h = n \<and> en_dispatch_ref h = Some ref \<and>
      Some (tr_revision r) = en_dispatch_revision h) \<or>
     (\<exists>e. e = dispatch_entry g (jn_last_revision j + 1) ref h \<and> en_phase h = Accepted \<and>
       en_generation h = g \<and> en_revision h = n \<and>
       j' = append_entry e j \<and> tr_disposition r = Created \<and> tr_revision r = en_revision e \<and>
       tr_ack r = en_ack h \<and> tr_reply r = None \<and> jn_last_generation j = g \<and> dispatch_fact e))"
proof -
  from r obtain h where h: "find_operation_head j rid oid k = Some h"
    and s: "require_session_generation j g inst = Inr ()"
    by (auto simp: record_dispatch_intent_def require_head_def sbind_eq_Inr split: if_splits)
  note hd = find_head_SomeD[OF h]
  note g = session_generation_InrD[OF s]
  note D = journal_invD(1)[OF inv]
  show ?thesis
  proof (cases "en_phase h = DispatchIntent")
    case True
    have "trace sha (filter (\<lambda>e. head_key e = head_key h) (jn_events j)) h"
      using head_traceD[OF inv] hd by blast
    from trace_dispatch_shape[OF this True] obtain m where "en_dispatch_revision h = Some m"
      by (auto simp: dispatch_entry_def)
    with True h r hd show ?thesis
      by (intro bexI[of _ h])
        (auto simp: record_dispatch_intent_def require_head_def sbind_eq_Inr
          transition_result_from_head_def split: if_splits)
  next
    case False
    define e where "e = dispatch_entry g (jn_last_revision j + 1) ref h"
    from False h r obtain j3 where
      ph: "en_phase h = Accepted" "en_generation h = g" "en_revision h = n" and
      fact: "dispatch_fact e" and
      up: "update_head e n Accepted (j\<lparr>jn_last_revision := jn_last_revision j + 1,
             jn_events := jn_events j @ [e]\<rparr>) = Inr j'" and
      r': "tr_disposition r = Created" "tr_revision r = jn_last_revision j + 1" "tr_ack r = en_ack h"
        "tr_reply r = None"
      by (auto simp: record_dispatch_intent_def require_head_def sbind_eq_Inr Let_def
          allocate_revision_Inr insert_event_Inr e_def split: if_splits)
    have "j' = append_entry e j"
      using update_head_InrD[OF _ up] D by (simp add: append_entry_def)
    then show ?thesis
      using ph fact r' hd g by (intro bexI[of _ h]) (auto simp: e_def)
  qed
qed

lemma record_observation_InrD:
  assumes inv: "journal_inv sha j"
    and r: "record_observation sha j g inst rid oid k n kind ref hash reply = Inr (j', r)"
  shows "\<exists>h \<in> set (jn_heads j). head_key h = (rid, oid, k) \<and>
    ((j' = j \<and> tr_disposition r = ExactReplay \<and> en_phase h = kind_phase kind \<and>
      en_dispatch_revision h = Some n \<and> en_obs_ref h = Some ref \<and> en_obs_hash h = Some hash \<and>
      Some (tr_revision r) = en_obs_revision h) \<or>
     (\<exists>e. e = observation_entry g (jn_last_revision j + 1) kind ref hash reply h \<and>
       en_phase h = DispatchIntent \<and> en_generation h = g \<and> en_revision h = n \<and>
       j' = append_entry e j \<and> tr_disposition r = Created \<and> tr_revision r = en_revision e \<and>
       tr_ack r = en_ack h \<and> tr_reply r = reply \<and> jn_last_generation j = g \<and> observed_fact e \<and> valid_reply reply \<and>
       terminal_binding sha (Some ref) (Some hash) reply))"
proof -
  from r obtain h where h: "find_operation_head j rid oid k = Some h"
    and s: "require_session_generation j g inst = Inr ()"
    and reply: "valid_reply reply" "terminal_binding sha (Some ref) (Some hash) reply"
    by (auto simp: record_observation_def require_head_def sbind_eq_Inr split: if_splits)
  note hd = find_head_SomeD[OF h]
  note g = session_generation_InrD[OF s]
  note D = journal_invD(1)[OF inv]
  show ?thesis
  proof (cases "en_phase h \<in> {ObservedResult, ObservedFailure}")
    case True
    have "trace sha (filter (\<lambda>e. head_key e = head_key h) (jn_events j)) h"
      using head_traceD[OF inv] hd by blast
    from trace_observed_shape[OF this True] obtain m where "en_obs_revision h = Some m"
      by (auto simp: observation_entry_def)
    with True h r hd show ?thesis
      by (intro bexI[of _ h])
        (auto simp: record_observation_def require_head_def sbind_eq_Inr
          transition_result_from_head_def split: if_splits)
  next
    case False
    define e where "e = observation_entry g (jn_last_revision j + 1) kind ref hash reply h"
    from False h r obtain j3 where
      ph: "en_phase h = DispatchIntent" "en_generation h = g" "en_revision h = n" and
      fact: "observed_fact e" and
      up: "update_head e n DispatchIntent (j\<lparr>jn_last_revision := jn_last_revision j + 1,
             jn_events := jn_events j @ [e]\<rparr>) = Inr j'" and
      r': "tr_disposition r = Created" "tr_revision r = jn_last_revision j + 1" "tr_ack r = en_ack h"
        "tr_reply r = reply"
      by (auto simp: record_observation_def require_head_def sbind_eq_Inr Let_def
          allocate_revision_Inr insert_event_Inr e_def split: if_splits)
    have "j' = append_entry e j"
      using update_head_InrD[OF _ up] D by (simp add: append_entry_def)
    then show ?thesis
      using ph fact r' hd g reply by (intro bexI[of _ h]) (auto simp: e_def)
  qed
qed

text \<open>The rules of acceptance keep the identities and the authorization histories.\<close>

lemma epochs_snoc_first:
  "ac_ordinal a = 1 \<Longrightarrow> epochs_ok [a]"
  by (simp add: epochs_ok_def List.map_filter_def split: option.splits)

lemma epochs_ordinals:
  assumes "epochs_ok hist" "c \<in> set hist"
  shows "1 \<le> ac_ordinal c \<and> ac_ordinal c \<le> int (length hist)"
proof -
  have "ac_ordinal c \<in> set (map ac_ordinal hist)" using assms(2) by simp
  moreover have "map ac_ordinal hist = [1 .. int (length hist)]" using assms(1) by (simp add: epochs_ok_def)
  ultimately have "ac_ordinal c \<in> set [1 .. int (length hist)]" by (simp only:)
  then show ?thesis by simp
qed

lemma epochs_last:
  assumes "epochs_ok hist" "p \<in> set hist" "\<And>c. c \<in> set hist \<Longrightarrow> ac_ordinal c \<le> ac_ordinal p"
  shows "ac_ordinal p = int (length hist) \<and> last hist = p"
proof -
  have ne: "hist \<noteq> []" using assms(2) by auto
  then obtain n where n: "int (length hist) = n + 1" "0 \<le> n" by (metis add.commute length_greater_0_conv of_nat_0_le_iff of_nat_Suc Suc_pred)
  have m: "map ac_ordinal hist = [1 .. int (length hist)]" using assms(1) by (simp add: epochs_ok_def)
  have "last (map ac_ordinal hist) = int (length hist)" unfolding m n(1) upto_snoc[OF n(2)] by simp
  then have l: "ac_ordinal (last hist) = int (length hist)" using ne by (simp add: last_map)
  then have p: "ac_ordinal p = int (length hist)"
    using assms(3)[OF last_in_set[OF ne]] epochs_ordinals[OF assms(1,2)] by simp
  have "distinct (map ac_ordinal hist)" unfolding m by simp
  then have "last hist = p" using distinct_key_eq[of ac_ordinal hist "last hist" p] ne assms(2) l p by simp
  with p show ?thesis by simp
qed

lemma epochs_snoc_next:
  assumes "epochs_ok hist" "p \<in> set hist" "\<And>c. c \<in> set hist \<Longrightarrow> ac_ordinal c \<le> ac_ordinal p"
    "ac_ordinal a = ac_ordinal p + 1" "ac_expected_ledger p < ac_expected_ledger a"
    "ac_expected_reconciliation p < ac_expected_reconciliation a"
    "\<And>c. c \<in> set hist \<Longrightarrow> ac_retry_ref a \<noteq> None \<Longrightarrow> ac_retry_ref c \<noteq> ac_retry_ref a"
  shows "epochs_ok (hist @ [a])"
proof -
  have l: "ac_ordinal p = int (length hist)" "last hist = p" using epochs_last[OF assms(1-3)] by auto
  have ne: "hist \<noteq> []" using assms(2) by auto
  have "map ac_ordinal (hist @ [a]) = [1 .. int (length (hist @ [a]))]"
    using assms(1,4) l(1) upto_snoc[of "int (length hist)"] by (simp add: epochs_ok_def add.commute)
  moreover have "sorted_wrt (<) (map ac_expected_ledger hist @ [ac_expected_ledger a])"
    by (rule sorted_wrt_snoc_last) (use assms(1,5) ne l(2) in \<open>auto simp: epochs_ok_def last_map\<close>)
  moreover have "sorted_wrt (<) (map ac_expected_reconciliation hist @ [ac_expected_reconciliation a])"
    by (rule sorted_wrt_snoc_last) (use assms(1,6) ne l(2) in \<open>auto simp: epochs_ok_def last_map\<close>)
  moreover have "distinct (List.map_filter ac_retry_ref (hist @ [a]))"
    using assms(1,7) by (auto simp: epochs_ok_def map_filter_snoc map_filter_mem split: option.splits)
  ultimately show ?thesis by (simp add: epochs_ok_def)
qed

lemma of_operation_map:
  "of_operation (rid, oid) (map en_cmd hs) =
     map en_cmd (filter (\<lambda>h. ac_run_id (en_cmd h) = rid \<and> ac_operation_id (en_cmd h) = oid) hs)"
  by (induction hs) (auto simp: of_operation_def)

lemma same_operation_sym: "same_operation a b = same_operation b a"
  by (simp add: same_operation_def eq_commute)

lemma shared_key_sym: "shared_key a b = shared_key b a"
  by (simp add: shared_key_def eq_commute)

lemma acceptance_extends:
  assumes inv: "journal_inv sha j"
    and col: "require_no_identity_collision j a = Inr ()"
    and val: "validate_accepted_input a g = Inr ()"
    and ins: "insert_head e j = Inr j2" "en_cmd e = a"
  shows "aliases_ok (map en_cmd (jn_heads j) @ [a]) \<and>
    (\<forall>op. epochs_ok (of_operation op (map en_cmd (jn_heads j) @ [a])))"
proof -
  define hist where "hist = of_operation (ac_run_id a, ac_operation_id a) (map en_cmd (jn_heads j))"
  have hist: "c \<in> set hist \<longleftrightarrow> c \<in> en_cmd ` set (jn_heads j) \<and> same_operation c a" for c
    by (auto simp: hist_def of_operation_def same_operation_def)
  have ep: "epochs_ok hist" unfolding hist_def by (rule journal_invD(5)[OF inv])
  have al: "aliases_ok (map en_cmd (jn_heads j))" by (rule journal_invD(4)[OF inv])
  have pos: "1 \<le> ac_ordinal a" using val by (simp add: validate_accepted_input_def split: if_splits)
  have fresh: "c \<in> set hist \<Longrightarrow> ac_retry_ref a \<noteq> None \<Longrightarrow> ac_retry_ref c \<noteq> ac_retry_ref a" for c
    using ins unfolding hist insert_head_Inr same_operation_def by force
  have pairs: "alias_pair c a \<and> alias_pair a c" if c: "c \<in> en_cmd ` set (jn_heads j)"
    and id: "same_operation c a \<Longrightarrow> command_identity c = command_identity a"
    and sh: "shared_key c a \<Longrightarrow> same_operation c a" for c
    unfolding alias_pair_def same_operation_sym[of a c] shared_key_sym[of a c] using id sh by metis
  have self: "alias_pair a a" by (simp add: alias_pair_def same_operation_def)
  have step: "epochs_ok (hist @ [a]) \<and> (\<forall>c \<in> en_cmd ` set (jn_heads j).
      (same_operation c a \<longrightarrow> command_identity c = command_identity a) \<and>
      (shared_key c a \<longrightarrow> same_operation c a))"
  proof (cases "ac_ordinal a = 1")
    case True
    have no: "\<not> (same_operation c a \<and> ac_ordinal c = 1)" "\<not> shared_key c a"
      if "c \<in> en_cmd ` set (jn_heads j)" for c
      using that col True
      by (auto simp: require_no_identity_collision_def Let_def list_ex_iff same_operation_def shared_key_def
          split: if_splits)
    have "hist = []"
    proof (rule ccontr)
      assume ne: "hist \<noteq> []"
      have "map ac_ordinal hist = [1 .. int (length hist)]" using ep by (simp add: epochs_ok_def)
      then have "1 \<in> set (map ac_ordinal hist)" using ne by (simp add: Suc_le_eq)
      then obtain c where c: "c \<in> set hist" "ac_ordinal c = 1" by auto
      then show False using hist no(1) by blast
    qed
    then show ?thesis using epochs_snoc_first[OF True] no hist by auto
  next
    case False
    with pos have big: "1 < ac_ordinal a" by simp
    with col have pre: "require_safe_retry_predecessor j a = Inr ()"
      and nocol: "\<And>c. c \<in> en_cmd ` set (jn_heads j) \<Longrightarrow> shared_key c a \<Longrightarrow> same_operation c a"
      by (auto simp: require_no_identity_collision_def Let_def sbind_eq_Inr list_ex_iff same_operation_def
          shared_key_def split: if_splits)
    from pre obtain p where
      p: "max_by (\<lambda>h. ac_ordinal (en_cmd h)) (filter (\<lambda>h. ac_run_id (en_cmd h) = ac_run_id a \<and>
            ac_operation_id (en_cmd h) = ac_operation_id a) (jn_heads j)) = Some p" and
      chk: "ac_ordinal (en_cmd p) = ac_ordinal a - 1" "command_identity (en_cmd p) = command_identity a"
        "ac_expected_ledger (en_cmd p) < ac_expected_ledger a"
        "ac_expected_reconciliation (en_cmd p) < ac_expected_reconciliation a"
      by (auto simp: require_safe_retry_predecessor_def command_identity_def split: option.splits if_splits)
    have ph: "en_cmd p \<in> set hist" "\<And>c. c \<in> set hist \<Longrightarrow> ac_ordinal c \<le> ac_ordinal (en_cmd p)"
      using max_by_SomeD[OF p] by (auto simp: hist same_operation_def)
    have "epochs_ok (hist @ [a])"
      using chk fresh by (intro epochs_snoc_next[OF ep ph]) auto
    moreover have "command_identity c = command_identity a"
      if "c \<in> en_cmd ` set (jn_heads j)" "same_operation c a" for c
    proof -
      have "alias_pair c (en_cmd p)" "same_operation c (en_cmd p)"
        using al that ph(1) unfolding hist by (auto simp: aliases_ok_def same_operation_def)
      then show ?thesis using chk(2) by (simp add: alias_pair_def)
    qed
    ultimately show ?thesis using nocol by blast
  qed
  have "aliases_ok (map en_cmd (jn_heads j) @ [a])"
    using al pairs self step unfolding aliases_ok_def by fastforce
  moreover have "epochs_ok (of_operation op (map en_cmd (jn_heads j) @ [a]))" for op
  proof (cases "op = (ac_run_id a, ac_operation_id a)")
    case True
    then show ?thesis using step by (simp add: of_operation_def hist_def)
  next
    case False
    then have "of_operation op (map en_cmd (jn_heads j) @ [a]) = of_operation op (map en_cmd (jn_heads j))"
      by (auto simp: of_operation_def)
    then show ?thesis using journal_invD(5)[OF inv, of op] by simp
  qed
  ultimately show ?thesis by blast
qed

lemma accepted_appendable:
  assumes inv: "journal_inv sha j" and g: "jn_last_generation j = g"
    and e: "e = accepted_entry g (jn_last_revision j + 1) a ack" "accepted_fact e" "valid_reply ack"
    and new: "head_key e \<notin> head_key ` set (jn_heads j)"
  shows "appendable sha j e"
proof -
  have "head_key ` set (jn_events j) = head_key ` set (jn_heads j)"
    using journal_invD(2)[OF inv] replay_keys[of "jn_events j"] by simp
  then have "head_key x \<noteq> head_key e" if "x \<in> set (jn_events j)" for x
    using new that by (metis imageI)
  then have "filter (\<lambda>x. head_key x = head_key e) (jn_events j) = []"
    by (simp only: filter_empty_conv) blast
  moreover have "trace sha [e] e" using e by (intro trace_accepted)
  ultimately show ?thesis using e g by (simp add: appendable_def valid_fact_def)
qed

lemma follow_appendable:
  assumes inv: "journal_inv sha j" and h: "h \<in> set (jn_heads j)" "head_key h = head_key e"
    and e: "en_revision e = jn_last_revision j + 1" "en_generation e = jn_last_generation j" "valid_fact e"
    and t: "\<And>es. trace sha es h \<Longrightarrow> trace sha (es @ [e]) e"
  shows "appendable sha j e"
  using head_traceD[OF inv h(1)] e t unfolding appendable_def h(2) by blast

lemma kind_valid_fact: "en_phase e = kind_phase kind \<Longrightarrow> valid_fact e = observed_fact e"
  by (cases kind) (simp_all add: valid_fact_def)

lemma start_generation_InrD:
  assumes "start_generation sha j inst = Inr (j', g)"
  shows "journal_readable sha j \<and> g = jn_last_generation j + 1 \<and> g \<le> SQLITE_MAX_INTEGER \<and>
    sha256_text inst \<and> inst \<notin> gn_instance_id ` set (jn_generations j) \<and>
    j' = j\<lparr>jn_generations := jn_generations j @
            [\<lparr>gn_generation = g, gn_instance_id = inst, gn_retained = 1, gn_complete = 1\<rparr>],
           jn_last_generation := g\<rparr>"
  using assms by (auto simp: start_generation_def Let_def list_ex_iff split: if_splits)

lemma start_generation_inv:
  assumes inv: "journal_inv sha j" and s: "start_generation sha j inst = Inr (j', g)"
  shows "journal_inv sha j'"
proof -
  note d = start_generation_InrD[OF s]
  have j': "jn_last_revision j' = jn_last_revision j" "jn_events j' = jn_events j" "jn_heads j' = jn_heads j"
    "jn_last_generation j' = g" "g = jn_last_generation j + 1"
    "jn_generations j' = jn_generations j @
       [\<lparr>gn_generation = g, gn_instance_id = inst, gn_retained = 1, gn_complete = 1\<rparr>]"
    using d by auto
  have gens: "0 \<le> jn_last_generation j" "map gn_generation (jn_generations j) = [1 .. jn_last_generation j]"
    "list_all generation_row_ok (jn_generations j)" "distinct (map gn_instance_id (jn_generations j))"
    using inv unfolding journal_inv_def by blast+
  have "head_inv sha j' h" if "h \<in> set (jn_heads j)" for h
    using journal_invD(3)[OF inv that] j' by (simp add: head_inv_def)
  moreover have "map gn_generation (jn_generations j') = [1 .. g]"
    using gens upto_snoc[OF gens(1)] j' by simp
  moreover have "list_all generation_row_ok (jn_generations j')"
    using gens d j' by (simp add: generation_row_ok_def)
  moreover have "distinct (map gn_instance_id (jn_generations j'))" using gens d j' by simp
  moreover have "0 \<le> jn_last_generation j'" using gens(1) j' by simp
  ultimately show ?thesis
    using journal_invD(1,2,4,5,6,7)[OF inv] unfolding journal_inv_def j'(1-4) by blast
qed

section \<open>The journal as one transactional store\<close>

datatype journal_call =
    StartGeneration string
  | RecordAccepted int string accepted_command "string option" "(int \<Rightarrow> int \<Rightarrow> string) option" bool bool bool
  | RecordDispatch int string string string int int string
  | RecordObservation int string string string int int observation_kind string string "string option"

datatype journal_result = GenerationResult int | TransitionResult transition_result

fun journal_step ::
  "(string \<Rightarrow> string) \<Rightarrow> journal \<Rightarrow> journal_call \<Rightarrow> journal_error + (journal \<times> journal_result)" where
  "journal_step sha j (StartGeneration inst) =
     sbind (start_generation sha j inst) (\<lambda>(j', g). Inr (j', GenerationResult g))"
| "journal_step sha j (RecordAccepted g inst a ack ackf ph tp req) =
     sbind (record_accepted sha j g inst a ack ackf ph tp req) (\<lambda>(j', r). Inr (j', TransitionResult r))"
| "journal_step sha j (RecordDispatch g inst rid oid k n ref) =
     sbind (record_dispatch_intent sha j g inst rid oid k n ref) (\<lambda>(j', r). Inr (j', TransitionResult r))"
| "journal_step sha j (RecordObservation g inst rid oid k n kind ref h reply) =
     sbind (record_observation sha j g inst rid oid k n kind ref h reply) (\<lambda>(j', r). Inr (j', TransitionResult r))"

text \<open>A successful call leaves the journal, starts a generation, or appends one entry.\<close>

definition journal_evolves :: "(string \<Rightarrow> string) \<Rightarrow> journal \<Rightarrow> journal \<Rightarrow> bool" where
  "journal_evolves sha j j' \<longleftrightarrow> j' = j \<or>
     (\<exists>inst g. start_generation sha j inst = Inr (j', g)) \<or>
     (\<exists>e. appendable sha j e \<and> j' = append_entry e j \<and>
        (head_key e \<notin> head_key ` set (jn_heads j) \<and> en_phase e = Accepted \<or>
         (\<exists>h \<in> set (jn_heads j). head_key h = head_key e \<and> en_cmd e = en_cmd h)))"

lemma journal_step_evolves:
  assumes inv: "journal_inv sha j" and s: "journal_step sha j c = Inr (j', r)"
  shows "journal_evolves sha j j' \<and> journal_inv sha j'"
proof (cases c)
  case (StartGeneration inst)
  with s obtain g where "start_generation sha j inst = Inr (j', g)" by (auto simp: sbind_eq_Inr)
  then show ?thesis using start_generation_inv[OF inv] by (auto simp: journal_evolves_def)
next
  case (RecordAccepted g inst a ack ackf ph tp req)
  with s obtain t where t: "record_accepted sha j g inst a ack ackf ph tp req = Inr (j', t)"
    by (auto simp: sbind_eq_Inr)
  from record_accepted_InrD[OF t] consider "j' = j" | ack' e where
    "e = accepted_entry g (jn_last_revision j + 1) a ack'" "valid_reply ack'" "j' = append_entry e j"
    "jn_last_generation j = g" "accepted_fact e" "head_key e \<notin> head_key ` set (jn_heads j)"
    "require_no_identity_collision j a = Inr ()" "insert_head e j = Inr (j\<lparr>jn_heads := jn_heads j @ [e]\<rparr>)"
    "validate_accepted_input a g = Inr ()" by blast
  then show ?thesis
  proof cases
    case 1
    then show ?thesis using inv by (simp add: journal_evolves_def)
  next
    case 2
    have ok: "appendable sha j e" using accepted_appendable[OF inv 2(4) 2(1) 2(5) 2(2) 2(6)] .
    have ce: "en_cmd e = a" "en_phase e = Accepted" using 2(1) by simp_all
    have "aliases_ok (map en_cmd (jn_heads j) @ [en_cmd e])"
      "\<And>op. epochs_ok (of_operation op (map en_cmd (jn_heads j) @ [en_cmd e]))"
      unfolding ce(1) using acceptance_extends[OF inv 2(7) 2(9) 2(8) ce(1)] by blast+
    from append_new_inv[OF inv ok 2(6) this] have "journal_inv sha j'" unfolding 2(3) .
    then show ?thesis using ok 2(3,6) ce(2) unfolding journal_evolves_def by blast
  qed
next
  case (RecordDispatch g inst rid oid k n ref)
  with s obtain t where t: "record_dispatch_intent sha j g inst rid oid k n ref = Inr (j', t)"
    by (auto simp: sbind_eq_Inr)
  from record_dispatch_InrD[OF inv t] obtain h where h: "h \<in> set (jn_heads j)" and
    "j' = j \<or> (\<exists>e. e = dispatch_entry g (jn_last_revision j + 1) ref h \<and> en_phase h = Accepted \<and>
       en_generation h = g \<and> j' = append_entry e j \<and> jn_last_generation j = g \<and> dispatch_fact e)"
    by blast
  then consider "j' = j" | e where "e = dispatch_entry g (jn_last_revision j + 1) ref h"
    "en_phase h = Accepted" "en_generation h = g" "j' = append_entry e j" "jn_last_generation j = g"
    "dispatch_fact e" by blast
  then show ?thesis
  proof cases
    case 1
    then show ?thesis using inv by (simp add: journal_evolves_def)
  next
    case 2
    have k: "head_key h = head_key e" "en_cmd e = en_cmd h" using 2(1) by simp_all
    have ok: "appendable sha j e"
      by (rule follow_appendable[OF inv h k(1)])
        (use 2 in \<open>auto simp: valid_fact_def intro: trace_dispatch\<close>)
    show ?thesis
      using append_existing_inv[OF inv ok h k] ok h k 2(4) unfolding journal_evolves_def by blast
  qed
next
  case (RecordObservation g inst rid oid k n kind ref hash reply)
  with s obtain t where t: "record_observation sha j g inst rid oid k n kind ref hash reply = Inr (j', t)"
    by (auto simp: sbind_eq_Inr)
  from record_observation_InrD[OF inv t] obtain h where h: "h \<in> set (jn_heads j)" and
    "j' = j \<or> (\<exists>e. e = observation_entry g (jn_last_revision j + 1) kind ref hash reply h \<and>
       en_phase h = DispatchIntent \<and> en_generation h = g \<and> j' = append_entry e j \<and>
       jn_last_generation j = g \<and> observed_fact e \<and> valid_reply reply \<and>
       terminal_binding sha (Some ref) (Some hash) reply)" by blast
  then consider "j' = j" | e where "e = observation_entry g (jn_last_revision j + 1) kind ref hash reply h"
    "en_phase h = DispatchIntent" "en_generation h = g" "j' = append_entry e j" "jn_last_generation j = g"
    "observed_fact e" "valid_reply reply" "terminal_binding sha (Some ref) (Some hash) reply" by blast
  then show ?thesis
  proof cases
    case 1
    then show ?thesis using inv by (simp add: journal_evolves_def)
  next
    case 2
    have k: "head_key h = head_key e" "en_cmd e = en_cmd h" using 2(1) by simp_all
    have ok: "appendable sha j e"
      by (rule follow_appendable[OF inv h k(1)])
        (use 2 kind_valid_fact[of e kind] in \<open>auto intro: trace_observed\<close>)
    show ?thesis
      using append_existing_inv[OF inv ok h k] ok h k 2(4) unfolding journal_evolves_def by blast
  qed
qed

section \<open>What the writer leaves, the reader accepts\<close>

lemma aliases_verified:
  assumes "\<And>a b. a \<in> S \<Longrightarrow> b \<in> S \<Longrightarrow> alias_pair a b" "en_cmd ` set hs \<subseteq> S"
    and "\<And>r p x. logical (r, p) = Some x \<Longrightarrow>
           \<exists>c \<in> S. ac_run_id c = r \<and> ac_operation_id c = p \<and> x = command_identity c"
    and "\<And>r k x. op_by_run (r, k) = Some x \<Longrightarrow>
           \<exists>c \<in> S. ac_run_id c = r \<and> ac_idempotency_key c = k \<and> x = ac_operation_id c"
    and "\<And>p k x. run_by_op (p, k) = Some x \<Longrightarrow>
           \<exists>c \<in> S. ac_operation_id c = p \<and> ac_idempotency_key c = k \<and> x = ac_run_id c"
  shows "verify_head_aliases logical op_by_run run_by_op hs"
  using assms(2-)
proof (induction hs arbitrary: logical op_by_run run_by_op)
  case Nil
  then show ?case by simp
next
  case (Cons h hs)
  let ?c = "en_cmd h"
  have c: "?c \<in> S" using Cons.prems(1) by simp
  have l: "(case logical (ac_run_id ?c, ac_operation_id ?c) of None \<Rightarrow> logical_identity h | Some x \<Rightarrow> x) =
      command_identity ?c"
  proof (cases "logical (ac_run_id ?c, ac_operation_id ?c)")
    case None
    then show ?thesis by (simp add: logical_identity_def)
  next
    case (Some x)
    from Cons.prems(2)[OF this] obtain d where
      d: "d \<in> S" "ac_run_id d = ac_run_id ?c" "ac_operation_id d = ac_operation_id ?c" "x = command_identity d"
      by blast
    then have "command_identity d = command_identity ?c"
      using assms(1)[OF d(1) c] by (simp add: alias_pair_def same_operation_def)
    with Some d show ?thesis by simp
  qed
  have p: "(case op_by_run (ac_run_id ?c, ac_idempotency_key ?c) of None \<Rightarrow> ac_operation_id ?c | Some x \<Rightarrow> x) =
      ac_operation_id ?c"
  proof (cases "op_by_run (ac_run_id ?c, ac_idempotency_key ?c)")
    case (Some x)
    from Cons.prems(3)[OF this] obtain d where
      d: "d \<in> S" "ac_run_id d = ac_run_id ?c" "ac_idempotency_key d = ac_idempotency_key ?c"
        "x = ac_operation_id d" by blast
    then have "ac_operation_id d = ac_operation_id ?c"
      using assms(1)[OF d(1) c] by (simp add: alias_pair_def shared_key_def same_operation_def)
    with Some d show ?thesis by simp
  qed simp
  have r: "(case run_by_op (ac_operation_id ?c, ac_idempotency_key ?c) of None \<Rightarrow> ac_run_id ?c | Some x \<Rightarrow> x) =
      ac_run_id ?c"
  proof (cases "run_by_op (ac_operation_id ?c, ac_idempotency_key ?c)")
    case (Some x)
    from Cons.prems(4)[OF this] obtain d where
      d: "d \<in> S" "ac_operation_id d = ac_operation_id ?c" "ac_idempotency_key d = ac_idempotency_key ?c"
        "x = ac_run_id d" by blast
    then have "ac_run_id d = ac_run_id ?c"
      using assms(1)[OF d(1) c] by (simp add: alias_pair_def shared_key_def same_operation_def)
    with Some d show ?thesis by simp
  qed simp
  have "verify_head_aliases (logical((ac_run_id ?c, ac_operation_id ?c) \<mapsto> command_identity ?c))
      (op_by_run((ac_run_id ?c, ac_idempotency_key ?c) \<mapsto> ac_operation_id ?c))
      (run_by_op((ac_operation_id ?c, ac_idempotency_key ?c) \<mapsto> ac_run_id ?c)) hs"
  proof (rule Cons.IH)
    show "en_cmd ` set hs \<subseteq> S" using Cons.prems(1) by simp
  qed (use c Cons.prems(2-4) in \<open>auto split: if_splits\<close>)
  then show ?case by (simp add: Let_def l p r logical_identity_def)
qed

lemma writer_consistent:
  assumes inv: "journal_inv sha j"
  shows "journal_consistent sha j"
proof -
  have g: "0 \<le> jn_last_generation j" "map gn_generation (jn_generations j) = [1 .. jn_last_generation j]"
    "list_all generation_row_ok (jn_generations j)"
    using inv unfolding journal_inv_def by blast+
  note gs = upto_shape[OF g(2,1)] and es = upto_shape[OF journal_invD(7,6)[OF inv]]
  have "generations_consistent j"
    using gs g(3) by (auto simp: generations_consistent_def sort_key_id_if_sorted Let_def)
  moreover have se: "sort_key en_revision (jn_events j) = jn_events j"
    using es(2) by (rule sort_key_id_if_sorted)
  moreover have "events_consistent j"
    using es journal_invD(7)[OF inv] by (auto simp: events_consistent_def se Let_def)
  moreover have "set (map head_key (jn_events j)) = set (map head_key (sort_key head_key (jn_heads j)))"
    using journal_invD(2)[OF inv] replay_keys[of "jn_events j"] by simp
  moreover have "verify_head_aliases (\<lambda>_. None) (\<lambda>_. None) (\<lambda>_. None) (sort_key head_key (jn_heads j))"
    by (rule aliases_verified[of "en_cmd ` set (jn_heads j)"])
      (use journal_invD(4)[OF inv] in \<open>auto simp: aliases_ok_def\<close>)
  moreover have "list_all (\<lambda>h. group_consistent sha h (filter (\<lambda>e. head_key e = head_key h) (jn_events j)))
      (sort_key head_key (jn_heads j))"
    unfolding list_all_iff set_sort using trace_group[OF head_traceD[OF inv]] by blast
  ultimately show ?thesis by (simp add: journal_consistent_def)
qed

interpretation journal_store: fencing "journal_step sha" "journal_inv sha" jn_last_generation
    "\<lambda>c r. case (c, r) of (StartGeneration inst, GenerationResult g) \<Rightarrow> Some g | _ \<Rightarrow> None"
  for sha
proof (unfold_locales, goal_cases)
  case (1 s a s' r)
  then show ?case using journal_step_evolves by blast
next
  case (2 s a s' r n)
  then show ?case
    by (cases a) (auto simp: sbind_eq_Inr dest!: start_generation_InrD split: journal_result.splits)
next
  case (3 s a s' r)
  note s = 3
  show ?case
  proof (cases a)
    case (StartGeneration inst)
    with s show ?thesis by (auto simp: sbind_eq_Inr)
  next
    case (RecordAccepted g inst c ack ackf ph tp req)
    with s(2) obtain t where "record_accepted sha s g inst c ack ackf ph tp req = Inr (s', t)"
      by (auto simp: sbind_eq_Inr)
    from record_accepted_InrD[OF this] show ?thesis by auto
  next
    case (RecordDispatch g inst rid oid k n ref)
    with s(2) obtain t where "record_dispatch_intent sha s g inst rid oid k n ref = Inr (s', t)"
      by (auto simp: sbind_eq_Inr)
    from record_dispatch_InrD[OF s(1) this] show ?thesis by auto
  next
    case (RecordObservation g inst rid oid k n kind ref h reply)
    with s(2) obtain t where "record_observation sha s g inst rid oid k n kind ref h reply = Inr (s', t)"
      by (auto simp: sbind_eq_Inr)
    from record_observation_InrD[OF s(1) this] show ?thesis by auto
  qed
qed

interpretation journal_log: append_log "journal_step sha" "journal_inv sha" jn_events
  for sha
proof (unfold_locales, goal_cases)
  case (1 s a s' r)
  then have "journal_evolves sha s s'" using journal_step_evolves by blast
  then show ?case by (auto simp: journal_evolves_def dest!: start_generation_InrD)
qed

section \<open>Readability\<close>

text \<open>
  The one rule of the reader that the writer does not enforce: the attempt numbers and the intent
  revisions of the authorizations of an operation grow.
\<close>

definition numbered :: "journal \<Rightarrow> bool" where
  "numbered j \<longleftrightarrow> list_all (\<lambda>h.
     let hist = of_operation (ac_run_id (en_cmd h), ac_operation_id (en_cmd h)) (map en_cmd (jn_heads j))
     in sorted_wrt (<) (map ac_attempt_no hist) \<and> sorted_wrt (<) (map ac_intent_revision hist)) (jn_heads j)"

lemma strictly_increasing_iff: "strictly_increasing xs \<longleftrightarrow> sorted_wrt (<) (xs :: int list)"
proof (induction xs)
  case Nil
  then show ?case by (simp add: strictly_increasing_def)
next
  case (Cons x xs)
  then show ?case
    by (cases xs) (auto simp: strictly_increasing_def, metis less_trans)
qed

lemma operation_history_cmds:
  assumes inv: "journal_inv sha j"
  shows "map en_cmd (operation_history j op) = of_operation op (map en_cmd (jn_heads j))"
proof -
  obtain r p where op: "op = (r, p)" by (cases op)
  let ?q = "\<lambda>h. ac_run_id (en_cmd h) = r \<and> ac_operation_id (en_cmd h) = p"
  let ?hs = "filter ?q (jn_heads j)"
  have ords: "map ac_ordinal (map en_cmd ?hs) = [1 .. int (length ?hs)]"
    using journal_invD(5)[OF inv, of "(r, p)"] by (simp add: of_operation_map epochs_ok_def)
  have "map head_key ?hs = map (\<lambda>k. (r, p, k)) (map ac_ordinal (map en_cmd ?hs))"
    by (simp add: head_key_def)
  also have "\<dots> = map (\<lambda>k. (r, p, k)) [1 .. int (length ?hs)]" unfolding ords ..
  finally have "sorted (map head_key ?hs)" by (simp add: sorted_wrt_map sorted_wrt_iff_nth_less)
  then have "sort_key head_key ?hs = ?hs" by (rule sort_key_id_if_sorted)
  moreover have "operation_history j op = sort_key head_key ?hs"
    by (simp add: operation_history_def filter_sort op)
  ultimately show ?thesis by (simp add: of_operation_map op)
qed

lemma numbered_readable:
  assumes inv: "journal_inv sha j"
  shows "journal_readable sha j \<longleftrightarrow> numbered j"
proof -
  have "authorization_history_ok (operation_history j op) \<longleftrightarrow>
      sorted_wrt (<) (map ac_attempt_no (of_operation op (map en_cmd (jn_heads j)))) \<and>
      sorted_wrt (<) (map ac_intent_revision (of_operation op (map en_cmd (jn_heads j))))" for op
  proof -
    define hist where "hist = operation_history j op"
    define cs where "cs = of_operation op (map en_cmd (jn_heads j))"
    have cs: "map en_cmd hist = cs" unfolding hist_def cs_def by (rule operation_history_cmds[OF inv])
    have fields: "map (\<lambda>f. g (en_cmd f)) hist = map g cs" for g :: "accepted_command \<Rightarrow> int"
      unfolding cs[symmetric] by simp
    have refs: "List.map_filter (\<lambda>f. ac_retry_ref (en_cmd f)) hist = List.map_filter ac_retry_ref cs"
      unfolding cs[symmetric] by (simp add: List.map_filter_def filter_map o_def)
    have len: "length hist = length cs" unfolding cs[symmetric] by simp
    have ep: "epochs_ok cs" unfolding cs_def by (rule journal_invD(5)[OF inv])
    have id: "logical_identity f = logical_identity (hd hist)" if "f \<in> set hist" for f
    proof -
      have "hd hist \<in> set hist" using that by (cases hist) auto
      with that have "alias_pair (en_cmd f) (en_cmd (hd hist)) \<and> same_operation (en_cmd f) (en_cmd (hd hist))"
        using journal_invD(4)[OF inv]
        by (auto simp: hist_def operation_history_def aliases_ok_def same_operation_def)
      then show ?thesis by (simp add: alias_pair_def logical_identity_def)
    qed
    show ?thesis
      using ep id unfolding authorization_history_ok_def hist_def[symmetric] cs_def[symmetric]
        fields refs len epochs_ok_def strictly_increasing_iff
      by (auto simp: list_all_iff)
  qed
  moreover have "list_all valid_fact (jn_heads j)"
    using journal_invD(3)[OF inv] by (auto simp: list_all_iff head_inv_def)
  ultimately show ?thesis
    using writer_consistent[OF inv]
    by (simp add: journal_readable_def history_facts_valid_def numbered_def list_all_iff Let_def)
qed

section \<open>Properties\<close>

abbreviation journal_run :: "(string \<Rightarrow> string) \<Rightarrow> journal \<Rightarrow> journal_call list \<Rightarrow> journal" where
  "journal_run sha \<equiv> run_txns (journal_step sha)"

lemma reachable_inv: "journal_inv sha (journal_run sha empty_journal ops)"
  by (rule journal_store.run_inv[OF empty_journal_inv])

text \<open>Concrete inputs: a command, its retry, and a journal with a live session.\<close>

definition demo_hex :: "char \<Rightarrow> string" where
  "demo_hex c = replicate 64 c"

definition demo_command :: accepted_command where
  "demo_command = \<lparr>ac_run_id = ''r1'', ac_operation_id = ''op1'', ac_source = ''liepin'',
     ac_operation_kind = ''cards'', ac_idempotency_key = ''key1'', ac_request_hash = demo_hex CHR ''a'',
     ac_attempt_no = 1, ac_requirement_revision_id = ''req1'', ac_attempt_fence_ref = demo_hex CHR ''b'',
     ac_intent_id = ''intent1'', ac_intent_revision = 1, ac_intent_digest = demo_hex CHR ''c'',
     ac_profile_generation = 1, ac_scope_id = None, ac_controller_fence_ref = None, ac_ordinal = 1,
     ac_retry_ref = None, ac_expected_ledger = 1, ac_expected_reconciliation = 0\<rparr>"

definition demo_retry :: accepted_command where
  "demo_retry = demo_command\<lparr>ac_ordinal := 2, ac_retry_ref := Some ''retry1'', ac_expected_ledger := 2,
     ac_expected_reconciliation := 1, ac_intent_revision := 2\<rparr>"

definition demo_sha :: "string \<Rightarrow> string" where
  "demo_sha s = demo_hex CHR ''d''"

definition demo_ops :: "journal_call list" where
  "demo_ops = [StartGeneration (demo_hex CHR ''0''),
     RecordAccepted 1 (demo_hex CHR ''0'') demo_command (Some ''ack'') None False False False,
     RecordDispatch 1 (demo_hex CHR ''0'') ''r1'' ''op1'' 1 1 ''dispatch1'',
     RecordObservation 1 (demo_hex CHR ''0'') ''r1'' ''op1'' 1 2 ResultKind (demo_hex CHR ''d'')
       (demo_hex CHR ''d'') (Some ''reply'')]"

text \<open>
  C31: Writer and reader agree: whatever calls the sidecar makes on a new journal, the tables pass
  the reader's whole consistency check, so no sequence of transitions leaves a journal that
  reads as corrupt at the level of its tables.
\<close>

theorem journal_tables_consistent:
  "journal_consistent sha (journal_run sha empty_journal ops)"
  by (rule writer_consistent[OF reachable_inv])

text \<open>
  C34: The head table is a materialised view of the event log: it always equals the replay of the
  events, and the events carry the revisions one, two, three without a gap.
\<close>

theorem heads_replay_events:
  "jn_heads (journal_run sha empty_journal ops) = replay (jn_events (journal_run sha empty_journal ops)) \<and>
   map en_revision (jn_events (journal_run sha empty_journal ops)) =
     [1 .. jn_last_revision (journal_run sha empty_journal ops)]"
  using journal_invD(2,7)[OF reachable_inv] by blast

text \<open>
  The event log only grows: every sequence of calls keeps the events there are, unchanged and
  in place.
\<close>

theorem journal_append_only:
  assumes "journal_inv sha j"
  shows "\<exists>es. jn_events (journal_run sha j ops) = jn_events j @ es"
  by (rule journal_log.run_append[OF assms])

theorem journal_append_only_witness:
  "\<exists>es. jn_events (journal_run demo_sha empty_journal demo_ops) = [] @ es"
  using journal_append_only[OF empty_journal_inv, of demo_sha demo_ops]
  by (simp add: empty_journal_def)

lemma trace_generations: "trace sha es h \<Longrightarrow> set (map en_generation es) = {en_generation h}"
  by (induction rule: trace.induct) auto

lemma trace_phases:
  "trace sha es h \<Longrightarrow> map en_phase es = expected_phases (en_phase h)"
  using trace_group by (simp add: group_consistent_def)

lemma sorted_filter_revisions:
  assumes "journal_inv sha j"
  shows "sorted_wrt (<) (map en_revision (filter P (jn_events j)))"
proof -
  have "sorted_wrt (<) (map en_revision (jn_events j))"
    unfolding journal_invD(7)[OF assms] by simp
  then show ?thesis by (simp add: sorted_wrt_map sorted_wrt_filter)
qed

text \<open>
  C32: The events of a command are acceptance, then dispatch intent, then one observation, or a
  prefix of that; their revisions increase and they lie in one sidecar generation. So nothing is
  observed that was not dispatched, nothing dispatched that was not accepted, and no command
  crosses a restart.
\<close>

theorem command_lifecycle:
  "let es = filter (\<lambda>e. head_key e = key) (jn_events (journal_run sha empty_journal ops)) in
   map en_phase es \<in> {[], [Accepted], [Accepted, DispatchIntent],
       [Accepted, DispatchIntent, ObservedResult], [Accepted, DispatchIntent, ObservedFailure]} \<and>
   length (remdups (map en_generation es)) \<le> 1 \<and> sorted_wrt (<) (map en_revision es)"
proof -
  let ?j = "journal_run sha empty_journal ops"
  define es where "es = filter (\<lambda>e. head_key e = key) (jn_events ?j)"
  note inv = reachable_inv[of sha ops]
  have "map en_phase es \<in> {[], [Accepted], [Accepted, DispatchIntent],
       [Accepted, DispatchIntent, ObservedResult], [Accepted, DispatchIntent, ObservedFailure]} \<and>
     length (remdups (map en_generation es)) \<le> 1"
  proof (cases "es = []")
    case False
    then obtain e where e: "e \<in> set (jn_events ?j)" "head_key e = key"
      unfolding es_def by (auto simp: filter_empty_conv)
    then have "key \<in> head_key ` set (jn_heads ?j)"
      using journal_invD(2)[OF inv] replay_keys[of "jn_events ?j"] by auto
    then obtain h where "h \<in> set (jn_heads ?j)" "head_key h = key" by blast
    then have t: "trace sha es h" using head_traceD[OF inv, of h] by (simp add: es_def)
    have "card (set (map en_generation es)) = 1" unfolding trace_generations[OF t] by simp
    then show ?thesis using trace_phases[OF t] by (cases "en_phase h") (simp_all add: length_remdups_card_conv)
  qed simp
  then show ?thesis using sorted_filter_revisions[OF inv] by (simp add: es_def Let_def)
qed

text \<open>
  A sidecar of an older generation writes nothing: after any further calls, every acceptance,
  dispatch and observation under a generation below the newest is refused.
\<close>

theorem stale_generation_rejected:
  assumes "journal_inv sha j" "g < jn_last_generation j" "j' = journal_run sha j ops"
  shows "(\<forall>r. journal_step sha j' (RecordAccepted g inst a ack ackf ph tp req) \<noteq> Inr r) \<and>
    (\<forall>r. journal_step sha j' (RecordDispatch g inst rid oid k n ref) \<noteq> Inr r) \<and>
    (\<forall>r. journal_step sha j' (RecordObservation g inst rid oid k n kind ref h reply) \<noteq> Inr r)"
proof -
  have "jn_last_generation j \<le> jn_last_generation j'"
    unfolding assms(3)
    by (rule journal_store.run_preorder[of "\<lambda>x y. jn_last_generation x \<le> jn_last_generation y", OF _ _ _ assms(1)])
      (auto dest: journal_store.step_token_mono)
  then have "require_session_generation j' g inst \<noteq> Inr ()"
    using assms(2) session_generation_InrD[of j' g inst] by auto
  then show ?thesis
    by (auto simp: sbind_eq_Inr record_accepted_def record_dispatch_intent_def record_observation_def
        split: if_splits)
qed

lemma two_generations: "jn_last_generation (journal_run demo_sha empty_journal
    [StartGeneration (demo_hex CHR ''0''), StartGeneration (demo_hex CHR ''1'')]) = 2"
  by code_simp

theorem stale_generation_rejected_witness:
  "\<forall>r. journal_step demo_sha (journal_run demo_sha empty_journal
      [StartGeneration (demo_hex CHR ''0''), StartGeneration (demo_hex CHR ''1'')])
     (RecordAccepted 1 (demo_hex CHR ''0'') demo_command None None False False False) \<noteq> Inr r"
proof -
  let ?j = "journal_run demo_sha empty_journal
      [StartGeneration (demo_hex CHR ''0''), StartGeneration (demo_hex CHR ''1'')]"
  have "1 < jn_last_generation ?j" by (simp only: two_generations)
  from stale_generation_rejected[OF reachable_inv this, of _ "[]"]
  show ?thesis by simp
qed

lemma find_head_after:
  assumes "journal_inv sha (append_entry e j)"
  shows "find_operation_head (append_entry e j) (ac_run_id (en_cmd e)) (ac_operation_id (en_cmd e))
    (ac_ordinal (en_cmd e)) = Some e"
proof -
  have "e \<in> set (apply_event e (jn_heads j))"
  proof (cases "list_ex (\<lambda>h. head_key h = head_key e) (jn_heads j)")
    case True
    then show ?thesis by (force simp: apply_event_def set_update_where list_ex_iff)
  qed (simp add: apply_event_def)
  then have "e \<in> set (jn_heads (append_entry e j))" by simp
  from fetchone_keyed[OF journal_invD(1)[OF assms] this] show ?thesis
    unfolding find_operation_head_def by (simp add: head_key_def)
qed

lemma session_after: "require_session_generation (append_entry e j) g inst = require_session_generation j g inst"
  by (simp add: require_session_generation_def split: option.split)

lemma head_valid:
  "journal_inv sha j \<Longrightarrow> h \<in> set (jn_heads j) \<Longrightarrow> valid_fact h \<and> valid_reply (en_ack h)"
  using journal_invD(3) trace_group[OF head_traceD]
  by (fastforce simp: head_inv_def group_consistent_def)

lemma accepted_replay:
  assumes inv: "journal_inv sha j" "journal_inv sha j'"
    and t: "record_accepted sha j g inst a ackb ackf ph tp req = Inr (j', r)"
    and created: "tr_disposition r = Created"
  shows "\<exists>r'. record_accepted sha j' g inst a ackb ackf ph tp req = Inr (j', r') \<and>
    tr_disposition r' = ExactReplay \<and> tr_revision r' = tr_revision r \<and> tr_ack r' = tr_ack r \<and>
    tr_reply r' = tr_reply r"
proof -
  from record_accepted_InrD[OF t] created obtain ack e where
    e: "e = accepted_entry g (jn_last_revision j + 1) a ack" "valid_reply ack" "j' = append_entry e j"
      "tr_revision r = en_revision e" "tr_ack r = ack" "tr_reply r = None" by auto
  have pre: "\<not> (ackb \<noteq> None \<and> ackf \<noteq> None)" "validate_accepted_input a g = Inr ()" "valid_reply ackb"
    "require_session_generation j g inst = Inr ()"
    using t by (auto simp: record_accepted_def sbind_eq_Inr split: if_splits)
  have f: "find_operation_head j' (ac_run_id a) (ac_operation_id a) (ac_ordinal a) = Some e"
    using find_head_after[of sha e j] inv(2) e(1,3) by simp
  have s: "require_session_generation j' g inst = Inr ()" using pre(4) e(3) by (simp add: session_after)
  have "same_accepted_identity e a tp" using e(1) by (simp add: same_accepted_identity_def)
  then show ?thesis
    using pre f s e
    by (simp add: record_accepted_def transition_result_from_head_def require_reply_def reply_from_row_def)
      (simp add: accepted_entry_def)
qed

lemma dispatch_replay:
  assumes inv: "journal_inv sha j" "journal_inv sha j'"
    and t: "record_dispatch_intent sha j g inst rid oid k n ref = Inr (j', r)"
    and created: "tr_disposition r = Created"
  shows "\<exists>r'. record_dispatch_intent sha j' g inst rid oid k n ref = Inr (j', r') \<and>
    tr_disposition r' = ExactReplay \<and> tr_revision r' = tr_revision r \<and> tr_ack r' = tr_ack r \<and>
    tr_reply r' = tr_reply r"
proof -
  from record_dispatch_InrD[OF inv(1) t] created obtain h e where
    h: "h \<in> set (jn_heads j)" "head_key h = (rid, oid, k)" "en_phase h = Accepted" "en_revision h = n" and
    e: "e = dispatch_entry g (jn_last_revision j + 1) ref h" "j' = append_entry e j"
      "tr_revision r = en_revision e" "tr_ack r = en_ack h" "tr_reply r = None" by auto
  have acc: "en_accepted_revision h = n" "valid_reply (en_ack h)"
    using head_valid[OF inv(1) h(1)] h(3,4) by (auto simp: valid_fact_def accepted_fact_def)
  have none: "en_reply h = None"
    using trace_accepted_shape[OF head_traceD[OF inv(1) h(1)] h(3)] by (auto simp: accepted_entry_def)
  have pre: "1 \<le> n \<and> n \<le> SQLITE_MAX_INTEGER" "1 \<le> k \<and> k \<le> SQLITE_MAX_INTEGER"
    "require_session_generation j g inst = Inr ()"
    using t by (auto simp: record_dispatch_intent_def sbind_eq_Inr)
  have f: "find_operation_head j' rid oid k = Some e"
    using find_head_after[of sha e j] inv(2) e(1,2) h(2) by (simp add: head_key_def)
  have s: "require_session_generation j' g inst = Inr ()" using pre(3) e(2) by (simp add: session_after)
  show ?thesis
    using pre f s e acc none
    by (simp add: record_dispatch_intent_def transition_result_from_head_def require_head_def
        require_positive_integer_def reply_from_row_def dispatch_entry_def)
qed

lemma observation_replay:
  assumes inv: "journal_inv sha j" "journal_inv sha j'"
    and t: "record_observation sha j g inst rid oid k n kind ref hash reply = Inr (j', r)"
    and created: "tr_disposition r = Created"
  shows "\<exists>r'. record_observation sha j' g inst rid oid k n kind ref hash reply = Inr (j', r') \<and>
    tr_disposition r' = ExactReplay \<and> tr_revision r' = tr_revision r \<and> tr_ack r' = tr_ack r \<and>
    tr_reply r' = tr_reply r"
proof -
  from record_observation_InrD[OF inv(1) t] created obtain h e where
    h: "h \<in> set (jn_heads j)" "head_key h = (rid, oid, k)" "en_phase h = DispatchIntent" "en_revision h = n" and
    e: "e = observation_entry g (jn_last_revision j + 1) kind ref hash reply h" "j' = append_entry e j"
      "tr_revision r = en_revision e" "tr_ack r = en_ack h" "tr_reply r = reply" and
    b: "valid_reply reply" "terminal_binding sha (Some ref) (Some hash) reply" by auto
  have acc: "en_dispatch_revision h = Some n" "valid_reply (en_ack h)"
    using head_valid[OF inv(1) h(1)] h(3,4) by (auto simp: valid_fact_def dispatch_fact_def)
  have pre: "1 \<le> n \<and> n \<le> SQLITE_MAX_INTEGER" "1 \<le> k \<and> k \<le> SQLITE_MAX_INTEGER"
    "require_session_generation j g inst = Inr ()"
    using t by (auto simp: record_observation_def sbind_eq_Inr)
  have f: "find_operation_head j' rid oid k = Some e"
    using find_head_after[of sha e j] inv(2) e(1,2) h(2) by (simp add: head_key_def)
  have s: "require_session_generation j' g inst = Inr ()" using pre(3) e(2) by (simp add: session_after)
  have ph: "en_phase e \<in> {ObservedResult, ObservedFailure}" "en_phase e = kind_phase kind"
    using e(1) kind_phase_simps(5) by auto
  have cols: "en_dispatch_revision e = Some n" "en_obs_ref e = Some ref" "en_obs_hash e = Some hash"
    "en_reply e = reply" "en_ack e = en_ack h" "en_obs_revision e = Some (en_revision e)"
    using e(1) acc(1) by (simp_all add: observation_entry_def)
  obtain r' where "transition_result_from_head sha e g (en_revision e) = Inr r'" "tr_disposition r' = ExactReplay"
      "tr_revision r' = en_revision e" "tr_ack r' = en_ack h" "tr_reply r' = reply"
    using b acc(2) ph cols by (simp add: transition_result_from_head_def reply_from_row_def)
  then show ?thesis
    using pre f s b acc ph cols e(3-5)
    by (simp add: record_observation_def require_head_def require_positive_integer_def
        require_reply_def reply_from_row_def)
qed

text \<open>
  C35: A repeated call is an exact replay: repeating the acceptance, dispatch or observation that
  just created an entry leaves the journal as it is and returns the same revision, the stored ack
  and the stored reply.
\<close>

theorem exact_replay:
  assumes "journal_inv sha j" "journal_step sha j c = Inr (j', TransitionResult r)"
    "tr_disposition r = Created"
  shows "\<exists>r'. journal_step sha j' c = Inr (j', TransitionResult r') \<and> tr_disposition r' = ExactReplay \<and>
    tr_revision r' = tr_revision r \<and> tr_ack r' = tr_ack r \<and> tr_reply r' = tr_reply r"
proof -
  have inv': "journal_inv sha j'" using journal_step_evolves[OF assms(1,2)] by blast
  show ?thesis
  proof (cases c)
    case (StartGeneration inst)
    with assms(2) show ?thesis by (auto simp: sbind_eq_Inr)
  next
    case (RecordAccepted g inst a ack ackf ph tp req)
    with assms(2) accepted_replay[OF assms(1) inv' _ assms(3)] show ?thesis
      by (fastforce simp: sbind_eq_Inr)
  next
    case (RecordDispatch g inst rid oid k n ref)
    with assms(2) dispatch_replay[OF assms(1) inv' _ assms(3)] show ?thesis
      by (fastforce simp: sbind_eq_Inr)
  next
    case (RecordObservation g inst rid oid k n kind ref h reply)
    with assms(2) observation_replay[OF assms(1) inv' _ assms(3)] show ?thesis
      by (fastforce simp: sbind_eq_Inr)
  qed
qed

theorem exact_replay_witness:
  "\<exists>j' r'. journal_step demo_sha j' (RecordAccepted 1 (demo_hex CHR ''0'') demo_command (Some ''ack'') None
      False False False) = Inr (j', TransitionResult r') \<and> tr_revision r' = 1 \<and> tr_ack r' = Some ''ack''"
proof -
  let ?j = "journal_run demo_sha empty_journal [StartGeneration (demo_hex CHR ''0'')]"
  let ?c = "RecordAccepted 1 (demo_hex CHR ''0'') demo_command (Some ''ack'') None False False False"
  define x where "x = journal_step demo_sha ?j ?c"
  have "case journal_step demo_sha ?j ?c of Inr (_, TransitionResult r) \<Rightarrow>
      tr_disposition r = Created \<and> tr_revision r = 1 \<and> tr_ack r = Some ''ack'' | _ \<Rightarrow> False" by code_simp
  then obtain j' r where "x = Inr (j', TransitionResult r)" and
      r: "tr_disposition r = Created" "tr_revision r = 1" "tr_ack r = Some ''ack''"
    unfolding x_def[symmetric] by (auto split: sum.split_asm prod.split_asm journal_result.split_asm)
  then have s: "journal_step demo_sha ?j ?c = Inr (j', TransitionResult r)" by (simp only: x_def)
  from exact_replay[OF reachable_inv s r(1)] r(2,3) show ?thesis by metis
qed

text \<open>
  A sidecar can restart on every journal it wrote whose authorizations are numbered upwards:
  the full validation passes and the next generation is granted. On a journal where an attempt
  number or an intent revision did not grow, it is refused as corrupt.
\<close>

theorem restart_iff_numbered:
  assumes "journal_inv sha j" "jn_last_generation j < SQLITE_MAX_INTEGER" "sha256_text inst"
    "inst \<notin> gn_instance_id ` set (jn_generations j)"
  shows "if numbered j then \<exists>j'. start_generation sha j inst = Inr (j', jn_last_generation j + 1)
    else start_generation sha j inst = Inl (JFailure JCorrupt)"
proof -
  have g: "0 \<le> jn_last_generation j" "map gn_generation (jn_generations j) = [1 .. jn_last_generation j]"
    using assms(1) unfolding journal_inv_def by blast+
  have "jn_last_generation j + 1 \<notin> set (map gn_generation (jn_generations j))" unfolding g(2) by simp
  then have "\<forall>x \<in> set (jn_generations j). gn_generation x \<noteq> jn_last_generation j + 1" by force
  then show ?thesis
    using numbered_readable[OF assms(1)] assms(2-4) g(1)
    by (auto simp: start_generation_def Let_def list_ex_iff)
qed

theorem restart_iff_numbered_witness:
  "\<exists>j'. start_generation demo_sha (journal_run demo_sha empty_journal demo_ops) (demo_hex CHR ''1'') = Inr (j', 2)"
proof -
  let ?j = "journal_run demo_sha empty_journal demo_ops"
  have "jn_last_generation ?j = 1 \<and> numbered ?j \<and> sha256_text (demo_hex CHR ''1'') \<and>
      demo_hex CHR ''1'' \<notin> set (map gn_instance_id (jn_generations ?j))" by code_simp
  with restart_iff_numbered[OF reachable_inv, of demo_sha demo_ops "demo_hex CHR ''1''"]
  show ?thesis by (simp add: SQLITE_MAX_INTEGER_def)
qed


end
