(* ===== verification/JournalQuery.thy ===== *)
theory JournalQuery
  imports CommandJournal
begin

text \<open>
  The history query of \<open>SourceHistorySQLiteReader.query\<close>: what happened to an operation, asked over
  a range of sidecar generations. The request and the four answers are those of
  \<open>history_contract.py\<close>, their validators included. The facts of an answer are the head rows they
  are read from (a fact has the columns of its head, without the two byte columns).

  The database is open and readable as a SQLite file: the errors of the connection, of its pragmas
  and of its schema texts are not modelled, and the deadline is the default, which never passes.
\<close>

section \<open>Requests and answers\<close>

datatype selector = ExactAuthorization int | AllAuthorizations

record history_query =
  hq_run_id :: string
  hq_operation_id :: string
  hq_source :: string
  hq_operation_kind :: string
  hq_idempotency_key :: string
  hq_request_hash :: string
  hq_attempt_no :: int
  hq_selector :: selector
  hq_hint :: "int option"
  hq_first :: int
  hq_last :: int
  hq_expected_ledger :: int
  hq_expected_reconciliation :: int

definition valid_query :: "history_query \<Rightarrow> bool" where
  "valid_query q \<longleftrightarrow>
     opaque_text 96 (hq_run_id q) \<and> opaque_text 96 (hq_operation_id q) \<and> hq_source q = ''liepin'' \<and>
     hq_operation_kind q \<in> set operation_kinds \<and> opaque_text 128 (hq_idempotency_key q) \<and>
     sha256_text (hq_request_hash q) \<and> positive_json (hq_attempt_no q) \<and>
     (case hq_selector q of ExactAuthorization n \<Rightarrow> positive_json n | AllAuthorizations \<Rightarrow> True) \<and>
     (case hq_hint q of None \<Rightarrow> True | Some g \<Rightarrow> positive_json g) \<and>
     positive_json (hq_first q) \<and> positive_json (hq_last q) \<and>
     positive_json (hq_expected_ledger q) \<and> nonnegative_json (hq_expected_reconciliation q) \<and>
     hq_first q \<le> hq_last q \<and>
     (case hq_hint q of None \<Rightarrow> True | Some g \<Rightarrow> hq_first q \<le> g \<and> g \<le> hq_last q)"

datatype history_reason =
    UnknownGeneration | RetentionGap | Truncated | HistoryCorrupt | Unreadable | HistorySchemaMismatch
  | HistoryPragmaMismatch | HistoryBusy

datatype identity_reason =
    RunIdMismatch | OperationIdMismatch | SourceMismatch | OperationKindMismatch
  | IdempotencyKeyMismatch | RequestHashMismatch | AttemptNoMismatch
  | AcceptedRequirementRevisionMismatch | AcceptedFactMismatch

datatype history_answer =
    HistoryMatched "entry list" int int
  | HistoryNotFound int int
  | HistoryConflict "identity_reason list" "int option" "int option"
  | HistoryUnavailable history_reason "int option" "int option"

text \<open>A validator of the answer raises: a \<open>ValidationError\<close> that leaves the method.\<close>

datatype query_error = AnswerInvalid

section \<open>The parts of the query\<close>

definition generation_bounds :: "journal \<Rightarrow> int option \<times> int option" where
  "generation_bounds j =
     (map_option gn_generation
        (max_by (\<lambda>g. - gn_generation g) (filter (\<lambda>g. gn_retained g = 1) (jn_generations j))),
      map_option gn_generation (max_by gn_generation (jn_generations j)))"

fun retained_run :: "int \<Rightarrow> generation_row list \<Rightarrow> bool" where
  "retained_run previous [] = True"
| "retained_run previous (g # gs) =
     (gn_generation g = previous + 1 \<and> gn_retained g = 1 \<and> retained_run (gn_generation g) gs)"

definition coverage_failure ::
  "journal \<Rightarrow> history_query \<Rightarrow> int option \<Rightarrow> int option \<Rightarrow> history_reason option" where
  "coverage_failure j q oldest newest =
     (if (case newest of None \<Rightarrow> True | Some n \<Rightarrow> n < hq_last q) then Some UnknownGeneration
      else if (case oldest of None \<Rightarrow> True | Some n \<Rightarrow> hq_first q < n) then Some RetentionGap
      else
        let rows = sort_key gn_generation
              (filter (\<lambda>g. hq_first q \<le> gn_generation g \<and> gn_generation g \<le> hq_last q) (jn_generations j))
        in if int (length rows) \<noteq> hq_last q - hq_first q + 1 then Some RetentionGap
           else if \<not> retained_run (hq_first q - 1) rows then Some RetentionGap
           else if list_ex (\<lambda>g. gn_complete g \<noteq> 1) rows then Some Truncated
           else None)"

definition stable_identity_matches :: "history_query \<Rightarrow> entry \<Rightarrow> bool" where
  "stable_identity_matches q h \<longleftrightarrow>
     ac_run_id (en_cmd h) = hq_run_id q \<and> ac_operation_id (en_cmd h) = hq_operation_id q \<and>
     ac_source (en_cmd h) = hq_source q \<and> ac_operation_kind (en_cmd h) = hq_operation_kind q \<and>
     ac_idempotency_key (en_cmd h) = hq_idempotency_key q \<and> ac_request_hash (en_cmd h) = hq_request_hash q"

definition ordinal_matches :: "history_query \<Rightarrow> entry \<Rightarrow> bool" where
  "ordinal_matches q h \<longleftrightarrow>
     (case hq_selector q of ExactAuthorization n \<Rightarrow> ac_ordinal (en_cmd h) = n | AllAuthorizations \<Rightarrow> True)"

definition attempt_matches :: "history_query \<Rightarrow> entry \<Rightarrow> bool" where
  "attempt_matches q h \<longleftrightarrow>
     (case hq_selector q of ExactAuthorization _ \<Rightarrow> ac_attempt_no (en_cmd h) = hq_attempt_no q
      | AllAuthorizations \<Rightarrow> True)"

definition row_exact :: "history_query \<Rightarrow> entry \<Rightarrow> bool" where
  "row_exact q h \<longleftrightarrow> ordinal_matches q h \<and> stable_identity_matches q h \<and> attempt_matches q h"

definition row_collides :: "history_query \<Rightarrow> entry \<Rightarrow> bool" where
  "row_collides q h \<longleftrightarrow>
     \<not> row_exact q h \<and>
     \<not> (hq_selector q \<noteq> AllAuthorizations \<and> \<not> ordinal_matches q h \<and> stable_identity_matches q h) \<and>
     ((ac_run_id (en_cmd h) = hq_run_id q \<and>
       (ac_operation_id (en_cmd h) = hq_operation_id q \<or>
        ac_idempotency_key (en_cmd h) = hq_idempotency_key q)) \<or>
      (ac_operation_id (en_cmd h) = hq_operation_id q \<and>
       ac_idempotency_key (en_cmd h) = hq_idempotency_key q))"

definition partition_rows :: "history_query \<Rightarrow> entry list \<Rightarrow> entry list \<times> entry list" where
  "partition_rows q rows = (filter (row_exact q) rows, filter (row_collides q) rows)"

definition row_mismatches :: "history_query \<Rightarrow> entry \<Rightarrow> identity_reason list" where
  "row_mismatches q h =
     (if ac_run_id (en_cmd h) \<noteq> hq_run_id q then [RunIdMismatch] else []) @
     (if ac_operation_id (en_cmd h) \<noteq> hq_operation_id q then [OperationIdMismatch] else []) @
     (if ac_source (en_cmd h) \<noteq> hq_source q then [SourceMismatch] else []) @
     (if ac_operation_kind (en_cmd h) \<noteq> hq_operation_kind q then [OperationKindMismatch] else []) @
     (if ac_idempotency_key (en_cmd h) \<noteq> hq_idempotency_key q then [IdempotencyKeyMismatch] else []) @
     (if ac_request_hash (en_cmd h) \<noteq> hq_request_hash q then [RequestHashMismatch] else []) @
     (if hq_selector q \<noteq> AllAuthorizations \<and> ac_attempt_no (en_cmd h) \<noteq> hq_attempt_no q
      then [AttemptNoMismatch] else [])"

text \<open>Reasons in order of first appearance.\<close>

definition add_reasons :: "identity_reason list \<Rightarrow> identity_reason list \<Rightarrow> identity_reason list" where
  "add_reasons acc rs = foldl (\<lambda>a r. if r \<in> set a then a else a @ [r]) acc rs"

definition conflict_reasons :: "history_query \<Rightarrow> entry list \<Rightarrow> entry list \<Rightarrow> identity_reason list" where
  "conflict_reasons q exact collisions =
     foldl (\<lambda>acc h. add_reasons acc (row_mismatches q h)) [] collisions @
     (if 1 < length exact \<and> 1 < length (remdups (map (\<lambda>h. ac_requirement_revision_id (en_cmd h)) exact))
      then [AcceptedRequirementRevisionMismatch] else [])"

section \<open>The validators of the answers\<close>

definition opt_positive :: "int option \<Rightarrow> bool" where
  "opt_positive x = (case x of None \<Rightarrow> True | Some n \<Rightarrow> positive_json n)"

definition available_bounds_ok :: "int option \<Rightarrow> int option \<Rightarrow> bool" where
  "available_bounds_ok oldest newest \<longleftrightarrow> opt_positive oldest \<and> opt_positive newest \<and>
     (case (oldest, newest) of (Some a, Some b) \<Rightarrow> a \<le> b | _ \<Rightarrow> True)"

definition complete_coverage_ok :: "history_query \<Rightarrow> int \<Rightarrow> int \<Rightarrow> bool" where
  "complete_coverage_ok q oldest newest \<longleftrightarrow> positive_json oldest \<and> positive_json newest \<and>
     oldest \<le> hq_first q \<and> hq_first q \<le> hq_last q \<and> hq_last q \<le> newest"

definition matched_facts_ok :: "history_query \<Rightarrow> entry list \<Rightarrow> int \<Rightarrow> bool" where
  "matched_facts_ok q fs newest \<longleftrightarrow>
     (let ords = map (\<lambda>f. ac_ordinal (en_cmd f)) fs;
          inc = (\<lambda>g. strictly_increasing (map (\<lambda>f. g (en_cmd f)) fs))
      in list_all valid_fact fs \<and> fs \<noteq> [] \<and> sort (remdups ords) = ords \<and>
         (case hq_selector q of ExactAuthorization n \<Rightarrow> ords = [n]
          | AllAuthorizations \<Rightarrow> ords = [1 .. int (length ords)]) \<and>
         list_all (\<lambda>f. stable_identity_matches q f \<and>
            ac_requirement_revision_id (en_cmd f) = ac_requirement_revision_id (en_cmd (hd fs)) \<and>
            hq_first q \<le> en_accepted_generation f \<and> en_accepted_generation f \<le> hq_last q \<and>
            en_generation f \<le> newest) fs \<and>
         (case hq_selector q of
            ExactAuthorization _ \<Rightarrow> ac_attempt_no (en_cmd (hd fs)) = hq_attempt_no q
          | AllAuthorizations \<Rightarrow>
              ac_attempt_no (en_cmd (last fs)) = hq_attempt_no q \<and>
              distinct (List.map_filter (\<lambda>f. ac_retry_ref (en_cmd f)) fs) \<and>
              inc ac_attempt_no \<and> inc ac_intent_revision \<and> inc ac_expected_ledger \<and>
              inc ac_expected_reconciliation))"

definition unavailable_ok ::
  "history_query \<Rightarrow> history_reason \<Rightarrow> int option \<Rightarrow> int option \<Rightarrow> bool" where
  "unavailable_ok q reason oldest newest \<longleftrightarrow> valid_query q \<and> available_bounds_ok oldest newest \<and>
     \<not> (reason = UnknownGeneration \<and> (case newest of None \<Rightarrow> False | Some n \<Rightarrow> hq_last q \<le> n))"

definition unavailable ::
  "history_query \<Rightarrow> history_reason \<Rightarrow> int option \<Rightarrow> int option \<Rightarrow> query_error + history_answer" where
  "unavailable q reason oldest newest =
     (if unavailable_ok q reason oldest newest
      then Inr (HistoryUnavailable reason oldest newest) else Inl AnswerInvalid)"

section \<open>The query\<close>

definition history_query_answer ::
  "(string \<Rightarrow> string) \<Rightarrow> journal \<Rightarrow> history_query \<Rightarrow> query_error + history_answer" where
  "history_query_answer sha j q =
     (if \<not> journal_readable sha j then unavailable q HistoryCorrupt None None
      else
        let (oldest, newest) = generation_bounds j;
            rows = filter (\<lambda>h. hq_first q \<le> en_accepted_generation h \<and>
                               en_accepted_generation h \<le> hq_last q) (sort_key head_key (jn_heads j));
            (exact, collisions) = partition_rows q rows;
            reasons = conflict_reasons q exact collisions
        in if reasons \<noteq> []
           then (if valid_query q \<and> distinct reasons \<and> available_bounds_ok oldest newest
                 then Inr (HistoryConflict reasons oldest newest) else Inl AnswerInvalid)
           else
             (case coverage_failure j q oldest newest of
                Some reason \<Rightarrow> unavailable q reason oldest newest
              | None \<Rightarrow>
                  (case (oldest, newest) of
                     (Some a, Some b) \<Rightarrow>
                       if exact = []
                       then (if valid_query q \<and> complete_coverage_ok q a b
                             then Inr (HistoryNotFound a b) else Inl AnswerInvalid)
                       else if valid_query q \<and> complete_coverage_ok q a b \<and> matched_facts_ok q exact b
                       then Inr (HistoryMatched exact a b)
                       else unavailable q HistoryCorrupt oldest newest
                   | _ \<Rightarrow> Inl AnswerInvalid)))"

section \<open>Coverage of the journals the sidecar writes\<close>

text \<open>The sidecar marks every generation it starts as retained and complete, and never takes it back.\<close>

definition all_retained :: "journal \<Rightarrow> bool" where
  "all_retained j \<longleftrightarrow> list_all (\<lambda>g. gn_retained g = 1 \<and> gn_complete g = 1) (jn_generations j)"

interpretation retained_store: txn_system "journal_step sha" "\<lambda>j. journal_inv sha j \<and> all_retained j"
  for sha
proof (unfold_locales, goal_cases)
  case (1 s a s' r)
  then have "journal_evolves sha s s'" "journal_inv sha s'" using journal_step_evolves by blast+
  with 1 show ?case
    by (auto simp: journal_evolves_def all_retained_def dest!: start_generation_InrD)
qed

lemma reachable_retained: "all_retained (journal_run sha empty_journal ops)"
  using retained_store.run_inv[of sha empty_journal ops] empty_journal_inv
  by (auto simp: all_retained_def empty_journal_def)

lemma journal_generations:
  assumes "journal_inv sha j"
  shows "0 \<le> jn_last_generation j" "map gn_generation (jn_generations j) = [1 .. jn_last_generation j]"
  using assms unfolding journal_inv_def by blast+

lemma generation_mem:
  "journal_inv sha j \<Longrightarrow> gn_generation ` set (jn_generations j) = {1 .. jn_last_generation j}"
  using arg_cong[OF journal_generations(2), of sha j set] by simp

lemma written_bounds:
  assumes inv: "journal_inv sha j" and ret: "all_retained j"
  shows "generation_bounds j =
    (if jn_last_generation j = 0 then (None, None) else (Some 1, Some (jn_last_generation j)))"
proof (cases "jn_last_generation j = 0")
  case True
  then have "jn_generations j = []" using journal_generations[OF inv] by simp
  then show ?thesis using True by (simp add: generation_bounds_def)
next
  case False
  then have pos: "1 \<le> jn_last_generation j" using journal_generations(1)[OF inv] by simp
  note mem = generation_mem[OF inv]
  have ne: "jn_generations j \<noteq> []" using mem pos by auto
  have all: "filter (\<lambda>g. gn_retained g = 1) (jn_generations j) = jn_generations j"
    using ret by (simp add: all_retained_def filter_id_conv list_all_iff)
  obtain a where a: "max_by (\<lambda>g. - gn_generation g) (jn_generations j) = Some a"
    using ne by (meson max_by_None not_None_eq)
  obtain b where b: "max_by gn_generation (jn_generations j) = Some b"
    using ne by (meson max_by_None not_None_eq)
  have range: "1 \<le> gn_generation g \<and> gn_generation g \<le> jn_last_generation j" if "g \<in> set (jn_generations j)" for g
    using mem that by auto
  have "1 \<in> gn_generation ` set (jn_generations j)" "jn_last_generation j \<in> gn_generation ` set (jn_generations j)"
    using mem pos by auto
  then have "gn_generation a = 1 \<and> gn_generation b = jn_last_generation j"
    using max_by_SomeD[OF a] max_by_SomeD[OF b] range by (auto intro!: antisym)
  then show ?thesis using False a b by (simp add: generation_bounds_def all)
qed

lemma retained_run_upto:
  "map gn_generation gs = [m + 1 .. n] \<Longrightarrow> list_all (\<lambda>g. gn_retained g = 1) gs \<Longrightarrow> retained_run m gs"
proof (induction gs arbitrary: m)
  case Nil
  then show ?case by simp
next
  case (Cons g gs)
  have "m + 1 \<le> n" using Cons.prems(1) by (cases "m + 1 \<le> n") auto
  then have "[m + 1 .. n] = (m + 1) # [m + 1 + 1 .. n]" by (rule upto_rec1)
  with Cons.prems(1) have "gn_generation g = m + 1" "map gn_generation gs = [gn_generation g + 1 .. n]" by auto
  with Cons.IH Cons.prems(2) show ?case by auto
qed

lemma filter_upto:
  assumes "a \<le> b" "1 \<le> a" "b \<le> n"
  shows "filter (\<lambda>g. a \<le> g \<and> g \<le> b) [1 .. n] = [a .. (b :: int)]"
proof -
  have "[1 .. n] = [1 .. a - 1] @ [a .. b] @ [b + 1 .. n]"
    using upto_split1[of 1 a n] upto_split2[of a b n] assms by simp
  moreover have "filter (\<lambda>g. a \<le> g \<and> g \<le> b) [1 .. a - 1] = []" "filter (\<lambda>g. a \<le> g \<and> g \<le> b) [b + 1 .. n] = []"
    "filter (\<lambda>g. a \<le> g \<and> g \<le> b) [a .. b] = [a .. b]"
    by (auto simp: filter_empty_conv filter_id_conv)
  ultimately show ?thesis by simp
qed

lemma written_coverage:
  assumes inv: "journal_inv sha j" and ret: "all_retained j" and q: "valid_query q"
    and b: "generation_bounds j = (oldest, newest)"
  shows "coverage_failure j q oldest newest =
    (if jn_last_generation j < hq_last q then Some UnknownGeneration else None)"
proof (cases "jn_last_generation j < hq_last q")
  case True
  then show ?thesis using b written_bounds[OF inv ret]
    by (auto simp: coverage_failure_def split: if_splits)
next
  case False
  have f: "1 \<le> hq_first q" "hq_first q \<le> hq_last q" using q by (auto simp: valid_query_def positive_json_def)
  then have bounds: "oldest = Some 1" "newest = Some (jn_last_generation j)"
    using False b written_bounds[OF inv ret] by (auto split: if_splits)
  let ?p = "\<lambda>g. hq_first q \<le> gn_generation g \<and> gn_generation g \<le> hq_last q"
  let ?rows = "filter ?p (jn_generations j)"
  have m: "map gn_generation ?rows = [hq_first q .. hq_last q]"
    using filter_upto[OF f(2,1), of "jn_last_generation j"] False journal_generations(2)[OF inv]
    by (metis (no_types, lifting) filter_cong filter_map not_less o_apply)
  then have s: "sort_key gn_generation ?rows = ?rows" by (simp add: sort_key_id_if_sorted)
  have "length (map gn_generation ?rows) = nat (hq_last q - hq_first q + 1)" unfolding m by simp
  then have len: "int (length ?rows) = hq_last q - hq_first q + 1" using f by simp
  have ok: "list_all (\<lambda>g. gn_retained g = 1) ?rows" "list_all (\<lambda>g. gn_complete g = 1) ?rows"
    using ret by (auto simp: all_retained_def list_all_iff)
  have "retained_run (hq_first q - 1) ?rows" using retained_run_upto[of ?rows "hq_first q - 1"] m ok by simp
  then show ?thesis using False f bounds len ok(2) s
    by (simp add: coverage_failure_def Let_def list_ex_iff list_all_iff)
qed

section \<open>Matches and collisions\<close>

definition in_range :: "history_query \<Rightarrow> entry \<Rightarrow> bool" where
  "in_range q h \<longleftrightarrow> hq_first q \<le> en_accepted_generation h \<and> en_accepted_generation h \<le> hq_last q"

lemma head_alias:
  "journal_inv sha j \<Longrightarrow> h \<in> set (jn_heads j) \<Longrightarrow> h' \<in> set (jn_heads j) \<Longrightarrow>
   alias_pair (en_cmd h) (en_cmd h')"
  using journal_invD(4)[of sha j] by (auto simp: aliases_ok_def)

text \<open>Beside a matching row there is no colliding one: the aliases of the heads exclude it.\<close>

lemma match_excludes_collision:
  assumes inv: "journal_inv sha j" and h: "h \<in> set (jn_heads j)" "row_exact q h" and c: "c \<in> set (jn_heads j)"
  shows "\<not> row_collides q c"
proof
  assume col: "row_collides q c"
  note al = head_alias[OF inv c h(1)]
  have hq: "ac_run_id (en_cmd h) = hq_run_id q" "ac_operation_id (en_cmd h) = hq_operation_id q"
      "ac_idempotency_key (en_cmd h) = hq_idempotency_key q"
    using h(2) by (auto simp: row_exact_def stable_identity_matches_def)
  then have "same_operation (en_cmd c) (en_cmd h) \<or> shared_key (en_cmd c) (en_cmd h)"
    using col by (auto simp: row_collides_def same_operation_def shared_key_def)
  then have same: "same_operation (en_cmd c) (en_cmd h)" using al by (auto simp: alias_pair_def)
  then have "command_identity (en_cmd c) = command_identity (en_cmd h)" using al by (simp add: alias_pair_def)
  with same h(2) have stable: "stable_identity_matches q c"
    by (simp add: row_exact_def stable_identity_matches_def same_operation_def command_identity_def)
  show False
  proof (cases "hq_selector q")
    case (ExactAuthorization k)
    then have "ordinal_matches q c" using col stable by (auto simp: row_collides_def)
    then have "head_key c = head_key h"
      using same h(2) ExactAuthorization
      by (simp add: head_key_def row_exact_def ordinal_matches_def same_operation_def)
    then have "c = h" using distinct_key_eq[OF journal_invD(1)[OF inv] c h(1)] by blast
    with col h(2) show False by (simp add: row_collides_def)
  next
    case AllAuthorizations
    with stable col show False
      by (simp add: row_collides_def row_exact_def ordinal_matches_def attempt_matches_def)
  qed
qed

lemma collision_has_reason: "row_collides q c \<Longrightarrow> row_mismatches q c \<noteq> []"
  by (auto simp: row_collides_def row_mismatches_def row_exact_def stable_identity_matches_def
      ordinal_matches_def attempt_matches_def split: selector.splits if_splits)

lemma add_reasons_distinct: "distinct acc \<Longrightarrow> distinct (add_reasons acc rs)"
  unfolding add_reasons_def by (induction rs arbitrary: acc) auto

lemma add_reasons_set: "set (add_reasons acc rs) = set acc \<union> set rs"
  unfolding add_reasons_def by (induction rs arbitrary: acc) auto

lemma folded_reasons_distinct:
  "distinct acc \<Longrightarrow> distinct (foldl (\<lambda>acc h. add_reasons acc (row_mismatches q h)) acc cs)"
  by (induction cs arbitrary: acc) (simp_all add: add_reasons_distinct)

lemma folded_reasons_set:
  "set (foldl (\<lambda>acc h. add_reasons acc (row_mismatches q h)) acc cs) =
   set acc \<union> (\<Union>c \<in> set cs. set (row_mismatches q c))"
  by (induction cs arbitrary: acc) (auto simp: add_reasons_set)

lemma requirement_not_mismatched: "AcceptedRequirementRevisionMismatch \<notin> set (row_mismatches q c)"
  by (simp add: row_mismatches_def)

lemma conflict_reasons_distinct: "distinct (conflict_reasons q es cs)"
  using folded_reasons_distinct[of "[]" q cs] folded_reasons_set[of q "[]" cs] requirement_not_mismatched[of q]
  by (auto simp: conflict_reasons_def)

lemma exact_same_operation:
  assumes "journal_inv sha j" "set es \<subseteq> set (jn_heads j)" "\<And>h. h \<in> set es \<Longrightarrow> row_exact q h"
  shows "length (remdups (map (\<lambda>h. ac_requirement_revision_id (en_cmd h)) es)) \<le> 1"
proof (cases es)
  case (Cons a as)
  have "ac_requirement_revision_id (en_cmd h) = ac_requirement_revision_id (en_cmd a)" if "h \<in> set es" for h
  proof -
    have "same_operation (en_cmd h) (en_cmd a)"
      using assms(3)[OF that] assms(3)[of a] Cons
      by (simp add: row_exact_def stable_identity_matches_def same_operation_def)
    moreover have "alias_pair (en_cmd h) (en_cmd a)"
      using head_alias[OF assms(1)] assms(2) that Cons by (meson list.set_intros(1) subsetD)
    ultimately show ?thesis by (simp add: alias_pair_def command_identity_def)
  qed
  then have "set (map (\<lambda>h. ac_requirement_revision_id (en_cmd h)) es) \<subseteq> {ac_requirement_revision_id (en_cmd a)}"
    by auto
  then have "card (set (map (\<lambda>h. ac_requirement_revision_id (en_cmd h)) es)) \<le> 1"
    using card_mono[of "{ac_requirement_revision_id (en_cmd a)}"] by fastforce
  then show ?thesis by (simp add: length_remdups_card_conv)
qed simp

lemma no_reasons_iff:
  assumes "journal_inv sha j" "set es \<subseteq> set (jn_heads j)" "\<And>h. h \<in> set es \<Longrightarrow> row_exact q h"
    "\<And>c. c \<in> set cs \<Longrightarrow> row_collides q c"
  shows "conflict_reasons q es cs = [] \<longleftrightarrow> cs = []"
proof -
  have f: "set (foldl (\<lambda>acc h. add_reasons acc (row_mismatches q h)) [] cs) = {} \<longleftrightarrow> cs = []"
    unfolding folded_reasons_set using collision_has_reason[OF assms(4)] by (cases cs) auto
  show ?thesis
    using f exact_same_operation[OF assms(1-3)] by (auto simp: conflict_reasons_def)
qed

text \<open>The rows of the query, as sets of heads.\<close>

definition query_rows :: "journal \<Rightarrow> history_query \<Rightarrow> entry list" where
  "query_rows j q = filter (in_range q) (sort_key head_key (jn_heads j))"

lemma query_rows_set: "set (query_rows j q) = {h \<in> set (jn_heads j). in_range q h}"
  by (auto simp: query_rows_def)

text \<open>The answer on a journal the sidecar wrote, with the validators that cannot fail left out.\<close>

lemma written_answer:
  assumes inv: "journal_inv sha j" and ret: "all_retained j" and num: "numbered j"
    and safe: "jn_last_generation j \<le> JSON_SAFE_INTEGER" and q: "valid_query q"
  shows "history_query_answer sha j q =
    (let es = filter (row_exact q) (query_rows j q); cs = filter (row_collides q) (query_rows j q);
         b = generation_bounds j; n = jn_last_generation j
     in if cs \<noteq> [] then Inr (HistoryConflict (conflict_reasons q es cs) (fst b) (snd b))
        else if n < hq_last q then Inr (HistoryUnavailable UnknownGeneration (fst b) (snd b))
        else if es = [] then Inr (HistoryNotFound 1 n)
        else if matched_facts_ok q es n then Inr (HistoryMatched es 1 n)
        else Inr (HistoryUnavailable HistoryCorrupt (Some 1) (Some n)))"
proof -
  define es where "es = filter (row_exact q) (query_rows j q)"
  define cs where "cs = filter (row_collides q) (query_rows j q)"
  obtain a b where ab: "generation_bounds j = (a, b)" by (cases "generation_bounds j")
  have rows: "filter (\<lambda>h. hq_first q \<le> en_accepted_generation h \<and> en_accepted_generation h \<le> hq_last q)
      (sort_key head_key (jn_heads j)) = query_rows j q"
    by (simp add: query_rows_def in_range_def[abs_def])
  have "es = filter (row_exact q) (query_rows j q) \<Longrightarrow> set es \<subseteq> set (jn_heads j)"
    using query_rows_set[of j q] by auto
  then have reasons: "conflict_reasons q es cs = [] \<longleftrightarrow> cs = []"
    by (intro no_reasons_iff[OF inv]) (auto simp: es_def cs_def)
  have avail: "available_bounds_ok a b"
    using ab written_bounds[OF inv ret] journal_generations(1)[OF inv] safe
    by (auto simp: available_bounds_ok_def opt_positive_def positive_json_def JSON_SAFE_INTEGER_def split: if_splits)
  have f: "1 \<le> hq_first q" "hq_first q \<le> hq_last q" using q by (auto simp: valid_query_def positive_json_def)
  have full: "a = Some 1 \<and> b = Some (jn_last_generation j) \<and> complete_coverage_ok q 1 (jn_last_generation j)"
    if "\<not> jn_last_generation j < hq_last q"
    using that ab written_bounds[OF inv ret] f safe
    by (auto simp: complete_coverage_ok_def positive_json_def JSON_SAFE_INTEGER_def split: if_splits)
  have unknown: "unavailable q UnknownGeneration a b = Inr (HistoryUnavailable UnknownGeneration a b)"
    if "jn_last_generation j < hq_last q"
    using that ab written_bounds[OF inv ret] q avail by (auto simp: unavailable_def unavailable_ok_def split: if_splits)
  have corrupt: "unavailable q HistoryCorrupt (Some 1) (Some (jn_last_generation j)) =
      Inr (HistoryUnavailable HistoryCorrupt (Some 1) (Some (jn_last_generation j)))"
    if "\<not> jn_last_generation j < hq_last q"
    using q avail full[OF that] by (simp add: unavailable_def unavailable_ok_def)
  have readable: "journal_readable sha j" using numbered_readable[OF inv] num by simp
  have cov: "coverage_failure j q a b = (if jn_last_generation j < hq_last q then Some UnknownGeneration else None)"
    by (rule written_coverage[OF inv ret q ab])
  show ?thesis
    unfolding history_query_answer_def Let_def rows partition_rows_def ab prod.case fst_conv snd_conv
      es_def[symmetric] cs_def[symmetric] cov
    using readable reasons conflict_reasons_distinct[of q es cs] q avail full unknown corrupt
    by (simp split: if_splits)
qed

section \<open>The facts of a match\<close>

lemma query_rows_distinct: "journal_inv sha j \<Longrightarrow> distinct (map head_key (query_rows j q))"
proof -
  assume inv: "journal_inv sha j"
  have "inj_on head_key (set (jn_heads j))" "distinct (jn_heads j)"
    using journal_invD(1)[OF inv] by (simp_all add: distinct_map)
  then show ?thesis by (auto simp: query_rows_def distinct_map intro: inj_on_subset)
qed

lemma head_generations:
  assumes "journal_inv sha j" "h \<in> set (jn_heads j)"
  shows "valid_fact h" "en_generation h \<le> jn_last_generation j" "1 \<le> en_accepted_generation h"
    "en_accepted_generation h \<le> en_generation h"
proof -
  show v: "valid_fact h" and "en_generation h \<le> jn_last_generation j"
    using journal_invD(3)[OF assms] by (simp_all add: head_inv_def)
  have "accepted_fact_base h"
    using v by (cases "en_phase h")
      (simp_all add: valid_fact_def accepted_fact_def dispatch_fact_def observed_fact_def dispatched_fact_base_def)
  then show "1 \<le> en_accepted_generation h" "en_accepted_generation h \<le> en_generation h"
    by (simp_all add: accepted_fact_base_def positive_json_def)
qed

lemma exact_rows_single:
  assumes inv: "journal_inv sha j" and sel: "hq_selector q = ExactAuthorization k"
    and h: "h \<in> set (jn_heads j)" "in_range q h" "row_exact q h"
  shows "filter (row_exact q) (query_rows j q) = [h]" (is "?es = _")
proof -
  have mem: "h \<in> set ?es" using h query_rows_set[of j q] by simp
  have "x = h" if "x \<in> set ?es" for x
  proof -
    have "head_key x = head_key h"
      using that h(3) sel by (auto simp: row_exact_def ordinal_matches_def stable_identity_matches_def head_key_def)
    then show ?thesis
      using that h(1) distinct_key_eq[OF journal_invD(1)[OF inv], of x h] query_rows_set[of j q] by auto
  qed
  moreover have "distinct ?es" using query_rows_distinct[OF inv, of q] by (simp add: distinct_map)
  ultimately show ?thesis using mem by (intro single_list)
qed

lemma exact_match_valid:
  assumes inv: "journal_inv sha j" and sel: "hq_selector q = ExactAuthorization k"
    and h: "h \<in> set (jn_heads j)" "in_range q h" "row_exact q h"
  shows "matched_facts_ok q [h] (jn_last_generation j)"
  using head_generations[OF inv h(1)] h(2,3) sel
  by (simp add: matched_facts_ok_def row_exact_def in_range_def ordinal_matches_def attempt_matches_def)

lemma whole_history:
  assumes inv: "journal_inv sha j" and sel: "hq_selector q = AllAuthorizations"
    and range: "hq_first q = 1" "hq_last q = jn_last_generation j"
    and h: "h \<in> set (jn_heads j)" "stable_identity_matches q h"
  shows "filter (row_exact q) (query_rows j q) = operation_history j (hq_run_id q, hq_operation_id q)"
proof -
  have r: "in_range q x" if "x \<in> set (jn_heads j)" for x
    using head_generations[OF inv that] range by (simp add: in_range_def)
  have "row_exact q x \<longleftrightarrow> (ac_run_id (en_cmd x), ac_operation_id (en_cmd x)) = (hq_run_id q, hq_operation_id q)"
    if x: "x \<in> set (jn_heads j)" for x
  proof -
    have "command_identity (en_cmd x) = command_identity (en_cmd h)"
      if "same_operation (en_cmd x) (en_cmd h)"
      using head_alias[OF inv x h(1)] that by (simp add: alias_pair_def)
    then show ?thesis
      using h(2) sel by (auto simp: row_exact_def ordinal_matches_def attempt_matches_def
          stable_identity_matches_def same_operation_def command_identity_def)
  qed
  then show ?thesis
    using r by (auto simp: query_rows_def operation_history_def intro!: filter_cong)
qed

lemma whole_history_valid:
  assumes inv: "journal_inv sha j" and num: "numbered j" and sel: "hq_selector q = AllAuthorizations"
    and range: "hq_first q = 1" "hq_last q = jn_last_generation j"
    and h: "h \<in> set (jn_heads j)" "stable_identity_matches q h"
    and hist: "hist = operation_history j (hq_run_id q, hq_operation_id q)"
  shows "matched_facts_ok q hist (jn_last_generation j) \<longleftrightarrow> ac_attempt_no (en_cmd (last hist)) = hq_attempt_no q"
proof -
  have id: "(ac_run_id (en_cmd h), ac_operation_id (en_cmd h)) = (hq_run_id q, hq_operation_id q)"
    using h(2) by (simp add: stable_identity_matches_def)
  have "journal_readable sha j" using numbered_readable[OF inv] num by simp
  then have ok: "authorization_history_ok hist"
    using h(1) id by (auto simp: journal_readable_def history_facts_valid_def list_all_iff hist)
  have mem: "h \<in> set hist" using h(1) id by (simp add: hist operation_history_def)
  have es: "filter (row_exact q) (query_rows j q) = hist"
    unfolding hist by (rule whole_history[OF inv sel range h])
  have rows: "x \<in> set (jn_heads j) \<and> in_range q x \<and> row_exact q x" if "x \<in> set hist" for x
    using that query_rows_set[of j q] unfolding es[symmetric] by simp
  have facts: "list_all (\<lambda>f. stable_identity_matches q f \<and>
      ac_requirement_revision_id (en_cmd f) = ac_requirement_revision_id (en_cmd (hd hist)) \<and>
      hq_first q \<le> en_accepted_generation f \<and> en_accepted_generation f \<le> hq_last q \<and>
      en_generation f \<le> jn_last_generation j) hist"
    using rows ok head_generations(2)[OF inv]
    by (auto simp: list_all_iff row_exact_def in_range_def authorization_history_ok_def logical_identity_def
        command_identity_def)
  have valid: "list_all valid_fact hist" using rows head_generations(1)[OF inv] by (auto simp: list_all_iff)
  have ords: "map (\<lambda>f. ac_ordinal (en_cmd f)) hist = [1 .. int (length hist)]"
    using ok by (simp add: authorization_history_ok_def)
  have ne: "hist \<noteq> []" using mem by auto
  show ?thesis
    using facts valid ok ne sel unfolding matched_facts_ok_def Let_def ords
    by (auto simp: authorization_history_ok_def distinct_remdups_id sorted_sort_id)
qed

section \<open>What later calls cannot change\<close>

text \<open>Once a newer generation has started, the events of a key are final.\<close>

lemma old_key_step:
  assumes inv: "journal_inv sha j" and s: "journal_step sha j c = Inr (j', r)"
    and h: "h \<in> set (jn_heads j)" "en_generation h < jn_last_generation j"
  shows "h \<in> set (jn_heads j') \<and>
    filter (\<lambda>e. head_key e = head_key h) (jn_events j') = filter (\<lambda>e. head_key e = head_key h) (jn_events j)"
proof -
  have "journal_evolves sha j j'" using journal_step_evolves[OF inv s] by blast
  then consider "j' = j" | inst g where "start_generation sha j inst = Inr (j', g)"
    | e where "appendable sha j e" "j' = append_entry e j" by (auto simp: journal_evolves_def)
  then show ?thesis
  proof cases
    case 1
    then show ?thesis using h by simp
  next
    case 2
    then show ?thesis using h by (auto dest!: start_generation_InrD)
  next
    case (3 e)
    have "head_key e \<noteq> head_key h"
    proof
      assume key: "head_key e = head_key h"
      let ?es = "filter (\<lambda>x. head_key x = head_key h) (jn_events j)"
      have t: "trace sha (?es @ [e]) e" using 3(1) key by (simp add: appendable_def)
      have th: "trace sha ?es h" by (rule head_traceD[OF inv h(1)])
      have "h \<in> set ?es" using trace_last[OF th] by (metis last_in_set)
      then have "en_generation h \<in> set (map en_generation (?es @ [e]))" by auto
      then have "en_generation h = en_generation e" unfolding trace_generations[OF t] by simp
      then show False using 3(1) h(2) by (simp add: appendable_def)
    qed
    then show ?thesis using h(1) 3(2) by (force simp: apply_event_def set_update_where)
  qed
qed

lemma old_key_run:
  assumes inv: "journal_inv sha j" and h: "h \<in> set (jn_heads j)" "en_generation h < jn_last_generation j"
  shows "h \<in> set (jn_heads (journal_run sha j ops)) \<and>
    filter (\<lambda>e. head_key e = head_key h) (jn_events (journal_run sha j ops)) =
    filter (\<lambda>e. head_key e = head_key h) (jn_events j)"
  using assms
proof (induction ops arbitrary: j)
  case Nil
  then show ?case by simp
next
  case (Cons c ops)
  show ?case
  proof (cases "journal_step sha j c")
    case (Inl e)
    with Cons show ?thesis by simp
  next
    case (Inr p)
    obtain j' r where p: "p = (j', r)" by (cases p)
    with Inr have s: "journal_step sha j c = Inr (j', r)" by simp
    have "journal_inv sha j'" "jn_last_generation j \<le> jn_last_generation j'"
      using journal_step_evolves[OF Cons.prems(1) s] journal_store.step_token_mono[OF Cons.prems(1) s] by auto
    then show ?thesis
      using Cons.IH[of j'] old_key_step[OF Cons.prems(1) s Cons.prems(2,3)] Cons.prems(3) s by auto
  qed
qed

section \<open>Properties\<close>

text \<open>A concrete query over the first generation, for the first authorization of the demo command.\<close>

definition demo_query :: "selector \<Rightarrow> history_query" where
  "demo_query sel = \<lparr>hq_run_id = ''r1'', hq_operation_id = ''op1'', hq_source = ''liepin'',
     hq_operation_kind = ''cards'', hq_idempotency_key = ''key1'', hq_request_hash = demo_hex CHR ''a'',
     hq_attempt_no = 1, hq_selector = sel, hq_hint = None, hq_first = 1, hq_last = 1,
     hq_expected_ledger = 1, hq_expected_reconciliation = 0\<rparr>"

text \<open>An accepted command that was never dispatched, and a newer generation.\<close>

definition demo_orphan :: "journal_call list" where
  "demo_orphan = take 2 demo_ops @ [StartGeneration (demo_hex CHR ''1'')]"

lemma demo_run_inv:
  "journal_inv demo_sha (journal_run demo_sha empty_journal ops) \<and>
   all_retained (journal_run demo_sha empty_journal ops)"
  using reachable_inv reachable_retained by blast



text \<open>
  C29: A safe retry rests on this: when a query answers that a command was accepted and not
  dispatched, and a newer generation has started since, then no later call of any sidecar ever
  dispatches it. Its acceptance stays its only event.
\<close>

theorem no_dispatch_is_final:
  assumes "journal_inv sha j" "history_query_answer sha j q = Inr (HistoryMatched fs old new)"
    "f \<in> set fs" "en_phase f = Accepted" "en_accepted_generation f < jn_last_generation j"
  shows "filter (\<lambda>e. head_key e = head_key f) (jn_events (journal_run sha j ops)) = [f]"
proof -
  have f: "f \<in> set (jn_heads j)"
    using assms(2,3) by (auto simp: history_query_answer_def Let_def partition_rows_def unavailable_def
        split: if_splits option.splits prod.splits)
  have t: "trace sha (filter (\<lambda>e. head_key e = head_key f) (jn_events j)) f" by (rule head_traceD[OF assms(1) f])
  from trace_accepted_shape[OF t assms(4)] have only: "filter (\<lambda>e. head_key e = head_key f) (jn_events j) = [f]"
    and "en_generation f = en_accepted_generation f" by (auto simp: accepted_entry_def)
  then have "en_generation f < jn_last_generation j" using assms(5) by simp
  from old_key_run[OF assms(1) f this] only show ?thesis by simp
qed

theorem no_dispatch_is_final_witness:
  "\<exists>f. head_key f = (''r1'', ''op1'', 1) \<and> (\<forall>ops. filter (\<lambda>e. head_key e = head_key f)
     (jn_events (journal_run demo_sha (journal_run demo_sha empty_journal demo_orphan) ops)) = [f])"
proof -
  let ?j = "journal_run demo_sha empty_journal demo_orphan"
  define x where "x = history_query_answer demo_sha ?j (demo_query (ExactAuthorization 1))"
  have "case history_query_answer demo_sha ?j (demo_query (ExactAuthorization 1)) of
      Inr (HistoryMatched [f] _ _) \<Rightarrow> en_phase f = Accepted \<and>
        en_accepted_generation f < jn_last_generation ?j \<and> head_key f = (''r1'', ''op1'', 1)
    | _ \<Rightarrow> False"
    by code_simp
  then obtain f old new where "x = Inr (HistoryMatched [f] old new)" and f: "en_phase f = Accepted"
    "en_accepted_generation f < jn_last_generation ?j" "head_key f = (''r1'', ''op1'', 1)"
    unfolding x_def[symmetric] by (auto split: sum.split_asm history_answer.split_asm list.split_asm)
  then have s: "history_query_answer demo_sha ?j (demo_query (ExactAuthorization 1)) =
      Inr (HistoryMatched [f] old new)" by (simp only: x_def)
  from no_dispatch_is_final[OF reachable_inv s _ f(1,2)] f(3) show ?thesis by auto
qed

lemma accepted_generation_kept:
  assumes "journal_inv sha j" "e \<in> set (jn_events j)"
  shows "\<exists>h \<in> set (jn_heads j). head_key h = head_key e \<and> en_accepted_generation h = en_accepted_generation e"
proof -
  have "head_key e \<in> head_key ` set (jn_heads j)"
    using assms(2) journal_invD(2)[OF assms(1)] replay_keys[of "jn_events j"] by auto
  then obtain h where h: "h \<in> set (jn_heads j)" "head_key h = head_key e" by auto
  from trace_group[OF head_traceD[OF assms(1) h(1)]] h(2) assms(2)
  have "immutable_columns e = immutable_columns h" by (auto simp: group_consistent_def list_all_iff)
  with h show ?thesis by (auto simp: immutable_columns_def)
qed

text \<open>What a call adds is accepted in the newest generation or belongs to a key that was there.\<close>

lemma event_of_step:
  assumes inv: "journal_inv sha j" and s: "journal_step sha j c = Inr (j', r)" and e: "e \<in> set (jn_events j')"
  shows "jn_last_generation j \<le> en_accepted_generation e \<or>
    (\<exists>x \<in> set (jn_events j). head_key x = head_key e \<and> en_accepted_generation x = en_accepted_generation e)"
proof -
  have inv': "journal_inv sha j'" and ev: "journal_evolves sha j j'" using journal_step_evolves[OF inv s] by blast+
  show ?thesis
  proof (cases "e \<in> set (jn_events j)")
    case True
    then show ?thesis by blast
  next
    case False
    then have a: "appendable sha j e" using ev e by (auto simp: journal_evolves_def dest!: start_generation_InrD)
    let ?es = "filter (\<lambda>x. head_key x = head_key e) (jn_events j)"
    have t: "trace sha (?es @ [e]) e" using a by (simp add: appendable_def)
    have imm: "immutable_columns x = immutable_columns e" if "x \<in> set (?es @ [e])" for x
      using trace_group[OF t] that unfolding group_consistent_def list_all_iff by blast
    show ?thesis
    proof (cases "?es = []")
      case True
      have "en_accepted_generation e = en_generation e"
        using trace_group[OF t] True by (simp add: group_consistent_def)
      then show ?thesis using a by (simp add: appendable_def)
    next
      case False
      then have "hd ?es \<in> set ?es" by (rule hd_in_set)
      with imm[of "hd ?es"] show ?thesis by (auto simp: immutable_columns_def)
    qed
  qed
qed

lemma event_of_run:
  assumes "journal_inv sha j" "e \<in> set (jn_events (journal_run sha j ops))"
  shows "jn_last_generation j \<le> en_accepted_generation e \<or>
    (\<exists>x \<in> set (jn_events j). head_key x = head_key e \<and> en_accepted_generation x = en_accepted_generation e)"
  using assms
proof (induction ops arbitrary: j)
  case Nil
  then show ?case by auto
next
  case (Cons c ops)
  show ?case
  proof (cases "journal_step sha j c")
    case (Inl e)
    with Cons show ?thesis by simp
  next
    case (Inr p)
    obtain j' r where p: "p = (j', r)" by (cases p)
    with Inr have s: "journal_step sha j c = Inr (j', r)" by simp
    have inv': "journal_inv sha j'" and le: "jn_last_generation j \<le> jn_last_generation j'"
      using journal_step_evolves[OF Cons.prems(1) s] journal_store.step_token_mono[OF Cons.prems(1) s] by auto
    from Cons.IH[OF inv'] Cons.prems(2) s consider "jn_last_generation j' \<le> en_accepted_generation e"
      | x where "x \<in> set (jn_events j')" "head_key x = head_key e"
        "en_accepted_generation x = en_accepted_generation e" by auto
    then show ?thesis
    proof cases
      case 1
      then show ?thesis using le by simp
    next
      case (2 x)
      from event_of_step[OF Cons.prems(1) s 2(1)] show ?thesis unfolding 2(2,3) .
    qed
  qed
qed

text \<open>
  Not found is final as well: once the searched generations lie before the newest one, no later
  call ever adds an event of that authorization that was accepted in them.
\<close>

theorem not_found_is_final:
  assumes "journal_inv sha j" "all_retained j" "numbered j" "jn_last_generation j \<le> JSON_SAFE_INTEGER"
    "valid_query q" "hq_selector q = ExactAuthorization k" "hq_last q < jn_last_generation j"
    "history_query_answer sha j q = Inr (HistoryNotFound old new)"
    "e \<in> set (jn_events (journal_run sha j ops))" "head_key e = (hq_run_id q, hq_operation_id q, k)"
  shows "\<not> in_range q e"
proof
  assume r: "in_range q e"
  then have "\<not> jn_last_generation j \<le> en_accepted_generation e" using assms(7) by (simp add: in_range_def)
  then obtain x where x: "x \<in> set (jn_events j)" "head_key x = head_key e"
      "en_accepted_generation x = en_accepted_generation e"
    using event_of_run[OF assms(1,9)] by blast
  then obtain h where h: "h \<in> set (jn_heads j)" "head_key h = head_key x"
      "en_accepted_generation h = en_accepted_generation x"
    using accepted_generation_kept[OF assms(1) x(1)] by blast
  define es where "es = filter (row_exact q) (query_rows j q)"
  define cs where "cs = filter (row_collides q) (query_rows j q)"
  note ans = written_answer[OF assms(1-5), folded es_def cs_def]
  have empty: "es = [] \<and> cs = []"
    using assms(8) unfolding ans by (auto simp: Let_def split: if_splits)
  have "h \<in> set (query_rows j q)" using h x r by (simp add: query_rows_set in_range_def)
  moreover have "row_exact q h \<or> row_collides q h"
    using assms(6,10) h(2) x(2) by (auto simp: head_key_def row_collides_def ordinal_matches_def)
  ultimately show False using empty by (auto simp: es_def cs_def filter_empty_conv)
qed

theorem not_found_is_final_witness:
  "list_all (\<lambda>e. \<not> (head_key e = (''r1'', ''op1'', 2) \<and> in_range (demo_query (ExactAuthorization 2)) e))
     (jn_events (journal_run demo_sha (journal_run demo_sha empty_journal demo_orphan) [StartGeneration ''i9'']))"
proof -
  let ?j = "journal_run demo_sha empty_journal demo_orphan" and ?q = "demo_query (ExactAuthorization 2)"
  have c: "numbered ?j" "jn_last_generation ?j \<le> JSON_SAFE_INTEGER" "valid_query ?q"
    "hq_selector ?q = ExactAuthorization 2" "hq_last ?q < jn_last_generation ?j" by code_simp+
  have "history_query_answer demo_sha ?j ?q = Inr (HistoryNotFound 1 2)" by code_simp
  from not_found_is_final[OF _ _ c this, of _ "[StartGeneration ''i9'']"] demo_run_inv[of demo_orphan]
  show ?thesis by (auto simp: demo_query_def list_all_iff)
qed

text \<open>
  A query for all authorizations over every generation returns the whole history of the
  operation, in order of the ordinals, when it names the newest attempt; with any other attempt
  number it is answered as corrupt, although the journal is intact.
\<close>

theorem all_authorizations_answered:
  assumes "journal_inv sha j" "all_retained j" "numbered j" "jn_last_generation j \<le> JSON_SAFE_INTEGER"
    "valid_query q" "hq_selector q = AllAuthorizations" "hq_first q = 1" "hq_last q = jn_last_generation j"
    "h \<in> set (jn_heads j)" "stable_identity_matches q h"
    "hist = operation_history j (hq_run_id q, hq_operation_id q)"
  shows "history_query_answer sha j q =
    (if ac_attempt_no (en_cmd (last hist)) = hq_attempt_no q
     then Inr (HistoryMatched hist 1 (jn_last_generation j))
     else Inr (HistoryUnavailable HistoryCorrupt (Some 1) (Some (jn_last_generation j))))"
proof -
  have es: "filter (row_exact q) (query_rows j q) = hist"
    unfolding assms(11) by (rule whole_history[OF assms(1,6-10)])
  have mem: "h \<in> set hist"
    using assms(9,10) by (simp add: assms(11) operation_history_def stable_identity_matches_def)
  then have h: "h \<in> set (query_rows j q)" "row_exact q h" unfolding es[symmetric] by simp_all
  then have "filter (row_collides q) (query_rows j q) = []"
    using match_excludes_collision[OF assms(1,9) h(2)] by (auto simp: filter_empty_conv query_rows_set)
  moreover have "hist \<noteq> []" using mem by auto
  ultimately show ?thesis
    using written_answer[OF assms(1-5)] whole_history_valid[OF assms(1,3,6-11)] es assms(8)
    by (simp add: Let_def)
qed

theorem all_authorizations_answered_witness:
  "\<exists>fs. history_query_answer demo_sha (journal_run demo_sha empty_journal (take 2 demo_ops))
     (demo_query AllAuthorizations) = Inr (HistoryMatched fs 1 1)"
proof -
  let ?j = "journal_run demo_sha empty_journal (take 2 demo_ops)" and ?q = "demo_query AllAuthorizations"
  have c: "numbered ?j" "jn_last_generation ?j \<le> JSON_SAFE_INTEGER" "valid_query ?q"
    "hq_selector ?q = AllAuthorizations" "hq_first ?q = 1" "hq_last ?q = jn_last_generation ?j" by code_simp+
  have "list_ex (stable_identity_matches ?q) (jn_heads ?j) \<and> jn_last_generation ?j = 1 \<and>
    ac_attempt_no (en_cmd (last (operation_history ?j (hq_run_id ?q, hq_operation_id ?q)))) = hq_attempt_no ?q"
    by code_simp
  then obtain h where "h \<in> set (jn_heads ?j)" "stable_identity_matches ?q h" "jn_last_generation ?j = 1"
    "ac_attempt_no (en_cmd (last (operation_history ?j (hq_run_id ?q, hq_operation_id ?q)))) = hq_attempt_no ?q"
    unfolding list_ex_iff by blast
  with all_authorizations_answered[OF _ _ c this(1,2) refl] demo_run_inv[of "take 2 demo_ops"]
  show ?thesis by simp
qed

end
