(* ===== verification/RunFsm.thy ===== *)
theory RunFsm
  imports Prelude
begin

text \<open>
  The lifecycle of a runtime run: \<open>seektalent_runtime_control/fsm.py\<close>, with the exceptions of
  \<open>errors.py\<close>. Statuses are texts in the database, so the unknown-status branch of the
  source is a branch here.
\<close>

text \<open>
  \<open>RuntimeControlError\<close> carries a reason code and a payload; \<open>RuntimeControlLookupError\<close>
  is its subclass for absent entities. The other constructors are the exceptions of the
  language and of sqlite3 that the modelled methods let through.
\<close>

datatype rc_error =
    RuntimeControlError string "(string \<times> string) list"
  | RuntimeControlLookupError string
  | PyValueError string
  | PyTypeError string
  | BrowserLaneBusyError string
  | IntegrityError

abbreviation rc_fail :: "string \<Rightarrow> rc_error + 'a" where
  "rc_fail reason \<equiv> Inl (RuntimeControlError reason [])"

abbreviation rc_lookup_fail :: "string \<Rightarrow> rc_error + 'a" where
  "rc_lookup_fail reason \<equiv> Inl (RuntimeControlLookupError reason)"

abbreviation py_fail :: "string \<Rightarrow> rc_error + 'a" where
  "py_fail message \<equiv> Inl (PyValueError message)"

datatype RunStatus =
    Queued | Starting | Running | PauseRequested | Paused | NeedsAttention
  | ResumeRequested | CancellationRequested | Cancelled | Completed | Failed

definition TERMINAL_RUN_STATUSES :: "string list" where
  "TERMINAL_RUN_STATUSES = [''cancelled'', ''completed'', ''failed'']"

definition ALLOWED_TRANSITIONS :: "(string \<times> string list) list" where
  "ALLOWED_TRANSITIONS =
    [(''queued'', [''queued'', ''starting'', ''cancellation_requested'', ''cancelled'', ''failed'']),
     (''starting'', [''starting'', ''running'', ''needs_attention'', ''cancellation_requested'',
                     ''cancelled'', ''failed'']),
     (''running'', [''running'', ''pause_requested'', ''paused'', ''resume_requested'',
                    ''needs_attention'', ''cancellation_requested'', ''cancelled'', ''completed'',
                    ''failed'']),
     (''pause_requested'', [''pause_requested'', ''paused'', ''needs_attention'',
                            ''cancellation_requested'', ''cancelled'', ''failed'']),
     (''paused'', [''paused'', ''resume_requested'', ''cancellation_requested'', ''cancelled'',
                   ''failed'']),
     (''resume_requested'', [''resume_requested'', ''starting'', ''running'', ''pause_requested'',
                             ''needs_attention'', ''cancellation_requested'', ''cancelled'',
                             ''failed'']),
     (''needs_attention'', [''needs_attention'', ''resume_requested'', ''cancelled'', ''failed'']),
     (''cancellation_requested'', [''cancellation_requested'', ''cancelled'', ''failed'']),
     (''cancelled'', [''cancelled'']),
     (''completed'', [''completed'']),
     (''failed'', [''failed''])]"

definition validate_run_transition :: "string \<Rightarrow> string \<Rightarrow> rc_error + unit" where
  "validate_run_transition current_status target_status =
     (case map_of ALLOWED_TRANSITIONS current_status of
        None \<Rightarrow> rc_fail ''runtime_run_unknown_status''
      | Some allowed \<Rightarrow>
          if target_status \<notin> fst ` set ALLOWED_TRANSITIONS
          then rc_fail ''runtime_run_unknown_status''
          else if target_status \<notin> set allowed
          then Inl (RuntimeControlError ''runtime_run_invalid_transition''
                 [(''currentStatus'', current_status), (''targetStatus'', target_status)])
          else Inr ())"

definition require_run_transition :: "string \<Rightarrow> string \<Rightarrow> rc_error + RunStatus" where
  "require_run_transition current_status target_status =
     sbind (validate_run_transition current_status target_status) (\<lambda>_.
       if target_status = ''queued'' then Inr Queued
       else if target_status = ''starting'' then Inr Starting
       else if target_status = ''running'' then Inr Running
       else if target_status = ''pause_requested'' then Inr PauseRequested
       else if target_status = ''paused'' then Inr Paused
       else if target_status = ''resume_requested'' then Inr ResumeRequested
       else if target_status = ''needs_attention'' then Inr NeedsAttention
       else if target_status = ''cancellation_requested'' then Inr CancellationRequested
       else if target_status = ''cancelled'' then Inr Cancelled
       else if target_status = ''completed'' then Inr Completed
       else if target_status = ''failed'' then Inr Failed
       else rc_fail ''runtime_run_unknown_status'')"

text \<open>The text a \<open>RunStatus\<close> literal is.\<close>

fun status_text :: "RunStatus \<Rightarrow> string" where
  "status_text Queued = ''queued''"
| "status_text Starting = ''starting''"
| "status_text Running = ''running''"
| "status_text PauseRequested = ''pause_requested''"
| "status_text Paused = ''paused''"
| "status_text NeedsAttention = ''needs_attention''"
| "status_text ResumeRequested = ''resume_requested''"
| "status_text CancellationRequested = ''cancellation_requested''"
| "status_text Cancelled = ''cancelled''"
| "status_text Completed = ''completed''"
| "status_text Failed = ''failed''"

definition run_transition :: "string \<Rightarrow> string \<Rightarrow> bool" where
  "run_transition s t \<longleftrightarrow> (\<exists>allowed. map_of ALLOWED_TRANSITIONS s = Some allowed \<and> t \<in> set allowed)"

definition run_statuses :: "RunStatus list" where
  "run_statuses = [Queued, Starting, Running, PauseRequested, Paused, NeedsAttention,
     ResumeRequested, CancellationRequested, Cancelled, Completed, Failed]"

lemma transitions_closed:
  "list_all (\<lambda>(s, ts). list_all (\<lambda>t. t \<in> set (map status_text run_statuses)) (s # ts)) ALLOWED_TRANSITIONS"
  by code_simp

lemma allowed_targets_known:
  "map_of ALLOWED_TRANSITIONS s = Some allowed \<Longrightarrow> t \<in> set allowed \<Longrightarrow> \<exists>st. t = status_text st"
  using transitions_closed by (fastforce simp: list_all_iff dest: map_of_SomeD)

section \<open>Properties\<close>

lemma require_run_transition_validated:
  "validate_run_transition s t = Inr () \<Longrightarrow> t = status_text st \<Longrightarrow> require_run_transition s t = Inr st"
  by (cases st) (simp_all add: require_run_transition_def)

lemma validate_iff: "validate_run_transition s t = Inr () \<longleftrightarrow> run_transition s t"
proof (cases "map_of ALLOWED_TRANSITIONS s")
  case None
  then show ?thesis by (simp add: validate_run_transition_def run_transition_def)
next
  case (Some allowed)
  have "t \<in> set allowed \<Longrightarrow> t \<in> fst ` set ALLOWED_TRANSITIONS"
  proof -
    assume "t \<in> set allowed"
    with Some obtain st where "t = status_text st" using allowed_targets_known by blast
    then show ?thesis by (cases st) (simp_all add: ALLOWED_TRANSITIONS_def)
  qed
  with Some show ?thesis
    by (auto simp: validate_run_transition_def run_transition_def)
qed

lemma validate_Inr: "validate_run_transition s t = Inr u \<longleftrightarrow> run_transition s t"
  using validate_iff by (cases u) simp

lemma status_text_inj: "status_text a = status_text b \<Longrightarrow> a = b"
  by (cases a; cases b; simp)

text \<open>
  \<open>require_run_transition\<close> returns a status exactly when the table allows the step, and then
  it is the literal that the target text names; every other call raises.
\<close>

theorem require_run_transition_exact:
  "require_run_transition s t = Inr st \<longleftrightarrow> run_transition s t \<and> t = status_text st"
proof
  assume r: "require_run_transition s t = Inr st"
  then have rt: "run_transition s t" by (auto simp: require_run_transition_def sbind_eq_Inr validate_Inr)
  then obtain st' where st': "t = status_text st'"
    unfolding run_transition_def using allowed_targets_known by blast
  with rt r show "run_transition s t \<and> t = status_text st"
    using require_run_transition_validated validate_iff by auto
next
  assume "run_transition s t \<and> t = status_text st"
  then show "require_run_transition s t = Inr st"
    using require_run_transition_validated validate_iff by blast
qed

lemma require_run_transition_Inr_iff:
  "(\<exists>st. require_run_transition s t = Inr st) \<longleftrightarrow> run_transition s t"
proof
  show "run_transition s t \<Longrightarrow> \<exists>st. require_run_transition s t = Inr st"
    using require_run_transition_validated validate_iff allowed_targets_known
    by (metis run_transition_def)
qed (auto simp: require_run_transition_def sbind_eq_Inr validate_Inr)

lemma allowed_after_end:
  "map_of ALLOWED_TRANSITIONS ''cancelled'' = Some [''cancelled'']"
  "map_of ALLOWED_TRANSITIONS ''completed'' = Some [''completed'']"
  "map_of ALLOWED_TRANSITIONS ''failed'' = Some [''failed'']"
  "map_of ALLOWED_TRANSITIONS ''cancellation_requested'' =
     Some [''cancellation_requested'', ''cancelled'', ''failed'']"
  by (simp_all add: ALLOWED_TRANSITIONS_def)

lemma terminal_step: "s \<in> set TERMINAL_RUN_STATUSES \<Longrightarrow> run_transition s t \<Longrightarrow> t = s"
  by (auto simp: TERMINAL_RUN_STATUSES_def run_transition_def allowed_after_end)

lemma cancellation_step:
  "s \<in> {''cancellation_requested'', ''cancelled'', ''failed''} \<Longrightarrow> run_transition s t \<Longrightarrow>
   t \<in> {''cancellation_requested'', ''cancelled'', ''failed''}"
  by (auto simp: run_transition_def allowed_after_end)

text \<open>
  No sequence of allowed steps leaves a terminal status, and a run whose cancellation was
  requested can only stay so, be cancelled or fail: it never resumes, needs attention or
  completes.
\<close>

theorem run_end_states:
  assumes "run_transition\<^sup>*\<^sup>* s t"
  shows "(s \<in> set TERMINAL_RUN_STATUSES \<longrightarrow> t = s) \<and>
    (s = ''cancellation_requested'' \<longrightarrow> t \<in> {''cancellation_requested'', ''cancelled'', ''failed''})"
proof (intro conjI impI)
  assume s: "s \<in> set TERMINAL_RUN_STATUSES"
  show "t = s"
    using rtranclp_closed[OF assms, of "{s}"] terminal_step[OF s] by simp
next
  assume s: "s = ''cancellation_requested''"
  show "t \<in> {''cancellation_requested'', ''cancelled'', ''failed''}"
    by (rule rtranclp_closed[OF assms _ cancellation_step]) (simp_all add: s)
qed

theorem run_end_states_witness:
  "run_transition\<^sup>*\<^sup>* ''cancellation_requested'' ''cancelled'' \<and>
   ''cancelled'' \<in> {''cancellation_requested'', ''cancelled'', ''failed''}"
proof -
  have r: "run_transition\<^sup>*\<^sup>* ''cancellation_requested'' ''cancelled''"
    by (rule r_into_rtranclp) (simp add: run_transition_def ALLOWED_TRANSITIONS_def)
  show ?thesis using run_end_states[OF r] r by simp
qed

end
