(* ===== verification/Schema.thy ===== *)
theory Schema
  imports RunFsm
begin

text \<open>
  The data model of the runtime-control database: one record per table of
  \<open>seektalent_runtime_control/store.py\<close>, \<open>browser_lane.py\<close>, \<open>workflow_transition.py\<close>,
  \<open>source_epoch_schema.py\<close> and \<open>source_reconciliation.py\<close>, with the columns the modelled
  methods read or write. A nullable column is an \<open>option\<close>, TEXT is a \<open>string\<close>, INTEGER an
  \<open>int\<close>. The field prefix names the table, the rest the column.
\<close>

section \<open>Rows\<close>

text \<open>Table \<open>runtime_control_runs\<close>.\<close>

record run_row =
  run_id :: string
  run_intent_id :: string
  run_start_idempotency_key :: string
  run_kind :: string
  run_agent_conversation_id :: "string option"
  run_status :: string
  run_current_stage :: string
  run_current_round :: "int option"
  run_latest_checkpoint_id :: "string option"
  run_latest_event_seq :: int
  run_approved_requirement :: string
  run_workbench_session_id :: "string option"
  run_source_ids_json :: string
  run_stop_reason_code :: "string option"
  run_created_at :: string
  run_updated_at :: string
  run_completed_at :: "string option"
  run_product_outcome :: "string option"
  run_current_failure_id :: "string option"
  run_current_failure_revision :: "int option"
  run_current_failure_owner_lease_id :: "string option"
  run_current_failure_authority_mode :: "string option"
  run_current_action_id :: "string option"
  run_state_revision :: int

text \<open>Table \<open>runtime_control_executor_leases\<close> and the model \<open>RuntimeExecutorLease\<close>.\<close>

record lease_row =
  ls_lease_id :: string
  ls_run :: string
  ls_executor_id :: string
  ls_attempt_no :: int
  ls_status :: string
  ls_acquired_at :: string
  ls_heartbeat_at :: "string option"
  ls_lease_expires_at :: string
  ls_released_at :: "string option"
  ls_reason_code :: "string option"

text \<open>
  Table \<open>runtime_control_checkpoints\<close>: the columns the workflow and the recovery read; the
  \<open>content\<close> are those a checkpoint gets from the projection of the run and from its ledgers.
\<close>

record checkpoint_content =
  cc_run_state_json :: string
  cc_source_plan_json :: string
  cc_pending_commands_json :: string
  cc_control_state_hash :: "string option"
  cc_candidate_truth_revision :: int
  cc_candidate_truth_hash :: "string option"
  cc_durable_refs_json :: string
  cc_field_bytes_json :: string

record checkpoint_row =
  cp_checkpoint_id :: string
  cp_run :: string
  cp_stage :: string
  cp_round_no :: "int option"
  cp_safe_boundary :: string
  cp_schema_version :: string
  cp_requirement_revision_id :: "string option"
  cp_content :: checkpoint_content

text \<open>Table \<open>runtime_control_browser_lanes\<close>.\<close>

record lane_row =
  bl_lane_key :: string
  bl_fencing_token :: int
  bl_status :: string
  bl_owner_id :: string
  bl_owner_process_id :: int
  bl_process_boot_id :: string
  bl_runtime_run_id :: "string option"
  bl_operation_id :: string
  bl_operation_kind :: string
  bl_acquired_at :: string
  bl_heartbeat_at :: string
  bl_lease_expires_at :: "string option"
  bl_released_at :: "string option"
  bl_last_failure_code :: "string option"
  bl_updated_at :: string

text \<open>Table \<open>runtime_control_browser_lane_resolutions\<close>.\<close>

record lane_resolution_row =
  lr_resolution_id :: string
  lr_lane_key :: string
  lr_fencing_token :: int
  lr_run :: string
  lr_operation_id :: string
  lr_outcome :: string
  lr_history_conclusion :: "string option"
  lr_evidence_ref :: string
  lr_evidence_digest :: string
  lr_resolved_at :: string

text \<open>Table \<open>runtime_control_source_operations\<close> and the dataclass \<open>SourceOperationRecord\<close>.\<close>

record operation_row =
  op_run :: string
  op_operation_id :: string
  op_source_id :: string
  op_operation_kind :: string
  op_request_hash :: string
  op_idempotency_key :: string
  op_requirement_revision_id :: string
  op_attempt_no :: int
  op_attempt_authority_ref :: string
  op_phase :: string
  op_dispatch_intent_ref :: "string option"
  op_observation_ref :: "string option"
  op_disposition :: "string option"
  op_retry_posture :: string
  op_reconciliation_revision :: int
  op_main_commit_ref :: "string option"
  op_ledger_revision :: int

text \<open>
  Table \<open>runtime_control_source_operation_admission_expectations\<close> and the dataclass
  \<open>SourceOperationAdmissionExpectation\<close>.
\<close>

record expectation_row =
  ex_run :: string
  ex_operation_id :: string
  ex_ordinal :: int
  ex_attempt_no :: int
  ex_attempt_authority_ref :: string
  ex_attempt_fence_ref :: string
  ex_profile_generation :: int
  ex_scope_id :: "string option"
  ex_controller_fence_ref :: "string option"

text \<open>Table \<open>runtime_control_source_dispatch_outbox\<close> and the dataclass \<open>SourceDispatchMetadata\<close>.\<close>

record dispatch_row =
  ds_outbox_id :: string
  ds_run :: string
  ds_operation_id :: string
  ds_request_hash :: string
  ds_intent_id :: string
  ds_intent_revision :: int
  ds_intent_digest :: string
  ds_ordinal :: int
  ds_safe_retry_commit_ref :: "string option"
  ds_acceptance_ref :: string
  ds_expected_ledger_revision :: int
  ds_expected_reconciliation_revision :: int
  ds_status :: string
  ds_outbox_revision :: int
  ds_sidecar_generation :: "int option"
  ds_sidecar_journal_revision :: "int option"
  ds_ack_ref :: "string option"
  ds_ack_kind :: "string option"
  ds_acknowledged_at :: "string option"

text \<open>
  Table \<open>runtime_control_source_reconciliations\<close> and the dataclass
  \<open>SourceOperationReconciliationRecord\<close>.
\<close>

record reconciliation_row =
  rn_reconciliation_id :: string
  rn_run :: string
  rn_operation_id :: string
  rn_source_id :: string
  rn_operation_kind :: string
  rn_request_hash :: string
  rn_idempotency_key :: string
  rn_requirement_revision_id :: string
  rn_attempt_no :: int
  rn_attempt_authority_ref :: string
  rn_history_result_ref :: string
  rn_history_result_digest :: string
  rn_decision_kind :: string
  rn_history_outcome :: string
  rn_history_conclusion :: "string option"
  rn_dispatch_intent_ref :: "string option"
  rn_observation_ref :: "string option"
  rn_disposition :: "string option"
  rn_retry_posture :: string
  rn_expected_ledger_revision :: int
  rn_expected_reconciliation_revision :: int
  rn_committed_at :: string
  rn_committed_phase :: string
  rn_committed_ledger_revision :: int
  rn_committed_reconciliation_revision :: int

text \<open>Table \<open>runtime_control_workflow_round_barriers\<close>.\<close>

record barrier_row =
  wb_run :: string
  wb_round_no :: int
  wb_base_checkpoint_id :: string
  wb_work_plan_ref :: string
  wb_work_plan_hash :: string
  wb_expected_lane_count :: int
  wb_lane_set_hash :: string
  wb_status :: string
  wb_attempt_no :: int
  wb_created_at :: string
  wb_settled_at :: "string option"

text \<open>Table \<open>runtime_control_workflow_barrier_lanes\<close>.\<close>

record barrier_lane_row =
  wl_run :: string
  wl_round_no :: int
  wl_lane_run_id :: string
  wl_query_id :: string
  wl_status :: string
  wl_settled_at :: "string option"

text \<open>Table \<open>runtime_control_workflow_transitions\<close>.\<close>

record transition_row =
  wt_transition_id :: string
  wt_run :: string
  wt_lane_run_id :: string
  wt_query_id :: string
  wt_parent_transition_id :: "string option"
  wt_base_checkpoint_id :: string
  wt_round_no :: int
  wt_step_kind :: string
  wt_payload_json :: string
  wt_payload_hash :: string
  wt_payload_size_bytes :: int
  wt_status :: string
  wt_attempt_no :: int
  wt_created_at :: string
  wt_settled_at :: "string option"

text \<open>Table \<open>runtime_control_events\<close>, with the columns of the model class \<open>RuntimeControlEvent\<close>.\<close>

record event_row =
  ev_event_id :: string
  ev_run :: string
  ev_seq :: int
  ev_type :: string
  ev_stage :: string
  ev_round_no :: "int option"
  ev_source_id :: "string option"
  ev_status :: string
  ev_summary :: string
  ev_payload_json :: string
  ev_schema_version :: string
  ev_visibility :: string
  ev_idempotency_key :: "string option"
  ev_payload_kind :: string
  ev_payload_size_bytes :: int
  ev_projection_attempts :: int
  ev_last_projection_error :: "string option"
  ev_projected_at :: "string option"
  ev_workbench_seq :: "int option"
  ev_created_at :: string

text \<open>Table \<open>runtime_control_snapshots\<close>.\<close>

record snapshot_row =
  sn_run :: string
  sn_status :: string
  sn_current_stage :: string
  sn_current_round :: "int option"
  sn_latest_event_seq :: int
  sn_snapshot_json :: string
  sn_updated_at :: string

text \<open>Table \<open>runtime_control_recovery_attention\<close>; its reason code has one value.\<close>

record attention_row =
  ra_run :: string
  ra_operation_id :: string
  ra_reason_code :: string
  ra_effect_boundary :: string
  ra_evidence_digest :: string
  ra_status :: string
  ra_entered_at :: string
  ra_resolved_at :: "string option"

section \<open>The database\<close>

record rcdb =
  t_runs :: "run_row list"
  t_leases :: "lease_row list"
  t_checkpoints :: "checkpoint_row list"
  t_browser_lanes :: "lane_row list"
  t_lane_resolutions :: "lane_resolution_row list"
  t_operations :: "operation_row list"
  t_expectations :: "expectation_row list"
  t_outbox :: "dispatch_row list"
  t_reconciliations :: "reconciliation_row list"
  t_barriers :: "barrier_row list"
  t_barrier_lanes :: "barrier_lane_row list"
  t_transitions :: "transition_row list"
  t_events :: "event_row list"
  t_snapshots :: "snapshot_row list"
  t_attention :: "attention_row list"

definition empty_db :: rcdb where
  "empty_db = \<lparr>t_runs = [], t_leases = [], t_checkpoints = [], t_browser_lanes = [],
     t_lane_resolutions = [], t_operations = [], t_expectations = [], t_outbox = [],
     t_reconciliations = [], t_barriers = [], t_barrier_lanes = [], t_transitions = [],
     t_events = [], t_snapshots = [], t_attention = []\<rparr>"

text \<open>\<open>_run_row\<close>.\<close>

definition fetch_run :: "rcdb \<Rightarrow> string \<Rightarrow> run_row option" where
  "fetch_run db rid = fetchone (\<lambda>r. run_id r = rid) (t_runs db)"

text \<open>\<open>_source_operation_row\<close>.\<close>

definition fetch_operation :: "rcdb \<Rightarrow> string \<Rightarrow> string \<Rightarrow> operation_row option" where
  "fetch_operation db rid oid =
     fetchone (\<lambda>r. op_run r = rid \<and> op_operation_id r = oid) (t_operations db)"

text \<open>
  The outcome columns of a run: \<open>outcome_clear\<close> is the guard
  \<open>product_outcome IS NULL AND current_failure_id IS NULL AND ..\<close> of the UPDATE statements,
  \<open>require_run_truth_mutable\<close> (\<open>failed_outcome.py\<close>) the check made before them, which also
  asks for no pending action.
\<close>

definition outcome_clear :: "run_row \<Rightarrow> bool" where
  "outcome_clear r \<longleftrightarrow> run_product_outcome r = None \<and> run_current_failure_id r = None \<and>
     run_current_failure_revision r = None \<and> run_current_failure_owner_lease_id r = None \<and>
     run_current_failure_authority_mode r = None"

definition require_run_truth_mutable :: "run_row \<Rightarrow> rc_error + unit" where
  "require_run_truth_mutable r =
     (if run_product_outcome r \<noteq> None \<or> run_current_failure_id r \<noteq> None \<or>
         run_current_failure_revision r \<noteq> None \<or> run_current_failure_owner_lease_id r \<noteq> None \<or>
         run_current_failure_authority_mode r \<noteq> None \<or> run_current_action_id r \<noteq> None
      then rc_fail ''runtime_failed_outcome_terminal_immutable'' else Inr ())"

lemma require_run_truth_mutable_Inr [simp]:
  "require_run_truth_mutable r = Inr u \<longleftrightarrow> outcome_clear r \<and> run_current_action_id r = None"
  by (auto simp: require_run_truth_mutable_def outcome_clear_def)

text \<open>\<open>UPDATE runtime_control_runs SET state_revision = state_revision + 1 ..\<close>\<close>

definition bump_run :: "run_row \<Rightarrow> run_row" where
  "bump_run r = r\<lparr>run_state_revision := run_state_revision r + 1\<rparr>"

lemma bump_run_simps [simp]:
  "run_id (bump_run r) = run_id r" "run_status (bump_run r) = run_status r"
  "run_state_revision (bump_run r) = run_state_revision r + 1"
  "outcome_clear (bump_run r) = outcome_clear r"
  "run_current_action_id (bump_run r) = run_current_action_id r"
  by (simp_all add: bump_run_def outcome_clear_def)

section \<open>Timestamps\<close>

text \<open>
  \<open>clock.py\<close> parses ISO texts with \<open>datetime.fromisoformat\<close> and writes them with
  \<open>datetime.isoformat\<close>. These two functions of the standard library are the parameters of
  the model: \<open>parse_ts\<close> gives the instant (microseconds) or \<open>None\<close> where the library raises
  \<open>ValueError\<close>, \<open>fmt_ts\<close> the text. \<open>clock_ok\<close> is what the library documents of them: the
  written text reads back as the instant.
\<close>

record clock =
  parse_ts :: "string \<Rightarrow> int option"
  fmt_ts :: "int \<Rightarrow> string"

definition clock_ok :: "clock \<Rightarrow> bool" where
  "clock_ok ck \<longleftrightarrow> (\<forall>t. parse_ts ck (fmt_ts ck t) = Some t)"

definition parse_timestamp :: "clock \<Rightarrow> string \<Rightarrow> rc_error + int" where
  "parse_timestamp ck value = or_raise (PyValueError ''Invalid isoformat string'') (parse_ts ck value)"

definition timestamp_lte :: "clock \<Rightarrow> string \<Rightarrow> string \<Rightarrow> rc_error + bool" where
  "timestamp_lte ck left right =
     sbind (parse_timestamp ck left) (\<lambda>a. sbind (parse_timestamp ck right) (\<lambda>b. Inr (a \<le> b)))"

fun parse_all :: "clock \<Rightarrow> string option list \<Rightarrow> rc_error + int list" where
  "parse_all ck [] = Inr []"
| "parse_all ck (v # vs) =
     (case v of
        None \<Rightarrow> parse_all ck vs
      | Some text \<Rightarrow>
          if text = '''' then parse_all ck vs
          else sbind (parse_timestamp ck text) (\<lambda>t. sbind (parse_all ck vs) (\<lambda>ts. Inr (t # ts))))"

definition max_iso_timestamp :: "clock \<Rightarrow> string option list \<Rightarrow> rc_error + string" where
  "max_iso_timestamp ck values =
     sbind (parse_all ck values) (\<lambda>ts.
       case ts of
         [] \<Rightarrow> py_fail ''at least one timestamp is required''
       | t # rest \<Rightarrow> Inr (fmt_ts ck (fold max rest t)))"

lemma timestamp_lte_Inr:
  "timestamp_lte ck l r = Inr b \<longleftrightarrow>
   (\<exists>x y. parse_ts ck l = Some x \<and> parse_ts ck r = Some y \<and> b = (x \<le> y))"
  by (auto simp: timestamp_lte_def parse_timestamp_def sbind_eq_Inr)

lemma fold_max_ge: "(x::int) \<in> set xs \<or> x \<le> a \<Longrightarrow> x \<le> fold max xs a"
proof (induction xs arbitrary: a)
  case Nil
  then show ?case by simp
next
  case (Cons y ys)
  have "x \<in> set ys \<or> x \<le> max y a" using Cons.prems by auto
  from Cons.IH[OF this] show ?case by simp
qed

lemma parse_all_covers:
  "parse_all ck vs = Inr ts \<Longrightarrow> Some v \<in> set vs \<Longrightarrow> v \<noteq> '''' \<Longrightarrow>
   \<exists>t. parse_ts ck v = Some t \<and> t \<in> set ts"
proof (induction vs arbitrary: ts)
  case Nil
  then show ?case by simp
next
  case (Cons w ws)
  show ?case
  proof (cases "w = None \<or> w = Some ''''")
    case True
    with Cons show ?thesis by (auto split: if_splits)
  next
    case False
    then obtain u where u: "w = Some u" "u \<noteq> ''''" by auto
    with Cons.prems(1) obtain t us where
      "parse_ts ck u = Some t" "parse_all ck ws = Inr us" "ts = t # us"
      by (auto simp: parse_timestamp_def sbind_eq_Inr)
    with u Cons.IH Cons.prems(2,3) show ?thesis by auto
  qed
qed

lemma max_iso_timestamp_ge:
  assumes "clock_ok ck" "max_iso_timestamp ck vs = Inr s" "Some v \<in> set vs" "v \<noteq> ''''"
  shows "\<exists>t m. parse_ts ck v = Some t \<and> parse_ts ck s = Some m \<and> t \<le> m"
proof -
  from assms(2) obtain x xs where ts: "parse_all ck vs = Inr (x # xs)"
    and s: "s = fmt_ts ck (fold max xs x)"
    by (auto simp: max_iso_timestamp_def sbind_def split: list.splits sum.splits)
  from parse_all_covers[OF ts assms(3,4)] obtain t
    where t: "parse_ts ck v = Some t" "t \<in> set (x # xs)" by blast
  have "t \<le> fold max xs x" using fold_max_ge[of t xs x] t(2) by auto
  moreover have "parse_ts ck s = Some (fold max xs x)"
    using assms(1) s by (simp add: clock_ok_def)
  ultimately show ?thesis using t(1) by blast
qed

text \<open>A clock of signed unary texts, for evaluating the model on concrete inputs.\<close>

definition tally_clock :: clock where
  "tally_clock = \<lparr>parse_ts = (\<lambda>s. case s of
       [] \<Rightarrow> None
     | c # cs \<Rightarrow> if c = CHR ''+'' then Some (int (length cs))
                 else if c = CHR ''-'' then Some (- int (length cs)) else None),
     fmt_ts = (\<lambda>t. if 0 \<le> t then CHR ''+'' # replicate (nat t) CHR ''i''
                   else CHR ''-'' # replicate (nat (- t)) CHR ''i'')\<rparr>"

lemma tally_clock_ok: "clock_ok tally_clock"
  by (simp add: clock_ok_def tally_clock_def)

end
