(* ===== verification/ExecutorLease.thy ===== *)
theory ExecutorLease
  imports Schema
begin

text \<open>
  Executor leases and the run row they guard: the methods \<open>update_run_status\<close>,
  \<open>link_workbench_session\<close>, \<open>acquire_executor_lease\<close>, \<open>heartbeat_executor_lease\<close>,
  \<open>release_executor_lease\<close> and \<open>expire_executor_leases\<close> of \<open>RuntimeControlStore\<close> with the
  helpers \<open>_active_lease_row\<close> and \<open>_require_active_executor\<close>.

  The integrity checks of a run row against the failure and action tables
  (\<open>validate_failed_outcome_row\<close>, \<open>validate_needs_attention_row\<close>) are the parameter
  \<open>integrity :: rcdb \<Rightarrow> run_row \<Rightarrow> rc_error option\<close>: \<open>Some e\<close> where they raise \<open>e\<close>. A lease id
  \<open>rtlease_<uuid4>\<close> is the argument \<open>fresh_id\<close>.
\<close>

type_synonym integrity = "rcdb \<Rightarrow> run_row \<Rightarrow> rc_error option"

definition raise_opt :: "rc_error option \<Rightarrow> rc_error + unit" where
  "raise_opt e = (case e of None \<Rightarrow> Inr () | Some x \<Rightarrow> Inl x)"

lemma raise_opt_Inr [simp]: "raise_opt e = Inr u \<longleftrightarrow> e = None"
  by (simp add: raise_opt_def split: option.splits)

section \<open>Reading the lease table\<close>

definition active_leases :: "rcdb \<Rightarrow> string \<Rightarrow> lease_row list" where
  "active_leases db rid = filter (\<lambda>r. ls_run r = rid \<and> ls_status r = ''active'') (t_leases db)"

definition active_lease_row :: "rcdb \<Rightarrow> string \<Rightarrow> lease_row option" where
  "active_lease_row db rid = max_by ls_attempt_no (active_leases db rid)"

definition require_active_executor ::
  "clock \<Rightarrow> rcdb \<Rightarrow> string \<Rightarrow> string \<Rightarrow> int option \<Rightarrow> string option \<Rightarrow> rc_error + lease_row" where
  "require_active_executor ck db rid executor_id attempt_no observed_at =
     (case max_by ls_attempt_no
             (filter (\<lambda>r. ls_run r = rid \<and> ls_executor_id r = executor_id \<and> ls_status r = ''active'' \<and>
                          (case attempt_no of None \<Rightarrow> True | Some n \<Rightarrow> ls_attempt_no r = n))
                     (t_leases db)) of
        None \<Rightarrow> rc_fail ''runtime_executor_stale''
      | Some row \<Rightarrow>
          (case observed_at of
             None \<Rightarrow> Inr row
           | Some at \<Rightarrow>
               sbind (timestamp_lte ck (ls_lease_expires_at row) at) (\<lambda>expired.
                 if expired then rc_fail ''runtime_executor_lease_expired'' else Inr row)))"

text \<open>\<open>SELECT COALESCE(MAX(attempt_no), 0) .. WHERE runtime_run_id = ?\<close>\<close>

definition latest_attempt :: "rcdb \<Rightarrow> string \<Rightarrow> int" where
  "latest_attempt db rid =
     (case max_by ls_attempt_no (filter (\<lambda>r. ls_run r = rid) (t_leases db)) of
        None \<Rightarrow> 0 | Some r \<Rightarrow> ls_attempt_no r)"

section \<open>Run row updates\<close>

definition update_run ::
  "string \<Rightarrow> (run_row \<Rightarrow> bool) \<Rightarrow> (run_row \<Rightarrow> run_row) \<Rightarrow> rcdb \<Rightarrow> nat \<times> rcdb" where
  "update_run rid guard f db =
     (rowcount (\<lambda>r. run_id r = rid \<and> guard r) (t_runs db),
      db\<lparr>t_runs := update_where (\<lambda>r. run_id r = rid \<and> guard r) f (t_runs db)\<rparr>)"

definition link_workbench_session ::
  "integrity \<Rightarrow> rcdb \<Rightarrow> string \<Rightarrow> string \<Rightarrow> string \<Rightarrow> rc_error + (rcdb \<times> run_row)" where
  "link_workbench_session integrity db rid session_id updated_at =
     sbind (or_raise (RuntimeControlLookupError ''runtime_run_not_found'') (fetch_run db rid)) (\<lambda>existing.
     sbind (require_run_truth_mutable existing) (\<lambda>_.
     (case update_run rid outcome_clear
             (\<lambda>r. bump_run (r\<lparr>run_workbench_session_id := Some session_id, run_updated_at := updated_at\<rparr>)) db of
        (n, db') \<Rightarrow>
          if n \<noteq> 1 then rc_fail ''runtime_failed_outcome_terminal_immutable''
          else
            sbind (or_raise (RuntimeControlLookupError ''runtime_run_not_found'') (fetch_run db' rid)) (\<lambda>row.
            sbind (raise_opt (integrity db' row)) (\<lambda>_. Inr (db', row))))))"

text \<open>The row the UPDATE of \<open>update_run_status\<close> writes over \<open>r\<close>; \<open>row\<close> is the row read before.\<close>

definition set_run_status ::
  "run_row \<Rightarrow> string \<Rightarrow> string \<Rightarrow> string option \<Rightarrow> int option \<Rightarrow> string option \<Rightarrow> string option \<Rightarrow>
   string option \<Rightarrow> run_row \<Rightarrow> run_row" where
  "set_run_status row status updated_at current_stage current_round stop_reason_code
       completed_at latest_checkpoint_id r =
     bump_run (r\<lparr>
       run_status := status,
       run_current_stage := (case current_stage of None \<Rightarrow> run_current_stage row | Some s \<Rightarrow> s),
       run_current_round := coalesce current_round (run_current_round row),
       run_updated_at := updated_at,
       run_stop_reason_code := coalesce stop_reason_code (run_stop_reason_code r),
       run_completed_at := coalesce completed_at (run_completed_at r),
       run_latest_checkpoint_id := coalesce latest_checkpoint_id (run_latest_checkpoint_id r)\<rparr>)"

definition update_run_status ::
  "integrity \<Rightarrow> rcdb \<Rightarrow> string \<Rightarrow> string \<Rightarrow> string \<Rightarrow> string option \<Rightarrow> int option \<Rightarrow> string option \<Rightarrow>
   string option \<Rightarrow> string option \<Rightarrow> rc_error + (rcdb \<times> run_row)" where
  "update_run_status integrity db rid status updated_at current_stage current_round
       stop_reason_code completed_at latest_checkpoint_id =
     sbind (or_raise (RuntimeControlLookupError ''runtime_run_not_found'') (fetch_run db rid)) (\<lambda>row.
     sbind (require_run_truth_mutable row) (\<lambda>_.
     sbind (require_run_transition (run_status row) status) (\<lambda>_.
     (case update_run rid outcome_clear
             (set_run_status row status updated_at current_stage current_round stop_reason_code
                completed_at latest_checkpoint_id) db of
        (n, db') \<Rightarrow>
          if n \<noteq> 1 then rc_fail ''runtime_failed_outcome_terminal_immutable''
          else
            sbind (or_raise (RuntimeControlLookupError ''runtime_run_not_found'') (fetch_run db' rid)) (\<lambda>updated.
            sbind (raise_opt (integrity db' updated)) (\<lambda>_. Inr (db', updated)))))))"

section \<open>Lease operations\<close>

text \<open>INSERT of a lease row, with the primary key and \<open>UNIQUE(runtime_run_id, attempt_no)\<close>.\<close>

definition insert_lease :: "lease_row \<Rightarrow> rcdb \<Rightarrow> rc_error + rcdb" where
  "insert_lease l db =
     (if list_ex (\<lambda>r. ls_lease_id r = ls_lease_id l \<or>
           (ls_run r = ls_run l \<and> ls_attempt_no r = ls_attempt_no l)) (t_leases db)
      then Inl IntegrityError
      else Inr (db\<lparr>t_leases := t_leases db @ [l]\<rparr>))"

definition acquire_executor_lease ::
  "rcdb \<Rightarrow> string \<Rightarrow> string \<Rightarrow> string \<Rightarrow> string \<Rightarrow> string \<Rightarrow> rc_error + (rcdb \<times> lease_row)" where
  "acquire_executor_lease db rid executor_id acquired_at lease_expires_at fresh_id =
     sbind (or_raise (RuntimeControlLookupError ''runtime_run_not_found'') (fetch_run db rid)) (\<lambda>run.
     sbind (require_run_truth_mutable run) (\<lambda>_.
     if active_lease_row db rid \<noteq> None then rc_fail ''runtime_executor_lease_active''
     else
       let lease = \<lparr>ls_lease_id = fresh_id, ls_run = rid, ls_executor_id = executor_id,
                    ls_attempt_no = latest_attempt db rid + 1, ls_status = ''active'',
                    ls_acquired_at = acquired_at, ls_heartbeat_at = None,
                    ls_lease_expires_at = lease_expires_at, ls_released_at = None,
                    ls_reason_code = None\<rparr>
       in sbind (insert_lease lease db) (\<lambda>db1.
          case update_run rid outcome_clear bump_run db1 of
            (n, db2) \<Rightarrow>
              if n \<noteq> 1 then rc_fail ''runtime_failed_outcome_terminal_immutable''
              else Inr (db2, lease))))"

definition update_leases ::
  "(lease_row \<Rightarrow> bool) \<Rightarrow> (lease_row \<Rightarrow> lease_row) \<Rightarrow> rcdb \<Rightarrow> rcdb" where
  "update_leases p f db = db\<lparr>t_leases := update_where p f (t_leases db)\<rparr>"

definition fetch_lease :: "rcdb \<Rightarrow> string \<Rightarrow> lease_row option" where
  "fetch_lease db lid = fetchone (\<lambda>r. ls_lease_id r = lid) (t_leases db)"

definition heartbeat_executor_lease ::
  "clock \<Rightarrow> rcdb \<Rightarrow> string \<Rightarrow> string \<Rightarrow> int option \<Rightarrow> string \<Rightarrow> string \<Rightarrow> rc_error + (rcdb \<times> lease_row)" where
  "heartbeat_executor_lease ck db rid executor_id attempt_no heartbeat_at lease_expires_at =
     sbind (require_active_executor ck db rid executor_id attempt_no None) (\<lambda>lease.
     sbind (timestamp_lte ck (ls_lease_expires_at lease) heartbeat_at) (\<lambda>expired.
     if expired then rc_fail ''runtime_executor_lease_expired''
     else
       sbind (max_iso_timestamp ck [Some heartbeat_at, ls_heartbeat_at lease, Some (ls_acquired_at lease)])
         (\<lambda>stored_heartbeat_at.
       sbind (max_iso_timestamp ck [Some lease_expires_at, Some (ls_lease_expires_at lease)])
         (\<lambda>stored_lease_expires_at.
       let db1 = update_leases (\<lambda>r. ls_lease_id r = ls_lease_id lease \<and> ls_status r = ''active'')
                   (\<lambda>r. r\<lparr>ls_heartbeat_at := Some stored_heartbeat_at,
                          ls_lease_expires_at := stored_lease_expires_at\<rparr>) db
       in sbind (or_raise (RuntimeControlLookupError ''runtime_run_not_found'') (fetch_run db1 rid)) (\<lambda>run.
          sbind (require_run_truth_mutable run) (\<lambda>_.
          case update_run rid (\<lambda>_. True) bump_run db1 of
            (_, db2) \<Rightarrow>
              sbind (or_raise (RuntimeControlError ''runtime_executor_stale'' [])
                       (fetch_lease db2 (ls_lease_id lease))) (\<lambda>updated. Inr (db2, updated))))))))"

text \<open>
  \<open>release_executor_lease\<close> turns sqlite, type and value errors into one reason code; the
  exceptions of runtime control pass.
\<close>

fun release_error :: "rc_error \<Rightarrow> rc_error" where
  "release_error (PyValueError m) = RuntimeControlError ''runtime_executor_release_failed'' []"
| "release_error (PyTypeError m) = RuntimeControlError ''runtime_executor_release_failed'' []"
| "release_error IntegrityError = RuntimeControlError ''runtime_executor_release_failed'' []"
| "release_error e = e"

definition release_executor_lease_txn ::
  "clock \<Rightarrow> integrity \<Rightarrow> rcdb \<Rightarrow> string \<Rightarrow> string \<Rightarrow> int option \<Rightarrow> string \<Rightarrow> string \<Rightarrow> string option \<Rightarrow>
   rc_error + (rcdb \<times> lease_row)" where
  "release_executor_lease_txn ck integrity db rid executor_id attempt_no released_at status reason_code =
     sbind (require_active_executor ck db rid executor_id attempt_no None) (\<lambda>lease.
     sbind (or_raise (RuntimeControlLookupError ''runtime_run_not_found'') (fetch_run db rid)) (\<lambda>run.
     sbind (raise_opt (integrity db run)) (\<lambda>_.
     sbind (require_run_truth_mutable run) (\<lambda>_.
     sbind (max_iso_timestamp ck [Some released_at, ls_heartbeat_at lease, Some (ls_acquired_at lease)])
       (\<lambda>stored_released_at.
     let p = (\<lambda>r. ls_lease_id r = ls_lease_id lease \<and> ls_run r = rid \<and> ls_executor_id r = executor_id \<and>
                   ls_attempt_no r = ls_attempt_no lease \<and> ls_status r = ''active'')
     in if rowcount p (t_leases db) \<noteq> 1 then rc_fail ''runtime_executor_stale''
        else
          let db1 = update_leases p (\<lambda>r. r\<lparr>ls_status := status, ls_released_at := Some stored_released_at,
                                           ls_reason_code := reason_code\<rparr>) db
          in case update_run rid (\<lambda>r. run_state_revision r = run_state_revision run \<and> outcome_clear r)
                    bump_run db1 of
               (n, db2) \<Rightarrow>
                 if n \<noteq> 1 then rc_fail ''runtime_executor_stale''
                 else sbind (or_raise (RuntimeControlError ''runtime_executor_stale'' [])
                        (fetch_lease db2 (ls_lease_id lease))) (\<lambda>updated. Inr (db2, updated)))))))"

definition release_executor_lease ::
  "clock \<Rightarrow> integrity \<Rightarrow> rcdb \<Rightarrow> string \<Rightarrow> string \<Rightarrow> int option \<Rightarrow> string \<Rightarrow> string \<Rightarrow> string option \<Rightarrow>
   rc_error + (rcdb \<times> lease_row)" where
  "release_executor_lease ck integrity db rid executor_id attempt_no released_at status reason_code =
     (case release_executor_lease_txn ck integrity db rid executor_id attempt_no released_at status
             reason_code of
        Inl e \<Rightarrow> Inl (release_error e)
      | Inr r \<Rightarrow> Inr r)"

text \<open>
  The rows the expiry sweep selects: active leases at or past their expiry (texts compared by
  SQLite) whose run has no outcome, oldest first, at most \<open>batch_size\<close>. Rows equal in both
  ordering columns come in rowid order here; SQLite leaves their order open.
\<close>

definition expirable_leases :: "rcdb \<Rightarrow> string \<Rightarrow> int \<Rightarrow> lease_row list" where
  "expirable_leases db now batch_size =
     take (nat batch_size)
       (sort_key (\<lambda>r. (ls_lease_expires_at r, ls_attempt_no r))
         (filter (\<lambda>r. ls_status r = ''active'' \<and> ls_lease_expires_at r \<le> now \<and>
                      list_ex (\<lambda>u. run_id u = ls_run r \<and> outcome_clear u) (t_runs db))
            (t_leases db)))"

definition expire_lease :: "string \<Rightarrow> lease_row \<Rightarrow> lease_row" where
  "expire_lease now r = r\<lparr>ls_status := ''expired'', ls_released_at := Some now,
     ls_reason_code := Some ''runtime_executor_lease_expired''\<rparr>"

definition expire_one :: "string \<Rightarrow> lease_row \<Rightarrow> rcdb \<Rightarrow> rcdb" where
  "expire_one now row db =
     snd (update_run (ls_run row) (\<lambda>_. True) bump_run
       (update_leases (\<lambda>r. ls_lease_id r = ls_lease_id row) (expire_lease now) db))"

definition expire_executor_leases ::
  "rcdb \<Rightarrow> string \<Rightarrow> int \<Rightarrow> rc_error + (rcdb \<times> lease_row list)" where
  "expire_executor_leases db now batch_size =
     (if batch_size < 1 then py_fail ''runtime_executor_lease_expiry_batch_size_invalid''
      else
        let rows = expirable_leases db now batch_size
        in Inr (fold (expire_one now) rows db, map (expire_lease now) rows))"

section \<open>How one transaction changes the tables\<close>

definition clear_run :: "rcdb \<Rightarrow> string \<Rightarrow> bool" where
  "clear_run db rid \<longleftrightarrow> (\<exists>r \<in> set (t_runs db). run_id r = rid \<and> outcome_clear r)"

text \<open>A run row after some updates: the same row, or a later revision of a run without outcome.\<close>

definition run_le :: "run_row \<Rightarrow> run_row \<Rightarrow> bool" where
  "run_le r r' \<longleftrightarrow> r' = r \<or>
     (run_id r' = run_id r \<and> outcome_clear r \<and> outcome_clear r' \<and>
      run_state_revision r < run_state_revision r' \<and>
      run_transition\<^sup>*\<^sup>* (run_status r) (run_status r'))"

definition lease_key :: "lease_row \<Rightarrow> string \<times> string \<times> int \<times> string" where
  "lease_key l = (ls_lease_id l, ls_run l, ls_attempt_no l, ls_executor_id l)"

definition lease_le :: "rcdb \<Rightarrow> lease_row \<Rightarrow> lease_row \<Rightarrow> bool" where
  "lease_le db l l' \<longleftrightarrow> l' = l \<or>
     (lease_key l' = lease_key l \<and> ls_status l = ''active'' \<and> clear_run db (ls_run l))"

definition lease_fresh :: "rcdb \<Rightarrow> lease_row \<Rightarrow> bool" where
  "lease_fresh db n \<longleftrightarrow> clear_run db (ls_run n) \<and> active_leases db (ls_run n) = [] \<and>
     ls_attempt_no n = latest_attempt db (ls_run n) + 1 \<and>
     ls_lease_id n \<notin> ls_lease_id ` set (t_leases db)"

text \<open>\<open>new\<close> is what the transaction inserts into the lease table: nothing, or one fresh lease.\<close>

definition evolves :: "rcdb \<Rightarrow> lease_row list \<Rightarrow> rcdb \<Rightarrow> bool" where
  "evolves db new db' \<longleftrightarrow> list_all2 run_le (t_runs db) (t_runs db') \<and>
     (\<exists>M. t_leases db' = M @ new \<and> list_all2 (lease_le db) (t_leases db) M) \<and>
     length new \<le> 1 \<and> (\<forall>n \<in> set new. lease_fresh db n)"

text \<open>Each run has one row, each lease one id and one attempt, each run at most one active lease.\<close>

definition lease_inv :: "rcdb \<Rightarrow> bool" where
  "lease_inv db \<longleftrightarrow>
     distinct (map run_id (t_runs db)) \<and>
     distinct (map ls_lease_id (t_leases db)) \<and>
     distinct (map (\<lambda>r. (ls_run r, ls_attempt_no r)) (t_leases db)) \<and>
     (\<forall>l \<in> set (t_leases db). 1 \<le> ls_attempt_no l) \<and>
     (\<forall>rid. rowcount (\<lambda>r. ls_run r = rid \<and> ls_status r = ''active'') (t_leases db) \<le> 1)"

lemma run_le_refl [simp]: "run_le r r"
  by (simp add: run_le_def)

lemma run_le_trans: "run_le a b \<Longrightarrow> run_le b c \<Longrightarrow> run_le a c"
  by (auto simp: run_le_def)

lemma run_le_id: "run_le r r' \<Longrightarrow> run_id r' = run_id r"
  by (auto simp: run_le_def)

lemma run_le_clear: "run_le r r' \<Longrightarrow> outcome_clear r' \<longleftrightarrow> outcome_clear r"
  by (auto simp: run_le_def)

lemma run_le_bump: "outcome_clear r \<Longrightarrow> run_le r (bump_run r)"
  by (simp add: run_le_def)

lemma lease_le_key: "lease_le db l l' \<Longrightarrow> lease_key l' = lease_key l"
  by (auto simp: lease_le_def)

lemma lease_le_active: "lease_le db l l' \<Longrightarrow> ls_status l' = ''active'' \<Longrightarrow> ls_status l = ''active''"
  by (auto simp: lease_le_def)

lemma lease_key_eq:
  "lease_key l' = lease_key l \<longleftrightarrow> ls_lease_id l' = ls_lease_id l \<and> ls_run l' = ls_run l \<and>
   ls_attempt_no l' = ls_attempt_no l \<and> ls_executor_id l' = ls_executor_id l"
  by (auto simp: lease_key_def)

lemma lease_le_refl [simp]: "lease_le db l l"
  by (simp add: lease_le_def)

lemma runs_refl: "list_all2 run_le t t"
  by (simp add: list_all2_refl)

lemma runs_trans: "list_all2 run_le a b \<Longrightarrow> list_all2 run_le b c \<Longrightarrow> list_all2 run_le a c"
  using list_all2_trans[of run_le run_le run_le a b c] run_le_trans by blast

lemma runs_clear_run:
  assumes "list_all2 run_le (t_runs db) (t_runs db')"
  shows "clear_run db' rid \<longleftrightarrow> clear_run db rid"
proof
  assume "clear_run db' rid"
  then show "clear_run db rid"
    using list_all2_setD2[OF assms] run_le_id run_le_clear unfolding clear_run_def by metis
next
  assume "clear_run db rid"
  then show "clear_run db' rid"
    using list_all2_setD1[OF assms] run_le_id run_le_clear unfolding clear_run_def by metis
qed

lemma update_run_simps [simp]:
  "t_leases (snd (update_run rid g f db)) = t_leases db"
  "t_runs (snd (update_run rid g f db)) = update_where (\<lambda>r. run_id r = rid \<and> g r) f (t_runs db)"
  "fst (update_run rid g f db) = rowcount (\<lambda>r. run_id r = rid \<and> g r) (t_runs db)"
  by (simp_all add: update_run_def)

lemma update_leases_simps [simp]:
  "t_leases (update_leases p f db) = update_where p f (t_leases db)"
  "t_runs (update_leases p f db) = t_runs db"
  by (simp_all add: update_leases_def)

lemma fetch_run_SomeD: "fetch_run db rid = Some r \<Longrightarrow> r \<in> set (t_runs db) \<and> run_id r = rid"
  by (auto simp: fetch_run_def dest: fetchone_SomeD)

lemma fetch_run_clear: "fetch_run db rid = Some r \<Longrightarrow> outcome_clear r \<Longrightarrow> clear_run db rid"
  by (auto simp: clear_run_def dest: fetch_run_SomeD)

text \<open>With one row per run, a run that is mutable once is so in every row of that id.\<close>

lemma run_row_unique:
  "distinct (map run_id (t_runs db)) \<Longrightarrow> fetch_run db rid = Some r \<Longrightarrow> u \<in> set (t_runs db) \<Longrightarrow>
   run_id u = rid \<Longrightarrow> u = r"
  by (metis distinct_key_eq fetch_run_SomeD)

lemma bump_all_evolves:
  assumes "\<And>u. u \<in> set (t_runs db) \<Longrightarrow> run_id u = rid \<Longrightarrow> g u \<Longrightarrow> outcome_clear u"
  shows "list_all2 run_le (t_runs db) (update_where (\<lambda>r. run_id r = rid \<and> g r) bump_run (t_runs db))"
  by (rule list_all2_update_where) (auto intro: run_le_bump assms)

lemma leases_update_evolves:
  assumes "\<And>l. l \<in> set (t_leases db) \<Longrightarrow> p l \<Longrightarrow>
             lease_key (f l) = lease_key l \<and> ls_status l = ''active'' \<and> clear_run db (ls_run l)"
  shows "list_all2 (lease_le db) (t_leases db) (update_where p f (t_leases db))"
  by (rule list_all2_update_where) (auto simp: lease_le_def assms)

lemma require_active_executor_InrD:
  assumes "require_active_executor ck db rid ex n at = Inr l"
  shows "l \<in> set (t_leases db) \<and> ls_run l = rid \<and> ls_executor_id l = ex \<and> ls_status l = ''active'' \<and>
         (case n of None \<Rightarrow> True | Some k \<Rightarrow> ls_attempt_no l = k)"
  using assms
  by (auto simp: require_active_executor_def sbind_eq_Inr split: option.splits if_splits
      dest!: max_by_SomeD)

section \<open>Every operation evolves the tables\<close>

lemma evolvesI_update:
  assumes "list_all2 run_le (t_runs db) (t_runs db')" "list_all2 (lease_le db) (t_leases db) (t_leases db')"
  shows "evolves db [] db'"
  unfolding evolves_def using assms by auto

lemma acquire_evolves:
  assumes "lease_inv db" "acquire_executor_lease db rid ex at exp fresh = Inr (db', l)"
  shows "evolves db [l] db' \<and> ls_run l = rid \<and> ls_attempt_no l = latest_attempt db rid + 1"
proof -
  from assms(2) obtain run where run: "fetch_run db rid = Some run" "outcome_clear run"
      "run_current_action_id run = None"
    and none: "active_lease_row db rid = None"
    and l: "l = \<lparr>ls_lease_id = fresh, ls_run = rid, ls_executor_id = ex,
                    ls_attempt_no = latest_attempt db rid + 1, ls_status = ''active'',
                    ls_acquired_at = at, ls_heartbeat_at = None,
                    ls_lease_expires_at = exp, ls_released_at = None, ls_reason_code = None\<rparr>"
    and ins: "insert_lease l db = Inr (db\<lparr>t_leases := t_leases db @ [l]\<rparr>)"
    and db': "db' = snd (update_run rid outcome_clear bump_run (db\<lparr>t_leases := t_leases db @ [l]\<rparr>))"
    by (auto simp: acquire_executor_lease_def sbind_eq_Inr Let_def insert_lease_def split: if_splits prod.splits)
  have fresh: "lease_fresh db l"
    using none run ins l
    by (auto simp: lease_fresh_def active_lease_row_def insert_lease_def list_ex_iff
        intro: fetch_run_clear split: if_splits)
  have "list_all2 run_le (t_runs db) (t_runs db')"
    unfolding db' by (simp add: bump_all_evolves)
  then have "evolves db [l] db'"
    unfolding evolves_def using fresh by (auto simp: db' list_all2_refl)
  then show ?thesis by (simp add: l db')
qed

lemma heartbeat_evolves:
  assumes "lease_inv db" "heartbeat_executor_lease ck db rid ex n hb exp = Inr (db', l)"
  shows "evolves db [] db'"
proof -
  from assms(2) obtain row run sh se where
    act: "require_active_executor ck db rid ex n None = Inr row" and
    run: "fetch_run db rid = Some run" "outcome_clear run" and
    db': "db' = snd (update_run rid (\<lambda>_. True) bump_run
       (update_leases (\<lambda>r. ls_lease_id r = ls_lease_id row \<and> ls_status r = ''active'')
         (\<lambda>r. r\<lparr>ls_heartbeat_at := Some sh, ls_lease_expires_at := se\<rparr>) db))"
    by (auto simp: heartbeat_executor_lease_def sbind_eq_Inr Let_def split_beta fetch_run_def split: if_splits)
  have D: "distinct (map run_id (t_runs db))" "distinct (map ls_lease_id (t_leases db))"
    using assms(1) by (auto simp: lease_inv_def)
  have row: "row \<in> set (t_leases db)" "ls_run row = rid"
    using require_active_executor_InrD[OF act] by auto
  show ?thesis
  proof (rule evolvesI_update)
    show "list_all2 run_le (t_runs db) (t_runs db')"
      unfolding db' using run_row_unique[OF D(1) run(1)] run(2)
      by (simp, intro list_all2_update_where) (auto intro: run_le_bump)
    have "clear_run db rid" using run by (rule fetch_run_clear)
    then show "list_all2 (lease_le db) (t_leases db) (t_leases db')"
      unfolding db' using distinct_key_eq[OF D(2) _ row(1)] row(2)
      by (simp, intro leases_update_evolves) (auto simp: lease_key_def)
  qed
qed

lemma release_evolves:
  assumes "lease_inv db" "release_executor_lease ck integ db rid ex n ra st rc = Inr (db', l)"
  shows "evolves db [] db'"
proof -
  from assms(2) have "release_executor_lease_txn ck integ db rid ex n ra st rc = Inr (db', l)"
    by (auto simp: release_executor_lease_def split: sum.splits)
  then obtain row run sr where
    act: "require_active_executor ck db rid ex n None = Inr row" and
    run: "fetch_run db rid = Some run" "outcome_clear run" and
    db': "db' = snd (update_run rid (\<lambda>r. run_state_revision r = run_state_revision run \<and> outcome_clear r) bump_run
       (update_leases (\<lambda>r. ls_lease_id r = ls_lease_id row \<and> ls_run r = rid \<and> ls_executor_id r = ex \<and>
          ls_attempt_no r = ls_attempt_no row \<and> ls_status r = ''active'')
         (\<lambda>r. r\<lparr>ls_status := st, ls_released_at := Some sr, ls_reason_code := rc\<rparr>) db))"
    by (auto simp: release_executor_lease_txn_def sbind_eq_Inr Let_def split_beta split: if_splits)
  show ?thesis
  proof (rule evolvesI_update)
    show "list_all2 run_le (t_runs db) (t_runs db')"
      unfolding db' by (auto intro!: bump_all_evolves)
    have "clear_run db rid" using run by (rule fetch_run_clear)
    then show "list_all2 (lease_le db) (t_leases db) (t_leases db')"
      unfolding db' by (simp, intro leases_update_evolves) (auto simp: lease_key_def)
  qed
qed

lemma status_update_evolves:
  assumes "lease_inv db" "update_run_status integ db rid st ua cs cr sr ca cp = Inr (db', r)"
  shows "evolves db [] db'"
proof -
  from assms(2) obtain row where
    row: "fetch_run db rid = Some row" "outcome_clear row" and
    tr: "run_transition (run_status row) st" and
    dbf: "db' = snd (update_run rid outcome_clear (set_run_status row st ua cs cr sr ca cp) db)"
    by (auto simp: update_run_status_def sbind_eq_Inr split_beta
        split: if_splits dest!: require_run_transition_Inr_iff[THEN iffD1, OF exI])
  define f where "f = set_run_status row st ua cs cr sr ca cp"
  have f: "\<And>u. run_id (f u) = run_id u \<and> outcome_clear (f u) = outcome_clear u \<and> run_status (f u) = st \<and>
           run_state_revision (f u) = run_state_revision u + 1"
    by (simp add: f_def set_run_status_def outcome_clear_def bump_run_def)
  note db' = dbf[folded f_def]
  have D: "distinct (map run_id (t_runs db))" using assms(1) by (auto simp: lease_inv_def)
  have "run_le u (f u)" if "u \<in> set (t_runs db)" "run_id u = rid" "outcome_clear u" for u
    using run_row_unique[OF D row(1) that(1,2)] that f[of u] tr
    by (simp add: run_le_def r_into_rtranclp)
  then have "list_all2 run_le (t_runs db) (t_runs db')"
    unfolding db' by (simp, intro list_all2_update_where) auto
  then show ?thesis by (auto simp: db' intro!: evolvesI_update list_all2_refl)
qed

lemma link_evolves:
  assumes "link_workbench_session integ db rid wb ua = Inr (db', r)"
  shows "evolves db [] db'"
proof -
  from assms have db': "db' = snd (update_run rid outcome_clear
      (\<lambda>r. bump_run (r\<lparr>run_workbench_session_id := Some wb, run_updated_at := ua\<rparr>)) db)"
    by (auto simp: link_workbench_session_def sbind_eq_Inr split: if_splits prod.splits)
  have "list_all2 run_le (t_runs db) (t_runs db')"
    unfolding db' by (simp, intro list_all2_update_where)
      (auto simp: run_le_def outcome_clear_def bump_run_def)
  then show ?thesis by (auto simp: db' intro!: evolvesI_update list_all2_refl)
qed


lemma expirable_memD:
  assumes "l \<in> set (expirable_leases db now n)"
  shows "l \<in> set (t_leases db) \<and> ls_status l = ''active'' \<and> ls_lease_expires_at l \<le> now \<and>
    clear_run db (ls_run l)"
  using in_set_takeD[OF assms[unfolded expirable_leases_def]]
  by (auto simp: list_ex_iff clear_run_def)

lemma list_all2_then_update:
  "list_all2 R t u \<Longrightarrow> (\<And>r r'. r \<in> set t \<Longrightarrow> R r r' \<Longrightarrow> p r' \<Longrightarrow> R r (f r')) \<Longrightarrow>
   list_all2 R t (update_where p f u)"
  by (induction rule: list_all2_induct) auto

lemma expire_fold:
  assumes "lease_inv db"
    and "\<And>l. l \<in> set rows \<Longrightarrow> l \<in> set (t_leases db) \<and> ls_status l = ''active'' \<and> clear_run db (ls_run l)"
    and "list_all2 run_le (t_runs db) (t_runs d)" "list_all2 (lease_le db) (t_leases db) (t_leases d)"
  shows "list_all2 run_le (t_runs db) (t_runs (fold (expire_one now) rows d)) \<and>
    list_all2 (lease_le db) (t_leases db) (t_leases (fold (expire_one now) rows d))"
  using assms(2-)
proof (induction rows arbitrary: d)
  case Nil
  then show ?case by simp
next
  case (Cons row rows)
  have D: "distinct (map run_id (t_runs db))" "distinct (map ls_lease_id (t_leases db))"
    using assms(1) by (auto simp: lease_inv_def)
  have row: "row \<in> set (t_leases db)" "ls_status row = ''active''" "clear_run db (ls_run row)"
    using Cons.prems(1) by auto
  have "run_le r (bump_run r')"
    if r: "r \<in> set (t_runs db)" "run_le r r'" "run_id r' = ls_run row" for r r'
  proof -
    from row(3) obtain u where u: "u \<in> set (t_runs db)" "run_id u = ls_run row" "outcome_clear u"
      by (auto simp: clear_run_def)
    then have "r = u" using distinct_key_eq[OF D(1) r(1), of u] r run_le_id by metis
    then show ?thesis using run_le_trans[OF r(2)] run_le_bump run_le_clear[OF r(2)] u(3) by blast
  qed
  then have runs: "list_all2 run_le (t_runs db) (t_runs (expire_one now row d))"
    unfolding expire_one_def by (simp add: list_all2_then_update[OF Cons.prems(2)])
  have "lease_le db l (expire_lease now l')"
    if l: "l \<in> set (t_leases db)" "lease_le db l l'" "ls_lease_id l' = ls_lease_id row" for l l'
  proof -
    have "l = row"
      using distinct_key_eq[OF D(2) l(1) row(1)] lease_le_key[OF l(2)] l(3) by (simp add: lease_key_eq)
    then show ?thesis
      using row lease_le_key[OF l(2)] by (simp add: lease_le_def lease_key_eq expire_lease_def)
  qed
  then have leases: "list_all2 (lease_le db) (t_leases db) (t_leases (expire_one now row d))"
    unfolding expire_one_def by (simp add: list_all2_then_update[OF Cons.prems(3)])
  show ?case using Cons.IH[OF _ runs leases] Cons.prems(1) by simp
qed

lemma expire_evolves:
  assumes "lease_inv db" "expire_executor_leases db now n = Inr (db', ls)"
  shows "evolves db [] db'"
proof -
  have db': "db' = fold (expire_one now) (expirable_leases db now n) db"
    using assms(2) by (simp add: expire_executor_leases_def Let_def split: if_splits)
  show ?thesis
    unfolding db'
    using expire_fold[OF assms(1), of "expirable_leases db now n" db now] expirable_memD
    by (intro evolvesI_update) (auto simp: list_all2_refl)
qed

section \<open>Evolution keeps the invariant\<close>

lemma latest_attempt_ge:
  "l \<in> set (t_leases db) \<Longrightarrow> ls_attempt_no l \<le> latest_attempt db (ls_run l)"
  by (auto simp: latest_attempt_def filter_empty_conv split: option.splits dest!: max_by_SomeD)

lemma latest_attempt_nonneg: "lease_inv db \<Longrightarrow> 0 \<le> latest_attempt db rid"
  by (force simp: latest_attempt_def lease_inv_def split: option.splits dest!: max_by_SomeD)

lemma evolves_inv:
  assumes "lease_inv db" "evolves db new db'"
  shows "lease_inv db'"
proof -
  from assms(2) obtain M where
    runs: "list_all2 run_le (t_runs db) (t_runs db')" and
    M: "t_leases db' = M @ new" "list_all2 (lease_le db) (t_leases db) M" and
    new: "length new \<le> 1" "\<And>n. n \<in> set new \<Longrightarrow> lease_fresh db n"
    by (auto simp: evolves_def)
  have ids: "map run_id (t_runs db') = map run_id (t_runs db)"
    by (rule list_all2_map_eq[OF runs]) (simp add: run_le_id)
  have keys: "map lease_key M = map lease_key (t_leases db)"
    by (rule list_all2_map_eq[OF M(2)]) (simp add: lease_le_key)
  have lid: "map ls_lease_id M = map ls_lease_id (t_leases db)"
    by (rule list_all2_map_eq[OF M(2)]) (auto dest!: lease_le_key simp: lease_key_eq)
  have att: "map (\<lambda>r. (ls_run r, ls_attempt_no r)) M = map (\<lambda>r. (ls_run r, ls_attempt_no r)) (t_leases db)"
    by (rule list_all2_map_eq[OF M(2)]) (auto dest!: lease_le_key simp: lease_key_eq)
  have keyset: "lease_key ` set M = lease_key ` set (t_leases db)"
    using keys by (metis set_map)
  have old: "\<exists>l0 \<in> set (t_leases db). lease_key l = lease_key l0" if "l \<in> set M" for l
    using that keyset by (metis imageE imageI)
  have act: "rowcount (\<lambda>r. ls_run r = rid \<and> ls_status r = ''active'') M
      \<le> rowcount (\<lambda>r. ls_run r = rid \<and> ls_status r = ''active'') (t_leases db)" for rid
    by (rule list_all2_rowcount_le[OF M(2)]) (auto simp: lease_le_def lease_key_eq)
  consider "new = []" | n where "new = [n]" "lease_fresh db n"
    using new by (cases new) auto
  then show ?thesis
  proof cases
    case 1
    have "1 \<le> ls_attempt_no l" if "l \<in> set M" for l
      using old[OF that] assms(1) by (auto simp: lease_inv_def lease_key_eq)
    moreover have "rowcount (\<lambda>r. ls_run r = rid \<and> ls_status r = ''active'') M \<le> 1" for rid
      using act[of rid] assms(1) by (force simp: lease_inv_def intro: le_trans)
    ultimately show ?thesis
      using assms(1) 1 ids lid att M(1) unfolding lease_inv_def by auto
  next
    case 2
    have pos: "1 \<le> ls_attempt_no n"
      using 2(2) latest_attempt_nonneg[OF assms(1)] by (simp add: lease_fresh_def)
    have fid: "ls_lease_id n \<notin> set (map ls_lease_id M)"
      unfolding lid using 2(2) by (simp add: lease_fresh_def)
    have fat: "(ls_run n, ls_attempt_no n) \<notin> set (map (\<lambda>r. (ls_run r, ls_attempt_no r)) M)"
      unfolding att using 2(2) latest_attempt_ge by (force simp: lease_fresh_def)
    have "rowcount (\<lambda>r. ls_run r = ls_run n \<and> ls_status r = ''active'') (t_leases db) = 0"
      using 2(2) by (simp add: lease_fresh_def active_leases_def rowcount_def)
    then have r0: "rowcount (\<lambda>r. ls_run r = ls_run n \<and> ls_status r = ''active'') M = 0"
      using act[of "ls_run n"] by simp
    have one: "rowcount (\<lambda>r. ls_run r = rid \<and> ls_status r = ''active'') (M @ [n]) \<le> 1" for rid
      using r0 act[of rid] assms(1) by (cases "rid = ls_run n") (auto simp: lease_inv_def intro: order_trans)
    have "1 \<le> ls_attempt_no l" if "l \<in> set M" for l
      using old[OF that] assms(1) by (auto simp: lease_inv_def lease_key_eq)
    with assms(1) 2(1) pos fid fat one show ?thesis
      using ids lid att M(1) unfolding lease_inv_def by auto
  qed
qed


lemma runs_fetch:
  assumes "list_all2 run_le (t_runs db) (t_runs db')" "fetch_run db rid = Some r"
  shows "\<exists>r'. fetch_run db' rid = Some r' \<and> run_le r r'"
  unfolding fetch_run_def
  by (rule list_all2_fetchone[OF assms(1) _ assms(2)[unfolded fetch_run_def]]) (simp add: run_le_id)

lemma evolves_run:
  assumes "evolves db new db'" "fetch_run db rid = Some r"
  shows "\<exists>r'. fetch_run db' rid = Some r' \<and> run_le r r'"
proof -
  from assms(1) have "list_all2 run_le (t_runs db) (t_runs db')" by (simp add: evolves_def)
  from runs_fetch[OF this assms(2)] show ?thesis .
qed

lemma evolves_lease:
  assumes "evolves db new db'" "l \<in> set (t_leases db)"
  shows "\<exists>l' \<in> set (t_leases db'). lease_le db l l'"
  using assms by (force simp: evolves_def dest: list_all2_setD1)

lemma latest_attempt_old:
  assumes "list_all2 (lease_le db) t M"
  shows "map_option ls_attempt_no (max_by ls_attempt_no (filter (\<lambda>r. ls_run r = rid) M)) =
    map_option ls_attempt_no (max_by ls_attempt_no (filter (\<lambda>r. ls_run r = rid) t))"
  using assms
proof (induction rule: list_all2_induct)
  case Nil
  then show ?case by simp
next
  case (Cons x xs y ys)
  have "ls_run y = ls_run x" "ls_attempt_no y = ls_attempt_no x"
    using lease_le_key[OF Cons.hyps(1)] by (auto simp: lease_key_eq)
  then show ?case
    using Cons.IH
    by (cases "max_by ls_attempt_no (filter (\<lambda>r. ls_run r = rid) xs)";
        cases "max_by ls_attempt_no (filter (\<lambda>r. ls_run r = rid) ys)") auto
qed

lemma latest_attempt_alt:
  "latest_attempt db rid =
     (case map_option ls_attempt_no (max_by ls_attempt_no (filter (\<lambda>r. ls_run r = rid) (t_leases db))) of
        None \<Rightarrow> 0 | Some n \<Rightarrow> n)"
  by (simp add: latest_attempt_def split: option.splits)

lemma evolves_token:
  assumes "evolves db new db'"
  shows "latest_attempt db' rid =
    (case filter (\<lambda>l. ls_run l = rid) new of [] \<Rightarrow> latest_attempt db rid | l # _ \<Rightarrow> ls_attempt_no l)"
proof -
  from assms obtain M where M: "t_leases db' = M @ new" "list_all2 (lease_le db) (t_leases db) M"
    and new: "length new \<le> 1" "\<And>n. n \<in> set new \<Longrightarrow> lease_fresh db n"
    by (auto simp: evolves_def)
  note old = latest_attempt_old[OF M(2), of rid]
  show ?thesis
  proof (cases "filter (\<lambda>l. ls_run l = rid) new")
    case Nil
    then show ?thesis unfolding latest_attempt_alt M(1) by (simp add: old)
  next
    case (Cons l ls)
    with new(1) have new': "new = [l]" "ls_run l = rid" by (cases new; auto split: if_splits)+
    have "ls_attempt_no r < ls_attempt_no l" if "r \<in> set (filter (\<lambda>r. ls_run r = rid) M)" for r
    proof -
      from that M(2) obtain r0 where "r0 \<in> set (t_leases db)" "lease_le db r0 r"
        by (auto dest: list_all2_setD2)
      then show ?thesis
        using lease_le_key latest_attempt_ge[of r0 db] that new(2)[of l] new'
        by (fastforce simp: lease_fresh_def lease_key_eq)
    qed
    then have "max_by ls_attempt_no (filter (\<lambda>r. ls_run r = rid) (t_leases db')) = Some l"
      unfolding M(1) using new' by (simp, intro max_by_append_greater) simp
    then show ?thesis using Cons by (simp add: latest_attempt_def)
  qed
qed

section \<open>The lease methods as one transactional store\<close>

datatype lease_call =
    Acquire string string string string string
  | Heartbeat string string "int option" string string
  | Release string string "int option" string string "string option"
  | Expire string int
  | UpdateStatus string string string "string option" "int option" "string option" "string option"
      "string option"
  | LinkSession string string string

datatype lease_result = OneLease lease_row | ManyLeases "lease_row list" | RunRow run_row

definition returning :: "('r \<Rightarrow> lease_result) \<Rightarrow> rc_error + (rcdb \<times> 'r) \<Rightarrow> rc_error + (rcdb \<times> lease_result)" where
  "returning f m = sbind m (\<lambda>(db, r). Inr (db, f r))"

lemma returning_Inr:
  "returning f m = Inr (db', res) \<longleftrightarrow> (\<exists>r. m = Inr (db', r) \<and> res = f r)"
  by (auto simp: returning_def sbind_eq_Inr)

fun lease_step :: "clock \<Rightarrow> integrity \<Rightarrow> rcdb \<Rightarrow> lease_call \<Rightarrow> rc_error + (rcdb \<times> lease_result)" where
  "lease_step ck integrity db (Acquire rid ex at exp fresh) =
     returning OneLease (acquire_executor_lease db rid ex at exp fresh)"
| "lease_step ck integrity db (Heartbeat rid ex n at exp) =
     returning OneLease (heartbeat_executor_lease ck db rid ex n at exp)"
| "lease_step ck integrity db (Release rid ex n at st reason) =
     returning OneLease (release_executor_lease ck integrity db rid ex n at st reason)"
| "lease_step ck integrity db (Expire now batch) =
     returning ManyLeases (expire_executor_leases db now batch)"
| "lease_step ck integrity db (UpdateStatus rid st at stage rnd reason done_at cp) =
     returning RunRow (update_run_status integrity db rid st at stage rnd reason done_at cp)"
| "lease_step ck integrity db (LinkSession rid wb at) =
     returning RunRow (link_workbench_session integrity db rid wb at)"

text \<open>The attempt number a call hands out for the run \<open>rid\<close>.\<close>

fun lease_grant :: "string \<Rightarrow> lease_call \<Rightarrow> lease_result \<Rightarrow> int option" where
  "lease_grant rid (Acquire rid' ex at exp fresh) (OneLease l) =
     (if rid' = rid then Some (ls_attempt_no l) else None)"
| "lease_grant rid _ _ = None"

fun new_leases :: "lease_call \<Rightarrow> lease_result \<Rightarrow> lease_row list" where
  "new_leases (Acquire rid ex at exp fresh) (OneLease l) = [l]"
| "new_leases _ _ = []"

lemma step_evolves:
  assumes "lease_inv db" "lease_step ck integ db a = Inr (db', res)"
  shows "evolves db (new_leases a res) db'"
proof (cases a)
  case (Acquire rid ex at exp fresh)
  with assms acquire_evolves[OF assms(1)] show ?thesis by (auto simp: returning_Inr)
next
  case (Heartbeat rid ex n at exp)
  with assms heartbeat_evolves[OF assms(1)] show ?thesis by (auto simp: returning_Inr)
next
  case (Release rid ex n at st reason)
  with assms release_evolves[OF assms(1)] show ?thesis by (auto simp: returning_Inr)
next
  case (Expire now batch)
  with assms expire_evolves[OF assms(1)] show ?thesis by (auto simp: returning_Inr)
next
  case (UpdateStatus rid st at stage rnd reason done_at cp)
  with assms status_update_evolves[OF assms(1)] show ?thesis by (auto simp: returning_Inr)
next
  case (LinkSession rid wb at)
  with assms link_evolves show ?thesis by (auto simp: returning_Inr)
qed

lemma step_token:
  assumes "lease_inv db" "lease_step ck integ db a = Inr (db', res)"
  shows "latest_attempt db' rid =
      (case lease_grant rid a res of None \<Rightarrow> latest_attempt db rid | Some n \<Rightarrow> n) \<and>
    (\<forall>n. lease_grant rid a res = Some n \<longrightarrow> n = latest_attempt db rid + 1)"
  using evolves_token[OF step_evolves[OF assms], of rid] acquire_evolves[OF assms(1)] assms(2)
  by (cases a) (auto simp: returning_Inr split: if_splits)

interpretation lease_store: fencing "lease_step ck integ" lease_inv
    "\<lambda>db. latest_attempt db rid" "lease_grant rid"
  for ck integ rid
proof (unfold_locales, goal_cases)
  case (1 s a s' r)
  then show ?case using step_evolves evolves_inv by blast
next
  case (2 s a s' r n)
  then show ?case using step_token[of s ck integ a s' r rid] by simp
next
  case (3 s a s' r)
  then show ?case using step_token[of s ck integ a s' r rid] by simp
qed


section \<open>Properties\<close>

lemma retired_step:
  assumes "lease_inv db" "lease_step ck integ db a = Inr (db', res)"
    "l \<in> set (t_leases db)" "ls_status l \<noteq> ''active''"
  shows "l \<in> set (t_leases db')"
  using evolves_lease[OF step_evolves[OF assms(1,2)] assms(3)] assms(4) by (auto simp: lease_le_def)

lemma retired_run:
  assumes "lease_inv db" "l \<in> set (t_leases db)" "ls_status l \<noteq> ''active''"
  shows "l \<in> set (t_leases (run_txns (lease_step ck integ) db ops))"
proof -
  let ?R = "\<lambda>x y. \<forall>l \<in> set (t_leases x). ls_status l \<noteq> ''active'' \<longrightarrow> l \<in> set (t_leases y)"
  have "?R db (run_txns (lease_step ck integ) db ops)"
    by (rule lease_store.run_preorder[of ?R, OF _ _ _ assms(1)]) (auto dest: retired_step)
  with assms(2,3) show ?thesis by blast
qed

lemma retired_stale:
  assumes "lease_inv db" "l \<in> set (t_leases db)" "ls_status l \<noteq> ''active''"
  shows "require_active_executor ck db (ls_run l) ex (Some (ls_attempt_no l)) at = rc_fail ''runtime_executor_stale''"
proof -
  have "filter (\<lambda>r. ls_run r = ls_run l \<and> ls_executor_id r = ex \<and> ls_status r = ''active'' \<and>
          ls_attempt_no r = ls_attempt_no l) (t_leases db) = []"
    using assms distinct_key_eq[of "\<lambda>r. (ls_run r, ls_attempt_no r)" "t_leases db"]
    by (fastforce simp: filter_empty_conv lease_inv_def)
  then show ?thesis by (simp add: require_active_executor_def)
qed

lemma runs_run:
  assumes "lease_inv db"
  shows "list_all2 run_le (t_runs db) (t_runs (run_txns (lease_step ck integ) db ops))"
  by (rule lease_store.run_preorder[of "\<lambda>x y. list_all2 run_le (t_runs x) (t_runs y)", OF _ _ _ assms])
    (auto simp: runs_refl evolves_def intro: runs_trans dest: step_evolves)

lemma evolves_frozen:
  assumes "evolves db new db'" "\<not> clear_run db rid"
  shows "filter (\<lambda>l. ls_run l = rid) (t_leases db') = filter (\<lambda>l. ls_run l = rid) (t_leases db)"
proof -
  from assms(1) obtain M where M: "t_leases db' = M @ new" "list_all2 (lease_le db) (t_leases db) M"
    and new: "\<And>n. n \<in> set new \<Longrightarrow> lease_fresh db n"
    by (auto simp: evolves_def)
  have frozen: "y = x \<or> (ls_run x \<noteq> rid \<and> ls_run y \<noteq> rid)" if "lease_le db x y" for x y
    using that assms(2) by (auto simp: lease_le_def lease_key_eq)
  from M(2) have "filter (\<lambda>l. ls_run l = rid) M = filter (\<lambda>l. ls_run l = rid) (t_leases db)"
  proof (induction rule: list_all2_induct)
    case (Cons x xs y ys)
    then show ?case using frozen[OF Cons.hyps(1)] by auto
  qed simp
  moreover have "filter (\<lambda>l. ls_run l = rid) new = []"
    using new assms(2) by (auto simp: filter_empty_conv lease_fresh_def)
  ultimately show ?thesis by (simp add: M(1))
qed

lemma frozen_run:
  assumes "lease_inv db" "\<not> clear_run db rid"
  shows "filter (\<lambda>l. ls_run l = rid) (t_leases (run_txns (lease_step ck integ) db ops)) =
    filter (\<lambda>l. ls_run l = rid) (t_leases db)"
proof -
  let ?R = "\<lambda>x y. \<not> clear_run x rid \<longrightarrow> \<not> clear_run y rid \<and>
    filter (\<lambda>l. ls_run l = rid) (t_leases y) = filter (\<lambda>l. ls_run l = rid) (t_leases x)"
  have "?R db (run_txns (lease_step ck integ) db ops)"
  proof (rule lease_store.run_preorder[of ?R, OF _ _ _ assms(1)], goal_cases)
    case (3 x a y r)
    then have e: "evolves x (new_leases a r) y" by (rule step_evolves)
    then show ?case
      using evolves_frozen[OF e] runs_clear_run by (auto simp: evolves_def)
  qed auto
  with assms(2) show ?thesis by simp
qed

text \<open>A concrete database: one running run whose first lease was released.\<close>

definition demo_run :: "string \<Rightarrow> run_row" where
  "demo_run rid = \<lparr>run_id = rid, run_intent_id = rid, run_start_idempotency_key = rid, run_kind = ''primary'',
     run_agent_conversation_id = None, run_status = ''running'', run_current_stage = ''rounds'',
     run_current_round = None, run_latest_checkpoint_id = None, run_latest_event_seq = 0, run_approved_requirement = ''req'',
     run_workbench_session_id = None, run_source_ids_json = ''[]'', run_stop_reason_code = None,
     run_created_at = ''+'', run_updated_at = ''+'',
     run_completed_at = None, run_product_outcome = None, run_current_failure_id = None,
     run_current_failure_revision = None, run_current_failure_owner_lease_id = None,
     run_current_failure_authority_mode = None, run_current_action_id = None,
     run_state_revision = 1\<rparr>"

definition demo_lease :: "string \<Rightarrow> int \<Rightarrow> string \<Rightarrow> lease_row" where
  "demo_lease lid n status = \<lparr>ls_lease_id = lid, ls_run = ''r1'', ls_executor_id = ''ex'',
     ls_attempt_no = n, ls_status = status, ls_acquired_at = ''+'', ls_heartbeat_at = None,
     ls_lease_expires_at = ''+iii'', ls_released_at = None, ls_reason_code = None\<rparr>"

definition demo_db :: "lease_row list \<Rightarrow> rcdb" where
  "demo_db leases = empty_db\<lparr>t_runs := [demo_run ''r1''], t_leases := leases\<rparr>"

lemma demo_db_simps [simp]:
  "t_runs (demo_db ls) = [demo_run ''r1'']" "t_leases (demo_db ls) = ls"
  by (simp_all add: demo_db_def empty_db_def)

lemma demo_lease_simps [simp]:
  "ls_lease_id (demo_lease lid n st) = lid" "ls_run (demo_lease lid n st) = ''r1''"
  "ls_attempt_no (demo_lease lid n st) = n" "ls_status (demo_lease lid n st) = st"
  by (simp_all add: demo_lease_def)

lemma demo_inv:
  "lease_inv (demo_db [])" "lease_inv (demo_db [demo_lease ''l1'' 1 status])"
  by (auto simp: lease_inv_def)

text \<open>
  Whatever sequence of lease calls, sweeps and status updates follows an empty lease table,
  a run never has two active leases, and no two leases of a run share an attempt number.
\<close>

theorem lease_exclusive:
  assumes "t_leases db = []" "distinct (map run_id (t_runs db))"
  shows "rowcount (\<lambda>l. ls_run l = rid \<and> ls_status l = ''active'')
      (t_leases (run_txns (lease_step ck integ) db ops)) \<le> 1 \<and>
    distinct (map (\<lambda>l. (ls_run l, ls_attempt_no l)) (t_leases (run_txns (lease_step ck integ) db ops)))"
proof -
  have "lease_inv db" using assms by (simp add: lease_inv_def)
  then have "lease_inv (run_txns (lease_step ck integ) db ops)" by (rule lease_store.run_inv)
  then show ?thesis by (simp add: lease_inv_def)
qed

theorem lease_exclusive_witness:
  "rowcount (\<lambda>l. ls_run l = ''r1'' \<and> ls_status l = ''active'')
     (t_leases (run_txns (lease_step tally_clock (\<lambda>_ _. None)) (demo_db [])
        [Acquire ''r1'' ''a'' ''+'' ''+i'' ''l1'', Acquire ''r1'' ''b'' ''+'' ''+i'' ''l2''])) \<le> 1"
  using lease_exclusive[of "demo_db []" "''r1''" tally_clock "\<lambda>_ _. None"
      "[Acquire ''r1'' ''a'' ''+'' ''+i'' ''l1'', Acquire ''r1'' ''b'' ''+'' ''+i'' ''l2'']"]
  by simp

text \<open>
  The attempt numbers handed out for a run by successive acquisitions increase strictly, each
  above every attempt that exists before, so an attempt number is a fencing token.
\<close>

theorem lease_attempts_increase:
  assumes "lease_inv db"
  shows "sorted_wrt (<) (granted (lease_step ck integ) (lease_grant rid) db ops) \<and>
    (\<forall>n \<in> set (granted (lease_step ck integ) (lease_grant rid) db ops). latest_attempt db rid < n)"
  using lease_store.granted_increasing[OF assms] lease_store.granted_above[OF assms] by blast

theorem lease_attempts_increase_witness:
  "granted (lease_step tally_clock (\<lambda>_ _. None)) (lease_grant ''r1'') (demo_db [])
     [Acquire ''r1'' ''a'' ''+'' ''+i'' ''l1'', Acquire ''r1'' ''b'' ''+'' ''+i'' ''l2'',
      Release ''r1'' ''a'' None ''+i'' ''released'' None, Acquire ''r1'' ''b'' ''+'' ''+i'' ''l2'']
     = [1, 2] \<and>
   sorted_wrt (<) [1::int, 2]"
proof -
  let ?ops = "[Acquire ''r1'' ''a'' ''+'' ''+i'' ''l1'', Acquire ''r1'' ''b'' ''+'' ''+i'' ''l2'',
      Release ''r1'' ''a'' None ''+i'' ''released'' None, Acquire ''r1'' ''b'' ''+'' ''+i'' ''l2'']"
  have g: "granted (lease_step tally_clock (\<lambda>_ _. None)) (lease_grant ''r1'') (demo_db []) ?ops = [1, 2]"
    by code_simp
  show ?thesis
    using lease_attempts_increase[OF demo_inv(1), of tally_clock "\<lambda>_ _. None" "''r1''" ?ops] g by simp
qed

text \<open>
  An executor whose lease ended (released, expired or failed) stays out: after any sequence of
  further calls, its heartbeat and its release with the old attempt number are refused as stale.
\<close>

theorem retired_executor_rejected:
  assumes "lease_inv db" "l \<in> set (t_leases db)" "ls_status l \<noteq> ''active''"
    "db' = run_txns (lease_step ck integ) db ops"
  shows "heartbeat_executor_lease ck db' (ls_run l) ex (Some (ls_attempt_no l)) at exp =
      rc_fail ''runtime_executor_stale'' \<and>
    release_executor_lease ck integ db' (ls_run l) ex (Some (ls_attempt_no l)) at status reason =
      rc_fail ''runtime_executor_stale''"
proof -
  have inv: "lease_inv db'" unfolding assms(4) by (rule lease_store.run_inv[OF assms(1)])
  have "l \<in> set (t_leases db')" unfolding assms(4) by (rule retired_run[OF assms(1-3)])
  from retired_stale[OF inv this assms(3)] show ?thesis
    by (simp add: heartbeat_executor_lease_def release_executor_lease_def release_executor_lease_txn_def)
qed

theorem retired_executor_rejected_witness:
  "heartbeat_executor_lease tally_clock
     (run_txns (lease_step tally_clock (\<lambda>_ _. None)) (demo_db [demo_lease ''l1'' 1 ''expired''])
        [Acquire ''r1'' ''ex'' ''+'' ''+ii'' ''l2''])
     ''r1'' ''ex'' (Some 1) ''+i'' ''+iii'' = rc_fail ''runtime_executor_stale''"
  using retired_executor_rejected[OF demo_inv(2)[of "''expired''"], of "demo_lease ''l1'' 1 ''expired''"
      _ tally_clock "\<lambda>_ _. None" "[Acquire ''r1'' ''ex'' ''+'' ''+ii'' ''l2'']" "''ex''" "''+i''" "''+iii''"]
  by simp

text \<open>
  A run with an outcome is frozen: no sequence of these calls changes its row, changes one of
  its leases or gives it a new lease.
\<close>

theorem finished_run_frozen:
  assumes "lease_inv db" "fetch_run db rid = Some r" "\<not> outcome_clear r"
    "db' = run_txns (lease_step ck integ) db ops"
  shows "fetch_run db' rid = Some r \<and>
    filter (\<lambda>l. ls_run l = rid) (t_leases db') = filter (\<lambda>l. ls_run l = rid) (t_leases db)"
proof -
  have "\<not> clear_run db rid"
    using assms(1-3) run_row_unique[of db rid r] by (auto simp: lease_inv_def clear_run_def)
  then have "filter (\<lambda>l. ls_run l = rid) (t_leases db') = filter (\<lambda>l. ls_run l = rid) (t_leases db)"
    unfolding assms(4) by (rule frozen_run[OF assms(1)])
  moreover obtain r' where "fetch_run db' rid = Some r'" "run_le r r'"
    unfolding assms(4) using runs_fetch[OF runs_run[OF assms(1)] assms(2)] by blast
  ultimately show ?thesis using assms(3) by (auto simp: run_le_def)
qed

definition demo_done_db :: rcdb where
  "demo_done_db = empty_db\<lparr>t_runs := [(demo_run ''r1'')\<lparr>run_product_outcome := Some ''completed''\<rparr>],
     t_leases := [demo_lease ''l1'' 1 ''active'']\<rparr>"

lemma demo_done_simps [simp]:
  "t_runs demo_done_db = [(demo_run ''r1'')\<lparr>run_product_outcome := Some ''completed''\<rparr>]"
  "t_leases demo_done_db = [demo_lease ''l1'' 1 ''active'']"
  by (simp_all add: demo_done_db_def empty_db_def)

theorem finished_run_frozen_witness:
  "filter (\<lambda>l. ls_run l = ''r1'')
     (t_leases (run_txns (lease_step tally_clock (\<lambda>_ _. None)) demo_done_db
        [Expire ''+iiiiii'' 10, Release ''r1'' ''ex'' (Some 1) ''+'' ''released'' None])) =
   [demo_lease ''l1'' 1 ''active'']"
proof -
  have "lease_inv demo_done_db" by (auto simp: lease_inv_def)
  from finished_run_frozen[OF this, of "''r1''" "(demo_run ''r1'')\<lparr>run_product_outcome := Some ''completed''\<rparr>",
      OF _ _ refl, of tally_clock "\<lambda>_ _. None"
      "[Expire ''+iiiiii'' 10, Release ''r1'' ''ex'' (Some 1) ''+'' ''released'' None]"]
  show ?thesis by (simp add: fetch_run_def outcome_clear_def demo_run_def)
qed

text \<open>
  The revision of a run row is a version: after any sequence of calls the row is either the
  same, or has a larger revision and a status that a sequence of allowed steps reaches. So a
  reader that finds the revision it knows finds the row it knows.
\<close>

theorem run_revision_versions_row:
  assumes "lease_inv db" "fetch_run db rid = Some r"
  shows "\<exists>r'. fetch_run (run_txns (lease_step ck integ) db ops) rid = Some r' \<and>
    (r' = r \<or> run_state_revision r < run_state_revision r' \<and>
      run_transition\<^sup>*\<^sup>* (run_status r) (run_status r'))"
proof -
  obtain r' where "fetch_run (run_txns (lease_step ck integ) db ops) rid = Some r'" "run_le r r'"
    using runs_fetch[OF runs_run[OF assms(1)] assms(2)] by blast
  then show ?thesis by (auto simp: run_le_def)
qed

theorem run_revision_versions_row_witness:
  "\<exists>r'. fetch_run (run_txns (lease_step tally_clock (\<lambda>_ _. None)) (demo_db [])
          [UpdateStatus ''r1'' ''completed'' ''+i'' None None None None None]) ''r1'' = Some r' \<and>
    (r' = demo_run ''r1'' \<or> 1 < run_state_revision r' \<and>
      run_transition\<^sup>*\<^sup>* ''running'' (run_status r'))"
  using run_revision_versions_row[OF demo_inv(1), of "''r1''" "demo_run ''r1''" tally_clock
      "\<lambda>_ _. None" "[UpdateStatus ''r1'' ''completed'' ''+i'' None None None None None]"]
  by (simp add: fetch_run_def demo_run_def)

lemma fetch_lease_update:
  assumes "distinct (map ls_lease_id (t_leases db))" "l \<in> set (t_leases db)" "p l"
    "ls_lease_id (f l) = ls_lease_id l"
    "\<And>r. r \<in> set (t_leases db) \<Longrightarrow> p r \<Longrightarrow> ls_lease_id r = ls_lease_id l"
  shows "fetchone (\<lambda>r. ls_lease_id r = ls_lease_id l) (update_where p f (t_leases db)) = Some (f l)"
proof (rule fetchone_keyed[of ls_lease_id])
  have "map ls_lease_id (update_where p f (t_leases db)) = map ls_lease_id (t_leases db)"
  proof (rule map_update_where)
    fix r assume "r \<in> set (t_leases db)" "p r"
    then have "r = l" using distinct_key_eq[OF assms(1) _ assms(2)] assms(5) by blast
    then show "ls_lease_id (f r) = ls_lease_id r" using assms(4) by simp
  qed
  then show "distinct (map ls_lease_id (update_where p f (t_leases db)))" using assms(1) by simp
  show "f l \<in> set (update_where p f (t_leases db))" using assms(2,3) by (force simp: set_update_where)
qed (use assms(4) in auto)

text \<open>
  C38: A heartbeat renews only a lease that is active and not expired at the heartbeat's time, by
  its own executor, and never shortens it: the stored expiry is at or after both the old expiry
  and the requested one.
\<close>

theorem heartbeat_renews_live_lease:
  assumes "clock_ok ck" "lease_inv db" "ls_lease_expires_at l \<noteq> ''''" "exp \<noteq> ''''"
    "heartbeat_executor_lease ck db rid ex n at exp = Inr (db', l')"
    "l \<in> set (t_leases db)" "ls_lease_id l = ls_lease_id l'"
  shows "ls_status l = ''active'' \<and> ls_run l = rid \<and> ls_executor_id l = ex \<and>
    (\<exists>old at_time req new. parse_ts ck (ls_lease_expires_at l) = Some old \<and> parse_ts ck at = Some at_time \<and>
       parse_ts ck exp = Some req \<and> parse_ts ck (ls_lease_expires_at l') = Some new \<and>
       at_time < old \<and> old \<le> new \<and> req \<le> new)"
proof -
  let ?p = "\<lambda>row r. ls_lease_id r = ls_lease_id row \<and> ls_status r = ''active''"
  let ?f = "\<lambda>sh se r. r\<lparr>ls_heartbeat_at := Some sh, ls_lease_expires_at := se\<rparr>"
  from assms(5) obtain row sh se where
    act: "require_active_executor ck db rid ex n None = Inr row" and
    live: "timestamp_lte ck (ls_lease_expires_at row) at = Inr False" and
    se: "max_iso_timestamp ck [Some exp, Some (ls_lease_expires_at row)] = Inr se" and
    up: "fetchone (\<lambda>r. ls_lease_id r = ls_lease_id row)
           (update_where (?p row) (?f sh se) (t_leases db)) = Some l'"
    by (auto simp: heartbeat_executor_lease_def sbind_eq_Inr Let_def split_beta fetch_lease_def
        split: if_splits)
  have row: "row \<in> set (t_leases db)" "ls_run row = rid" "ls_executor_id row = ex" "ls_status row = ''active''"
    using require_active_executor_InrD[OF act] by auto
  have D: "distinct (map ls_lease_id (t_leases db))" using assms(2) by (simp add: lease_inv_def)
  have l': "l' = ?f sh se row"
    using fetch_lease_update[OF D row(1), of "?p row" "?f sh se"] up row(4) by simp
  have l: "l = row" using distinct_key_eq[OF D assms(6) row(1)] assms(7) l' by simp
  from live obtain old at_time where t: "parse_ts ck (ls_lease_expires_at row) = Some old"
      "parse_ts ck at = Some at_time" "at_time < old"
    by (auto simp: timestamp_lte_Inr)
  from max_iso_timestamp_ge[OF assms(1) se, of exp] assms(4) obtain req new where
    r: "parse_ts ck exp = Some req" "parse_ts ck se = Some new" "req \<le> new" by auto
  from max_iso_timestamp_ge[OF assms(1) se, of "ls_lease_expires_at row"] assms(3) l t r
  have "old \<le> new" by auto
  then show ?thesis using l l' row t r by simp
qed

theorem heartbeat_renews_live_lease_witness:
  "\<exists>db' l'. heartbeat_executor_lease tally_clock (demo_db [demo_lease ''l1'' 1 ''active''])
     ''r1'' ''ex'' (Some 1) ''+i'' ''+iiiii'' = Inr (db', l') \<and>
   (\<exists>new. parse_ts tally_clock (ls_lease_expires_at l') = Some new \<and> 3 \<le> new)"
proof -
  let ?db = "demo_db [demo_lease ''l1'' 1 ''active'']"
  let ?h = "heartbeat_executor_lease tally_clock ?db ''r1'' ''ex'' (Some 1) ''+i'' ''+iiiii''"
  have "case ?h of Inl _ \<Rightarrow> False | Inr (d, l') \<Rightarrow> ls_lease_id l' = ''l1''" by code_simp
  then obtain d l' where h: "?h = Inr (d, l')" "ls_lease_id l' = ''l1''"
    by (auto split: sum.splits)
  have e: "ls_lease_expires_at (demo_lease ''l1'' 1 ''active'') = ''+iii''" by (simp add: demo_lease_def)
  from heartbeat_renews_live_lease[OF tally_clock_ok demo_inv(2)[of "''active''"] _ _ h(1),
      of "demo_lease ''l1'' 1 ''active''"] h(2) e
  obtain old new where "parse_ts tally_clock ''+iii'' = Some old"
      "parse_ts tally_clock (ls_lease_expires_at l') = Some new" "old \<le> new"
    by auto
  then show ?thesis using h(1) by (auto simp: tally_clock_def)
qed

lemma update_where_twice:
  "(\<And>r. f (f r) = f r) \<Longrightarrow> (\<And>r. p (f r) = p r) \<Longrightarrow>
   update_where p f (update_where q f t) = update_where (\<lambda>r. p r \<or> q r) f t"
  by (induction t) auto

lemma expire_fold_leases:
  "t_leases (fold (expire_one now) rows db) =
     update_where (\<lambda>l. ls_lease_id l \<in> ls_lease_id ` set rows) (expire_lease now) (t_leases db)"
proof (induction rows arbitrary: db)
  case Nil
  then show ?case by (simp add: update_where_id)
next
  case (Cons row rows)
  have "t_leases (expire_one now row db) =
      update_where (\<lambda>r. ls_lease_id r = ls_lease_id row) (expire_lease now) (t_leases db)"
    by (simp add: expire_one_def)
  moreover have "expire_lease now (expire_lease now r) = expire_lease now r"
    "ls_lease_id (expire_lease now r) = ls_lease_id r" for r
    by (simp_all add: expire_lease_def)
  ultimately show ?case
    using Cons by (simp add: update_where_twice disj_commute)
qed

text \<open>
  A sweep whose batch covers the leases it may end is complete: afterwards no run without an
  outcome has an active lease at or past the sweep's time, and every other lease is as it was.
\<close>

theorem sweep_complete:
  assumes "lease_inv db" "expire_executor_leases db now batch = Inr (db', ended)"
    "int (length (t_leases db)) \<le> batch"
  shows "(\<forall>l \<in> set (t_leases db'). ls_status l = ''active'' \<and> clear_run db' (ls_run l) \<longrightarrow>
      now < ls_lease_expires_at l) \<and>
    t_leases db' = map (\<lambda>l. if ls_status l = ''active'' \<and> ls_lease_expires_at l \<le> now \<and>
        clear_run db (ls_run l) then expire_lease now l else l) (t_leases db)"
proof -
  let ?q = "\<lambda>l. ls_status l = ''active'' \<and> ls_lease_expires_at l \<le> now \<and> clear_run db (ls_run l)"
  have D: "distinct (map ls_lease_id (t_leases db))" using assms(1) by (simp add: lease_inv_def)
  have q: "list_ex (\<lambda>u. run_id u = rid \<and> outcome_clear u) (t_runs db) = clear_run db rid" for rid
    by (auto simp: list_ex_iff clear_run_def)
  have "length (filter ?q (t_leases db)) \<le> nat batch"
    using assms(3) length_filter_le[of ?q "t_leases db"] by linarith
  then have rows: "set (expirable_leases db now batch) = {l \<in> set (t_leases db). ?q l}"
    unfolding expirable_leases_def q by simp
  have db': "db' = fold (expire_one now) (expirable_leases db now batch) db"
    using assms(2) by (simp add: expire_executor_leases_def Let_def split: if_splits)
  have ls: "t_leases db' = map (\<lambda>l. if ?q l then expire_lease now l else l) (t_leases db)"
    unfolding db' expire_fold_leases update_where_def rows
    using distinct_key_eq[OF D] by (intro map_cong refl if_cong) blast+
  have "clear_run db' rid = clear_run db rid" for rid
    using expire_evolves[OF assms(1,2)] runs_clear_run by (auto simp: evolves_def)
  then have "\<forall>l \<in> set (t_leases db'). ls_status l = ''active'' \<and> clear_run db' (ls_run l) \<longrightarrow>
      now < ls_lease_expires_at l"
    unfolding ls by (auto simp: expire_lease_def not_le)
  with ls show ?thesis by blast
qed

theorem sweep_complete_witness:
  "\<exists>db' ended. expire_executor_leases (demo_db [demo_lease ''l1'' 1 ''active'']) ''+iiii'' 5 = Inr (db', ended) \<and>
     t_leases db' = [expire_lease ''+iiii'' (demo_lease ''l1'' 1 ''active'')]"
proof -
  let ?db = "demo_db [demo_lease ''l1'' 1 ''active'']"
  obtain db' ended where e: "expire_executor_leases ?db ''+iiii'' 5 = Inr (db', ended)"
    by (simp add: expire_executor_leases_def Let_def)
  have "ls_lease_expires_at (demo_lease ''l1'' 1 ''active'') \<le> ''+iiii''" by code_simp
  moreover have "clear_run ?db ''r1''" by (simp add: clear_run_def demo_run_def outcome_clear_def)
  ultimately show ?thesis
    using sweep_complete[OF demo_inv(2)[of "''active''"] e] e by simp
qed

lemma update_run_count:
  assumes "distinct (map run_id (t_runs db))" "fetch_run db rid = Some run" "g run"
  shows "rowcount (\<lambda>r. run_id r = rid \<and> g r) (t_runs db) = 1"
  using rowcount_keyed_iff[OF assms(1), of "\<lambda>r. run_id r = rid \<and> g r" rid] fetch_run_SomeD[OF assms(2)] assms(3)
  by blast

text \<open>
  An executor obtains a lease exactly when the run exists, has neither an outcome nor a
  pending action, and nobody holds an active lease on it; with a fresh lease id nothing else
  refuses it.
\<close>

theorem acquire_exact:
  assumes "lease_inv db" "fresh \<notin> ls_lease_id ` set (t_leases db)"
  shows "(\<exists>db' l. acquire_executor_lease db rid ex at exp fresh = Inr (db', l)) \<longleftrightarrow>
    (\<exists>run. fetch_run db rid = Some run \<and> outcome_clear run \<and> run_current_action_id run = None) \<and>
    active_leases db rid = []"
proof
  assume "\<exists>db' l. acquire_executor_lease db rid ex at exp fresh = Inr (db', l)"
  then show "(\<exists>run. fetch_run db rid = Some run \<and> outcome_clear run \<and> run_current_action_id run = None) \<and>
    active_leases db rid = []"
    by (auto simp: acquire_executor_lease_def sbind_eq_Inr active_lease_row_def split: if_splits)
next
  assume "(\<exists>run. fetch_run db rid = Some run \<and> outcome_clear run \<and> run_current_action_id run = None) \<and>
    active_leases db rid = []"
  then obtain run where run: "fetch_run db rid = Some run" "outcome_clear run"
      "run_current_action_id run = None" and idle: "active_leases db rid = []" by auto
  have noclash: "\<not> list_ex (\<lambda>r. ls_lease_id r = fresh \<or>
      (ls_run r = rid \<and> ls_attempt_no r = latest_attempt db rid + 1)) (t_leases db)"
    using assms(2) latest_attempt_ge by (fastforce simp: list_ex_iff)
  have "rowcount (\<lambda>r. run_id r = rid \<and> outcome_clear r) (t_runs db) = 1"
    using update_run_count[OF _ run(1), of outcome_clear] assms(1) run(2) by (simp add: lease_inv_def)
  then show "\<exists>db' l. acquire_executor_lease db rid ex at exp fresh = Inr (db', l)"
    using run idle noclash
    by (simp add: acquire_executor_lease_def active_lease_row_def insert_lease_def Let_def split_beta
        require_run_truth_mutable_def outcome_clear_def)
qed

theorem acquire_exact_witness:
  "\<exists>db' l. acquire_executor_lease (demo_db [demo_lease ''l1'' 1 ''released'']) ''r1'' ''b'' ''+'' ''+i'' ''l2''
     = Inr (db', l)"
  using acquire_exact[OF demo_inv(2)[of "''released''"], of "''l2''" "''r1''" "''b''" "''+''" "''+i''"]
  by (simp add: fetch_run_def demo_run_def outcome_clear_def active_leases_def)

end
