(* ===== verification/BrowserLane.thy ===== *)
theory BrowserLane
  imports Schema
begin

text \<open>
  The single-writer lane of browser effects: \<open>browser_lane.py\<close> of
  \<open>seektalent_runtime_control\<close>. The table \<open>runtime_control_browser_lanes\<close> holds at most one
  row (its CHECK admits one key), whose \<open>fencing_token\<close> grows with every acquisition. An active
  row stays active past its expiry until its owner releases it or a resolution terminalizes it
  from durable evidence.

  A resolution id \<open>lane-resolution-<uuid4>\<close> is the argument \<open>fresh\<close>, the hex digest of
  \<open>hashlib.sha256\<close> the argument \<open>sha\<close>. The literal types of the source are the datatypes
  \<open>lane_end\<close> and \<open>lane_outcome\<close>.
\<close>

section \<open>Texts the lane accepts\<close>

definition LIEPIN_BROWSER_LANE :: string where
  "LIEPIN_BROWSER_LANE = ''liepin_browser''"

definition between :: "char \<Rightarrow> char \<Rightarrow> char \<Rightarrow> bool" where
  "between a b c \<longleftrightarrow> a \<le> c \<and> c \<le> b"

text \<open>\<open>_SAFE_ID\<close>: \<open>[A-Za-z0-9_.:/-]{1,256}\<close>.\<close>

definition safe_id :: "string \<Rightarrow> bool" where
  "safe_id s \<longleftrightarrow> 1 \<le> length s \<and> length s \<le> 256 \<and>
     list_all (\<lambda>c. between CHR ''A'' CHR ''Z'' c \<or> between CHR ''a'' CHR ''z'' c \<or>
                   between CHR ''0'' CHR ''9'' c \<or> c \<in> set ''_.:/-'') s"

text \<open>\<open>_SAFE_REASON\<close>: \<open>[a-z][a-z0-9_]{0,159}\<close>.\<close>

definition safe_reason :: "string \<Rightarrow> bool" where
  "safe_reason s \<longleftrightarrow>
     (case s of
        [] \<Rightarrow> False
      | c # cs \<Rightarrow> between CHR ''a'' CHR ''z'' c \<and> length cs \<le> 159 \<and>
          list_all (\<lambda>d. between CHR ''a'' CHR ''z'' d \<or> between CHR ''0'' CHR ''9'' d \<or> d = CHR ''_'') cs)"

text \<open>\<open>[0-9a-f]{64}\<close>.\<close>

definition hex_digest :: "string \<Rightarrow> bool" where
  "hex_digest s \<longleftrightarrow> length s = 64 \<and>
     list_all (\<lambda>c. between CHR ''0'' CHR ''9'' c \<or> between CHR ''a'' CHR ''f'' c) s"

definition require_safe_id :: "string \<Rightarrow> string \<Rightarrow> rc_error + unit" where
  "require_safe_id value label = (if safe_id value then Inr () else py_fail (label @ '' is invalid''))"

section \<open>Rows\<close>

text \<open>The dataclass \<open>BrowserLaneLease\<close>; \<open>BrowserLaneSnapshot\<close> has the columns of \<open>lane_row\<close>.\<close>

record lane_lease =
  ll_lane_key :: string
  ll_fencing_token :: int
  ll_owner_id :: string
  ll_owner_process_id :: int
  ll_process_boot_id :: string
  ll_runtime_run_id :: "string option"
  ll_operation_id :: string
  ll_operation_kind :: string
  ll_acquired_at :: string
  ll_heartbeat_at :: string
  ll_lease_expires_at :: string

definition lease_from_row :: "lane_row option \<Rightarrow> rc_error + lane_lease" where
  "lease_from_row row =
     (case row of
        None \<Rightarrow> rc_fail ''liepin_browser_lane_state_invalid''
      | Some r \<Rightarrow>
          if bl_status r \<noteq> ''active'' then rc_fail ''liepin_browser_lane_state_invalid''
          else Inr \<lparr>ll_lane_key = bl_lane_key r, ll_fencing_token = bl_fencing_token r,
                    ll_owner_id = bl_owner_id r, ll_owner_process_id = bl_owner_process_id r,
                    ll_process_boot_id = bl_process_boot_id r,
                    ll_runtime_run_id = bl_runtime_run_id r, ll_operation_id = bl_operation_id r,
                    ll_operation_kind = bl_operation_kind r, ll_acquired_at = bl_acquired_at r,
                    ll_heartbeat_at = bl_heartbeat_at r,
                    ll_lease_expires_at =
                      (case bl_lease_expires_at r of None \<Rightarrow> ''None'' | Some t \<Rightarrow> t)\<rparr>)"

definition snapshot_from_row :: "lane_row option \<Rightarrow> rc_error + lane_row" where
  "snapshot_from_row row =
     (case row of None \<Rightarrow> rc_fail ''liepin_browser_lane_state_invalid'' | Some r \<Rightarrow> Inr r)"

definition get_browser_lane :: "rcdb \<Rightarrow> string \<Rightarrow> lane_row option" where
  "get_browser_lane db key = fetchone (\<lambda>r. bl_lane_key r = key) (t_browser_lanes db)"

definition update_lanes ::
  "(lane_row \<Rightarrow> bool) \<Rightarrow> (lane_row \<Rightarrow> lane_row) \<Rightarrow> rcdb \<Rightarrow> rcdb" where
  "update_lanes p f db = db\<lparr>t_browser_lanes := update_where p f (t_browser_lanes db)\<rparr>"

section \<open>Acquiring, renewing and ending a lease\<close>

definition lane_operation_kinds :: "string list" where
  "lane_operation_kinds = [''cards'', ''details'', ''continuation'', ''recheck'', ''prepare_readiness'']"

definition validate_lane_write ::
  "string \<Rightarrow> string \<Rightarrow> int \<Rightarrow> string \<Rightarrow> string option \<Rightarrow> string \<Rightarrow> string \<Rightarrow> string \<Rightarrow> string \<Rightarrow>
   rc_error + unit" where
  "validate_lane_write lane_key owner_id owner_process_id process_boot_id runtime_run_id
       operation_id operation_kind now lease_expires_at =
     (if lane_key \<noteq> LIEPIN_BROWSER_LANE then py_fail ''browser lane key is invalid''
      else
        sbind (require_safe_id owner_id ''owner_id'') (\<lambda>_.
        sbind (require_safe_id process_boot_id ''process_boot_id'') (\<lambda>_.
        sbind (require_safe_id operation_id ''operation_id'') (\<lambda>_.
        sbind (case runtime_run_id of None \<Rightarrow> Inr () | Some r \<Rightarrow> require_safe_id r ''runtime_run_id'') (\<lambda>_.
        if owner_process_id < 1 then py_fail ''owner_process_id is invalid''
        else if operation_kind \<notin> set lane_operation_kinds then py_fail ''operation_kind is invalid''
        else if lease_expires_at \<le> now then py_fail ''browser lane expiry is invalid''
        else Inr ())))))"

text \<open>\<open>INSERT .. ON CONFLICT(lane_key) DO UPDATE\<close>: the row replaces the one of its key.\<close>

definition upsert_lane :: "lane_row \<Rightarrow> rcdb \<Rightarrow> rcdb" where
  "upsert_lane l db =
     (case get_browser_lane db (bl_lane_key l) of
        None \<Rightarrow> db\<lparr>t_browser_lanes := t_browser_lanes db @ [l]\<rparr>
      | Some _ \<Rightarrow> update_lanes (\<lambda>r. bl_lane_key r = bl_lane_key l) (\<lambda>_. l) db)"

definition try_acquire_browser_lane ::
  "rcdb \<Rightarrow> string \<Rightarrow> string \<Rightarrow> int \<Rightarrow> string \<Rightarrow> string option \<Rightarrow> string \<Rightarrow> string \<Rightarrow> string \<Rightarrow> string \<Rightarrow>
   rc_error + (rcdb \<times> lane_lease option)" where
  "try_acquire_browser_lane db lane_key owner_id owner_process_id process_boot_id runtime_run_id
       operation_id operation_kind acquired_at lease_expires_at =
     sbind (validate_lane_write lane_key owner_id owner_process_id process_boot_id runtime_run_id
              operation_id operation_kind acquired_at lease_expires_at) (\<lambda>_.
     let row = get_browser_lane db lane_key
     in if (case row of None \<Rightarrow> False | Some r \<Rightarrow> bl_status r = ''active'') then Inr (db, None)
        else
          let fencing_token = (case row of None \<Rightarrow> 1 | Some r \<Rightarrow> bl_fencing_token r + 1);
              l = \<lparr>bl_lane_key = lane_key, bl_fencing_token = fencing_token, bl_status = ''active'',
                   bl_owner_id = owner_id, bl_owner_process_id = owner_process_id,
                   bl_process_boot_id = process_boot_id, bl_runtime_run_id = runtime_run_id,
                   bl_operation_id = operation_id, bl_operation_kind = operation_kind,
                   bl_acquired_at = acquired_at, bl_heartbeat_at = acquired_at,
                   bl_lease_expires_at = Some lease_expires_at, bl_released_at = None,
                   bl_last_failure_code = None, bl_updated_at = acquired_at\<rparr>;
              db' = upsert_lane l db
          in sbind (lease_from_row (get_browser_lane db' lane_key)) (\<lambda>lease. Inr (db', Some lease)))"

text \<open>The rows an owner may still write: its token, and the lane active.\<close>

definition lane_held :: "string \<Rightarrow> string \<Rightarrow> int \<Rightarrow> lane_row \<Rightarrow> bool" where
  "lane_held lane_key owner_id fencing_token r \<longleftrightarrow>
     bl_lane_key r = lane_key \<and> bl_owner_id r = owner_id \<and>
     bl_fencing_token r = fencing_token \<and> bl_status r = ''active''"

text \<open>\<open>lease_expires_at > t\<close> of SQL, false for NULL.\<close>

definition expires_after :: "lane_row \<Rightarrow> string \<Rightarrow> bool" where
  "expires_after r t \<longleftrightarrow> (case bl_lease_expires_at r of None \<Rightarrow> False | Some e \<Rightarrow> t < e)"

definition heartbeat_browser_lane ::
  "rcdb \<Rightarrow> string \<Rightarrow> string \<Rightarrow> int \<Rightarrow> string \<Rightarrow> string \<Rightarrow> rc_error + (rcdb \<times> lane_lease)" where
  "heartbeat_browser_lane db lane_key owner_id fencing_token heartbeat_at lease_expires_at =
     (let p = (\<lambda>r. lane_held lane_key owner_id fencing_token r \<and> expires_after r heartbeat_at);
          db' = update_lanes p (\<lambda>r. r\<lparr>bl_heartbeat_at := heartbeat_at,
                  bl_lease_expires_at := Some lease_expires_at, bl_updated_at := heartbeat_at\<rparr>) db
      in if rowcount p (t_browser_lanes db) \<noteq> 1 then rc_fail ''liepin_browser_lane_lost''
         else sbind (lease_from_row (get_browser_lane db' lane_key)) (\<lambda>lease. Inr (db', lease)))"

datatype lane_end = LaneCompleted | LaneFailed

fun lane_end_text :: "lane_end \<Rightarrow> string" where
  "lane_end_text LaneCompleted = ''completed''"
| "lane_end_text LaneFailed = ''failed''"

definition release_browser_lane ::
  "rcdb \<Rightarrow> string \<Rightarrow> string \<Rightarrow> int \<Rightarrow> string \<Rightarrow> lane_end \<Rightarrow> string option \<Rightarrow> rc_error + (rcdb \<times> lane_row)" where
  "release_browser_lane db lane_key owner_id fencing_token released_at status failure_code =
     (if status = LaneCompleted \<and> failure_code \<noteq> None
      then py_fail ''completed browser lane cannot retain a failure''
      else
        let code = (case failure_code of
                      None \<Rightarrow> None
                    | Some c \<Rightarrow> Some (if safe_reason c then c else ''liepin_browser_lane_failed''));
            p = lane_held lane_key owner_id fencing_token;
            db' = update_lanes p (\<lambda>r. r\<lparr>bl_status := lane_end_text status, bl_lease_expires_at := None,
                    bl_released_at := Some released_at, bl_last_failure_code := code,
                    bl_updated_at := released_at\<rparr>) db
        in if rowcount p (t_browser_lanes db) \<noteq> 1 then rc_fail ''liepin_browser_lane_lost''
           else sbind (snapshot_from_row (get_browser_lane db' lane_key)) (\<lambda>s. Inr (db', s)))"

definition mark_browser_lane_unresolved ::
  "rcdb \<Rightarrow> string \<Rightarrow> string \<Rightarrow> int \<Rightarrow> string \<Rightarrow> string \<Rightarrow> rc_error + (rcdb \<times> lane_row)" where
  "mark_browser_lane_unresolved db lane_key owner_id fencing_token failure_code observed_at =
     (if \<not> safe_reason failure_code then py_fail ''browser_lane_failure_code_invalid''
      else
        let p = lane_held lane_key owner_id fencing_token;
            db' = update_lanes p (\<lambda>r. r\<lparr>bl_last_failure_code := Some failure_code,
                    bl_updated_at := observed_at\<rparr>) db
        in if rowcount p (t_browser_lanes db) \<noteq> 1 then rc_fail ''liepin_browser_lane_lost''
           else sbind (snapshot_from_row (get_browser_lane db' lane_key)) (\<lambda>s. Inr (db', s)))"

section \<open>Resolving an orphaned lease\<close>

datatype lane_outcome = NoEffect | TerminalObserved | UnknownOutcome

fun lane_outcome_text :: "lane_outcome \<Rightarrow> string" where
  "lane_outcome_text NoEffect = ''no_effect''"
| "lane_outcome_text TerminalObserved = ''terminal_observed''"
| "lane_outcome_text UnknownOutcome = ''unknown''"

fun expected_decision :: "lane_outcome \<Rightarrow> string" where
  "expected_decision UnknownOutcome = ''unresolved''"
| "expected_decision NoEffect = ''no_dispatch_proved''"
| "expected_decision TerminalObserved = ''conclusive_observation''"

text \<open>INSERT with the primary key and the CHECK of the digest's length.\<close>

definition insert_resolution :: "lane_resolution_row \<Rightarrow> rcdb \<Rightarrow> rc_error + rcdb" where
  "insert_resolution x db =
     (if list_ex (\<lambda>r. lr_resolution_id r = lr_resolution_id x) (t_lane_resolutions db) \<or>
         length (lr_evidence_digest x) \<noteq> 64
      then Inl IntegrityError
      else Inr (db\<lparr>t_lane_resolutions := t_lane_resolutions db @ [x]\<rparr>))"

text \<open>The UPDATE that ends the fence \<open>token\<close>.\<close>

definition terminalize_lane :: "int \<Rightarrow> string \<Rightarrow> rcdb \<Rightarrow> rcdb" where
  "terminalize_lane token resolved_at =
     update_lanes (\<lambda>r. bl_lane_key r = LIEPIN_BROWSER_LANE \<and> bl_fencing_token r = token \<and>
                       bl_status r = ''active'')
       (\<lambda>r. r\<lparr>bl_status := ''failed'', bl_lease_expires_at := None, bl_released_at := Some resolved_at,
              bl_last_failure_code := Some ''liepin_browser_lane_reconciled'',
              bl_updated_at := resolved_at\<rparr>)"

text \<open>
  The lane row the resolution accepts: the active fence of that run and operation, not expiring
  after \<open>resolved_at\<close>. A comparison with a NULL expiry raises \<open>TypeError\<close>.
\<close>

definition require_resolvable_lane ::
  "lane_row option \<Rightarrow> int \<Rightarrow> string \<Rightarrow> string \<Rightarrow> string \<Rightarrow> rc_error + lane_row" where
  "require_resolvable_lane row token rid oid resolved_at =
     (case row of
        None \<Rightarrow> rc_fail ''liepin_browser_lane_resolution_conflict''
      | Some l \<Rightarrow>
          if bl_status l \<noteq> ''active'' \<or> bl_fencing_token l \<noteq> token \<or>
             bl_runtime_run_id l \<noteq> Some rid \<or> bl_operation_id l \<noteq> oid
          then rc_fail ''liepin_browser_lane_resolution_conflict''
          else
            (case bl_lease_expires_at l of
               None \<Rightarrow> Inl (PyTypeError ''not supported between instances of NoneType and str'')
             | Some e \<Rightarrow>
                 if resolved_at < e then rc_fail ''liepin_browser_lane_resolution_conflict''
                 else Inr l))"

text \<open>The newest reconciliation of the operation with exactly this evidence.\<close>

definition evidence_row ::
  "rcdb \<Rightarrow> string \<Rightarrow> string \<Rightarrow> string \<Rightarrow> string \<Rightarrow> string option \<Rightarrow> reconciliation_row option" where
  "evidence_row db rid oid evidence_ref evidence_digest history_conclusion =
     max_by rn_committed_reconciliation_revision
       (filter (\<lambda>r. rn_run r = rid \<and> rn_operation_id r = oid \<and>
          rn_history_result_ref r = evidence_ref \<and> rn_history_result_digest r = evidence_digest \<and>
          rn_history_conclusion r = history_conclusion) (t_reconciliations db))"

definition resolve_expired_browser_lane_after_reconciliation ::
  "rcdb \<Rightarrow> int \<Rightarrow> string \<Rightarrow> string \<Rightarrow> lane_outcome \<Rightarrow> string option \<Rightarrow> string \<Rightarrow> string \<Rightarrow> string \<Rightarrow> string \<Rightarrow>
   rc_error + (rcdb \<times> bool)" where
  "resolve_expired_browser_lane_after_reconciliation db token rid oid outcome history_conclusion
       evidence_ref evidence_digest resolved_at fresh =
     (if \<not> safe_id evidence_ref \<or> \<not> hex_digest evidence_digest
      then py_fail ''browser_lane_resolution_evidence_invalid''
      else if outcome = NoEffect \<and>
              history_conclusion \<notin> {None, Some ''accepted_no_dispatch''}
      then py_fail ''browser_lane_no_effect_evidence_invalid''
      else
        sbind (require_resolvable_lane (get_browser_lane db LIEPIN_BROWSER_LANE) token rid oid resolved_at) (\<lambda>_.
        sbind (or_raise (RuntimeControlError ''liepin_browser_lane_source_operation_missing'' [])
                 (fetch_operation db rid oid)) (\<lambda>operation.
        sbind (or_raise (RuntimeControlError ''liepin_browser_lane_reconciliation_evidence_missing'' [])
                 (evidence_row db rid oid evidence_ref evidence_digest history_conclusion)) (\<lambda>rn.
        if rn_decision_kind rn \<noteq> expected_decision outcome
        then rc_fail ''liepin_browser_lane_reconciliation_evidence_missing''
        else if outcome = NoEffect \<and>
                (rn_retry_posture rn \<noteq> ''safe_retry'' \<or> rn_dispatch_intent_ref rn \<noteq> None)
        then rc_fail ''liepin_browser_lane_no_effect_evidence_missing''
        else if outcome = TerminalObserved \<and>
                (op_phase operation \<notin> {''reconciled'', ''main_committed''} \<or>
                 op_observation_ref operation = None \<or>
                 op_disposition operation = Some ''reconciliation_unknown'' \<or>
                 rn_observation_ref rn \<noteq> op_observation_ref operation)
        then rc_fail ''liepin_browser_lane_terminal_evidence_missing''
        else
          sbind (insert_resolution \<lparr>lr_resolution_id = fresh, lr_lane_key = LIEPIN_BROWSER_LANE,
              lr_fencing_token = token, lr_run = rid, lr_operation_id = oid,
              lr_outcome = lane_outcome_text outcome, lr_history_conclusion = history_conclusion,
              lr_evidence_ref = evidence_ref, lr_evidence_digest = evidence_digest,
              lr_resolved_at = resolved_at\<rparr> db) (\<lambda>db1.
          if outcome = UnknownOutcome then Inr (db1, False)
          else Inr (terminalize_lane token resolved_at db1, True))))))"

datatype lane_reconciliation = NotApplicable | Released | NeedsOperator

text \<open>
  \<open>reconcile_expired_browser_lane_from_durable_evidence\<close> works in three transactions: it reads the
  lane, then the newest reconciliation of its operation, then resolves. \<open>lane\<close> is what the first
  one read.
\<close>

definition newest_reconciliation :: "rcdb \<Rightarrow> string \<Rightarrow> string \<Rightarrow> reconciliation_row option" where
  "newest_reconciliation db rid oid =
     max_by rn_committed_reconciliation_revision
       (filter (\<lambda>r. rn_run r = rid \<and> rn_operation_id r = oid) (t_reconciliations db))"

definition reconcile_observed_lane ::
  "lane_row option \<Rightarrow> rcdb \<Rightarrow> string \<Rightarrow> string \<Rightarrow> rc_error + (rcdb \<times> lane_reconciliation)" where
  "reconcile_observed_lane lane db observed_at fresh =
     (case lane of
        None \<Rightarrow> Inr (db, NotApplicable)
      | Some l \<Rightarrow>
          (case (bl_lease_expires_at l, bl_runtime_run_id l) of
             (Some e, Some rid) \<Rightarrow>
               if bl_status l \<noteq> ''active'' \<or> observed_at < e then Inr (db, NotApplicable)
               else
                 let row = newest_reconciliation db rid (bl_operation_id l);
                     attention = update_lanes (\<lambda>r. bl_lane_key r = bl_lane_key l \<and>
                         bl_fencing_token r = bl_fencing_token l \<and> bl_status r = ''active'')
                       (\<lambda>r. r\<lparr>bl_last_failure_code := Some ''liepin_browser_lane_reconciliation_required'',
                              bl_updated_at := observed_at\<rparr>) db
                 in (case row of
                       None \<Rightarrow> Inr (attention, NeedsOperator)
                     | Some rn \<Rightarrow>
                         if rn_decision_kind rn = ''unresolved'' then Inr (attention, NeedsOperator)
                         else if rn_decision_kind rn \<notin> {''no_dispatch_proved'', ''conclusive_observation''}
                         then Inr (db, NeedsOperator)
                         else
                           sbind (resolve_expired_browser_lane_after_reconciliation db
                                    (bl_fencing_token l) rid (bl_operation_id l)
                                    (if rn_decision_kind rn = ''no_dispatch_proved'' then NoEffect
                                     else TerminalObserved)
                                    (rn_history_conclusion rn) (rn_history_result_ref rn)
                                    (rn_history_result_digest rn) observed_at fresh)
                             (\<lambda>(db', released). Inr (db', if released then Released else NeedsOperator)))
           | _ \<Rightarrow> Inr (db, NotApplicable)))"

definition reconcile_expired_browser_lane_from_durable_evidence ::
  "rcdb \<Rightarrow> string \<Rightarrow> string \<Rightarrow> rc_error + (rcdb \<times> lane_reconciliation)" where
  "reconcile_expired_browser_lane_from_durable_evidence db observed_at fresh =
     reconcile_observed_lane (get_browser_lane db LIEPIN_BROWSER_LANE) db observed_at fresh"

definition resolve_browser_lane_from_conclusive_observation ::
  "(string \<Rightarrow> string) \<Rightarrow> rcdb \<Rightarrow> string \<Rightarrow> string \<Rightarrow> string \<Rightarrow> string \<Rightarrow> rc_error + (rcdb \<times> bool)" where
  "resolve_browser_lane_from_conclusive_observation sha db rid oid resolved_at fresh =
     (case (get_browser_lane db LIEPIN_BROWSER_LANE, fetch_operation db rid oid) of
        (Some l, Some operation) \<Rightarrow>
          (case op_observation_ref operation of
             None \<Rightarrow> Inr (db, False)
           | Some evidence_ref \<Rightarrow>
               if bl_status l \<noteq> ''active'' \<or> bl_runtime_run_id l \<noteq> Some rid \<or> bl_operation_id l \<noteq> oid \<or>
                  op_phase operation \<notin> {''observed'', ''main_committed''} \<or>
                  op_disposition operation = Some ''reconciliation_unknown''
               then Inr (db, False)
               else
                 sbind (insert_resolution \<lparr>lr_resolution_id = fresh, lr_lane_key = LIEPIN_BROWSER_LANE,
                     lr_fencing_token = bl_fencing_token l, lr_run = rid, lr_operation_id = oid,
                     lr_outcome = ''terminal_observed'',
                     lr_history_conclusion = Some ''observed_result'',
                     lr_evidence_ref = evidence_ref, lr_evidence_digest = sha evidence_ref,
                     lr_resolved_at = resolved_at\<rparr> db) (\<lambda>db1.
                 Inr (terminalize_lane (bl_fencing_token l) resolved_at db1, True)))
      | _ \<Rightarrow> Inr (db, False))"

section \<open>The lane as a state machine\<close>

text \<open>
  The abstract fence: never held, held by an owner under a token for an operation, or ended. Only
  the next token follows an ended one, and a held fence is followed by its own end.
\<close>

datatype fence =
    NeverHeld
  | Held int string "string option" string
  | Ended int

inductive fence_step :: "fence \<Rightarrow> fence \<Rightarrow> bool" where
  fence_idle: "fence_step s s"
| fence_first: "fence_step NeverHeld (Held 1 owner run oid)"
| fence_next: "fence_step (Ended n) (Held (n + 1) owner run oid)"
| fence_end: "fence_step (Held n owner run oid) (Ended n)"

inductive_cases fence_heldE: "fence_step (Held n owner run oid) t"
inductive_cases fence_endedE: "fence_step (Ended n) t"
inductive_cases fence_neverE: "fence_step NeverHeld t"

fun fence_token :: "fence \<Rightarrow> int" where
  "fence_token NeverHeld = 0"
| "fence_token (Held n owner run oid) = n"
| "fence_token (Ended n) = n"

definition row_fence :: "lane_row \<Rightarrow> fence" where
  "row_fence l =
     (if bl_status l = ''active''
      then Held (bl_fencing_token l) (bl_owner_id l) (bl_runtime_run_id l) (bl_operation_id l)
      else Ended (bl_fencing_token l))"

definition fence_of :: "rcdb \<Rightarrow> fence" where
  "fence_of db = (case t_browser_lanes db of [] \<Rightarrow> NeverHeld | l # _ \<Rightarrow> row_fence l)"

text \<open>A lane row as the schema and the methods keep it.\<close>

definition lane_ok :: "lane_row \<Rightarrow> bool" where
  "lane_ok l \<longleftrightarrow> bl_lane_key l = LIEPIN_BROWSER_LANE \<and> 1 \<le> bl_fencing_token l \<and>
     bl_operation_kind l \<in> set lane_operation_kinds \<and> safe_id (bl_owner_id l) \<and>
     safe_id (bl_operation_id l) \<and>
     (if bl_status l = ''active'' then bl_lease_expires_at l \<noteq> None \<and> bl_released_at l = None
      else bl_status l \<in> {''completed'', ''failed''} \<and> bl_lease_expires_at l = None \<and>
           bl_released_at l \<noteq> None) \<and>
     (case bl_last_failure_code l of None \<Rightarrow> True | Some c \<Rightarrow> safe_reason c)"

definition lane_inv :: "rcdb \<Rightarrow> bool" where
  "lane_inv db \<longleftrightarrow> length (t_browser_lanes db) \<le> 1 \<and> list_all lane_ok (t_browser_lanes db) \<and>
     distinct (map lr_resolution_id (t_lane_resolutions db))"

lemma lane_inv_cases:
  assumes "lane_inv db"
  obtains "t_browser_lanes db = []" | l where "t_browser_lanes db = [l]" "lane_ok l"
  using assms by (cases "t_browser_lanes db") (auto simp: lane_inv_def)

lemma update_lanes_simps [simp]:
  "t_browser_lanes (update_lanes p f db) = update_where p f (t_browser_lanes db)"
  "t_lane_resolutions (update_lanes p f db) = t_lane_resolutions db"
  "t_operations (update_lanes p f db) = t_operations db"
  "t_reconciliations (update_lanes p f db) = t_reconciliations db"
  by (simp_all add: update_lanes_def)

lemma terminalize_lane_simps [simp]:
  "t_lane_resolutions (terminalize_lane n t db) = t_lane_resolutions db"
  by (simp add: terminalize_lane_def)

lemma constant_reasons [simp]:
  "safe_reason ''liepin_browser_lane_failed''"
  "safe_reason ''liepin_browser_lane_reconciled''"
  "safe_reason ''liepin_browser_lane_reconciliation_required''"
  by code_simp+

text \<open>What one transaction may do to the lane and to the resolutions.\<close>

definition lane_evolves :: "rcdb \<Rightarrow> rcdb \<Rightarrow> bool" where
  "lane_evolves db db' \<longleftrightarrow> lane_inv db' \<and> fence_step (fence_of db) (fence_of db') \<and>
     (\<exists>es. t_lane_resolutions db' = t_lane_resolutions db @ es)"

lemma lane_evolves_refl: "lane_inv db \<Longrightarrow> lane_evolves db db"
  by (simp add: lane_evolves_def fence_idle)

lemma lane_evolves_update:
  assumes "lane_inv db"
    and "\<And>l. lane_ok l \<Longrightarrow> p l \<Longrightarrow> lane_ok (f l) \<and> fence_step (row_fence l) (row_fence (f l))"
  shows "lane_evolves db (update_lanes p f db)"
  using assms(1)
proof (rule lane_inv_cases)
  assume "t_browser_lanes db = []"
  with assms(1) show ?thesis by (simp add: lane_evolves_def fence_of_def lane_inv_def fence_idle)
next
  fix l assume "t_browser_lanes db = [l]" "lane_ok l"
  with assms show ?thesis
    by (auto simp: lane_evolves_def fence_of_def lane_inv_def intro: fence_idle)
qed

lemma row_fence_ended:
  "bl_status l = ''active'' \<Longrightarrow> bl_status l' \<noteq> ''active'' \<Longrightarrow> bl_fencing_token l' = bl_fencing_token l \<Longrightarrow>
   fence_step (row_fence l) (row_fence l')"
  by (simp add: row_fence_def fence_end)

lemma row_fence_same:
  "bl_status l' = bl_status l \<Longrightarrow> bl_fencing_token l' = bl_fencing_token l \<Longrightarrow>
   bl_owner_id l' = bl_owner_id l \<Longrightarrow> bl_runtime_run_id l' = bl_runtime_run_id l \<Longrightarrow>
   bl_operation_id l' = bl_operation_id l \<Longrightarrow> fence_step (row_fence l) (row_fence l')"
  by (simp add: row_fence_def fence_idle)

lemma validate_lane_write_Inr:
  "validate_lane_write key ow pid boot rid oid kind now exp = Inr u \<longleftrightarrow>
     key = LIEPIN_BROWSER_LANE \<and> safe_id ow \<and> safe_id boot \<and> safe_id oid \<and>
     (case rid of None \<Rightarrow> True | Some r \<Rightarrow> safe_id r) \<and> 1 \<le> pid \<and>
     kind \<in> set lane_operation_kinds \<and> now < exp"
  by (auto simp: validate_lane_write_def require_safe_id_def sbind_eq_Inr not_le split: option.splits)

lemma acquire_lane_evolves:
  assumes "lane_inv db"
    "try_acquire_browser_lane db key ow pid boot rid oid kind at exp = Inr (db', res)"
  shows "lane_evolves db db' \<and>
    (case res of
       None \<Rightarrow> db' = db \<and> (\<exists>n o' r' p'. fence_of db = Held n o' r' p')
     | Some l \<Rightarrow> ll_fencing_token l = fence_token (fence_of db) + 1 \<and>
         fence_of db' = Held (ll_fencing_token l) ow rid oid \<and>
         (\<forall>n o' r' p'. fence_of db \<noteq> Held n o' r' p'))"
proof -
  have v: "key = LIEPIN_BROWSER_LANE" "safe_id ow" "safe_id oid" "kind \<in> set lane_operation_kinds"
    using assms(2) by (auto simp: try_acquire_browser_lane_def sbind_eq_Inr validate_lane_write_Inr)
  show ?thesis
    using assms(1)
  proof (rule lane_inv_cases)
    assume e: "t_browser_lanes db = []"
    with v assms show ?thesis
      by (auto simp: try_acquire_browser_lane_def sbind_eq_Inr get_browser_lane_def upsert_lane_def
          lease_from_row_def Let_def lane_evolves_def lane_inv_def lane_ok_def fence_of_def row_fence_def
          intro: fence_first)
  next
    fix l assume l: "t_browser_lanes db = [l]" "lane_ok l"
    then have k: "bl_lane_key l = LIEPIN_BROWSER_LANE" "1 \<le> bl_fencing_token l" by (auto simp: lane_ok_def)
    show ?thesis
    proof (cases "bl_status l = ''active''")
      case True
      with l k v assms show ?thesis
        by (auto simp: try_acquire_browser_lane_def sbind_eq_Inr get_browser_lane_def
            fence_of_def row_fence_def lane_evolves_refl)
    next
      case False
      with l k v assms show ?thesis
        by (auto simp: try_acquire_browser_lane_def sbind_eq_Inr get_browser_lane_def upsert_lane_def
            lease_from_row_def Let_def lane_evolves_def lane_inv_def lane_ok_def fence_of_def row_fence_def
            intro: fence_next)
    qed
  qed
qed

lemma lane_held_ok: "lane_held key ow n l \<Longrightarrow> bl_status l = ''active'' \<and> bl_fencing_token l = n \<and> bl_owner_id l = ow"
  by (simp add: lane_held_def)

lemma heartbeat_lane_evolves:
  assumes "lane_inv db" "heartbeat_browser_lane db key ow n at exp = Inr (db', res)"
  shows "lane_evolves db db' \<and> fence_of db' = fence_of db"
proof -
  have db': "db' = update_lanes (\<lambda>r. lane_held key ow n r \<and> expires_after r at)
      (\<lambda>r. r\<lparr>bl_heartbeat_at := at, bl_lease_expires_at := Some exp, bl_updated_at := at\<rparr>) db"
    using assms(2) by (auto simp: heartbeat_browser_lane_def Let_def sbind_eq_Inr split: if_splits)
  have "lane_evolves db db'"
    unfolding db'
    by (rule lane_evolves_update[OF assms(1)])
      (auto simp: lane_ok_def lane_held_def row_fence_def fence_idle)
  moreover have "fence_of db' = fence_of db"
    unfolding db' by (simp add: fence_of_def row_fence_def split: list.splits)
  ultimately show ?thesis by simp
qed

lemma release_lane_evolves:
  assumes "lane_inv db" "release_browser_lane db key ow n at st code = Inr (db', res)"
  shows "lane_evolves db db' \<and> (\<exists>r p. fence_of db = Held n ow r p) \<and> fence_of db' = Ended n"
proof -
  obtain c where db': "db' = update_lanes (lane_held key ow n)
      (\<lambda>r. r\<lparr>bl_status := lane_end_text st, bl_lease_expires_at := None, bl_released_at := Some at,
             bl_last_failure_code := c, bl_updated_at := at\<rparr>) db"
    and c: "case c of None \<Rightarrow> True | Some x \<Rightarrow> safe_reason x"
    and one: "rowcount (lane_held key ow n) (t_browser_lanes db) = 1"
    using assms(2)
    by (auto simp: release_browser_lane_def Let_def sbind_eq_Inr split: if_splits option.splits)
  have st: "lane_end_text st \<in> {''completed'', ''failed''}" "lane_end_text st \<noteq> ''active''"
    by (cases st; simp)+
  have "lane_evolves db db'"
    unfolding db'
    by (rule lane_evolves_update[OF assms(1)])
      (use st c in \<open>auto simp: lane_ok_def lane_held_def intro: row_fence_ended\<close>)
  then show ?thesis
    using assms(1) one st(2) unfolding db'
    by (elim lane_inv_cases) (auto simp: fence_of_def row_fence_def lane_held_def split: if_splits)
qed

lemma mark_lane_evolves:
  assumes "lane_inv db" "mark_browser_lane_unresolved db key ow n code at = Inr (db', res)"
  shows "lane_evolves db db' \<and> fence_of db' = fence_of db"
proof -
  have db': "db' = update_lanes (lane_held key ow n)
      (\<lambda>r. r\<lparr>bl_last_failure_code := Some code, bl_updated_at := at\<rparr>) db" and c: "safe_reason code"
    using assms(2)
    by (auto simp: mark_browser_lane_unresolved_def Let_def sbind_eq_Inr split: if_splits)
  have "lane_evolves db db'"
    unfolding db'
    by (rule lane_evolves_update[OF assms(1)])
      (use c in \<open>auto simp: lane_ok_def row_fence_def fence_idle split: if_splits\<close>)
  moreover have "fence_of db' = fence_of db"
    unfolding db' by (simp add: fence_of_def row_fence_def split: list.splits)
  ultimately show ?thesis by simp
qed

lemma insert_resolution_InrD:
  assumes "insert_resolution x db = Inr db1"
  shows "db1 = db\<lparr>t_lane_resolutions := t_lane_resolutions db @ [x]\<rparr> \<and>
    lr_resolution_id x \<notin> lr_resolution_id ` set (t_lane_resolutions db)"
  using assms by (auto simp: insert_resolution_def list_ex_iff split: if_splits)

lemma resolution_evolves:
  assumes "lane_inv db" "insert_resolution x db = Inr db1"
  shows "lane_evolves db db1 \<and> lane_inv db1 \<and> fence_of db1 = fence_of db"
  using assms(1) insert_resolution_InrD[OF assms(2)]
  by (auto simp: lane_evolves_def lane_inv_def fence_of_def fence_idle)

lemma fence_step_same: "fence_of db1 = fence_of db \<Longrightarrow> fence_step (fence_of db1) t \<Longrightarrow> fence_step (fence_of db) t"
  by simp

lemma terminalize_evolves:
  assumes "lane_inv db" "get_browser_lane db LIEPIN_BROWSER_LANE = Some l" "bl_status l = ''active''"
    "bl_fencing_token l = n"
  shows "lane_evolves db (terminalize_lane n at db) \<and> fence_of (terminalize_lane n at db) = Ended n"
proof -
  have "lane_evolves db (terminalize_lane n at db)"
    unfolding terminalize_lane_def
    by (rule lane_evolves_update[OF assms(1)]) (auto simp: lane_ok_def intro: row_fence_ended)
  moreover have "fence_of (terminalize_lane n at db) = Ended n"
    using assms
    by (elim lane_inv_cases)
      (auto simp: terminalize_lane_def fence_of_def row_fence_def get_browser_lane_def split: if_splits)
  ultimately show ?thesis by simp
qed

lemma fence_of_active:
  assumes "lane_inv db" "get_browser_lane db LIEPIN_BROWSER_LANE = Some l" "bl_status l = ''active''"
  shows "fence_of db = Held (bl_fencing_token l) (bl_owner_id l) (bl_runtime_run_id l) (bl_operation_id l)"
  using assms by (elim lane_inv_cases) (auto simp: fence_of_def row_fence_def get_browser_lane_def split: if_splits)

text \<open>Recording a resolution and ending the fence it names is one step of the lane.\<close>

lemma insert_terminalize_evolves:
  assumes "lane_inv db" "get_browser_lane db LIEPIN_BROWSER_LANE = Some l" "bl_status l = ''active''"
    "insert_resolution x db = Inr db1"
  shows "lane_evolves db (terminalize_lane (bl_fencing_token l) at db1) \<and>
    fence_of (terminalize_lane (bl_fencing_token l) at db1) = Ended (bl_fencing_token l) \<and>
    t_lane_resolutions (terminalize_lane (bl_fencing_token l) at db1) = t_lane_resolutions db @ [x]"
proof -
  note ins = insert_resolution_InrD[OF assms(4)]
  have inv1: "lane_inv db1" and same: "fence_of db1 = fence_of db"
    using resolution_evolves[OF assms(1,4)] by auto
  have row: "get_browser_lane db1 LIEPIN_BROWSER_LANE = Some l"
    using assms(2) ins by (simp add: get_browser_lane_def)
  show ?thesis
    using terminalize_evolves[OF inv1 row assms(3) refl, of at] ins same
    by (auto simp: lane_evolves_def)
qed

lemma require_resolvable_lane_Inr:
  "require_resolvable_lane row n rid oid at = Inr l \<longleftrightarrow>
     row = Some l \<and> bl_status l = ''active'' \<and> bl_fencing_token l = n \<and>
     bl_runtime_run_id l = Some rid \<and> bl_operation_id l = oid \<and>
     (\<exists>e. bl_lease_expires_at l = Some e \<and> e \<le> at)"
  by (auto simp: require_resolvable_lane_def not_less split: option.splits if_splits)

text \<open>The evidence on which an orphaned fence may be ended.\<close>

definition fence_evidence :: "rcdb \<Rightarrow> string \<Rightarrow> string \<Rightarrow> bool" where
  "fence_evidence db rid oid \<longleftrightarrow>
     (\<exists>rn \<in> set (t_reconciliations db). rn_run rn = rid \<and> rn_operation_id rn = oid \<and>
        (rn_decision_kind rn = ''no_dispatch_proved'' \<and> rn_retry_posture rn = ''safe_retry'' \<and>
           rn_dispatch_intent_ref rn = None \<or>
         rn_decision_kind rn = ''conclusive_observation'' \<and> rn_observation_ref rn \<noteq> None \<and>
           (\<exists>op \<in> set (t_operations db). op_run op = rid \<and> op_operation_id op = oid \<and>
              op_phase op \<in> {''reconciled'', ''main_committed''} \<and>
              op_observation_ref op = rn_observation_ref rn)))"

lemma resolve_expired_InrD:
  assumes "lane_inv db"
    "resolve_expired_browser_lane_after_reconciliation db n rid oid outcome hc ref dig at fresh = Inr (db', b)"
  shows "\<exists>l x e. get_browser_lane db LIEPIN_BROWSER_LANE = Some l \<and> bl_status l = ''active'' \<and>
     bl_fencing_token l = n \<and> bl_runtime_run_id l = Some rid \<and> bl_operation_id l = oid \<and>
     bl_lease_expires_at l = Some e \<and> e \<le> at \<and>
     t_lane_resolutions db' = t_lane_resolutions db @ [x] \<and> lr_fencing_token x = n \<and>
     lane_evolves db db' \<and>
     (if b then fence_evidence db rid oid \<and> fence_of db' = Ended n else fence_of db' = fence_of db)"
proof -
  from assms(2) obtain l e operation rn x db1 where
    l: "get_browser_lane db LIEPIN_BROWSER_LANE = Some l" "bl_status l = ''active''"
      "bl_fencing_token l = n" "bl_runtime_run_id l = Some rid" "bl_operation_id l = oid"
      "bl_lease_expires_at l = Some e" "e \<le> at" and
    op: "fetch_operation db rid oid = Some operation" and
    rn: "evidence_row db rid oid ref dig hc = Some rn" and
    dec: "rn_decision_kind rn = expected_decision outcome" and
    ne: "outcome = NoEffect \<longrightarrow> rn_retry_posture rn = ''safe_retry'' \<and> rn_dispatch_intent_ref rn = None" and
    te: "outcome = TerminalObserved \<longrightarrow> op_phase operation \<in> {''reconciled'', ''main_committed''} \<and>
       op_observation_ref operation \<noteq> None \<and> rn_observation_ref rn = op_observation_ref operation" and
    ins: "insert_resolution x db = Inr db1" "lr_fencing_token x = n" and
    res: "if outcome = UnknownOutcome then db' = db1 \<and> \<not> b else db' = terminalize_lane n at db1 \<and> b"
    by (auto simp: resolve_expired_browser_lane_after_reconciliation_def sbind_eq_Inr
        require_resolvable_lane_Inr split: if_splits)
  note log = insert_resolution_InrD[OF ins(1)]
  have opm: "operation \<in> set (t_operations db)" "op_run operation = rid" "op_operation_id operation = oid"
    using op by (auto simp: fetch_operation_def dest: fetchone_SomeD)
  have rnm: "rn \<in> set (t_reconciliations db)" "rn_run rn = rid" "rn_operation_id rn = oid"
    using rn by (auto simp: evidence_row_def dest: max_by_SomeD)
  show ?thesis
  proof (cases "outcome = UnknownOutcome")
    case True
    with res resolution_evolves[OF assms(1) ins(1)] l log ins(2) show ?thesis by auto
  next
    case False
    then have "fence_evidence db rid oid"
      unfolding fence_evidence_def using rnm opm dec ne te
      by (intro bexI[of _ rn]) (cases outcome; auto)+
    with False res l ins(2) insert_terminalize_evolves[OF assms(1) l(1,2) ins(1), of at]
    show ?thesis by auto
  qed
qed

lemma attention_evolves:
  assumes "lane_inv db"
  shows "lane_evolves db (update_lanes p (\<lambda>r. r\<lparr>bl_last_failure_code :=
      Some ''liepin_browser_lane_reconciliation_required'', bl_updated_at := at\<rparr>) db) \<and>
    fence_of (update_lanes p (\<lambda>r. r\<lparr>bl_last_failure_code :=
      Some ''liepin_browser_lane_reconciliation_required'', bl_updated_at := at\<rparr>) db) = fence_of db"
proof -
  have "lane_evolves db (update_lanes p (\<lambda>r. r\<lparr>bl_last_failure_code :=
      Some ''liepin_browser_lane_reconciliation_required'', bl_updated_at := at\<rparr>) db)"
    by (rule lane_evolves_update[OF assms]) (auto simp: lane_ok_def row_fence_def fence_idle split: if_splits)
  then show ?thesis by (simp add: fence_of_def row_fence_def split: list.splits)
qed

text \<open>Whatever the earlier read saw: the fence ends only if it is the one that was read.\<close>

lemma reconcile_evolves:
  assumes "lane_inv db" "reconcile_observed_lane lane db at fresh = Inr (db', r)"
  shows "lane_evolves db db' \<and>
    (if r = Released
     then \<exists>l ow rid. lane = Some l \<and> fence_evidence db rid (bl_operation_id l) \<and>
            fence_of db = Held (bl_fencing_token l) ow (Some rid) (bl_operation_id l)
     else fence_of db' = fence_of db)"
proof (cases "db' = db \<and> r \<noteq> Released")
  case True
  then show ?thesis using lane_evolves_refl[OF assms(1)] by simp
next
  case False
  with assms(2) obtain l e rid where l: "lane = Some l" "bl_runtime_run_id l = Some rid"
    by (auto simp: reconcile_observed_lane_def split: option.splits if_splits)
  let ?p = "\<lambda>r. bl_lane_key r = bl_lane_key l \<and> bl_fencing_token r = bl_fencing_token l \<and> bl_status r = ''active''"
  let ?f = "\<lambda>r. r\<lparr>bl_last_failure_code := Some ''liepin_browser_lane_reconciliation_required'', bl_updated_at := at\<rparr>"
  have "db' = update_lanes ?p ?f db \<and> r = NeedsOperator \<or>
    (\<exists>out hc ref dig b. resolve_expired_browser_lane_after_reconciliation db (bl_fencing_token l) rid
       (bl_operation_id l) out hc ref dig at fresh = Inr (db', b) \<and>
       r = (if b then Released else NeedsOperator))"
    using assms(2) l False
    by (auto simp: reconcile_observed_lane_def Let_def sbind_eq_Inr split_beta
        split: option.splits if_splits) metis+
  then consider (attention) "db' = update_lanes ?p ?f db" "r = NeedsOperator"
    | (resolve) out hc ref dig b where
      "resolve_expired_browser_lane_after_reconciliation db (bl_fencing_token l) rid
         (bl_operation_id l) out hc ref dig at fresh = Inr (db', b)"
      "r = (if b then Released else NeedsOperator)" by blast
  then show ?thesis
  proof cases
    case attention
    then show ?thesis using attention_evolves[OF assms(1), of ?p at] by simp
  next
    case resolve
    from resolve_expired_InrD[OF assms(1) resolve(1)] obtain k where
      k: "get_browser_lane db LIEPIN_BROWSER_LANE = Some k" "bl_status k = ''active''"
        "bl_fencing_token k = bl_fencing_token l" "bl_runtime_run_id k = Some rid"
        "bl_operation_id k = bl_operation_id l" and
      ev: "lane_evolves db db'" and
      b: "if b then fence_evidence db rid (bl_operation_id l) else fence_of db' = fence_of db"
      by (auto split: if_splits)
    with fence_of_active[OF assms(1) k(1,2)] resolve(2) l(1) show ?thesis by auto
  qed
qed

lemma observed_evolves:
  assumes "lane_inv db"
    "resolve_browser_lane_from_conclusive_observation sha db rid oid at fresh = Inr (db', b)"
  shows "lane_evolves db db' \<and>
    (if b
     then (\<exists>n ow. fence_of db = Held n ow (Some rid) oid) \<and>
       (\<exists>op \<in> set (t_operations db). op_run op = rid \<and> op_operation_id op = oid \<and>
          op_phase op \<in> {''observed'', ''main_committed''} \<and> op_observation_ref op \<noteq> None)
     else db' = db)"
proof (cases b)
  case False
  with assms have "db' = db"
    by (auto simp: resolve_browser_lane_from_conclusive_observation_def sbind_eq_Inr
        split: option.splits if_splits)
  with False assms(1) show ?thesis by (simp add: lane_evolves_refl)
next
  case True
  with assms(2) obtain l operation x db1 where
    l: "get_browser_lane db LIEPIN_BROWSER_LANE = Some l" "bl_status l = ''active''"
      "bl_runtime_run_id l = Some rid" "bl_operation_id l = oid" and
    op: "fetch_operation db rid oid = Some operation" "op_observation_ref operation \<noteq> None"
      "op_phase operation \<in> {''observed'', ''main_committed''}" and
    ins: "insert_resolution x db = Inr db1" and
    db': "db' = terminalize_lane (bl_fencing_token l) at db1"
    by (auto simp: resolve_browser_lane_from_conclusive_observation_def sbind_eq_Inr
        split: option.splits if_splits)
  have "operation \<in> set (t_operations db)" "op_run operation = rid" "op_operation_id operation = oid"
    using op(1) by (auto simp: fetch_operation_def dest: fetchone_SomeD)
  moreover have "fence_of db = Held (bl_fencing_token l) (bl_owner_id l) (Some rid) oid"
    using fence_of_active[OF assms(1) l(1,2)] l(3,4) by simp
  ultimately show ?thesis
    using insert_terminalize_evolves[OF assms(1) l(1,2) ins, of at] op True unfolding db' by auto
qed

section \<open>The lane methods as one transactional store\<close>

datatype lane_call =
    LaneAcquire string string int string "string option" string string string string
  | LaneHeartbeat string string int string string
  | LaneRelease string string int string lane_end "string option"
  | LaneUnresolved string string int string string
  | LaneResolve int string string lane_outcome "string option" string string string string
  | LaneReconcile "lane_row option" string string
  | LaneObserved string string string string

datatype lane_result =
    LeaseOption "lane_lease option"
  | LeaseResult lane_lease
  | SnapshotResult lane_row
  | Resolved bool
  | Reconciled lane_reconciliation

definition lane_returning :: "('r \<Rightarrow> lane_result) \<Rightarrow> rc_error + (rcdb \<times> 'r) \<Rightarrow> rc_error + (rcdb \<times> lane_result)" where
  "lane_returning f m = sbind m (\<lambda>(db, r). Inr (db, f r))"

lemma lane_returning_Inr:
  "lane_returning f m = Inr (db', res) \<longleftrightarrow> (\<exists>r. m = Inr (db', r) \<and> res = f r)"
  by (auto simp: lane_returning_def sbind_eq_Inr)

text \<open>\<open>LaneReconcile\<close> carries the row its first transaction read, which later calls may outdate.\<close>

fun lane_step :: "(string \<Rightarrow> string) \<Rightarrow> rcdb \<Rightarrow> lane_call \<Rightarrow> rc_error + (rcdb \<times> lane_result)" where
  "lane_step sha db (LaneAcquire key ow pid boot rid oid kind at exp) =
     lane_returning LeaseOption (try_acquire_browser_lane db key ow pid boot rid oid kind at exp)"
| "lane_step sha db (LaneHeartbeat key ow n at exp) =
     lane_returning LeaseResult (heartbeat_browser_lane db key ow n at exp)"
| "lane_step sha db (LaneRelease key ow n at st code) =
     lane_returning SnapshotResult (release_browser_lane db key ow n at st code)"
| "lane_step sha db (LaneUnresolved key ow n code at) =
     lane_returning SnapshotResult (mark_browser_lane_unresolved db key ow n code at)"
| "lane_step sha db (LaneResolve n rid oid out hc ref dig at fresh) =
     lane_returning Resolved (resolve_expired_browser_lane_after_reconciliation db n rid oid out hc ref dig at fresh)"
| "lane_step sha db (LaneReconcile lane at fresh) =
     lane_returning Reconciled (reconcile_observed_lane lane db at fresh)"
| "lane_step sha db (LaneObserved rid oid at fresh) =
     lane_returning Resolved (resolve_browser_lane_from_conclusive_observation sha db rid oid at fresh)"

fun lane_grant :: "lane_call \<Rightarrow> lane_result \<Rightarrow> int option" where
  "lane_grant (LaneAcquire key ow pid boot rid oid kind at exp) (LeaseOption (Some l)) = Some (ll_fencing_token l)"
| "lane_grant _ _ = None"

lemma lane_step_evolves:
  assumes "lane_inv db" "lane_step sha db a = Inr (db', res)"
  shows "lane_evolves db db'"
proof (cases a)
  case (LaneAcquire key ow pid boot rid oid kind at exp)
  with assms acquire_lane_evolves[OF assms(1)] show ?thesis by (auto simp: lane_returning_Inr)
next
  case (LaneHeartbeat key ow n at exp)
  with assms heartbeat_lane_evolves[OF assms(1)] show ?thesis by (auto simp: lane_returning_Inr)
next
  case (LaneRelease key ow n at st code)
  with assms release_lane_evolves[OF assms(1)] show ?thesis by (auto simp: lane_returning_Inr)
next
  case (LaneUnresolved key ow n code at)
  with assms mark_lane_evolves[OF assms(1)] show ?thesis by (auto simp: lane_returning_Inr)
next
  case (LaneResolve n rid oid out hc ref dig at fresh)
  with assms resolve_expired_InrD[OF assms(1)] show ?thesis by (fastforce simp: lane_returning_Inr)
next
  case (LaneReconcile lane at fresh)
  with assms reconcile_evolves[OF assms(1)] show ?thesis by (auto simp: lane_returning_Inr)
next
  case (LaneObserved rid oid at fresh)
  with assms observed_evolves[OF assms(1)] show ?thesis by (auto simp: lane_returning_Inr)
qed

definition lane_token :: "rcdb \<Rightarrow> int" where
  "lane_token db = fence_token (fence_of db)"

text \<open>A call that grants no token leaves the token alone.\<close>

lemma lane_step_token:
  assumes "lane_inv db" "lane_step sha db a = Inr (db', res)"
  shows "case lane_grant a res of
      Some n \<Rightarrow> n = lane_token db + 1 \<and> lane_token db' = n
    | None \<Rightarrow> lane_token db' = lane_token db"
proof (cases a)
  case (LaneAcquire key ow pid boot rid oid kind at exp)
  with assms acquire_lane_evolves[OF assms(1)] show ?thesis
    by (fastforce simp: lane_returning_Inr lane_token_def split: option.splits)
next
  case (LaneHeartbeat key ow n at exp)
  with assms heartbeat_lane_evolves[OF assms(1)] show ?thesis by (auto simp: lane_returning_Inr lane_token_def)
next
  case (LaneRelease key ow n at st code)
  with assms obtain r where "release_browser_lane db key ow n at st code = Inr (db', r)"
    by (auto simp: lane_returning_Inr)
  with LaneRelease release_lane_evolves[OF assms(1) this] show ?thesis by (auto simp: lane_token_def)
next
  case (LaneUnresolved key ow n code at)
  with assms mark_lane_evolves[OF assms(1)] show ?thesis by (auto simp: lane_returning_Inr lane_token_def)
next
  case (LaneResolve n rid oid out hc ref dig at fresh)
  with assms obtain b where
    "resolve_expired_browser_lane_after_reconciliation db n rid oid out hc ref dig at fresh = Inr (db', b)"
    by (auto simp: lane_returning_Inr)
  from resolve_expired_InrD[OF assms(1) this] obtain l where
    "get_browser_lane db LIEPIN_BROWSER_LANE = Some l" "bl_status l = ''active''" "bl_fencing_token l = n"
    "if b then fence_of db' = Ended n else fence_of db' = fence_of db"
    by (auto split: if_splits)
  with fence_of_active[OF assms(1) this(1,2)] LaneResolve show ?thesis
    by (auto simp: lane_token_def split: if_splits)
next
  case (LaneReconcile lane at fresh)
  then obtain r where r: "reconcile_observed_lane lane db at fresh = Inr (db', r)"
    using assms(2) by (auto simp: lane_returning_Inr)
  have "fence_step (fence_of db) (fence_of db')"
    using lane_step_evolves[OF assms] by (simp add: lane_evolves_def)
  with reconcile_evolves[OF assms(1) r] LaneReconcile show ?thesis
    by (auto simp: lane_token_def elim!: fence_heldE split: if_splits)
next
  case (LaneObserved rid oid at fresh)
  then obtain b where b: "resolve_browser_lane_from_conclusive_observation sha db rid oid at fresh = Inr (db', b)"
    using assms(2) by (auto simp: lane_returning_Inr)
  have "fence_step (fence_of db) (fence_of db')"
    using lane_step_evolves[OF assms] by (simp add: lane_evolves_def)
  with observed_evolves[OF assms(1) b] LaneObserved show ?thesis
    by (auto simp: lane_token_def elim!: fence_heldE split: if_splits)
qed

interpretation lane_store: fencing "lane_step sha" lane_inv lane_token lane_grant
  for sha
proof (unfold_locales, goal_cases)
  case (1 s a s' r)
  then show ?case using lane_step_evolves by (auto simp: lane_evolves_def)
next
  case (2 s a s' r n)
  then show ?case using lane_step_token[of s sha a s' r] by simp
next
  case (3 s a s' r)
  then show ?case using lane_step_token[of s sha a s' r] by simp
qed

interpretation lane_log: append_log "lane_step sha" lane_inv t_lane_resolutions
  for sha
  by unfold_locales (auto simp: lane_evolves_def dest: lane_step_evolves)

section \<open>The guard of a browser effect\<close>

text \<open>
  \<open>_safe_failure_code\<close>: an exception is its \<open>reason_code\<close> attribute, when it is a text, and its
  message.
\<close>

definition safe_failure_code :: "(string option \<times> string) option \<Rightarrow> string option" where
  "safe_failure_code error =
     (case error of
        None \<Rightarrow> None
      | Some (reason, message) \<Rightarrow>
          (case reason of
             Some r \<Rightarrow> if safe_reason r then Some r
                       else if safe_reason message then Some message
                       else Some ''liepin_browser_lane_effect_failed''
           | None \<Rightarrow> if safe_reason message then Some message
                     else Some ''liepin_browser_lane_effect_failed''))"

text \<open>
  \<open>BrowserLaneGuard.__exit__\<close>: \<open>heartbeat_failed\<close> tells whether the heartbeat thread stored an
  error, \<open>unresolved\<close> is the code kept by \<open>preserve_unresolved\<close>, \<open>exc\<close> the exception of the
  guarded block. \<open>recorder boundary\<close> is the exception that recording the failure raises, if any.
  The result is the database and the exception that leaves \<open>__exit__\<close>.
\<close>

definition guard_exit ::
  "(string \<Rightarrow> rc_error option) \<Rightarrow> rcdb \<Rightarrow> lane_lease \<Rightarrow> bool \<Rightarrow> string option \<Rightarrow>
   (string option \<times> string) option \<Rightarrow> string \<Rightarrow> rcdb \<times> rc_error option" where
  "guard_exit recorder db lease heartbeat_failed unresolved exc now =
     (if heartbeat_failed
      then
        (if exc \<noteq> None then (db, None)
         else case recorder ''heartbeat'' of
                Some e \<Rightarrow> (db, Some e)
              | None \<Rightarrow> (db, Some (RuntimeControlError ''liepin_browser_lane_heartbeat_failed'' [])))
      else
        (case unresolved of
           Some code \<Rightarrow>
             (case mark_browser_lane_unresolved db (ll_lane_key lease) (ll_owner_id lease)
                     (ll_fencing_token lease) code now of
                Inl e \<Rightarrow> (db, Some e)
              | Inr (db', _) \<Rightarrow> (db', None))
         | None \<Rightarrow>
             (case release_browser_lane db (ll_lane_key lease) (ll_owner_id lease)
                     (ll_fencing_token lease) now
                     (if exc \<noteq> None then LaneFailed else LaneCompleted) (safe_failure_code exc) of
                Inr (db', _) \<Rightarrow> (db', None)
              | Inl e \<Rightarrow>
                  if exc \<noteq> None then (db, None)
                  else case recorder ''release'' of
                         Some e' \<Rightarrow> (db, Some e')
                       | None \<Rightarrow> (db, Some e))))"

section \<open>Properties\<close>

text \<open>A token is past when a newer one was handed out, or its fence ended.\<close>

definition token_past :: "int \<Rightarrow> fence \<Rightarrow> bool" where
  "token_past n s \<longleftrightarrow> n < fence_token s \<or> s = Ended n"

lemma fence_step_past: "fence_step s t \<Longrightarrow> token_past n s \<Longrightarrow> token_past n t"
  by (induction rule: fence_step.induct) (auto simp: token_past_def)

lemma past_run:
  assumes "lane_inv db" "token_past n (fence_of db)"
  shows "token_past n (fence_of (run_txns (lane_step sha) db ops))"
proof -
  let ?R = "\<lambda>x y. token_past n (fence_of x) \<longrightarrow> token_past n (fence_of y)"
  have "?R db (run_txns (lane_step sha) db ops)"
    by (rule lane_store.run_preorder[of ?R, OF _ _ _ assms(1)])
      (auto simp: lane_evolves_def dest!: lane_step_evolves intro: fence_step_past)
  with assms(2) show ?thesis by simp
qed

lemma past_not_held:
  assumes "lane_inv db" "token_past n (fence_of db)"
  shows "rowcount (lane_held key ow n) (t_browser_lanes db) = 0"
  using assms by (elim lane_inv_cases)
    (auto simp: token_past_def fence_of_def row_fence_def lane_held_def split: if_splits)

lemma past_not_held_live:
  assumes "lane_inv db" "token_past n (fence_of db)"
  shows "rowcount (\<lambda>r. lane_held key ow n r \<and> expires_after r at) (t_browser_lanes db) = 0"
  using past_not_held[OF assms, of key ow] by (simp add: rowcount_0)

text \<open>A concrete lane: one completed lease with token 3.\<close>

definition demo_lane :: "int \<Rightarrow> string \<Rightarrow> lane_row" where
  "demo_lane n status = \<lparr>bl_lane_key = ''liepin_browser'', bl_fencing_token = n, bl_status = status,
     bl_owner_id = ''owner'', bl_owner_process_id = 7, bl_process_boot_id = ''boot'',
     bl_runtime_run_id = Some ''r1'', bl_operation_id = ''op1'', bl_operation_kind = ''cards'',
     bl_acquired_at = ''1'', bl_heartbeat_at = ''1'',
     bl_lease_expires_at = (if status = ''active'' then Some ''5'' else None),
     bl_released_at = (if status = ''active'' then None else Some ''2''),
     bl_last_failure_code = None, bl_updated_at = ''1''\<rparr>"

definition lane_db :: "lane_row list \<Rightarrow> rcdb" where
  "lane_db ls = empty_db\<lparr>t_browser_lanes := ls\<rparr>"

lemma lane_db_simps [simp]:
  "t_browser_lanes (lane_db ls) = ls" "t_lane_resolutions (lane_db ls) = []"
  by (simp_all add: lane_db_def empty_db_def)

lemma demo_lane_inv:
  "lane_inv (lane_db [])" "lane_inv (lane_db [demo_lane 3 ''completed''])" "lane_inv (lane_db [demo_lane 3 ''active''])"
  by code_simp+

lemma demo_lane_fence:
  "fence_of (lane_db [demo_lane 3 ''completed'']) = Ended 3"
  "fence_of (lane_db [demo_lane 3 ''active'']) = Held 3 ''owner'' (Some ''r1'') ''op1''"
  by code_simp+

text \<open>
  From an empty lane table, every sequence of lane calls leaves at most one row, with a
  positive token, a known operation kind and safe identifiers; it has an expiry and no release
  time exactly while it is active, and its failure code, if any, is a safe reason code.
\<close>

theorem lane_well_formed:
  assumes "t_browser_lanes db = []" "t_lane_resolutions db = []"
  shows "length (t_browser_lanes (run_txns (lane_step sha) db ops)) \<le> 1 \<and>
    list_all lane_ok (t_browser_lanes (run_txns (lane_step sha) db ops))"
proof -
  have "lane_inv db" using assms by (simp add: lane_inv_def)
  from lane_store.run_inv[OF this] show ?thesis by (auto simp: lane_inv_def)
qed

theorem lane_well_formed_witness:
  "list_all lane_ok (t_browser_lanes (run_txns (lane_step (\<lambda>_. [])) (lane_db [])
     [LaneAcquire ''liepin_browser'' ''owner'' 7 ''boot'' None ''op1'' ''cards'' ''1'' ''5'',
      LaneRelease ''liepin_browser'' ''owner'' 1 ''2'' LaneFailed (Some ''NOT SAFE'')]))"
  using lane_well_formed[of "lane_db []" "\<lambda>_. []"
      "[LaneAcquire ''liepin_browser'' ''owner'' 7 ''boot'' None ''op1'' ''cards'' ''1'' ''5'',
        LaneRelease ''liepin_browser'' ''owner'' 1 ''2'' LaneFailed (Some ''NOT SAFE'')]"] by simp

text \<open>
  The fencing tokens that successful acquisitions hand out increase strictly, each above the
  token of the lane before it.
\<close>

theorem lane_tokens_increase:
  assumes "lane_inv db"
  shows "sorted_wrt (<) (granted (lane_step sha) lane_grant db ops) \<and>
    (\<forall>n \<in> set (granted (lane_step sha) lane_grant db ops). lane_token db < n)"
  using lane_store.granted_increasing[OF assms] lane_store.granted_above[OF assms] by blast

theorem lane_tokens_increase_witness:
  "granted (lane_step (\<lambda>_. [])) lane_grant (lane_db [demo_lane 3 ''completed''])
     [LaneAcquire ''liepin_browser'' ''a'' 7 ''boot'' None ''op2'' ''cards'' ''1'' ''5'',
      LaneAcquire ''liepin_browser'' ''b'' 8 ''boot'' None ''op3'' ''cards'' ''1'' ''5'',
      LaneRelease ''liepin_browser'' ''a'' 4 ''2'' LaneCompleted None,
      LaneAcquire ''liepin_browser'' ''b'' 8 ''boot'' None ''op3'' ''cards'' ''3'' ''5''] = [4, 5] \<and>
   sorted_wrt (<) [4::int, 5]"
proof -
  let ?ops = "[LaneAcquire ''liepin_browser'' ''a'' 7 ''boot'' None ''op2'' ''cards'' ''1'' ''5'',
      LaneAcquire ''liepin_browser'' ''b'' 8 ''boot'' None ''op3'' ''cards'' ''1'' ''5'',
      LaneRelease ''liepin_browser'' ''a'' 4 ''2'' LaneCompleted None,
      LaneAcquire ''liepin_browser'' ''b'' 8 ''boot'' None ''op3'' ''cards'' ''3'' ''5'']"
  have g: "granted (lane_step (\<lambda>_. [])) lane_grant (lane_db [demo_lane 3 ''completed'']) ?ops = [4, 5]"
    by code_simp
  show ?thesis using lane_tokens_increase[OF demo_lane_inv(2), of "\<lambda>_. []" ?ops] g by simp
qed



text \<open>
  A stale owner stays out: once its fence ended or a newer token was handed out, after any
  further calls its heartbeat, its release and its unresolved mark are refused as lost.
\<close>

theorem stale_owner_rejected:
  assumes "lane_inv db" "token_past n (fence_of db)" "db' = run_txns (lane_step sha) db ops"
    "st = LaneCompleted \<Longrightarrow> code = None" "safe_reason reason"
  shows "heartbeat_browser_lane db' key ow n at exp = rc_fail ''liepin_browser_lane_lost'' \<and>
    release_browser_lane db' key ow n at st code = rc_fail ''liepin_browser_lane_lost'' \<and>
    mark_browser_lane_unresolved db' key ow n reason at = rc_fail ''liepin_browser_lane_lost''"
proof -
  have inv: "lane_inv db'" unfolding assms(3) by (rule lane_store.run_inv[OF assms(1)])
  have past: "token_past n (fence_of db')" unfolding assms(3) by (rule past_run[OF assms(1,2)])
  show ?thesis
    using past_not_held[OF inv past] past_not_held_live[OF inv past] assms(4,5)
    by (auto simp: heartbeat_browser_lane_def release_browser_lane_def mark_browser_lane_unresolved_def Let_def)
qed

theorem stale_owner_rejected_witness:
  "release_browser_lane (run_txns (lane_step (\<lambda>_. [])) (lane_db [demo_lane 3 ''completed''])
      [LaneAcquire ''liepin_browser'' ''owner'' 7 ''boot'' None ''op2'' ''cards'' ''1'' ''5''])
     ''liepin_browser'' ''owner'' 3 ''2'' LaneFailed None = rc_fail ''liepin_browser_lane_lost''"
proof -
  have "token_past 3 (fence_of (lane_db [demo_lane 3 ''completed'']))"
    by (simp add: token_past_def demo_lane_fence)
  from stale_owner_rejected[OF demo_lane_inv(2) this refl, of LaneFailed None "''x''" "\<lambda>_. []"
      "[LaneAcquire ''liepin_browser'' ''owner'' 7 ''boot'' None ''op2'' ''cards'' ''1'' ''5'']"
      "''liepin_browser''" "''owner''" "''2''"]
  show ?thesis by (simp add: safe_reason_def between_def)
qed

lemma held_row:
  assumes "lane_inv db" "fence_of db = Held n ow r p"
  shows "\<exists>l. t_browser_lanes db = [l] \<and> lane_ok l \<and> bl_status l = ''active'' \<and> bl_fencing_token l = n \<and>
    bl_owner_id l = ow \<and> bl_runtime_run_id l = r \<and> bl_operation_id l = p"
  using assms by (elim lane_inv_cases) (auto simp: fence_of_def row_fence_def split: if_splits)

text \<open>
  C33: Only two things end a held fence: a release by its owner with its token, or durable evidence
  about exactly the run and operation it is held for, either a reconciliation that proves no
  dispatch or a conclusive observation. Expiry alone never does.
\<close>

theorem fence_ends_by_owner_or_evidence:
  assumes "lane_inv db" "fence_of db = Held n ow r p" "lane_step sha db a = Inr (db', res)"
    "fence_of db' \<noteq> Held n ow r p"
  shows "fence_of db' = Ended n \<and>
    ((\<exists>key at st code. a = LaneRelease key ow n at st code) \<or>
     (\<exists>rid. r = Some rid \<and>
        (fence_evidence db rid p \<or>
         (\<exists>op \<in> set (t_operations db). op_run op = rid \<and> op_operation_id op = p \<and>
            op_phase op \<in> {''observed'', ''main_committed''} \<and> op_observation_ref op \<noteq> None))))"
proof -
  have "fence_step (fence_of db) (fence_of db')"
    using lane_step_evolves[OF assms(1,3)] by (simp add: lane_evolves_def)
  with assms(2,4) have ended: "fence_of db' = Ended n" by (auto elim!: fence_heldE)
  show ?thesis
  proof (cases a)
    case (LaneAcquire key ow' pid boot rid oid kind at exp)
    with assms acquire_lane_evolves[OF assms(1)] ended show ?thesis
      by (fastforce simp: lane_returning_Inr split: option.splits)
  next
    case (LaneHeartbeat key ow' m at exp)
    with assms heartbeat_lane_evolves[OF assms(1)] show ?thesis by (auto simp: lane_returning_Inr)
  next
    case (LaneRelease key ow' m at st code)
    with assms release_lane_evolves[OF assms(1)] ended show ?thesis by (fastforce simp: lane_returning_Inr)
  next
    case (LaneUnresolved key ow' m code at)
    with assms mark_lane_evolves[OF assms(1)] show ?thesis by (auto simp: lane_returning_Inr)
  next
    case (LaneResolve m rid oid out hc ref dig at fresh)
    with assms(3) obtain b where
      "resolve_expired_browser_lane_after_reconciliation db m rid oid out hc ref dig at fresh = Inr (db', b)"
      by (auto simp: lane_returning_Inr)
    from resolve_expired_InrD[OF assms(1) this] obtain l where
      l: "get_browser_lane db LIEPIN_BROWSER_LANE = Some l" "bl_status l = ''active''"
        "bl_runtime_run_id l = Some rid" "bl_operation_id l = oid" and
      b: "if b then fence_evidence db rid oid else fence_of db' = fence_of db"
      by (auto split: if_splits)
    with fence_of_active[OF assms(1) l(1,2)] assms(2,4) ended show ?thesis by (auto split: if_splits)
  next
    case (LaneReconcile lane at fresh)
    then obtain x where x: "reconcile_observed_lane lane db at fresh = Inr (db', x)"
      using assms(3) by (auto simp: lane_returning_Inr)
    with reconcile_evolves[OF assms(1) x] assms(2,4) ended show ?thesis by (auto split: if_splits)
  next
    case (LaneObserved rid oid at fresh)
    then obtain b where b: "resolve_browser_lane_from_conclusive_observation sha db rid oid at fresh = Inr (db', b)"
      using assms(3) by (auto simp: lane_returning_Inr)
    with observed_evolves[OF assms(1) b] assms(2,4) ended show ?thesis by (auto split: if_splits)
  qed
qed

theorem fence_ends_by_owner_or_evidence_witness:
  "\<exists>db' res. lane_step (\<lambda>_. []) (lane_db [demo_lane 3 ''active''])
     (LaneRelease ''liepin_browser'' ''owner'' 3 ''2'' LaneCompleted None) = Inr (db', res) \<and>
   fence_of db' = Ended 3"
proof -
  let ?s = "lane_step (\<lambda>_. []) (lane_db [demo_lane 3 ''active''])
     (LaneRelease ''liepin_browser'' ''owner'' 3 ''2'' LaneCompleted None)"
  have "case ?s of Inl _ \<Rightarrow> False | Inr (d, _) \<Rightarrow> fence_of d \<noteq> Held 3 ''owner'' (Some ''r1'') ''op1''" by code_simp
  then obtain d res where s: "?s = Inr (d, res)" "fence_of d \<noteq> Held 3 ''owner'' (Some ''r1'') ''op1''"
    by (auto split: sum.splits)
  then show ?thesis
    using fence_ends_by_owner_or_evidence[OF demo_lane_inv(3) demo_lane_fence(2) s] by blast
qed

text \<open>
  While a fence is held nobody takes it over, not even past its expiry: a well-formed
  acquisition returns no lease and changes nothing; and once the expiry is reached its owner can
  no longer renew it.
\<close>

theorem held_fence_not_taken_over:
  assumes "lane_inv db" "fence_of db = Held n ow r p"
    "validate_lane_write key ow' pid boot rid oid kind at exp = Inr ()"
  shows "try_acquire_browser_lane db key ow' pid boot rid oid kind at exp = Inr (db, None) \<and>
    (\<forall>l \<in> set (t_browser_lanes db). \<forall>e. bl_lease_expires_at l = Some e \<and> e \<le> now \<longrightarrow>
       heartbeat_browser_lane db key ow n now exp' = rc_fail ''liepin_browser_lane_lost'')"
proof -
  obtain l where l: "t_browser_lanes db = [l]" "lane_ok l" "bl_status l = ''active''"
    using held_row[OF assms(1,2)] by blast
  have "key = LIEPIN_BROWSER_LANE" using assms(3) by (simp add: validate_lane_write_Inr)
  with l assms(3) show ?thesis
    by (auto simp: try_acquire_browser_lane_def get_browser_lane_def lane_ok_def
        heartbeat_browser_lane_def expires_after_def Let_def)
qed

theorem held_fence_not_taken_over_witness:
  "try_acquire_browser_lane (lane_db [demo_lane 3 ''active'']) ''liepin_browser'' ''b'' 8 ''boot'' None
     ''op2'' ''cards'' ''7'' ''9'' = Inr (lane_db [demo_lane 3 ''active''], None) \<and>
   heartbeat_browser_lane (lane_db [demo_lane 3 ''active'']) ''liepin_browser'' ''owner'' 3 ''5'' ''9'' =
     rc_fail ''liepin_browser_lane_lost''"
proof -
  have v: "validate_lane_write ''liepin_browser'' ''b'' 8 ''boot'' None ''op2'' ''cards'' ''7'' ''9'' = Inr ()"
    by code_simp
  have "bl_lease_expires_at (demo_lane 3 ''active'') = Some ''5''" by (simp add: demo_lane_def)
  with held_fence_not_taken_over[OF demo_lane_inv(3) demo_lane_fence(2) v, of "''5''" "''9''"]
  show ?thesis by simp
qed

text \<open>
  The resolution log only grows: every sequence of calls appends to it, and no resolution id
  occurs twice.
\<close>

theorem resolutions_append_only:
  assumes "lane_inv db" "db' = run_txns (lane_step sha) db ops"
  shows "(\<exists>es. t_lane_resolutions db' = t_lane_resolutions db @ es) \<and>
    distinct (map lr_resolution_id (t_lane_resolutions db'))"
  using lane_log.run_append[OF assms(1)] lane_store.run_inv[OF assms(1)]
  unfolding assms(2) by (auto simp: lane_inv_def)

theorem resolutions_append_only_witness:
  "distinct (map lr_resolution_id (t_lane_resolutions (run_txns (lane_step (\<lambda>_. []))
     (lane_db [demo_lane 3 ''active'']) [LaneObserved ''r1'' ''op1'' ''2'' ''x'']))) "
  using resolutions_append_only[OF demo_lane_inv(3) refl] by blast

text \<open>
  Leaving the guard of an effect: when the heartbeat failed or the effect was marked
  unresolved, the fence stays held by its owner, to be resolved from evidence; otherwise the
  owner's release succeeds, ends the fence, and records completion exactly when the guarded block
  raised nothing.
\<close>

theorem guard_exit_fence:
  assumes "lane_inv db" "fence_of db = Held (ll_fencing_token lease) (ll_owner_id lease) r p"
    "ll_lane_key lease = LIEPIN_BROWSER_LANE"
    "guard_exit recorder db lease hb_failed unresolved exc now = (db', raised)"
  shows "if hb_failed \<or> unresolved \<noteq> None then fence_of db' = fence_of db
    else raised = None \<and> fence_of db' = Ended (ll_fencing_token lease) \<and>
      map bl_status (t_browser_lanes db') = [if exc = None then ''completed'' else ''failed'']"
proof (cases "hb_failed \<or> unresolved \<noteq> None")
  case True
  then show ?thesis
    using assms(4) mark_lane_evolves[OF assms(1)]
    by (auto simp: guard_exit_def split: if_splits option.splits sum.splits prod.splits)
next
  case False
  obtain l where l: "t_browser_lanes db = [l]" "lane_ok l" "bl_status l = ''active''"
      "bl_fencing_token l = ll_fencing_token lease" "bl_owner_id l = ll_owner_id lease"
    using held_row[OF assms(1,2)] by blast
  have held: "lane_held LIEPIN_BROWSER_LANE (ll_owner_id lease) (ll_fencing_token lease) l"
    using l by (simp add: lane_held_def lane_ok_def)
  define st where "st = (if exc \<noteq> None then LaneFailed else LaneCompleted)"
  have nocode: "st = LaneCompleted \<Longrightarrow> safe_failure_code exc = None"
    by (cases exc) (auto simp: st_def safe_failure_code_def split: if_splits)
  obtain d x where rel: "release_browser_lane db LIEPIN_BROWSER_LANE (ll_owner_id lease)
      (ll_fencing_token lease) now st (safe_failure_code exc) = Inr (d, x)"
    and stat: "map bl_status (t_browser_lanes d) = [lane_end_text st]"
    using l held nocode
    by (auto simp: release_browser_lane_def get_browser_lane_def snapshot_from_row_def lane_ok_def Let_def)
  have "fence_of d = Ended (ll_fencing_token lease)"
    using release_lane_evolves[OF assms(1) rel] by simp
  moreover have "db' = d \<and> raised = None"
    using assms(3,4) False rel by (auto simp: guard_exit_def st_def split: if_splits)
  ultimately show ?thesis using False stat by (auto simp: st_def)
qed

definition demo_lane_lease :: lane_lease where
  "demo_lane_lease = \<lparr>ll_lane_key = ''liepin_browser'', ll_fencing_token = 3, ll_owner_id = ''owner'',
     ll_owner_process_id = 7, ll_process_boot_id = ''boot'', ll_runtime_run_id = Some ''r1'',
     ll_operation_id = ''op1'', ll_operation_kind = ''cards'', ll_acquired_at = ''1'',
     ll_heartbeat_at = ''1'', ll_lease_expires_at = ''5''\<rparr>"

theorem guard_exit_fence_witness:
  "fence_of (fst (guard_exit (\<lambda>_. None) (lane_db [demo_lane 3 ''active'']) demo_lane_lease False None
     (Some (None, ''boom'')) ''2'')) = Ended 3"
  using guard_exit_fence[OF demo_lane_inv(3), of demo_lane_lease "Some ''r1''" "''op1''" "\<lambda>_. None" False None
      "Some (None, ''boom'')" "''2''"
      "fst (guard_exit (\<lambda>_. None) (lane_db [demo_lane 3 ''active'']) demo_lane_lease False None (Some (None, ''boom'')) ''2'')"
      "snd (guard_exit (\<lambda>_. None) (lane_db [demo_lane 3 ''active'']) demo_lane_lease False None (Some (None, ''boom'')) ''2'')"]
  by (simp add: demo_lane_fence demo_lane_lease_def LIEPIN_BROWSER_LANE_def)

end
