(* ===== verification/SourceOperations.thy ===== *)
theory SourceOperations
  imports ExecutorLease BrowserLane SourceHistory
begin

text \<open>
  The ledger of source operations: \<open>source_operations.py\<close>, \<open>source_reconciliation.py\<close>,
  \<open>safe_retry_turnover.py\<close>, the tables of \<open>source_epoch_schema.py\<close> and the methods of
  \<open>RuntimeControlStore\<close> that accept an operation, acknowledge its dispatch, record its
  observation, reconcile it, authorize its retry and commit it.

  An operation is an effect on the source that must happen at most once. Its dispatch outbox has
  one row per authorization (ordinal 1, 2, ..); a further authorization needs a reconciliation that
  proved that nothing was dispatched under the earlier ones.

  Parameters: \<open>digest\<close>, the SHA-256 of the canonical JSON of an authorization; \<open>advance\<close>, the
  participant that advances a workflow transition in the same transaction (the identity where the
  code passes none); \<open>evidence\<close> and \<open>attention\<close>, the two admission checks of
  \<open>needs_attention_admission.py\<close> for a run that needs attention. Fault injection is left out.
\<close>

section \<open>Validators\<close>

definition rc_require :: "bool \<Rightarrow> string \<Rightarrow> rc_error + unit" where
  "rc_require ok reason = (if ok then Inr () else rc_fail reason)"

fun checks :: "(rc_error + unit) list \<Rightarrow> rc_error + unit" where
  "checks [] = Inr ()"
| "checks (c # cs) = sbind c (\<lambda>_. checks cs)"

lemma rc_require_Inr [simp]: "rc_require b reason = Inr u \<longleftrightarrow> b"
  by (simp add: rc_require_def)

lemma checks_Inr: "checks cs = Inr u \<longleftrightarrow> (\<forall>c \<in> set cs. c = Inr ())"
  by (induction cs) (auto simp: sbind_eq_Inr)

declare checks.simps [simp del]

definition field_invalid :: "string \<Rightarrow> string" where
  "field_invalid field = ''source_operation_'' @ field @ ''_invalid''"

definition trimmed_opaque :: "int \<Rightarrow> string \<Rightarrow> bool" where
  "trimmed_opaque max_bytes v \<longleftrightarrow> v \<noteq> [] \<and> stripped v \<and> int (length v) \<le> max_bytes \<and>
     list_all (\<lambda>c. 32 \<le> (of_char c :: int)) v"

definition require_opaque :: "string \<Rightarrow> string \<Rightarrow> int \<Rightarrow> rc_error + unit" where
  "require_opaque v field max_bytes = rc_require (trimmed_opaque max_bytes v) (field_invalid field)"

definition require_wire_opaque :: "string \<Rightarrow> string \<Rightarrow> int \<Rightarrow> rc_error + unit" where
  "require_wire_opaque v field max_bytes =
     rc_require (trimmed_opaque max_bytes v \<and> \<not> has_control v) (field_invalid field)"

definition require_sha256 :: "string \<Rightarrow> string \<Rightarrow> rc_error + unit" where
  "require_sha256 v field = rc_require (sha256_text v) (field_invalid field)"

definition require_positive :: "int \<Rightarrow> string \<Rightarrow> rc_error + unit" where
  "require_positive n field = rc_require (1 \<le> n \<and> n \<le> SQLITE_MAX_INTEGER) (field_invalid field)"

definition require_positive_json_safe :: "int \<Rightarrow> string \<Rightarrow> rc_error + unit" where
  "require_positive_json_safe n field = rc_require (positive_json n) (field_invalid field)"

definition when_some :: "('a \<Rightarrow> rc_error + unit) \<Rightarrow> 'a option \<Rightarrow> rc_error + unit" where
  "when_some f x = (case x of None \<Rightarrow> Inr () | Some a \<Rightarrow> f a)"

definition validate_admission_expectation :: "expectation_row \<Rightarrow> rc_error + unit" where
  "validate_admission_expectation e =
     checks [require_opaque (ex_run e) ''runtime_run_id'' 96,
       require_opaque (ex_operation_id e) ''operation_id'' 96,
       require_positive_json_safe (ex_ordinal e) ''dispatch_authorization_ordinal'',
       (if ex_ordinal e = 1 then require_positive (ex_attempt_no e) ''runtime_attempt_no''
        else require_positive_json_safe (ex_attempt_no e) ''runtime_attempt_no''),
       require_opaque (ex_attempt_authority_ref e) ''runtime_attempt_authority_ref'' 256,
       require_sha256 (ex_attempt_fence_ref e) ''runtime_attempt_fence_ref'',
       require_positive_json_safe (ex_profile_generation e) ''profile_binding_generation'',
       when_some (\<lambda>s. require_wire_opaque s ''browser_control_scope_id'' 96) (ex_scope_id e),
       when_some (\<lambda>s. require_sha256 s ''controller_fence_ref'') (ex_controller_fence_ref e)]"

text \<open>The arguments of \<open>accept_source_operation\<close>.\<close>

record source_acceptance =
  sa_run :: string
  sa_operation_id :: string
  sa_source_id :: string
  sa_operation_kind :: string
  sa_request_hash :: string
  sa_idempotency_key :: string
  sa_requirement_revision_id :: string
  sa_attempt_no :: int
  sa_attempt_authority_ref :: string
  sa_attempt_fence_ref :: string
  sa_profile_generation :: int
  sa_scope_id :: "string option"
  sa_controller_fence_ref :: "string option"
  sa_outbox_id :: string
  sa_intent_id :: string
  sa_intent_revision :: int
  sa_intent_digest :: string
  sa_ordinal :: int
  sa_acceptance_ref :: string
  sa_expected_ledger_revision :: int
  sa_expected_reconciliation_revision :: int

definition expectation_of :: "source_acceptance \<Rightarrow> expectation_row" where
  "expectation_of a = \<lparr>ex_run = sa_run a, ex_operation_id = sa_operation_id a, ex_ordinal = sa_ordinal a,
     ex_attempt_no = sa_attempt_no a, ex_attempt_authority_ref = sa_attempt_authority_ref a,
     ex_attempt_fence_ref = sa_attempt_fence_ref a, ex_profile_generation = sa_profile_generation a,
     ex_scope_id = sa_scope_id a, ex_controller_fence_ref = sa_controller_fence_ref a\<rparr>"

definition validate_source_operation_acceptance :: "source_acceptance \<Rightarrow> rc_error + unit" where
  "validate_source_operation_acceptance a =
     checks [require_opaque (sa_run a) ''runtime_run_id'' 96,
       require_opaque (sa_operation_id a) ''operation_id'' 96,
       rc_require (sa_source_id a = ''liepin'') ''source_operation_source_invalid'',
       rc_require (sa_operation_kind a \<in> set operation_kinds) ''source_operation_kind_invalid'',
       require_sha256 (sa_request_hash a) ''canonical_request_hash'',
       require_opaque (sa_idempotency_key a) ''idempotency_key'' 128,
       require_opaque (sa_requirement_revision_id a) ''accepted_requirement_revision_id'' 96,
       require_positive (sa_attempt_no a) ''runtime_attempt_no'',
       require_opaque (sa_attempt_authority_ref a) ''runtime_attempt_authority_ref'' 256,
       rc_require (sa_ordinal a = 1) ''source_dispatch_authorization_ordinal_invalid'',
       validate_admission_expectation (expectation_of a),
       require_opaque (sa_outbox_id a) ''outbox_id'' 96,
       require_opaque (sa_intent_id a) ''dispatch_intent_id'' 96,
       require_positive (sa_intent_revision a) ''dispatch_intent_revision'',
       require_sha256 (sa_intent_digest a) ''dispatch_intent_digest'',
       require_opaque (sa_acceptance_ref a) ''source_operation_acceptance_ref'' 256,
       rc_require (sa_expected_ledger_revision a = 1) ''source_operation_expected_ledger_revision_invalid'',
       rc_require (sa_expected_reconciliation_revision a = 0)
         ''source_operation_expected_reconciliation_revision_invalid'']"

text \<open>The arguments of \<open>record_source_dispatch_ack\<close>.\<close>

record dispatch_ack =
  da_run :: string
  da_operation_id :: string
  da_outbox_id :: string
  da_request_hash :: string
  da_intent_id :: string
  da_intent_revision :: int
  da_intent_digest :: string
  da_ordinal :: int
  da_expected_outbox_revision :: int
  da_sidecar_generation :: int
  da_sidecar_journal_revision :: int
  da_ack_ref :: string
  da_ack_kind :: string
  da_acknowledged_at :: string

definition ack_kinds :: "string list" where
  "ack_kinds = [''new_logical_operation'', ''new_dispatch_authorization'', ''same_intent_replay'']"

definition expected_ack_kind :: "int \<Rightarrow> string" where
  "expected_ack_kind ordinal =
     (if ordinal = 1 then ''new_logical_operation'' else ''new_dispatch_authorization'')"

definition validate_source_dispatch_ack :: "dispatch_ack \<Rightarrow> rc_error + unit" where
  "validate_source_dispatch_ack d =
     checks [require_opaque (da_run d) ''runtime_run_id'' 96,
       require_opaque (da_operation_id d) ''operation_id'' 96,
       require_opaque (da_outbox_id d) ''outbox_id'' 96,
       require_sha256 (da_request_hash d) ''canonical_request_hash'',
       require_opaque (da_intent_id d) ''dispatch_intent_id'' 96,
       require_positive (da_intent_revision d) ''dispatch_intent_revision'',
       require_sha256 (da_intent_digest d) ''dispatch_intent_digest'',
       rc_require (positive_json (da_ordinal d)) ''source_dispatch_authorization_ordinal_invalid'',
       require_positive (da_expected_outbox_revision d) ''expected_outbox_revision'',
       require_positive (da_sidecar_generation d) ''accepted_sidecar_generation'',
       require_positive (da_sidecar_journal_revision d) ''accepted_sidecar_journal_revision'',
       require_opaque (da_ack_ref d) ''ack_ref'' 256,
       rc_require (da_ack_kind d \<in> set ack_kinds) ''source_dispatch_ack_kind_invalid'',
       rc_require (da_ack_kind d = expected_ack_kind (da_ordinal d)) ''source_dispatch_ack_kind_invalid'',
       require_opaque (da_acknowledged_at d) ''acknowledged_at'' 64]"

section \<open>Comparisons\<close>

definition operation_matches_acceptance :: "operation_row \<Rightarrow> source_acceptance \<Rightarrow> bool" where
  "operation_matches_acceptance r a \<longleftrightarrow>
     op_operation_id r = sa_operation_id a \<and> op_source_id r = sa_source_id a \<and>
     op_operation_kind r = sa_operation_kind a \<and> op_request_hash r = sa_request_hash a \<and>
     op_idempotency_key r = sa_idempotency_key a \<and>
     op_requirement_revision_id r = sa_requirement_revision_id a \<and>
     op_attempt_no r = sa_attempt_no a \<and> op_attempt_authority_ref r = sa_attempt_authority_ref a"

definition expectation_matches_operation :: "expectation_row \<Rightarrow> operation_row \<Rightarrow> bool" where
  "expectation_matches_operation e r \<longleftrightarrow> ex_run e = op_run r \<and> ex_operation_id e = op_operation_id r"

definition expectation_matches_acceptance :: "expectation_row \<Rightarrow> source_acceptance \<Rightarrow> bool" where
  "expectation_matches_acceptance e a \<longleftrightarrow>
     ex_ordinal e = sa_ordinal a \<and> ex_attempt_no e = sa_attempt_no a \<and>
     ex_attempt_authority_ref e = sa_attempt_authority_ref a \<and>
     ex_attempt_fence_ref e = sa_attempt_fence_ref a \<and>
     ex_profile_generation e = sa_profile_generation a \<and> ex_scope_id e = sa_scope_id a \<and>
     ex_controller_fence_ref e = sa_controller_fence_ref a"

definition dispatch_matches_operation :: "dispatch_row \<Rightarrow> operation_row \<Rightarrow> bool" where
  "dispatch_matches_operation d r \<longleftrightarrow>
     ds_run d = op_run r \<and> ds_operation_id d = op_operation_id r \<and> ds_request_hash d = op_request_hash r \<and>
     (ds_ordinal d = 1 \<and> ds_safe_retry_commit_ref d = None \<and> ds_expected_ledger_revision d = 1 \<and>
        ds_expected_reconciliation_revision d = 0 \<or>
      1 < ds_ordinal d \<and> ds_ordinal d \<le> JSON_SAFE_INTEGER \<and> ds_safe_retry_commit_ref d \<noteq> None \<and>
        positive_json (ds_intent_revision d) \<and> positive_json (ds_expected_ledger_revision d) \<and>
        positive_json (ds_expected_reconciliation_revision d))"

definition dispatch_matches_acceptance :: "dispatch_row \<Rightarrow> source_acceptance \<Rightarrow> bool" where
  "dispatch_matches_acceptance d a \<longleftrightarrow>
     ds_outbox_id d = sa_outbox_id a \<and> ds_request_hash d = sa_request_hash a \<and>
     ds_intent_id d = sa_intent_id a \<and> ds_intent_revision d = sa_intent_revision a \<and>
     ds_intent_digest d = sa_intent_digest a \<and> ds_ordinal d = sa_ordinal a \<and>
     ds_safe_retry_commit_ref d = None \<and> ds_acceptance_ref d = sa_acceptance_ref a \<and>
     ds_expected_ledger_revision d = sa_expected_ledger_revision a \<and>
     ds_expected_reconciliation_revision d = sa_expected_reconciliation_revision a"

definition dispatch_ack_matches :: "dispatch_row \<Rightarrow> dispatch_ack \<Rightarrow> bool" where
  "dispatch_ack_matches d a \<longleftrightarrow>
     ds_status d = ''acknowledged'' \<and> ds_sidecar_generation d = Some (da_sidecar_generation a) \<and>
     ds_sidecar_journal_revision d = Some (da_sidecar_journal_revision a) \<and>
     ds_ack_ref d = Some (da_ack_ref a) \<and> ds_ack_kind d = Some (da_ack_kind a) \<and>
     ds_acknowledged_at d = Some (da_acknowledged_at a)"

section \<open>The tables\<close>

text \<open>
  The operations table has two keys and the expectations table one (its trigger refuses a second
  row of a key as well); their CHECKs repeat what the validators ask before an insert. The outbox
  and the reconciliations have CHECKs that relate columns, so these are written out.
\<close>

definition insert_operation :: "operation_row \<Rightarrow> rcdb \<Rightarrow> rc_error + rcdb" where
  "insert_operation r db =
     (if list_ex (\<lambda>x. op_run x = op_run r \<and> (op_operation_id x = op_operation_id r \<or>
                      op_idempotency_key x = op_idempotency_key r)) (t_operations db)
      then Inl IntegrityError else Inr (db\<lparr>t_operations := t_operations db @ [r]\<rparr>))"

definition insert_expectation :: "expectation_row \<Rightarrow> rcdb \<Rightarrow> rc_error + rcdb" where
  "insert_expectation e db =
     (if list_ex (\<lambda>x. ex_run x = ex_run e \<and> ex_operation_id x = ex_operation_id e \<and>
                      ex_ordinal x = ex_ordinal e) (t_expectations db)
      then Inl IntegrityError else Inr (db\<lparr>t_expectations := t_expectations db @ [e]\<rparr>))"

text \<open>\<open>trim\<close> of SQLite removes spaces.\<close>

definition sql_trimmed :: "string \<Rightarrow> bool" where
  "sql_trimmed s \<longleftrightarrow> s \<noteq> [] \<longrightarrow> hd s \<noteq> CHR '' '' \<and> last s \<noteq> CHR '' ''"

definition outbox_check :: "dispatch_row \<Rightarrow> bool" where
  "outbox_check d \<longleftrightarrow>
     0 < ds_intent_revision d \<and>
     (ds_ordinal d = 1 \<and> ds_safe_retry_commit_ref d = None \<and> ds_expected_ledger_revision d = 1 \<and>
        ds_expected_reconciliation_revision d = 0 \<or>
      2 \<le> ds_ordinal d \<and> ds_ordinal d \<le> JSON_SAFE_INTEGER \<and>
        (case ds_safe_retry_commit_ref d of None \<Rightarrow> False
         | Some s \<Rightarrow> 1 \<le> length s \<and> length s \<le> 256 \<and> sql_trimmed s) \<and>
        positive_json (ds_intent_revision d) \<and> positive_json (ds_expected_ledger_revision d) \<and>
        positive_json (ds_expected_reconciliation_revision d)) \<and>
     (case ds_sidecar_generation d of None \<Rightarrow> True | Some g \<Rightarrow> 0 < g) \<and>
     (case ds_sidecar_journal_revision d of None \<Rightarrow> True | Some g \<Rightarrow> 0 < g) \<and>
     (case ds_ack_kind d of None \<Rightarrow> True | Some k \<Rightarrow> k \<in> set ack_kinds) \<and>
     (ds_status d = ''pending'' \<and> ds_outbox_revision d = 1 \<and> ds_sidecar_generation d = None \<and>
        ds_sidecar_journal_revision d = None \<and> ds_ack_ref d = None \<and> ds_ack_kind d = None \<and>
        ds_acknowledged_at d = None \<or>
      ds_status d = ''acknowledged'' \<and> ds_outbox_revision d = 2 \<and> ds_sidecar_generation d \<noteq> None \<and>
        ds_sidecar_journal_revision d \<noteq> None \<and> ds_ack_ref d \<noteq> None \<and> ds_ack_kind d \<noteq> None \<and>
        ds_acknowledged_at d \<noteq> None)"

definition insert_dispatch :: "dispatch_row \<Rightarrow> rcdb \<Rightarrow> rc_error + rcdb" where
  "insert_dispatch d db =
     (if list_ex (\<lambda>x. ds_outbox_id x = ds_outbox_id d \<or>
           (ds_run x = ds_run d \<and> ds_operation_id x = ds_operation_id d \<and> ds_ordinal x = ds_ordinal d) \<or>
           (ds_run x = ds_run d \<and> ds_intent_id x = ds_intent_id d) \<or>
           (ds_run x = ds_run d \<and> ds_operation_id x = ds_operation_id d \<and>
            ds_safe_retry_commit_ref d \<noteq> None \<and>
            ds_safe_retry_commit_ref x = ds_safe_retry_commit_ref d)) (t_outbox db) \<or>
         \<not> outbox_check d
      then Inl IntegrityError else Inr (db\<lparr>t_outbox := t_outbox db @ [d]\<rparr>))"

definition update_outbox ::
  "(dispatch_row \<Rightarrow> bool) \<Rightarrow> (dispatch_row \<Rightarrow> dispatch_row) \<Rightarrow> rcdb \<Rightarrow> rc_error + rcdb" where
  "update_outbox p f db =
     (if list_ex (\<lambda>d. p d \<and> \<not> outbox_check (f d)) (t_outbox db) then Inl IntegrityError
      else Inr (db\<lparr>t_outbox := update_where p f (t_outbox db)\<rparr>))"

definition update_operations ::
  "(operation_row \<Rightarrow> bool) \<Rightarrow> (operation_row \<Rightarrow> operation_row) \<Rightarrow> rcdb \<Rightarrow> rcdb" where
  "update_operations p f db = db\<lparr>t_operations := update_where p f (t_operations db)\<rparr>"

text \<open>
  A CHECK fails only where its expression is false; with a NULL operand it can be unknown (\<open>None\<close>),
  and then the row is stored.
\<close>

definition sql_and :: "bool option \<Rightarrow> bool option \<Rightarrow> bool option" where
  "sql_and a b = (if a = Some False \<or> b = Some False then Some False
     else if a = Some True \<and> b = Some True then Some True else None)"

definition sql_or :: "bool option \<Rightarrow> bool option \<Rightarrow> bool option" where
  "sql_or a b = (if a = Some True \<or> b = Some True then Some True
     else if a = Some False \<and> b = Some False then Some False else None)"

definition sql_in :: "string option \<Rightarrow> string list \<Rightarrow> bool option" where
  "sql_in x vs = map_option (\<lambda>v. v \<in> set vs) x"

definition sql_all :: "bool option list \<Rightarrow> bool option" where
  "sql_all cs = foldr sql_and cs (Some True)"

definition reconciliation_matrix :: "reconciliation_row \<Rightarrow> bool option" where
  "reconciliation_matrix r =
     (let decision = (\<lambda>k. Some (rn_decision_kind r = k)); outcome = (\<lambda>k. Some (rn_history_outcome r = k));
          conclusion = (\<lambda>ks. sql_in (rn_history_conclusion r) ks); posture = (\<lambda>k. Some (rn_retry_posture r = k));
          is_null = (\<lambda>x. Some (x = None)); not_null = (\<lambda>x. Some (x \<noteq> None))
      in sql_or
           (sql_all [decision ''no_dispatch_proved'',
              sql_or (sql_all [outcome ''not_found'', is_null (rn_history_conclusion r)])
                     (sql_all [outcome ''matched'', conclusion [''accepted_no_dispatch'']]),
              is_null (rn_dispatch_intent_ref r), is_null (rn_observation_ref r), posture ''safe_retry''])
         (sql_or
           (sql_all [decision ''unresolved'',
              sql_or (sql_all [outcome ''history_unavailable'', is_null (rn_history_conclusion r)])
                     (sql_all [outcome ''matched'', conclusion [''dispatch_not_observed''],
                        not_null (rn_dispatch_intent_ref r)]),
              is_null (rn_observation_ref r), sql_in (rn_disposition r) [''reconciliation_unknown''],
              posture ''reconcile_first''])
           (sql_all [decision ''conclusive_observation'', outcome ''matched'',
              conclusion [''observed_result'', ''observed_failure''],
              not_null (rn_dispatch_intent_ref r), not_null (rn_observation_ref r),
              sql_in (rn_disposition r)
                [''completed'', ''partial'', ''user_action_required'', ''incompatible'', ''failed''],
              posture ''no_retry''])))"

definition reconciliation_check :: "reconciliation_row \<Rightarrow> bool" where
  "reconciliation_check r \<longleftrightarrow>
     rn_history_outcome r \<in> {''matched'', ''not_found'', ''history_unavailable''} \<and>
     0 < rn_attempt_no r \<and> 0 < rn_expected_ledger_revision r \<and> 0 \<le> rn_expected_reconciliation_revision r \<and>
     rn_committed_phase r = ''reconciled'' \<and>
     rn_committed_ledger_revision r = rn_expected_ledger_revision r + 1 \<and>
     rn_committed_reconciliation_revision r = rn_expected_reconciliation_revision r + 1 \<and>
     reconciliation_matrix r \<noteq> Some False"

definition insert_reconciliation :: "reconciliation_row \<Rightarrow> rcdb \<Rightarrow> rc_error + rcdb" where
  "insert_reconciliation r db =
     (if list_ex (\<lambda>x. rn_reconciliation_id x = rn_reconciliation_id r \<or>
           (rn_run x = rn_run r \<and> rn_operation_id x = rn_operation_id r \<and>
            rn_committed_reconciliation_revision x = rn_committed_reconciliation_revision r))
          (t_reconciliations db) \<or>
         \<not> reconciliation_check r
      then Inl IntegrityError else Inr (db\<lparr>t_reconciliations := t_reconciliations db @ [r]\<rparr>))"

section \<open>Reading an acceptance\<close>

text \<open>The payload of a \<open>DispatchAuthorizationV1\<close>, the argument of \<open>digest\<close>.\<close>

record authorization =
  az_run :: string
  az_operation_id :: string
  az_attempt_no :: int
  az_request_hash :: string
  az_intent_id :: string
  az_intent_revision :: int
  az_ordinal :: int
  az_retry_ref :: "string option"
  az_acceptance_ref :: string
  az_expected_ledger_revision :: int
  az_expected_reconciliation_revision :: int

type_synonym digest = "authorization \<Rightarrow> string"

definition authorization_of :: "operation_row \<Rightarrow> expectation_row \<Rightarrow> dispatch_row \<Rightarrow> authorization" where
  "authorization_of r e d =
     \<lparr>az_run = op_run r, az_operation_id = op_operation_id r, az_attempt_no = ex_attempt_no e,
      az_request_hash = op_request_hash r, az_intent_id = ds_intent_id d,
      az_intent_revision = ds_intent_revision d, az_ordinal = ds_ordinal d,
      az_retry_ref = ds_safe_retry_commit_ref d, az_acceptance_ref = ds_acceptance_ref d,
      az_expected_ledger_revision = ds_expected_ledger_revision d,
      az_expected_reconciliation_revision = ds_expected_reconciliation_revision d\<rparr>"

text \<open>
  \<open>_create_authorization\<close>: the validators of \<open>OperationIdentityV1\<close> and
  \<open>DispatchAuthorizationV1\<close> on the operation, the expectation and the dispatch of one epoch, whose
  digest is the result. The scope is not NULL where it is called.
\<close>

definition create_authorization ::
  "digest \<Rightarrow> operation_row \<Rightarrow> expectation_row \<Rightarrow> dispatch_row \<Rightarrow> rc_error + string" where
  "create_authorization digest r e d =
     (let az = authorization_of r e d in
      if opaque_text 96 (op_run r) \<and> opaque_text 96 (op_operation_id r) \<and> positive_json (ex_attempt_no e) \<and>
         op_source_id r = ''liepin'' \<and> op_operation_kind r \<in> set operation_kinds \<and>
         sha256_text (op_request_hash r) \<and> opaque_text 128 (op_idempotency_key r) \<and>
         opaque_text 96 (ds_intent_id d) \<and> opaque_text 96 (op_requirement_revision_id r) \<and>
         sha256_text (ex_attempt_fence_ref e) \<and> positive_json (ex_profile_generation e) \<and>
         (case ex_scope_id e of None \<Rightarrow> False | Some s \<Rightarrow> opaque_text 96 s) \<and>
         positive_json (ds_expected_ledger_revision d) \<and>
         nonnegative_json (ds_expected_reconciliation_revision d) \<and>
         positive_json (ds_intent_revision d) \<and> positive_json (ds_ordinal d) \<and>
         (case ds_safe_retry_commit_ref d of None \<Rightarrow> True | Some s \<Rightarrow> opaque_text 256 s) \<and>
         opaque_text 256 (ds_acceptance_ref d) \<and>
         (if ds_ordinal d = 1
          then ds_safe_retry_commit_ref d = None \<and> ds_expected_ledger_revision d = 1 \<and>
               ds_expected_reconciliation_revision d = 0
          else ds_safe_retry_commit_ref d \<noteq> None \<and> ds_expected_reconciliation_revision d \<noteq> 0) \<and>
         sha256_text (digest az)
      then Inr (digest az) else rc_fail ''source_safe_retry_authorization_invalid'')"

definition require_safe_retry_dispatch_authorization ::
  "digest \<Rightarrow> operation_row \<Rightarrow> expectation_row \<Rightarrow> dispatch_row \<Rightarrow> rc_error + unit" where
  "require_safe_retry_dispatch_authorization digest r e d =
     (if ds_safe_retry_commit_ref d = None \<or> ex_scope_id e = None \<or> ex_ordinal e \<noteq> ds_ordinal d
      then rc_fail ''source_safe_retry_authorization_invalid''
      else sbind (create_authorization digest r e d) (\<lambda>h.
        rc_require (h = ds_intent_digest d) ''source_safe_retry_authorization_invalid''))"

definition fetch_operation_by_key :: "rcdb \<Rightarrow> string \<Rightarrow> string \<Rightarrow> operation_row option" where
  "fetch_operation_by_key db rid key =
     fetchone (\<lambda>r. op_run r = rid \<and> op_idempotency_key r = key) (t_operations db)"

definition fetch_expectation :: "rcdb \<Rightarrow> string \<Rightarrow> string \<Rightarrow> int \<Rightarrow> expectation_row option" where
  "fetch_expectation db rid oid ordinal =
     fetchone (\<lambda>e. ex_run e = rid \<and> ex_operation_id e = oid \<and> ex_ordinal e = ordinal) (t_expectations db)"

definition operation_dispatches :: "rcdb \<Rightarrow> string \<Rightarrow> string \<Rightarrow> dispatch_row list" where
  "operation_dispatches db rid oid = filter (\<lambda>d. ds_run d = rid \<and> ds_operation_id d = oid) (t_outbox db)"

definition latest_source_dispatch :: "rcdb \<Rightarrow> string \<Rightarrow> string \<Rightarrow> dispatch_row option" where
  "latest_source_dispatch db rid oid = max_by ds_ordinal (operation_dispatches db rid oid)"

definition fetch_reconciliation :: "rcdb \<Rightarrow> string \<Rightarrow> reconciliation_row option" where
  "fetch_reconciliation db i = fetchone (\<lambda>r. rn_reconciliation_id r = i) (t_reconciliations db)"

abbreviation incomplete :: "rc_error" where
  "incomplete \<equiv> RuntimeControlError ''source_operation_acceptance_incomplete'' []"

text \<open>\<open>_source_operation_pair\<close>.\<close>

definition source_operation_pair :: "rcdb \<Rightarrow> operation_row \<Rightarrow> rc_error + dispatch_row" where
  "source_operation_pair db r =
     (case latest_source_dispatch db (op_run r) (op_operation_id r) of
        None \<Rightarrow> Inl incomplete
      | Some d \<Rightarrow>
          if fetch_run db (op_run r) = None \<or> \<not> dispatch_matches_operation d r then Inl incomplete
          else Inr d)"

text \<open>The checks of an expectation against its operation and dispatch, shared by two readers.\<close>

definition require_epoch ::
  "digest \<Rightarrow> operation_row \<Rightarrow> expectation_row \<Rightarrow> dispatch_row \<Rightarrow> rc_error + unit" where
  "require_epoch digest r e d =
     (if ds_ordinal d = 1
      then (if ex_attempt_no e \<noteq> op_attempt_no r \<or> ex_attempt_authority_ref e \<noteq> op_attempt_authority_ref r
            then Inl incomplete else Inr ())
      else require_safe_retry_dispatch_authorization digest r e d)"

definition valid_expectation :: "expectation_row \<Rightarrow> bool" where
  "valid_expectation e \<longleftrightarrow> validate_admission_expectation e = Inr ()"

text \<open>\<open>_source_operation_acceptance\<close>: the operation with its newest expectation and dispatch.\<close>

definition source_operation_acceptance ::
  "digest \<Rightarrow> rcdb \<Rightarrow> operation_row \<Rightarrow> rc_error + (operation_row \<times> expectation_row \<times> dispatch_row)" where
  "source_operation_acceptance digest db r =
     sbind (source_operation_pair db r) (\<lambda>d.
     case fetch_expectation db (op_run r) (op_operation_id r) (ds_ordinal d) of
       None \<Rightarrow> Inl incomplete
     | Some e \<Rightarrow>
         if \<not> valid_expectation e \<or> \<not> expectation_matches_operation e r \<or> ex_ordinal e \<noteq> ds_ordinal d
         then Inl incomplete
         else sbind (require_epoch digest r e d) (\<lambda>_. Inr (r, e, d)))"

text \<open>\<open>_require_source_dispatch_operation\<close>: the operation of an outbox row.\<close>

definition require_source_dispatch_operation ::
  "digest \<Rightarrow> rcdb \<Rightarrow> dispatch_row \<Rightarrow> rc_error + operation_row" where
  "require_source_dispatch_operation digest db d =
     (case (fetch_run db (ds_run d), fetch_operation db (ds_run d) (ds_operation_id d)) of
        (Some _, Some r) \<Rightarrow>
          (case fetch_expectation db (op_run r) (op_operation_id r) (ds_ordinal d) of
             None \<Rightarrow> Inl incomplete
           | Some e \<Rightarrow>
               if \<not> valid_expectation e \<or> \<not> expectation_matches_operation e r \<or>
                  \<not> dispatch_matches_operation d r
               then Inl incomplete
               else sbind (require_epoch digest r e d) (\<lambda>_. Inr r))
      | _ \<Rightarrow> Inl incomplete)"

section \<open>Accepting an operation\<close>

type_synonym acceptance = "operation_row \<times> expectation_row \<times> dispatch_row"

definition new_operation :: "source_acceptance \<Rightarrow> operation_row" where
  "new_operation a = \<lparr>op_run = sa_run a, op_operation_id = sa_operation_id a, op_source_id = sa_source_id a,
     op_operation_kind = sa_operation_kind a, op_request_hash = sa_request_hash a,
     op_idempotency_key = sa_idempotency_key a, op_requirement_revision_id = sa_requirement_revision_id a,
     op_attempt_no = sa_attempt_no a, op_attempt_authority_ref = sa_attempt_authority_ref a,
     op_phase = ''accepted'', op_dispatch_intent_ref = None, op_observation_ref = None,
     op_disposition = None, op_retry_posture = ''no_retry'', op_reconciliation_revision = 0,
     op_main_commit_ref = None, op_ledger_revision = 1\<rparr>"

definition new_dispatch :: "source_acceptance \<Rightarrow> dispatch_row" where
  "new_dispatch a = \<lparr>ds_outbox_id = sa_outbox_id a, ds_run = sa_run a, ds_operation_id = sa_operation_id a,
     ds_request_hash = sa_request_hash a, ds_intent_id = sa_intent_id a,
     ds_intent_revision = sa_intent_revision a, ds_intent_digest = sa_intent_digest a,
     ds_ordinal = sa_ordinal a, ds_safe_retry_commit_ref = None, ds_acceptance_ref = sa_acceptance_ref a,
     ds_expected_ledger_revision = sa_expected_ledger_revision a,
     ds_expected_reconciliation_revision = sa_expected_reconciliation_revision a,
     ds_status = ''pending'', ds_outbox_revision = 1, ds_sidecar_generation = None,
     ds_sidecar_journal_revision = None, ds_ack_ref = None, ds_ack_kind = None, ds_acknowledged_at = None\<rparr>"

text \<open>The answer to a repeated acceptance.\<close>

definition replayed_acceptance ::
  "source_acceptance \<Rightarrow> operation_row option \<Rightarrow> acceptance \<Rightarrow> rc_error + acceptance" where
  "replayed_acceptance a by_key acc =
     (case acc of (r, e, d) \<Rightarrow>
        if op_idempotency_key r \<noteq> sa_idempotency_key a then rc_fail ''identity_conflict''
        else if op_request_hash r \<noteq> sa_request_hash a then rc_fail ''idempotency_conflict''
        else if (case by_key of None \<Rightarrow> True | Some k \<Rightarrow> op_operation_id k \<noteq> sa_operation_id a)
        then Inl incomplete
        else if \<not> operation_matches_acceptance r a then rc_fail ''identity_conflict''
        else if \<not> expectation_matches_acceptance e a then rc_fail ''identity_conflict''
        else if \<not> dispatch_matches_acceptance d a then rc_fail ''identity_conflict''
        else Inr acc)"

definition dispatch_identity_exists :: "rcdb \<Rightarrow> string \<Rightarrow> string \<Rightarrow> bool" where
  "dispatch_identity_exists db outbox_id intent_id \<longleftrightarrow>
     list_ex (\<lambda>d. ds_outbox_id d = outbox_id \<or> ds_intent_id d = intent_id) (t_outbox db)"

definition accept_source_operation ::
  "digest \<Rightarrow> (rcdb \<Rightarrow> run_row \<Rightarrow> source_acceptance \<Rightarrow> bool) \<Rightarrow> (rcdb \<Rightarrow> acceptance \<Rightarrow> rc_error + rcdb) \<Rightarrow>
   rcdb \<Rightarrow> source_acceptance \<Rightarrow> rc_error + (rcdb \<times> acceptance)" where
  "accept_source_operation digest evidence advance db a =
     sbind (validate_source_operation_acceptance a) (\<lambda>_.
     sbind (or_raise (RuntimeControlLookupError ''runtime_run_not_found'') (fetch_run db (sa_run a))) (\<lambda>run.
     let by_id = fetch_operation db (sa_run a) (sa_operation_id a);
         by_key = fetch_operation_by_key db (sa_run a) (sa_idempotency_key a)
     in sbind (case by_id of None \<Rightarrow> Inr None
               | Some r \<Rightarrow> sbind (source_operation_acceptance digest db r) (\<lambda>acc. Inr (Some acc))) (\<lambda>existing.
        sbind (case by_key of None \<Rightarrow> Inr ()
               | Some k \<Rightarrow>
                   if (case by_id of None \<Rightarrow> True | Some r \<Rightarrow> op_operation_id k \<noteq> op_operation_id r)
                   then sbind (source_operation_acceptance digest db k) (\<lambda>_. Inr ()) else Inr ()) (\<lambda>_.
        case existing of
          Some acc \<Rightarrow>
            sbind (replayed_acceptance a by_key acc) (\<lambda>acc.
            sbind (advance db acc) (\<lambda>db'. Inr (db', acc)))
        | None \<Rightarrow>
            if by_key \<noteq> None then rc_fail ''idempotency_conflict''
            else if operation_dispatches db (sa_run a) (sa_operation_id a) \<noteq> [] then Inl incomplete
            else if fetch_expectation db (sa_run a) (sa_operation_id a) 1 \<noteq> None then Inl incomplete
            else if run_status run \<notin> {''starting'', ''running''} \<and>
                    \<not> (run_status run = ''needs_attention'' \<and> evidence db run a)
            then rc_fail ''source_operation_run_not_dispatchable''
            else if run_approved_requirement run \<noteq> sa_requirement_revision_id a
            then rc_fail ''source_operation_requirement_revision_mismatch''
            else if dispatch_identity_exists db (sa_outbox_id a) (sa_intent_id a)
            then rc_fail ''identity_conflict''
            else
              sbind (insert_operation (new_operation a) db) (\<lambda>db1.
              sbind (insert_expectation (expectation_of a) db1) (\<lambda>db2.
              sbind (insert_dispatch (new_dispatch a) db2) (\<lambda>db3.
              sbind (or_raise incomplete (fetch_operation db3 (sa_run a) (sa_operation_id a))) (\<lambda>r.
              sbind (source_operation_acceptance digest db3 r) (\<lambda>acc.
              sbind (advance db3 acc) (\<lambda>db4. Inr (db4, acc)))))))))))"

section \<open>Acknowledging a dispatch\<close>

text \<open>The acknowledged row of a dispatch.\<close>

definition acknowledge :: "int \<Rightarrow> int \<Rightarrow> string \<Rightarrow> string \<Rightarrow> string \<Rightarrow> dispatch_row \<Rightarrow> dispatch_row" where
  "acknowledge generation journal_revision ref kind at d =
     d\<lparr>ds_status := ''acknowledged'', ds_outbox_revision := ds_outbox_revision d + 1,
       ds_sidecar_generation := Some generation, ds_sidecar_journal_revision := Some journal_revision,
       ds_ack_ref := Some ref, ds_ack_kind := Some kind, ds_acknowledged_at := Some at\<rparr>"

definition fetch_dispatch :: "rcdb \<Rightarrow> string \<Rightarrow> dispatch_row option" where
  "fetch_dispatch db outbox_id = fetchone (\<lambda>d. ds_outbox_id d = outbox_id) (t_outbox db)"

definition record_source_dispatch_ack ::
  "digest \<Rightarrow> rcdb \<Rightarrow> dispatch_ack \<Rightarrow> rc_error + (rcdb \<times> dispatch_row)" where
  "record_source_dispatch_ack digest db a =
     sbind (validate_source_dispatch_ack a) (\<lambda>_.
     sbind (or_raise (RuntimeControlLookupError ''source_dispatch_not_found'')
              (fetch_dispatch db (da_outbox_id a))) (\<lambda>d.
     sbind (require_source_dispatch_operation digest db d) (\<lambda>_.
     if ds_run d \<noteq> da_run a \<or> ds_operation_id d \<noteq> da_operation_id a \<or>
        ds_request_hash d \<noteq> da_request_hash a \<or> ds_intent_id d \<noteq> da_intent_id a \<or>
        ds_intent_revision d \<noteq> da_intent_revision a \<or> ds_intent_digest d \<noteq> da_intent_digest a \<or>
        ds_ordinal d \<noteq> da_ordinal a
     then rc_fail ''source_dispatch_identity_conflict''
     else if ds_status d = ''acknowledged''
     then
       if da_expected_outbox_revision a \<noteq> 1 then rc_fail ''source_dispatch_outbox_revision_conflict''
       else if dispatch_ack_matches d a then Inr (db, d)
       else rc_fail ''source_dispatch_ack_conflict''
     else if ds_outbox_revision d \<noteq> da_expected_outbox_revision a
     then rc_fail ''source_dispatch_outbox_revision_conflict''
     else if ds_status d \<noteq> ''pending'' then rc_fail ''source_dispatch_ack_conflict''
     else
       let p = (\<lambda>x. ds_outbox_id x = da_outbox_id a \<and> ds_status x = ''pending'' \<and>
                     ds_outbox_revision x = da_expected_outbox_revision a)
       in if rowcount p (t_outbox db) \<noteq> 1 then rc_fail ''source_dispatch_outbox_revision_conflict''
          else
            sbind (update_outbox p (acknowledge (da_sidecar_generation a) (da_sidecar_journal_revision a)
                     (da_ack_ref a) (da_ack_kind a) (da_acknowledged_at a)) db) (\<lambda>db'.
            sbind (or_raise incomplete (fetch_dispatch db' (da_outbox_id a))) (\<lambda>d'. Inr (db', d'))))))"

section \<open>Observing and reconciling under an executor\<close>

definition source_operation_dispositions :: "string list" where
  "source_operation_dispositions = [''completed'', ''partial'', ''user_action_required'', ''incompatible'',
     ''failed'', ''cancelled'', ''reconciliation_unknown'']"

definition record_owned_source_operation_observation ::
  "clock \<Rightarrow> rcdb \<Rightarrow> string \<Rightarrow> string \<Rightarrow> string \<Rightarrow> int \<Rightarrow> int \<Rightarrow> string \<Rightarrow> string \<Rightarrow> string \<Rightarrow> string \<Rightarrow>
   rc_error + (rcdb \<times> operation_row)" where
  "record_owned_source_operation_observation ck db rid oid executor_id attempt_no expected_ledger_revision
       dispatch_intent_ref observation_ref disposition observed_at =
     (if disposition \<notin> set source_operation_dispositions
      then rc_fail ''source_operation_disposition_invalid''
      else
        sbind (require_active_executor ck db rid executor_id (Some attempt_no) (Some observed_at)) (\<lambda>_.
        sbind (or_raise (RuntimeControlLookupError ''source_operation_not_found'')
                 (fetch_operation db rid oid)) (\<lambda>r.
        if op_phase r = ''observed'' \<and> op_dispatch_intent_ref r = Some dispatch_intent_ref \<and>
           op_observation_ref r = Some observation_ref \<and> op_disposition r = Some disposition
        then Inr (db, r)
        else if op_phase r \<notin> {''accepted'', ''reconciled''} \<or>
                op_ledger_revision r \<noteq> expected_ledger_revision \<or> op_main_commit_ref r \<noteq> None \<or>
                op_observation_ref r \<noteq> None
        then rc_fail ''source_operation_observation_conflict''
        else
          (case latest_source_dispatch db rid oid of
             None \<Rightarrow> Inl incomplete
           | Some d \<Rightarrow>
               if ds_status d \<noteq> ''acknowledged'' then rc_fail ''source_operation_dispatch_ack_missing''
               else
                 let p = (\<lambda>x. op_run x = rid \<and> op_operation_id x = oid \<and> op_phase x = op_phase r \<and>
                               op_ledger_revision x = expected_ledger_revision \<and>
                               op_main_commit_ref x = None \<and> op_observation_ref x = None);
                     db' = update_operations p (\<lambda>x. x\<lparr>op_phase := ''observed'',
                             op_dispatch_intent_ref := Some dispatch_intent_ref,
                             op_observation_ref := Some observation_ref,
                             op_disposition := Some disposition, op_retry_posture := ''no_retry'',
                             op_ledger_revision := op_ledger_revision x + 1\<rparr>) db
                 in if rowcount p (t_operations db) \<noteq> 1 then rc_fail ''source_operation_observation_conflict''
                    else sbind (or_raise (RuntimeControlError ''source_operation_observation_incomplete'' [])
                           (fetch_operation db' rid oid)) (\<lambda>r'. Inr (db', r'))))))"

definition record_owned_source_reconciliation_unknown ::
  "clock \<Rightarrow> rcdb \<Rightarrow> string \<Rightarrow> string \<Rightarrow> string \<Rightarrow> int \<Rightarrow> int \<Rightarrow> int \<Rightarrow> string \<Rightarrow> string \<Rightarrow> string \<Rightarrow>
   string option \<Rightarrow> string option \<Rightarrow> string \<Rightarrow> rc_error + (rcdb \<times> operation_row)" where
  "record_owned_source_reconciliation_unknown ck db rid oid executor_id attempt_no
       expected_ledger_revision expected_reconciliation_revision history_result_ref history_result_digest
       history_outcome history_conclusion dispatch_intent_ref committed_at =
     (if history_outcome \<notin> {''matched'', ''not_found'', ''history_unavailable''}
      then rc_fail ''source_reconciliation_history_outcome_invalid''
      else if history_conclusion \<notin> {None, Some ''accepted_no_dispatch'', Some ''dispatch_not_observed''}
      then rc_fail ''source_reconciliation_history_conclusion_invalid''
      else
        sbind (require_active_executor ck db rid executor_id (Some attempt_no) (Some committed_at)) (\<lambda>_.
        sbind (or_raise (RuntimeControlLookupError ''source_operation_not_found'')
                 (fetch_operation db rid oid)) (\<lambda>r.
        let reconciliation_id = ''source-history-'' @ history_result_digest
        in if fetch_reconciliation db reconciliation_id \<noteq> None then Inr (db, r)
           else if op_phase r \<noteq> ''accepted'' \<or> op_ledger_revision r \<noteq> expected_ledger_revision \<or>
                   op_reconciliation_revision r \<noteq> expected_reconciliation_revision \<or>
                   op_main_commit_ref r \<noteq> None
           then rc_fail ''source_reconciliation_revision_conflict''
           else
             let committed_ledger = op_ledger_revision r + 1;
                 committed_reconciliation = op_reconciliation_revision r + 1;
                 p = (\<lambda>x. op_run x = rid \<and> op_operation_id x = oid \<and> op_phase x = ''accepted'' \<and>
                           op_ledger_revision x = expected_ledger_revision \<and>
                           op_reconciliation_revision x = expected_reconciliation_revision \<and>
                           op_main_commit_ref x = None);
                 db1 = update_operations p (\<lambda>x. x\<lparr>op_phase := ''reconciled'',
                         op_dispatch_intent_ref := dispatch_intent_ref,
                         op_disposition := Some ''reconciliation_unknown'',
                         op_retry_posture := ''reconcile_first'',
                         op_reconciliation_revision := committed_reconciliation,
                         op_ledger_revision := committed_ledger\<rparr>) db
             in if rowcount p (t_operations db) \<noteq> 1 then rc_fail ''source_reconciliation_revision_conflict''
                else
                  sbind (insert_reconciliation
                    \<lparr>rn_reconciliation_id = reconciliation_id, rn_run = op_run r,
                     rn_operation_id = op_operation_id r, rn_source_id = op_source_id r,
                     rn_operation_kind = op_operation_kind r, rn_request_hash = op_request_hash r,
                     rn_idempotency_key = op_idempotency_key r,
                     rn_requirement_revision_id = op_requirement_revision_id r,
                     rn_attempt_no = op_attempt_no r, rn_attempt_authority_ref = op_attempt_authority_ref r,
                     rn_history_result_ref = history_result_ref,
                     rn_history_result_digest = history_result_digest, rn_decision_kind = ''unresolved'',
                     rn_history_outcome = history_outcome, rn_history_conclusion = history_conclusion,
                     rn_dispatch_intent_ref = dispatch_intent_ref, rn_observation_ref = None,
                     rn_disposition = Some ''reconciliation_unknown'', rn_retry_posture = ''reconcile_first'',
                     rn_expected_ledger_revision = expected_ledger_revision,
                     rn_expected_reconciliation_revision = expected_reconciliation_revision,
                     rn_committed_at = committed_at, rn_committed_phase = ''reconciled'',
                     rn_committed_ledger_revision = committed_ledger,
                     rn_committed_reconciliation_revision = committed_reconciliation\<rparr> db1) (\<lambda>db2.
                  sbind (or_raise (RuntimeControlError ''source_reconciliation_commit_incomplete'' [])
                    (fetch_operation db2 rid oid)) (\<lambda>r'. Inr (db2, r'))))))"

section \<open>Reconciling without an executor\<close>

text \<open>The dataclass \<open>SourceOperationReconciliationDecision\<close>.\<close>

record decision =
  dc_reconciliation_id :: string
  dc_run :: string
  dc_operation_id :: string
  dc_source_id :: string
  dc_operation_kind :: string
  dc_request_hash :: string
  dc_idempotency_key :: string
  dc_requirement_revision_id :: string
  dc_attempt_no :: int
  dc_attempt_authority_ref :: string
  dc_history_result_ref :: string
  dc_history_result_digest :: string
  dc_decision_kind :: string
  dc_history_outcome :: string
  dc_history_conclusion :: "string option"
  dc_dispatch_intent_ref :: "string option"
  dc_observation_ref :: "string option"
  dc_disposition :: "string option"
  dc_retry_posture :: string
  dc_expected_ledger_revision :: int
  dc_expected_reconciliation_revision :: int
  dc_committed_at :: string

definition reconciliation_invalid :: "string \<Rightarrow> string" where
  "reconciliation_invalid field = ''source_reconciliation_'' @ field @ ''_invalid''"

text \<open>\<open>_require_opaque\<close> of this module also refuses control characters above 31.\<close>

definition reconciliation_opaque :: "int \<Rightarrow> string \<Rightarrow> bool" where
  "reconciliation_opaque max_bytes v \<longleftrightarrow> v \<noteq> [] \<and> stripped v \<and> int (length v) \<le> max_bytes \<and> \<not> has_control v"

definition require_rn_opaque :: "string \<Rightarrow> string \<Rightarrow> int \<Rightarrow> rc_error + unit" where
  "require_rn_opaque v field max_bytes =
     rc_require (reconciliation_opaque max_bytes v) (reconciliation_invalid field)"

definition matrix_invalid :: "string \<Rightarrow> string" where
  "matrix_invalid part = ''source_reconciliation_'' @ part @ ''_matrix_invalid''"

definition validate_decision_matrix :: "decision \<Rightarrow> rc_error + unit" where
  "validate_decision_matrix d =
     (if dc_decision_kind d = ''no_dispatch_proved''
      then checks
        [rc_require (dc_history_outcome d = ''not_found'' \<and> dc_history_conclusion d = None \<or>
                     dc_history_outcome d = ''matched'' \<and>
                       dc_history_conclusion d = Some ''accepted_no_dispatch'') (matrix_invalid ''history''),
         rc_require (dc_dispatch_intent_ref d = None \<and> dc_observation_ref d = None) (matrix_invalid ''reference''),
         rc_require (dc_retry_posture d = ''safe_retry'') (matrix_invalid ''retry_posture'')]
      else if dc_decision_kind d = ''unresolved''
      then checks
        [rc_require (dc_history_outcome d = ''history_unavailable'' \<and> dc_history_conclusion d = None \<or>
                     dc_history_outcome d = ''matched'' \<and>
                       dc_history_conclusion d = Some ''dispatch_not_observed'') (matrix_invalid ''history''),
         rc_require (\<not> (dc_history_outcome d = ''matched'' \<and> dc_dispatch_intent_ref d = None) \<and>
                     dc_observation_ref d = None) (matrix_invalid ''reference''),
         rc_require (dc_disposition d = Some ''reconciliation_unknown'') (matrix_invalid ''disposition''),
         rc_require (dc_retry_posture d = ''reconcile_first'') (matrix_invalid ''retry_posture'')]
      else checks
        [rc_require (dc_history_outcome d = ''matched'' \<and>
                     dc_history_conclusion d \<in> {Some ''observed_result'', Some ''observed_failure''})
           (matrix_invalid ''history''),
         rc_require (dc_dispatch_intent_ref d \<noteq> None \<and> dc_observation_ref d \<noteq> None) (matrix_invalid ''reference''),
         rc_require (dc_disposition d \<in> {Some ''completed'', Some ''partial'', Some ''user_action_required'',
                                         Some ''incompatible'', Some ''failed''}) (matrix_invalid ''disposition''),
         rc_require (dc_retry_posture d = ''no_retry'') (matrix_invalid ''retry_posture'')])"

definition retry_postures :: "string list" where
  "retry_postures = [''no_retry'', ''safe_retry'', ''reconcile_first'']"

definition validate_decision :: "decision \<Rightarrow> rc_error + unit" where
  "validate_decision d =
     checks [require_rn_opaque (dc_reconciliation_id d) ''reconciliation_id'' 96,
       require_rn_opaque (dc_run d) ''runtime_run_id'' 96,
       require_rn_opaque (dc_operation_id d) ''operation_id'' 96,
       rc_require (dc_source_id d = ''liepin'') ''source_operation_source_invalid'',
       rc_require (dc_operation_kind d \<in> set operation_kinds) ''source_operation_kind_invalid'',
       rc_require (sha256_text (dc_request_hash d)) (reconciliation_invalid ''canonical_request_hash''),
       require_rn_opaque (dc_idempotency_key d) ''idempotency_key'' 128,
       require_rn_opaque (dc_requirement_revision_id d) ''accepted_requirement_revision_id'' 96,
       rc_require (1 \<le> dc_attempt_no d \<and> dc_attempt_no d \<le> SQLITE_MAX_INTEGER)
         (reconciliation_invalid ''runtime_attempt_no''),
       require_rn_opaque (dc_attempt_authority_ref d) ''runtime_attempt_authority_ref'' 256,
       require_rn_opaque (dc_history_result_ref d) ''history_result_ref'' 256,
       rc_require (sha256_text (dc_history_result_digest d)) (reconciliation_invalid ''history_result_digest''),
       rc_require (dc_decision_kind d \<in> {''no_dispatch_proved'', ''unresolved'', ''conclusive_observation''})
         (reconciliation_invalid ''decision_kind''),
       rc_require (dc_history_outcome d \<in> {''matched'', ''not_found'', ''history_unavailable''})
         (reconciliation_invalid ''history_outcome''),
       rc_require (dc_history_conclusion d \<in> {None, Some ''accepted_no_dispatch'',
           Some ''dispatch_not_observed'', Some ''observed_result'', Some ''observed_failure''})
         (reconciliation_invalid ''history_conclusion''),
       when_some (\<lambda>s. require_rn_opaque s ''dispatch_intent_ref'' 256) (dc_dispatch_intent_ref d),
       when_some (\<lambda>s. require_rn_opaque s ''conclusive_observation_ref'' 256) (dc_observation_ref d),
       when_some (\<lambda>s. rc_require (s \<in> set source_operation_dispositions)
           (reconciliation_invalid ''source_operation_disposition'')) (dc_disposition d),
       rc_require (dc_retry_posture d \<in> set retry_postures) (reconciliation_invalid ''retry_posture''),
       rc_require (1 \<le> dc_expected_ledger_revision d \<and> dc_expected_ledger_revision d < SQLITE_MAX_INTEGER)
         (reconciliation_invalid ''expected_ledger_revision''),
       rc_require (0 \<le> dc_expected_reconciliation_revision d \<and>
                   dc_expected_reconciliation_revision d < SQLITE_MAX_INTEGER)
         (reconciliation_invalid ''expected_reconciliation_revision''),
       require_rn_opaque (dc_committed_at d) ''committed_at'' 64,
       validate_decision_matrix d]"

definition reconciliation_of :: "decision \<Rightarrow> int \<Rightarrow> int \<Rightarrow> reconciliation_row" where
  "reconciliation_of d committed_ledger committed_reconciliation =
     \<lparr>rn_reconciliation_id = dc_reconciliation_id d, rn_run = dc_run d, rn_operation_id = dc_operation_id d,
      rn_source_id = dc_source_id d, rn_operation_kind = dc_operation_kind d,
      rn_request_hash = dc_request_hash d, rn_idempotency_key = dc_idempotency_key d,
      rn_requirement_revision_id = dc_requirement_revision_id d, rn_attempt_no = dc_attempt_no d,
      rn_attempt_authority_ref = dc_attempt_authority_ref d,
      rn_history_result_ref = dc_history_result_ref d,
      rn_history_result_digest = dc_history_result_digest d, rn_decision_kind = dc_decision_kind d,
      rn_history_outcome = dc_history_outcome d, rn_history_conclusion = dc_history_conclusion d,
      rn_dispatch_intent_ref = dc_dispatch_intent_ref d, rn_observation_ref = dc_observation_ref d,
      rn_disposition = dc_disposition d, rn_retry_posture = dc_retry_posture d,
      rn_expected_ledger_revision = dc_expected_ledger_revision d,
      rn_expected_reconciliation_revision = dc_expected_reconciliation_revision d,
      rn_committed_at = dc_committed_at d, rn_committed_phase = ''reconciled'',
      rn_committed_ledger_revision = committed_ledger,
      rn_committed_reconciliation_revision = committed_reconciliation\<rparr>"

text \<open>\<open>source_reconciliation_matches_decision\<close>: all of the decision but \<open>committed_at\<close>.\<close>

definition reconciliation_matches_decision :: "reconciliation_row \<Rightarrow> decision \<Rightarrow> bool" where
  "reconciliation_matches_decision r d \<longleftrightarrow>
     r\<lparr>rn_committed_at := dc_committed_at d, rn_committed_phase := ''reconciled'',
       rn_committed_ledger_revision := 0, rn_committed_reconciliation_revision := 0\<rparr> = reconciliation_of d 0 0"

definition operation_matches_reconciliation :: "operation_row \<Rightarrow> decision \<Rightarrow> bool" where
  "operation_matches_reconciliation r d \<longleftrightarrow>
     op_run r = dc_run d \<and> op_operation_id r = dc_operation_id d \<and> op_source_id r = dc_source_id d \<and>
     op_operation_kind r = dc_operation_kind d \<and> op_request_hash r = dc_request_hash d \<and>
     op_idempotency_key r = dc_idempotency_key d \<and>
     op_requirement_revision_id r = dc_requirement_revision_id d \<and> op_attempt_no r = dc_attempt_no d \<and>
     op_attempt_authority_ref r = dc_attempt_authority_ref d"

definition dispatch_precondition_matches :: "dispatch_row \<Rightarrow> decision \<Rightarrow> dispatch_row option \<Rightarrow> bool" where
  "dispatch_precondition_matches d dc precondition \<longleftrightarrow>
     (case precondition of
        Some x \<Rightarrow> d = x
      | None \<Rightarrow> dc_decision_kind dc \<noteq> ''no_dispatch_proved'' \<or>
          (ds_status d = ''pending'' \<and> ds_outbox_revision d = 1 \<and> ds_sidecar_generation d = None \<and>
           ds_sidecar_journal_revision d = None \<and> ds_ack_ref d = None \<and> ds_ack_kind d = None \<and>
           ds_acknowledged_at d = None))"

definition ack_of :: "dispatch_row \<Rightarrow> dispatch_ack option" where
  "ack_of d =
     (case (ds_sidecar_generation d, ds_sidecar_journal_revision d, ds_ack_ref d, ds_ack_kind d,
            ds_acknowledged_at d) of
        (Some g, Some n, Some ref, Some kind, Some at) \<Rightarrow>
          Some \<lparr>da_run = ds_run d, da_operation_id = ds_operation_id d, da_outbox_id = ds_outbox_id d,
                da_request_hash = ds_request_hash d, da_intent_id = ds_intent_id d,
                da_intent_revision = ds_intent_revision d, da_intent_digest = ds_intent_digest d,
                da_ordinal = ds_ordinal d, da_expected_outbox_revision = 1, da_sidecar_generation = g,
                da_sidecar_journal_revision = n, da_ack_ref = ref, da_ack_kind = kind,
                da_acknowledged_at = at\<rparr>
      | _ \<Rightarrow> None)"

abbreviation ack_invalid :: "rc_error + 'a" where
  "ack_invalid \<equiv> rc_fail ''source_reconciliation_dispatch_ack_invalid''"

text \<open>\<open>_validate_reconciliation_dispatch_ack\<close>.\<close>

definition validate_reconciliation_dispatch_ack :: "dispatch_row \<Rightarrow> rc_error + unit" where
  "validate_reconciliation_dispatch_ack d =
     (case ack_of d of
        None \<Rightarrow> ack_invalid
      | Some a \<Rightarrow>
          if take 7 (da_ack_ref a) \<noteq> ''sha256:'' \<or> \<not> sha256_text (drop 7 (da_ack_ref a)) \<or>
             da_ack_kind a \<noteq> expected_ack_kind (da_ordinal a)
          then ack_invalid else validate_source_dispatch_ack a)"

text \<open>The columns of a dispatch that an acknowledgement does not touch.\<close>

definition dispatch_core :: "dispatch_row \<Rightarrow> dispatch_row" where
  "dispatch_core d = d\<lparr>ds_status := '''', ds_outbox_revision := 0, ds_sidecar_generation := None,
     ds_sidecar_journal_revision := None, ds_ack_ref := None, ds_ack_kind := None,
     ds_acknowledged_at := None\<rparr>"

definition dispatch_ack_requires_update ::
  "dispatch_row \<Rightarrow> dispatch_row option \<Rightarrow> decision \<Rightarrow> rc_error + bool" where
  "dispatch_ack_requires_update d ack dc =
     (case ack of
        None \<Rightarrow> Inr False
      | Some a \<Rightarrow>
          if dc_history_outcome dc \<noteq> ''matched'' \<or>
             dc_history_conclusion dc \<notin> {Some ''accepted_no_dispatch'', Some ''dispatch_not_observed'',
               Some ''observed_result'', Some ''observed_failure''}
          then ack_invalid
          else if ds_status d = ''acknowledged''
          then (if a \<noteq> d then rc_fail ''source_reconciliation_dispatch_conflict'' else Inr False)
          else
            sbind (validate_reconciliation_dispatch_ack a) (\<lambda>_.
            if ds_status d \<noteq> ''pending'' \<or> ds_outbox_revision d \<noteq> 1
            then rc_fail ''source_reconciliation_dispatch_conflict''
            else if dispatch_core a \<noteq> dispatch_core d \<or> ds_status a \<noteq> ''acknowledged'' \<or>
                    ds_outbox_revision a \<noteq> 2
            then ack_invalid else Inr True))"

abbreviation transition_conflict :: "rc_error + 'a" where
  "transition_conflict \<equiv> rc_fail ''source_reconciliation_transition_conflict''"

definition require_source_reconciliation_transition :: "operation_row \<Rightarrow> decision \<Rightarrow> rc_error + unit" where
  "require_source_reconciliation_transition r d =
     (let unknown = {None, Some ''reconciliation_unknown''} in
      if op_retry_posture r = ''safe_retry'' then transition_conflict
      else if op_retry_posture r = ''no_retry'' \<and> op_observation_ref r \<noteq> None \<and> op_disposition r \<noteq> None
      then transition_conflict
      else if op_dispatch_intent_ref r \<noteq> None \<and> op_dispatch_intent_ref r \<noteq> dc_dispatch_intent_ref d
      then transition_conflict
      else if op_observation_ref r \<noteq> None \<and> op_observation_ref r \<noteq> dc_observation_ref d
      then transition_conflict
      else if op_disposition r \<notin> unknown \<union> {dc_disposition d} then transition_conflict
      else if dc_decision_kind d = ''no_dispatch_proved''
      then
        (if op_dispatch_intent_ref r \<noteq> None \<or> op_observation_ref r \<noteq> None then transition_conflict
         else if dc_disposition d \<noteq> None \<or> op_disposition r \<notin> unknown then transition_conflict
         else Inr ())
      else if dc_decision_kind d = ''unresolved''
      then
        (if op_observation_ref r \<noteq> None then transition_conflict
         else if dc_history_outcome d = ''history_unavailable'' \<and>
                 dc_dispatch_intent_ref d \<noteq> op_dispatch_intent_ref r
         then transition_conflict
         else if op_disposition r \<notin> unknown then transition_conflict
         else Inr ())
      else if dc_decision_kind d = ''conclusive_observation''
      then (if op_disposition r \<notin> unknown \<union> {dc_disposition d} then transition_conflict else Inr ())
      else rc_fail ''source_reconciliation_decision_kind_invalid'')"

text \<open>\<open>_expired_browser_lane_reconciliation_matches\<close>.\<close>

definition expired_browser_lane_matches :: "rcdb \<Rightarrow> run_row \<Rightarrow> decision \<Rightarrow> int option \<Rightarrow> bool" where
  "expired_browser_lane_matches db run d token \<longleftrightarrow>
     (case token of
        None \<Rightarrow> False
      | Some n \<Rightarrow>
          1 \<le> n \<and> run_status run \<in> {''resume_requested'', ''needs_attention'', ''failed''} \<and>
          active_leases db (dc_run d) = [] \<and>
          (case get_browser_lane db LIEPIN_BROWSER_LANE of
             None \<Rightarrow> False
           | Some l \<Rightarrow>
               bl_status l = ''active'' \<and> bl_fencing_token l = n \<and> bl_runtime_run_id l = Some (dc_run d) \<and>
               bl_operation_id l = dc_operation_id d \<and>
               (case bl_lease_expires_at l of None \<Rightarrow> False | Some e \<Rightarrow> e \<le> dc_committed_at d)))"

text \<open>The UPDATE of the outbox made with an acknowledgement found in the history.\<close>

definition reconcile_outbox :: "bool \<Rightarrow> dispatch_row \<Rightarrow> dispatch_row option \<Rightarrow> rcdb \<Rightarrow> rc_error + rcdb" where
  "reconcile_outbox update d ack db =
     (case ack of
        Some a \<Rightarrow>
          if \<not> update then Inr db
          else
            let p = (\<lambda>x. ds_outbox_id x = ds_outbox_id d \<and> ds_status x = ''pending'' \<and>
                      ds_outbox_revision x = ds_outbox_revision d \<and> ds_sidecar_generation x = None \<and>
                      ds_sidecar_journal_revision x = None \<and> ds_ack_ref x = None \<and> ds_ack_kind x = None \<and>
                      ds_acknowledged_at x = None)
            in if rowcount p (t_outbox db) \<noteq> 1 then rc_fail ''source_reconciliation_dispatch_conflict''
               else update_outbox p (\<lambda>x. x\<lparr>ds_status := ''acknowledged'',
                      ds_outbox_revision := ds_outbox_revision a,
                      ds_sidecar_generation := ds_sidecar_generation a,
                      ds_sidecar_journal_revision := ds_sidecar_journal_revision a,
                      ds_ack_ref := ds_ack_ref a, ds_ack_kind := ds_ack_kind a,
                      ds_acknowledged_at := ds_acknowledged_at a\<rparr>) db
      | None \<Rightarrow> Inr db)"

definition apply_decision :: "decision \<Rightarrow> operation_row \<Rightarrow> operation_row" where
  "apply_decision d x = x\<lparr>op_phase := ''reconciled'', op_dispatch_intent_ref := dc_dispatch_intent_ref d,
     op_observation_ref := dc_observation_ref d, op_disposition := dc_disposition d,
     op_retry_posture := dc_retry_posture d,
     op_reconciliation_revision := dc_expected_reconciliation_revision d + 1,
     op_ledger_revision := dc_expected_ledger_revision d + 1\<rparr>"

definition commit_no_owner_source_reconciliation ::
  "(rcdb \<Rightarrow> run_row \<Rightarrow> decision \<Rightarrow> bool) \<Rightarrow> rcdb \<Rightarrow> decision \<Rightarrow> dispatch_row option \<Rightarrow> dispatch_row option \<Rightarrow>
   int option \<Rightarrow> rc_error + (rcdb \<times> reconciliation_row)" where
  "commit_no_owner_source_reconciliation attention db d precondition ack token =
     sbind (validate_decision d) (\<lambda>_.
     case fetch_reconciliation db (dc_reconciliation_id d) of
       Some x \<Rightarrow>
         if \<not> reconciliation_matches_decision x d then rc_fail ''source_reconciliation_idempotency_conflict''
         else Inr (db, x)
     | None \<Rightarrow>
         sbind (or_raise (RuntimeControlLookupError ''runtime_run_not_found'') (fetch_run db (dc_run d))) (\<lambda>run.
         if run_status run \<noteq> ''resume_requested'' \<and> \<not> attention db run d \<and>
            \<not> expired_browser_lane_matches db run d token
         then rc_fail ''source_reconciliation_run_not_resumable''
         else if active_leases db (dc_run d) \<noteq> [] then rc_fail ''source_reconciliation_owner_conflict''
         else
           sbind (or_raise (RuntimeControlLookupError ''source_operation_not_found'')
                    (fetch_operation db (dc_run d) (dc_operation_id d))) (\<lambda>r.
           sbind (source_operation_pair db r) (\<lambda>dispatch.
           if \<not> operation_matches_reconciliation r d then rc_fail ''source_reconciliation_identity_conflict''
           else if \<not> dispatch_precondition_matches dispatch d precondition
           then rc_fail ''source_reconciliation_dispatch_conflict''
           else
             sbind (dispatch_ack_requires_update dispatch ack d) (\<lambda>update.
             if op_phase r = ''main_committed'' \<or> op_main_commit_ref r \<noteq> None
             then rc_fail ''source_reconciliation_main_commit_conflict''
             else if op_ledger_revision r \<noteq> dc_expected_ledger_revision d \<or>
                     op_reconciliation_revision r \<noteq> dc_expected_reconciliation_revision d
             then rc_fail ''source_reconciliation_revision_conflict''
             else if op_ledger_revision r = SQLITE_MAX_INTEGER \<or>
                     op_reconciliation_revision r = SQLITE_MAX_INTEGER
             then rc_fail ''source_reconciliation_revision_overflow''
             else
               sbind (require_source_reconciliation_transition r d) (\<lambda>_.
               sbind (reconcile_outbox update dispatch ack db) (\<lambda>db1.
               let p = (\<lambda>x. op_run x = dc_run d \<and> op_operation_id x = dc_operation_id d \<and>
                         op_phase x \<noteq> ''main_committed'' \<and> op_main_commit_ref x = None \<and>
                         op_ledger_revision x = dc_expected_ledger_revision d \<and>
                         op_reconciliation_revision x = dc_expected_reconciliation_revision d)
               in if rowcount p (t_operations db1) \<noteq> 1 then rc_fail ''source_reconciliation_revision_conflict''
                  else
                    sbind (insert_reconciliation
                      (reconciliation_of d (op_ledger_revision r + 1) (op_reconciliation_revision r + 1))
                      (update_operations p (apply_decision d) db1)) (\<lambda>db2.
                    sbind (or_raise (RuntimeControlError ''source_reconciliation_commit_incomplete'' [])
                      (fetch_reconciliation db2 (dc_reconciliation_id d))) (\<lambda>x. Inr (db2, x))))))))))"

section \<open>Authorizing a retry\<close>

text \<open>
  The facts of a \<open>_SafeRetryTurnoverAuthority\<close>. That the capability was issued by this store
  (object identity in \<open>_SafeRetryTurnoverAuthorityIssuer\<close>) is the argument \<open>issued\<close> of the mint.
\<close>

record turnover_authority =
  ta_run :: string
  ta_executor_id :: string
  ta_lease_id :: string
  ta_attempt_no :: int
  ta_observed_at :: string
  ta_attempt_authority_ref :: string
  ta_attempt_fence_ref :: string
  ta_profile_generation :: int
  ta_scope_id :: string
  ta_controller_fence_ref :: "string option"

definition retry_invalid :: "string \<Rightarrow> string" where
  "retry_invalid field = ''source_safe_retry_'' @ field @ ''_invalid''"

definition require_retry_opaque :: "string \<Rightarrow> string \<Rightarrow> int \<Rightarrow> rc_error + unit" where
  "require_retry_opaque v field max_bytes = rc_require (reconciliation_opaque max_bytes v) (retry_invalid field)"

definition authority_expectation :: "turnover_authority \<Rightarrow> string \<Rightarrow> int \<Rightarrow> expectation_row" where
  "authority_expectation t oid ordinal =
     \<lparr>ex_run = ta_run t, ex_operation_id = oid, ex_ordinal = ordinal, ex_attempt_no = ta_attempt_no t,
      ex_attempt_authority_ref = ta_attempt_authority_ref t, ex_attempt_fence_ref = ta_attempt_fence_ref t,
      ex_profile_generation = ta_profile_generation t, ex_scope_id = Some (ta_scope_id t),
      ex_controller_fence_ref = ta_controller_fence_ref t\<rparr>"

text \<open>\<open>issue_safe_retry_turnover_authority\<close> with \<open>_SafeRetryTurnoverAuthorityIssuer.issue\<close>; \<open>t\<close>
  carries the arguments, its lease id is replaced by the one found.\<close>

definition issue_safe_retry_turnover_authority ::
  "clock \<Rightarrow> rcdb \<Rightarrow> turnover_authority \<Rightarrow> rc_error + turnover_authority" where
  "issue_safe_retry_turnover_authority ck db t =
     sbind (require_retry_opaque (ta_observed_at t) ''authority_observed_at'' 64) (\<lambda>_.
     if parse_ts ck (ta_observed_at t) = None
     then rc_fail ''source_safe_retry_authority_observed_at_invalid''
     else
       sbind (require_active_executor ck db (ta_run t) (ta_executor_id t) (Some (ta_attempt_no t))
                (Some (ta_observed_at t))) (\<lambda>lease.
       sbind (checks [require_retry_opaque (ta_executor_id t) ''executor_id'' 256,
                require_retry_opaque (ls_lease_id lease) ''lease_id'' 96,
                require_retry_opaque (ta_observed_at t) ''authority_observed_at'' 64,
                validate_admission_expectation
                  (authority_expectation t ''safe_retry_capability_validation'' 2)]) (\<lambda>_.
       Inr (t\<lparr>ta_lease_id := ls_lease_id lease\<rparr>))))"

definition require_reconciliation_identity ::
  "operation_row \<Rightarrow> reconciliation_row \<Rightarrow> string \<Rightarrow> string \<Rightarrow> int \<Rightarrow> int \<Rightarrow> rc_error + unit" where
  "require_reconciliation_identity r n rid oid expected_ledger expected_reconciliation =
     checks
       [rc_require (rn_run n = rid \<and> rn_operation_id n = oid \<and> rn_run n = op_run r \<and>
          rn_operation_id n = op_operation_id r \<and> rn_source_id n = op_source_id r \<and>
          rn_operation_kind n = op_operation_kind r \<and> rn_request_hash n = op_request_hash r \<and>
          rn_idempotency_key n = op_idempotency_key r \<and>
          rn_requirement_revision_id n = op_requirement_revision_id r \<and>
          rn_attempt_no n = op_attempt_no r \<and>
          rn_attempt_authority_ref n = op_attempt_authority_ref r) ''source_safe_retry_identity_conflict'',
        rc_require (rn_decision_kind n = ''no_dispatch_proved'' \<and> rn_retry_posture n = ''safe_retry'' \<and>
          rn_dispatch_intent_ref n = None \<and> rn_observation_ref n = None \<and> rn_disposition n = None \<and>
          rn_committed_phase n = ''reconciled'') ''source_safe_retry_reconciliation_conflict'',
        rc_require (rn_committed_ledger_revision n = expected_ledger \<and>
          rn_committed_reconciliation_revision n = expected_reconciliation \<and>
          rn_committed_ledger_revision n = rn_expected_ledger_revision n + 1 \<and>
          rn_committed_reconciliation_revision n = rn_expected_reconciliation_revision n + 1)
          ''source_safe_retry_revision_conflict'']"

definition require_reconciliation ::
  "operation_row \<Rightarrow> reconciliation_row \<Rightarrow> string \<Rightarrow> string \<Rightarrow> int \<Rightarrow> int \<Rightarrow> rc_error + unit" where
  "require_reconciliation r n rid oid expected_ledger expected_reconciliation =
     checks
       [require_reconciliation_identity r n rid oid expected_ledger expected_reconciliation,
        rc_require (op_phase r = ''reconciled'' \<and> op_retry_posture r = ''safe_retry'' \<and>
          op_dispatch_intent_ref r = None \<and> op_observation_ref r = None \<and> op_disposition r = None \<and>
          op_main_commit_ref r = None) ''source_safe_retry_posture_conflict'',
        rc_require (op_ledger_revision r = rn_committed_ledger_revision n \<and>
          op_reconciliation_revision r = rn_committed_reconciliation_revision n)
          ''source_safe_retry_revision_conflict'']"

definition require_current_lease ::
  "clock \<Rightarrow> rcdb \<Rightarrow> turnover_authority \<Rightarrow> string \<Rightarrow> rc_error + lease_row" where
  "require_current_lease ck db t rid =
     (if ta_run t \<noteq> rid then rc_fail ''source_safe_retry_authority_conflict''
      else
        case active_lease_row db rid of
          None \<Rightarrow> rc_fail ''source_safe_retry_lease_missing''
        | Some l \<Rightarrow>
            sbind (timestamp_lte ck (ls_lease_expires_at l) (ta_observed_at t)) (\<lambda>expired.
            if expired then rc_fail ''source_safe_retry_lease_expired''
            else if ls_lease_id l \<noteq> ta_lease_id t \<or> ls_executor_id l \<noteq> ta_executor_id t \<or>
                    ls_attempt_no l \<noteq> ta_attempt_no t
            then rc_fail ''source_safe_retry_authority_stale'' else Inr l))"

text \<open>The arguments of \<open>mint_safe_retry_dispatch_epoch\<close>.\<close>

record turnover_request =
  tq_run :: string
  tq_operation_id :: string
  tq_reconciliation_id :: string
  tq_expected_ledger_revision :: int
  tq_expected_reconciliation_revision :: int
  tq_outbox_id :: string
  tq_intent_id :: string

definition validate_turnover_request :: "turnover_request \<Rightarrow> rc_error + unit" where
  "validate_turnover_request q =
     checks [require_retry_opaque (tq_run q) ''runtime_run_id'' 96,
       require_retry_opaque (tq_operation_id q) ''operation_id'' 96,
       require_retry_opaque (tq_reconciliation_id q) ''reconciliation_id'' 96,
       rc_require (positive_json (tq_expected_ledger_revision q))
         (retry_invalid ''expected_reconciliation_ledger_revision''),
       rc_require (positive_json (tq_expected_reconciliation_revision q))
         (retry_invalid ''expected_reconciliation_revision''),
       require_retry_opaque (tq_outbox_id q) ''outbox_id'' 96,
       require_retry_opaque (tq_intent_id q) ''dispatch_intent_id'' 96]"

definition dispatch_for_safe_retry :: "rcdb \<Rightarrow> string \<Rightarrow> string \<Rightarrow> string \<Rightarrow> dispatch_row option" where
  "dispatch_for_safe_retry db rid oid ref =
     fetchone (\<lambda>d. ds_run d = rid \<and> ds_operation_id d = oid \<and> ds_safe_retry_commit_ref d = Some ref) (t_outbox db)"

text \<open>\<open>_require_replay\<close>: the epoch that already consumed the reconciliation.\<close>

abbreviation retry_conflict :: "rc_error" where
  "retry_conflict \<equiv> RuntimeControlError ''source_safe_retry_idempotency_conflict'' []"

definition require_replay ::
  "digest \<Rightarrow> rcdb \<Rightarrow> dispatch_row \<Rightarrow> turnover_request \<Rightarrow> turnover_authority \<Rightarrow> rc_error + acceptance" where
  "require_replay digest db d q t =
     (case (fetch_operation db (tq_run q) (tq_operation_id q),
            fetch_reconciliation db (tq_reconciliation_id q),
            fetch_expectation db (tq_run q) (tq_operation_id q) (ds_ordinal d)) of
        (Some r, Some n, e) \<Rightarrow>
          if require_reconciliation_identity r n (tq_run q) (tq_operation_id q)
               (tq_expected_ledger_revision q) (tq_expected_reconciliation_revision q) \<noteq> Inr ()
          then Inl retry_conflict
          else
            (case e of
               None \<Rightarrow> Inl retry_conflict
             | Some e \<Rightarrow>
                 if \<not> valid_expectation e then Inl incomplete
                 else if ds_outbox_id d \<noteq> tq_outbox_id q \<or> ds_intent_id d \<noteq> tq_intent_id q \<or>
                         ds_safe_retry_commit_ref d \<noteq> Some (tq_reconciliation_id q) \<or>
                         ds_expected_ledger_revision d \<noteq> rn_committed_ledger_revision n + 1 \<or>
                         ds_expected_reconciliation_revision d \<noteq> rn_committed_reconciliation_revision n \<or>
                         op_ledger_revision r \<noteq> ds_expected_ledger_revision d \<or>
                         op_reconciliation_revision r \<noteq> ds_expected_reconciliation_revision d \<or>
                         op_retry_posture r \<noteq> ''no_retry'' \<or> ta_run t \<noteq> tq_run q \<or>
                         ex_attempt_no e \<noteq> ta_attempt_no t \<or>
                         ex_attempt_authority_ref e \<noteq> ta_attempt_authority_ref t \<or>
                         ex_attempt_fence_ref e \<noteq> ta_attempt_fence_ref t \<or>
                         ex_profile_generation e \<noteq> ta_profile_generation t \<or>
                         ex_scope_id e \<noteq> Some (ta_scope_id t) \<or>
                         ex_controller_fence_ref e \<noteq> ta_controller_fence_ref t
                 then Inl retry_conflict
                 else if require_safe_retry_dispatch_authorization digest r e d \<noteq> Inr ()
                 then Inl retry_conflict
                 else Inr (r, e, d))
      | _ \<Rightarrow> Inl retry_conflict)"

text \<open>\<open>_committed_acceptance\<close>: the epoch just written.\<close>

definition committed_acceptance ::
  "digest \<Rightarrow> rcdb \<Rightarrow> string \<Rightarrow> string \<Rightarrow> int \<Rightarrow> rc_error + acceptance" where
  "committed_acceptance digest db rid oid ordinal =
     (case (fetch_operation db rid oid,
            fetchone (\<lambda>d. ds_run d = rid \<and> ds_operation_id d = oid \<and> ds_ordinal d = ordinal) (t_outbox db),
            fetch_expectation db rid oid ordinal) of
        (Some r, Some d, Some e) \<Rightarrow>
          if \<not> valid_expectation e then Inl incomplete
          else if \<not> dispatch_matches_operation d r \<or> \<not> expectation_matches_operation e r \<or>
                  op_ledger_revision r \<noteq> ds_expected_ledger_revision d \<or>
                  op_reconciliation_revision r \<noteq> ds_expected_reconciliation_revision d \<or>
                  op_retry_posture r \<noteq> ''no_retry''
          then rc_fail ''source_safe_retry_commit_incomplete''
          else sbind (require_safe_retry_dispatch_authorization digest r e d) (\<lambda>_. Inr (r, e, d))
      | _ \<Rightarrow> rc_fail ''source_safe_retry_commit_incomplete'')"

text \<open>The dispatch of the next epoch; its digest is filled in by the authorization.\<close>

definition next_dispatch ::
  "operation_row \<Rightarrow> dispatch_row \<Rightarrow> reconciliation_row \<Rightarrow> turnover_request \<Rightarrow> string \<Rightarrow> dispatch_row" where
  "next_dispatch r previous n q intent_digest =
     \<lparr>ds_outbox_id = tq_outbox_id q, ds_run = tq_run q, ds_operation_id = tq_operation_id q,
      ds_request_hash = op_request_hash r, ds_intent_id = tq_intent_id q,
      ds_intent_revision = ds_intent_revision previous + 1, ds_intent_digest = intent_digest,
      ds_ordinal = ds_ordinal previous + 1,
      ds_safe_retry_commit_ref = Some (rn_reconciliation_id n),
      ds_acceptance_ref = ds_acceptance_ref previous,
      ds_expected_ledger_revision = op_ledger_revision r + 1,
      ds_expected_reconciliation_revision = rn_committed_reconciliation_revision n,
      ds_status = ''pending'', ds_outbox_revision = 1, ds_sidecar_generation = None,
      ds_sidecar_journal_revision = None, ds_ack_ref = None, ds_ack_kind = None, ds_acknowledged_at = None\<rparr>"

text \<open>The checks on the newest epoch before the next one is written.\<close>

definition require_next_epoch ::
  "clock \<Rightarrow> rcdb \<Rightarrow> operation_row \<Rightarrow> dispatch_row option \<Rightarrow> turnover_authority \<Rightarrow> rc_error + dispatch_row" where
  "require_next_epoch ck db r latest t =
     (case latest of
        None \<Rightarrow> rc_fail ''source_safe_retry_previous_epoch_missing''
      | Some previous \<Rightarrow>
          if \<not> dispatch_matches_operation previous r then rc_fail ''source_safe_retry_previous_epoch_invalid''
          else
            (case fetch_expectation db (op_run r) (op_operation_id r) (ds_ordinal previous) of
               None \<Rightarrow> rc_fail ''source_safe_retry_previous_epoch_invalid''
             | Some e \<Rightarrow>
                 if \<not> valid_expectation e then Inl incomplete
                 else
                   sbind (require_current_lease ck db t (op_run r)) (\<lambda>_.
                   sbind (checks
                     [rc_require (ex_attempt_no e < ta_attempt_no t) ''source_safe_retry_attempt_stale'',
                      rc_require (ds_ordinal previous + 1 \<le> JSON_SAFE_INTEGER) ''source_safe_retry_ordinal_overflow'',
                      rc_require (ds_intent_revision previous + 1 \<le> JSON_SAFE_INTEGER)
                        ''source_safe_retry_dispatch_intent_revision_overflow'',
                      rc_require (op_ledger_revision r + 1 \<le> JSON_SAFE_INTEGER) ''source_safe_retry_revision_overflow'',
                      validate_admission_expectation
                        (authority_expectation t (op_operation_id r) (ds_ordinal previous + 1))])
                     (\<lambda>_. Inr previous))))"

text \<open>The three writes of a new epoch.\<close>

definition write_epoch ::
  "rcdb \<Rightarrow> expectation_row \<Rightarrow> dispatch_row \<Rightarrow> reconciliation_row \<Rightarrow> rc_error + rcdb" where
  "write_epoch db e d n =
     sbind (insert_expectation e db) (\<lambda>db1.
     sbind (insert_dispatch d db1) (\<lambda>db2.
     let p = (\<lambda>x. op_run x = ds_run d \<and> op_operation_id x = ds_operation_id d \<and>
               op_phase x = ''reconciled'' \<and> op_retry_posture x = ''safe_retry'' \<and>
               op_main_commit_ref x = None \<and> op_ledger_revision x = rn_committed_ledger_revision n \<and>
               op_reconciliation_revision x = rn_committed_reconciliation_revision n)
     in if rowcount p (t_operations db2) \<noteq> 1 then rc_fail ''source_safe_retry_revision_conflict''
        else Inr (update_operations p (\<lambda>x. x\<lparr>op_retry_posture := ''no_retry'',
               op_ledger_revision := ds_expected_ledger_revision d\<rparr>) db2)))"

definition mint_safe_retry_dispatch_epoch ::
  "clock \<Rightarrow> digest \<Rightarrow> (rcdb \<Rightarrow> acceptance \<Rightarrow> rc_error + rcdb) \<Rightarrow> rcdb \<Rightarrow> turnover_request \<Rightarrow>
   turnover_authority \<Rightarrow> bool \<Rightarrow> rc_error + (rcdb \<times> acceptance)" where
  "mint_safe_retry_dispatch_epoch ck digest advance db q t issued =
     sbind (validate_turnover_request q) (\<lambda>_.
     case dispatch_for_safe_retry db (tq_run q) (tq_operation_id q) (tq_reconciliation_id q) of
       Some d \<Rightarrow>
         sbind (require_replay digest db d q t) (\<lambda>acc. sbind (advance db acc) (\<lambda>db'. Inr (db', acc)))
     | None \<Rightarrow>
         let operation = fetch_operation db (tq_run q) (tq_operation_id q);
             latest = latest_source_dispatch db (tq_run q) (tq_operation_id q)
         in if (case (operation, latest) of
                  (Some r, Some d) \<Rightarrow> op_retry_posture r \<noteq> ''safe_retry'' \<and> ds_safe_retry_commit_ref d \<noteq> None
                | _ \<Rightarrow> False)
            then Inl retry_conflict
            else if \<not> issued then rc_fail ''source_safe_retry_authority_invalid''
            else
              sbind (or_raise (RuntimeControlLookupError ''runtime_run_not_found'') (fetch_run db (tq_run q))) (\<lambda>_.
              sbind (or_raise (RuntimeControlLookupError ''source_operation_not_found'') operation) (\<lambda>r.
              sbind (or_raise (RuntimeControlLookupError ''source_safe_retry_reconciliation_not_found'')
                       (fetch_reconciliation db (tq_reconciliation_id q))) (\<lambda>n.
              sbind (require_reconciliation r n (tq_run q) (tq_operation_id q)
                       (tq_expected_ledger_revision q) (tq_expected_reconciliation_revision q)) (\<lambda>_.
              sbind (require_next_epoch ck db r latest t) (\<lambda>previous.
              if dispatch_identity_exists db (tq_outbox_id q) (tq_intent_id q)
              then rc_fail ''source_safe_retry_dispatch_identity_conflict''
              else
                let e = authority_expectation t (tq_operation_id q) (ds_ordinal previous + 1)
                in sbind (create_authorization digest r e (next_dispatch r previous n q '''')) (\<lambda>h.
                   let d = next_dispatch r previous n q h
                   in sbind (write_epoch db e d n) (\<lambda>db1.
                      sbind (committed_acceptance digest db1 (tq_run q) (tq_operation_id q) (ds_ordinal d)) (\<lambda>acc.
                      sbind (advance db1 acc) (\<lambda>db2. Inr (db2, acc)))))))))))"

section \<open>Delivery and the main commit\<close>

definition currently_deliverable :: "dispatch_row \<Rightarrow> operation_row \<Rightarrow> int \<Rightarrow> bool" where
  "currently_deliverable d r latest_ordinal \<longleftrightarrow>
     ds_status d = ''pending'' \<and> ds_outbox_revision d = 1 \<and> ds_ordinal d = latest_ordinal \<and>
     op_phase r \<in> {''accepted'', ''reconciled''} \<and> op_dispatch_intent_ref r = None \<and>
     op_observation_ref r = None \<and> op_disposition r = None \<and> op_retry_posture r = ''no_retry'' \<and>
     op_reconciliation_revision r = ds_expected_reconciliation_revision d \<and>
     op_ledger_revision r = ds_expected_ledger_revision d \<and> op_main_commit_ref r = None"

text \<open>
  \<open>list_pending_source_dispatches\<close>: the pending rows are read in pages of \<open>limit\<close> rows, in order of
  their outbox id; the deliverable ones are collected until there are \<open>limit\<close> of them or a page is
  empty. The first row that fails a check ends the call with the error.
\<close>

fun pending_page ::
  "digest \<Rightarrow> rcdb \<Rightarrow> nat \<Rightarrow> dispatch_row list \<Rightarrow> dispatch_row list \<Rightarrow> rc_error + dispatch_row list" where
  "pending_page digest db limit dispatches [] = Inr dispatches"
| "pending_page digest db limit dispatches (d # rows) =
     sbind (require_source_dispatch_operation digest db d) (\<lambda>r.
     sbind (or_raise incomplete (latest_source_dispatch db (ds_run d) (ds_operation_id d))) (\<lambda>latest.
     if currently_deliverable d r (ds_ordinal latest)
     then (if length (dispatches @ [d]) = limit then Inr (dispatches @ [d])
           else pending_page digest db limit (dispatches @ [d]) rows)
     else pending_page digest db limit dispatches rows))"

function pending_pages ::
  "digest \<Rightarrow> rcdb \<Rightarrow> nat \<Rightarrow> dispatch_row list \<Rightarrow> nat \<Rightarrow> dispatch_row list \<Rightarrow> rc_error + dispatch_row list" where
  "pending_pages digest db limit pending offset dispatches =
     (if limit \<le> length dispatches then Inr dispatches
      else
        let rows = take limit (drop offset pending)
        in if rows = [] then Inr dispatches
           else sbind (pending_page digest db limit dispatches rows) (\<lambda>found.
             pending_pages digest db limit pending (offset + length rows) found))"
  by pat_completeness auto

termination
  by (relation "measure (\<lambda>(digest, db, limit, pending, offset, dispatches). length pending - offset)") auto

declare pending_pages.simps [simp del]

definition list_pending_source_dispatches :: "digest \<Rightarrow> rcdb \<Rightarrow> int \<Rightarrow> rc_error + dispatch_row list" where
  "list_pending_source_dispatches digest db limit =
     (if limit < 1 \<or> 100 < limit then py_fail ''source_dispatch_limit_invalid''
      else pending_pages digest db (nat limit)
             (sort_key ds_outbox_id (filter (\<lambda>d. ds_status d = ''pending'') (t_outbox db))) 0 [])"

fun commit_operations :: "string \<Rightarrow> string \<Rightarrow> string \<Rightarrow> string list \<Rightarrow> rcdb \<Rightarrow> rc_error + rcdb" where
  "commit_operations rid commit_ref conflict_reason [] db = Inr db"
| "commit_operations rid commit_ref conflict_reason (oid # oids) db =
     sbind (or_raise (RuntimeControlLookupError ''source_operation_not_found'') (fetch_operation db rid oid)) (\<lambda>r.
     if op_phase r \<notin> {''observed'', ''reconciled''} \<or> op_observation_ref r = None \<or> op_disposition r = None
     then rc_fail ''source_operation_not_conclusive''
     else
       let p = (\<lambda>x. op_run x = rid \<and> op_operation_id x = oid \<and> op_phase x = op_phase r \<and>
                 op_ledger_revision x = op_ledger_revision r \<and> op_main_commit_ref x = None \<and>
                 op_observation_ref x \<noteq> None \<and> op_disposition x \<noteq> None)
       in if rowcount p (t_operations db) \<noteq> 1 then rc_fail conflict_reason
          else commit_operations rid commit_ref conflict_reason oids
            (update_operations p (\<lambda>x. x\<lparr>op_phase := ''main_committed'', op_main_commit_ref := Some commit_ref,
               op_ledger_revision := op_ledger_revision x + 1\<rparr>) db))"

definition commit_source_operations_with_ref ::
  "rcdb \<Rightarrow> string \<Rightarrow> string \<Rightarrow> string list \<Rightarrow> string \<Rightarrow> rc_error + rcdb" where
  "commit_source_operations_with_ref db rid commit_ref oids conflict_reason =
     (if \<not> distinct oids then rc_fail ''source_operation_checkpoint_duplicate''
      else commit_operations rid commit_ref conflict_reason oids db)"

fun require_transition_source_commits :: "rcdb \<Rightarrow> string \<Rightarrow> string \<Rightarrow> string list \<Rightarrow> rc_error + unit" where
  "require_transition_source_commits db rid transition_id [] = Inr ()"
| "require_transition_source_commits db rid transition_id (oid # oids) =
     sbind (or_raise (RuntimeControlLookupError ''source_operation_not_found'') (fetch_operation db rid oid)) (\<lambda>r.
     if op_phase r \<noteq> ''main_committed'' \<or> op_main_commit_ref r \<noteq> Some transition_id
     then rc_fail ''runtime_workflow_transition_source_commit_conflict''
     else require_transition_source_commits db rid transition_id oids)"

end
