(* ===== verification/SourceLedger.thy ===== *)
theory SourceLedger
  imports SourceOperations
begin

text \<open>
  What the ledger of source operations keeps: its invariant, that every transaction keeps it, and
  how operations, epochs and reconciliations change. The transactions are calls of one store
  (\<open>source_step\<close>), run in any order by any processes. The parameters of the operations are the
  record \<open>source_env\<close>; \<open>env_ok\<close> says that the participant \<open>advance\<close>, which writes workflow
  tables, leaves the ledger and the tables of runs, leases and the browser lane as they are.
\<close>

section \<open>The invariant\<close>

definition op_key :: "operation_row \<Rightarrow> string \<times> string" where
  "op_key r = (op_run r, op_operation_id r)"

definition ds_key :: "dispatch_row \<Rightarrow> string \<times> string" where
  "ds_key d = (ds_run d, ds_operation_id d)"

text \<open>The columns of an operation that its acceptance fixes.\<close>

definition op_core :: "operation_row \<Rightarrow> operation_row" where
  "op_core r = r\<lparr>op_phase := '''', op_dispatch_intent_ref := None, op_observation_ref := None,
     op_disposition := None, op_retry_posture := '''', op_reconciliation_revision := 0,
     op_main_commit_ref := None, op_ledger_revision := 0\<rparr>"

definition op_ok :: "operation_row \<Rightarrow> bool" where
  "op_ok r \<longleftrightarrow>
     1 \<le> op_ledger_revision r \<and> 0 \<le> op_reconciliation_revision r \<and> op_retry_posture r \<in> set retry_postures \<and>
     op_phase r \<in> {''accepted'', ''observed'', ''reconciled'', ''main_committed''} \<and>
     (op_main_commit_ref r \<noteq> None \<longleftrightarrow> op_phase r = ''main_committed'') \<and>
     (op_phase r = ''accepted'' \<longrightarrow> op_dispatch_intent_ref r = None \<and> op_observation_ref r = None \<and>
        op_disposition r = None \<and> op_retry_posture r = ''no_retry'' \<and>
        op_reconciliation_revision r = 0 \<and> op_ledger_revision r = 1) \<and>
     (op_phase r \<in> {''observed'', ''main_committed''} \<longrightarrow> op_observation_ref r \<noteq> None) \<and>
     (op_observation_ref r \<noteq> None \<longrightarrow> op_dispatch_intent_ref r \<noteq> None \<and> op_disposition r \<noteq> None \<and>
        op_retry_posture r = ''no_retry'') \<and>
     (op_retry_posture r = ''safe_retry'' \<longrightarrow> op_phase r = ''reconciled'' \<and>
        op_dispatch_intent_ref r = None \<and> op_disposition r = None) \<and>
     (op_retry_posture r = ''reconcile_first'' \<longrightarrow> op_phase r = ''reconciled'' \<and>
        op_disposition r = Some ''reconciliation_unknown'')"

text \<open>
  How a row of an operation may change: its identity stays, its ledger revision grows, a row
  committed by the main process is final, a conclusive observation stays with everything it
  settled, and a retry becomes safe only with a further reconciliation.
\<close>

definition op_le :: "operation_row \<Rightarrow> operation_row \<Rightarrow> bool" where
  "op_le r u \<longleftrightarrow> u = r \<or>
     (op_core u = op_core r \<and> op_main_commit_ref r = None \<and> op_ledger_revision r < op_ledger_revision u \<and>
      op_reconciliation_revision r \<le> op_reconciliation_revision u \<and>
      (op_observation_ref r \<noteq> None \<longrightarrow> op_observation_ref u = op_observation_ref r \<and>
         op_dispatch_intent_ref u = op_dispatch_intent_ref r \<and> op_disposition u = op_disposition r) \<and>
      (op_retry_posture u = ''safe_retry'' \<longrightarrow>
         op_reconciliation_revision r < op_reconciliation_revision u))"

text \<open>The epochs of an operation, without the columns an acknowledgement sets.\<close>

definition epochs :: "rcdb \<Rightarrow> string \<times> string \<Rightarrow> dispatch_row list" where
  "epochs db k = map dispatch_core (filter (\<lambda>d. ds_key d = k) (t_outbox db))"

text \<open>The reconciliation that the epoch \<open>d\<close> consumed.\<close>

definition retry_proof :: "dispatch_row \<Rightarrow> reconciliation_row \<Rightarrow> bool" where
  "retry_proof d n \<longleftrightarrow>
     ds_safe_retry_commit_ref d = Some (rn_reconciliation_id n) \<and> (rn_run n, rn_operation_id n) = ds_key d \<and>
     rn_decision_kind n = ''no_dispatch_proved'' \<and> rn_retry_posture n = ''safe_retry'' \<and>
     rn_dispatch_intent_ref n = None \<and> rn_observation_ref n = None \<and>
     ds_expected_ledger_revision d = rn_committed_ledger_revision n + 1 \<and>
     ds_expected_reconciliation_revision d = rn_committed_reconciliation_revision n"

definition epoch_linked :: "rcdb \<Rightarrow> operation_row \<Rightarrow> dispatch_row \<Rightarrow> bool" where
  "epoch_linked db r d \<longleftrightarrow>
     ds_request_hash d = op_request_hash r \<and> ds_expected_ledger_revision d \<le> op_ledger_revision r \<and>
     ds_expected_reconciliation_revision d \<le> op_reconciliation_revision r \<and>
     (op_retry_posture r = ''safe_retry'' \<longrightarrow>
        ds_expected_reconciliation_revision d < op_reconciliation_revision r) \<and>
     (ds_ordinal d \<noteq> 1 \<longrightarrow> (\<exists>n \<in> set (t_reconciliations db). retry_proof d n))"

definition epoch_attempt :: "rcdb \<Rightarrow> dispatch_row \<Rightarrow> int option" where
  "epoch_attempt db d =
     map_option ex_attempt_no (fetch_expectation db (ds_run d) (ds_operation_id d) (ds_ordinal d))"

text \<open>
  The epochs of an operation are numbered from one, every epoch has its expectation, and the intent
  revisions, the expected revisions and the attempt numbers grow.
\<close>

definition epochs_numbered :: "rcdb \<Rightarrow> dispatch_row list \<Rightarrow> bool" where
  "epochs_numbered db ds \<longleftrightarrow>
     ds \<noteq> [] \<and> map ds_ordinal ds = [1 .. int (length ds)] \<and>
     sorted_wrt (<) (map ds_intent_revision ds) \<and> sorted_wrt (<) (map ds_expected_ledger_revision ds) \<and>
     sorted_wrt (<) (map ds_expected_reconciliation_revision ds) \<and>
     distinct (List.map_filter ds_safe_retry_commit_ref ds) \<and>
     (\<forall>d \<in> set ds. epoch_attempt db d \<noteq> None) \<and>
     sorted_wrt (<) (List.map_filter (epoch_attempt db) ds)"

definition op_epochs_ok :: "rcdb \<Rightarrow> operation_row \<Rightarrow> bool" where
  "op_epochs_ok db r \<longleftrightarrow> epochs_numbered db (epochs db (op_key r)) \<and>
     (\<forall>d \<in> set (epochs db (op_key r)). epoch_linked db r d)"

definition ledger_inv :: "rcdb \<Rightarrow> bool" where
  "ledger_inv db \<longleftrightarrow>
     distinct (map op_key (t_operations db)) \<and>
     (\<forall>r \<in> set (t_operations db). op_ok r \<and> op_epochs_ok db r) \<and>
     (\<forall>d \<in> set (t_outbox db). outbox_check d \<and> ds_key d \<in> op_key ` set (t_operations db)) \<and>
     (\<forall>n \<in> set (t_reconciliations db). reconciliation_check n)"

lemma ledger_invD:
  assumes "ledger_inv db"
  shows "distinct (map op_key (t_operations db))" "r \<in> set (t_operations db) \<Longrightarrow> op_ok r"
    "r \<in> set (t_operations db) \<Longrightarrow> op_epochs_ok db r" "d \<in> set (t_outbox db) \<Longrightarrow> outbox_check d"
    "d \<in> set (t_outbox db) \<Longrightarrow> ds_key d \<in> op_key ` set (t_operations db)"
    "n \<in> set (t_reconciliations db) \<Longrightarrow> reconciliation_check n"
  using assms unfolding ledger_inv_def by blast+

lemma empty_ledger: "ledger_inv empty_db"
  by (simp add: ledger_inv_def empty_db_def)

text \<open>The order of the ledgers: what any number of transactions may do to them.\<close>

definition ledger_le :: "rcdb \<Rightarrow> rcdb \<Rightarrow> bool" where
  "ledger_le db db' \<longleftrightarrow>
     (\<forall>r \<in> set (t_operations db). \<exists>u \<in> set (t_operations db'). op_le r u \<and>
        (op_observation_ref r \<noteq> None \<longrightarrow> epochs db' (op_key r) = epochs db (op_key r))) \<and>
     (\<exists>es. t_expectations db' = t_expectations db @ es) \<and>
     (\<exists>ns. t_reconciliations db' = t_reconciliations db @ ns) \<and>
     (\<exists>ds. map dispatch_core (t_outbox db') = map dispatch_core (t_outbox db) @ ds)"

definition keeps_ledger :: "rcdb \<Rightarrow> rcdb \<Rightarrow> bool" where
  "keeps_ledger db db' \<longleftrightarrow> (ledger_inv db \<longrightarrow> ledger_inv db' \<and> ledger_le db db')"

lemma op_core_fields:
  "op_core u = op_core r \<Longrightarrow> op_key u = op_key r \<and> op_request_hash u = op_request_hash r \<and>
     op_attempt_no u = op_attempt_no r \<and> op_idempotency_key u = op_idempotency_key r"
  by (cases u, cases r) (simp add: op_core_def op_key_def)

lemma dispatch_core_fields [simp]:
  "ds_key (dispatch_core d) = ds_key d" "ds_ordinal (dispatch_core d) = ds_ordinal d"
  "ds_run (dispatch_core d) = ds_run d" "ds_operation_id (dispatch_core d) = ds_operation_id d"
  "ds_request_hash (dispatch_core d) = ds_request_hash d"
  "ds_intent_revision (dispatch_core d) = ds_intent_revision d"
  "ds_expected_ledger_revision (dispatch_core d) = ds_expected_ledger_revision d"
  "ds_expected_reconciliation_revision (dispatch_core d) = ds_expected_reconciliation_revision d"
  "ds_safe_retry_commit_ref (dispatch_core d) = ds_safe_retry_commit_ref d"
  by (simp_all add: dispatch_core_def ds_key_def)

lemma dispatch_core_key: "dispatch_core a = dispatch_core d \<Longrightarrow> ds_key a = ds_key d"
  by (metis dispatch_core_fields(1))

lemma op_le_refl [simp]: "op_le r r"
  by (simp add: op_le_def)

lemma op_le_trans:
  assumes "op_le a b" "op_le b c"
  shows "op_le a c"
proof (cases "b = a \<or> c = b")
  case True
  then show ?thesis using assms by auto
next
  case False
  then show ?thesis using assms by (auto simp: op_le_def)
qed

lemma op_le_key: "op_le r u \<Longrightarrow> op_key u = op_key r"
  by (auto simp: op_le_def dest: op_core_fields)

lemma op_le_observed: "op_le r u \<Longrightarrow> op_observation_ref r \<noteq> None \<Longrightarrow>
   op_observation_ref u = op_observation_ref r \<and> op_dispatch_intent_ref u = op_dispatch_intent_ref r \<and>
   op_disposition u = op_disposition r"
  by (auto simp: op_le_def)

lemma ledger_le_refl [simp]: "ledger_le db db"
  unfolding ledger_le_def using op_le_refl by blast+

lemma ledger_le_trans:
  assumes "ledger_le a b" "ledger_le b c"
  shows "ledger_le a c"
  unfolding ledger_le_def
proof (intro conjI ballI)
  fix r assume "r \<in> set (t_operations a)"
  then obtain u where u: "u \<in> set (t_operations b)" "op_le r u"
      "op_observation_ref r \<noteq> None \<longrightarrow> epochs b (op_key r) = epochs a (op_key r)"
    using assms(1) unfolding ledger_le_def by blast
  then obtain v where v: "v \<in> set (t_operations c)" "op_le u v"
      "op_observation_ref u \<noteq> None \<longrightarrow> epochs c (op_key u) = epochs b (op_key u)"
    using assms(2) unfolding ledger_le_def by blast
  have "op_observation_ref r \<noteq> None \<longrightarrow> epochs c (op_key r) = epochs a (op_key r)"
    using u v op_le_key[OF u(2)] op_le_observed[OF u(2)] by metis
  then show "\<exists>w \<in> set (t_operations c). op_le r w \<and>
      (op_observation_ref r \<noteq> None \<longrightarrow> epochs c (op_key r) = epochs a (op_key r))"
    using v(1) op_le_trans[OF u(2) v(2)] by blast
qed (use assms in \<open>auto simp: ledger_le_def\<close>)

lemma keeps_refl [simp]: "keeps_ledger db db"
  by (simp add: keeps_ledger_def)

lemma keeps_trans: "keeps_ledger a b \<Longrightarrow> keeps_ledger b c \<Longrightarrow> keeps_ledger a c"
  unfolding keeps_ledger_def using ledger_le_trans by blast

text \<open>The epochs of an operation whose epochs stay, in a larger ledger.\<close>

lemma epoch_attempt_append:
  assumes "t_expectations db' = t_expectations db @ es" "epoch_attempt db d \<noteq> None"
  shows "epoch_attempt db' d = epoch_attempt db d"
  using assms by (auto simp: epoch_attempt_def fetch_expectation_def fetchone_append)

lemma epochs_numbered_append:
  assumes "t_expectations db' = t_expectations db @ es" "epochs_numbered db ds"
  shows "epochs_numbered db' ds"
proof -
  have a: "\<forall>d \<in> set ds. epoch_attempt db' d = epoch_attempt db d"
    using assms epoch_attempt_append unfolding epochs_numbered_def by blast
  then have "List.map_filter (epoch_attempt db') ds = List.map_filter (epoch_attempt db) ds"
    by (induction ds) (auto simp: List.map_filter_simps split: option.splits)
  then show ?thesis using a assms(2) by (simp add: epochs_numbered_def)
qed

lemma epoch_linked_le:
  assumes "epoch_linked db r d" "op_le r u" "set (t_reconciliations db) \<subseteq> set (t_reconciliations db')"
  shows "epoch_linked db' u d"
proof (cases "u = r")
  case True
  then show ?thesis using assms by (auto simp: epoch_linked_def)
next
  case False
  then show ?thesis using assms op_core_fields[of u r] unfolding epoch_linked_def op_le_def by force
qed

lemma op_epochs_ok_le:
  assumes "op_epochs_ok db r" "op_le r u" "epochs db' (op_key r) = epochs db (op_key r)"
    "t_expectations db' = t_expectations db @ es" "t_reconciliations db' = t_reconciliations db @ ns"
  shows "op_epochs_ok db' u"
  using assms(1) epochs_numbered_append[OF assms(4)] epoch_linked_le[of db r _ u db', OF _ assms(2)]
    assms(3,5) op_le_key[OF assms(2)]
  by (auto simp: op_epochs_ok_def)

section \<open>The writes\<close>

text \<open>
  Every write of a transaction keeps the ledger: an update of operations, an acknowledgement in the
  outbox, a new reconciliation, the rows of a new operation and those of a new epoch.
\<close>

lemma ledger_le_sameI:
  assumes "t_operations db' = t_operations db"
    "\<And>k. epochs db' k = epochs db k" "t_expectations db' = t_expectations db @ es"
    "t_reconciliations db' = t_reconciliations db @ ns"
    "map dispatch_core (t_outbox db') = map dispatch_core (t_outbox db)"
  shows "ledger_le db db'"
proof -
  have "\<forall>r \<in> set (t_operations db). \<exists>u \<in> set (t_operations db). op_le r u" using op_le_refl by blast
  then show ?thesis unfolding ledger_le_def using assms by simp
qed

lemma rows_keep:
  assumes inv: "ledger_inv db" and t: "t_operations db' = map g (t_operations db)"
    and g: "\<And>x. x \<in> set (t_operations db) \<Longrightarrow> op_ok (g x) \<and> op_le x (g x) \<and> op_epochs_ok db' (g x)"
    and same: "\<And>x. x \<in> set (t_operations db) \<Longrightarrow> op_observation_ref x \<noteq> None \<Longrightarrow>
      epochs db' (op_key x) = epochs db (op_key x)"
    and out: "t_outbox db' = t_outbox db @ ds"
      "\<And>d. d \<in> set ds \<Longrightarrow> outbox_check d \<and> ds_key d \<in> op_key ` set (t_operations db)"
    and rest: "t_expectations db' = t_expectations db @ es" "t_reconciliations db' = t_reconciliations db"
  shows "ledger_inv db' \<and> ledger_le db db'"
proof
  have keys: "map op_key (t_operations db') = map op_key (t_operations db)"
    unfolding t using g op_le_key by simp
  have "op_key ` set (t_operations db') = op_key ` set (t_operations db)"
    using arg_cong[OF keys, of set] by (simp only: set_map)
  moreover have "op_ok u \<and> op_epochs_ok db' u" if "u \<in> set (t_operations db')" for u
    using that g unfolding t by auto
  ultimately show "ledger_inv db'"
    using inv keys out(2) unfolding ledger_inv_def rest out(1) by auto
  show "ledger_le db db'"
    unfolding ledger_le_def rest out(1)
  proof (intro conjI ballI)
    fix x assume x: "x \<in> set (t_operations db)"
    then show "\<exists>u \<in> set (t_operations db'). op_le x u \<and>
        (op_observation_ref x \<noteq> None \<longrightarrow> epochs db' (op_key x) = epochs db (op_key x))"
      using g[OF x] same[OF x] unfolding t set_map by blast
  qed simp_all
qed

lemma update_operations_keeps:
  assumes f: "\<And>x. x \<in> set (t_operations db) \<Longrightarrow> p x \<Longrightarrow> op_ok x \<Longrightarrow> op_ok (f x) \<and> op_le x (f x)"
  shows "keeps_ledger db (update_operations p f db)"
  unfolding keeps_ledger_def
proof
  let ?db = "update_operations p f db" and ?g = "\<lambda>x. if p x then f x else x"
  assume inv: "ledger_inv db"
  have same: "t_outbox ?db = t_outbox db @ []" "t_expectations ?db = t_expectations db @ []"
      "t_reconciliations ?db = t_reconciliations db" "\<And>k. epochs ?db k = epochs db k"
    by (simp_all add: update_operations_def epochs_def)
  have "op_ok (?g x) \<and> op_le x (?g x) \<and> op_epochs_ok ?db (?g x)" if "x \<in> set (t_operations db)" for x
    using f[OF that] ledger_invD(2)[OF inv that]
      op_epochs_ok_le[OF ledger_invD(3)[OF inv that], of "?g x" ?db "[]" "[]"] same by simp
  moreover have "t_operations ?db = map ?g (t_operations db)"
    by (simp add: update_operations_def update_where_def)
  ultimately show "ledger_inv ?db \<and> ledger_le db ?db"
    by (intro rows_keep[where g = ?g, OF inv _ _ _ same(1) _ same(2,3)]) (simp_all add: same(4))
qed

lemma epochs_update:
  assumes "\<And>d. d \<in> set (t_outbox db) \<Longrightarrow> p d \<Longrightarrow> dispatch_core (f d) = dispatch_core d"
  shows "map dispatch_core (update_where p f (t_outbox db)) = map dispatch_core (t_outbox db)"
    "map dispatch_core (filter (\<lambda>d. ds_key d = k) (update_where p f (t_outbox db))) =
     map dispatch_core (filter (\<lambda>d. ds_key d = k) (t_outbox db))"
  using assms dispatch_core_key[of "f _"]
  by (auto intro!: map_update_where simp: filter_update_where)

lemma update_outbox_keeps:
  assumes u: "update_outbox p f db = Inr db'"
    and f: "\<And>d. d \<in> set (t_outbox db) \<Longrightarrow> p d \<Longrightarrow> dispatch_core (f d) = dispatch_core d"
  shows "keeps_ledger db db'"
  unfolding keeps_ledger_def
proof
  assume inv: "ledger_inv db"
  have db': "db' = db\<lparr>t_outbox := update_where p f (t_outbox db)\<rparr>"
      and chk: "\<And>d. d \<in> set (t_outbox db) \<Longrightarrow> p d \<Longrightarrow> outbox_check (f d)"
    using u by (auto simp: update_outbox_def list_ex_iff split: if_splits)
  have same: "t_operations db' = t_operations db" "t_expectations db' = t_expectations db"
      "t_reconciliations db' = t_reconciliations db" "\<And>k. epochs db' k = epochs db k"
    using epochs_update(2)[OF f] by (simp_all add: db' epochs_def)
  have ops: "op_epochs_ok db' r" if "r \<in> set (t_operations db)" for r
    using op_epochs_ok_le[OF ledger_invD(3)[OF inv that], of r db' "[]" "[]"] same by simp
  have out: "outbox_check d \<and> ds_key d \<in> op_key ` set (t_operations db)" if "d \<in> set (t_outbox db')" for d
  proof -
    have "d \<in> (\<lambda>x. if p x then f x else x) ` set (t_outbox db)"
      using that by (simp add: db' set_update_where)
    then obtain x where "x \<in> set (t_outbox db)" "d = (if p x then f x else x)" by blast
    then show ?thesis
      using chk[of x] f[of x, THEN dispatch_core_key] ledger_invD(4,5)[OF inv, of x] by simp
  qed
  have "ledger_inv db'" using ops out inv unfolding ledger_inv_def same by blast
  moreover have "ledger_le db db'"
    by (rule ledger_le_sameI[of _ _ "[]" "[]"]) (use same epochs_update(1)[OF f] in \<open>simp_all add: db'\<close>)
  ultimately show "ledger_inv db' \<and> ledger_le db db'" by simp
qed

lemma insert_reconciliation_keeps:
  assumes "insert_reconciliation n db = Inr db'"
  shows "keeps_ledger db db'"
  unfolding keeps_ledger_def
proof
  assume inv: "ledger_inv db"
  have db': "db' = db\<lparr>t_reconciliations := t_reconciliations db @ [n]\<rparr>" and chk: "reconciliation_check n"
    using assms by (auto simp: insert_reconciliation_def split: if_splits)
  have same: "t_operations db' = t_operations db" "t_expectations db' = t_expectations db"
      "t_outbox db' = t_outbox db" "\<And>k. epochs db' k = epochs db k"
      "t_reconciliations db' = t_reconciliations db @ [n]"
    by (simp_all add: db' epochs_def)
  have "op_epochs_ok db' r" if "r \<in> set (t_operations db)" for r
    using op_epochs_ok_le[OF ledger_invD(3)[OF inv that], of r db' "[]" "[n]"] same by simp
  then have "ledger_inv db'" using inv chk unfolding ledger_inv_def same by auto
  moreover have "ledger_le db db'"
    by (rule ledger_le_sameI[of _ _ "[]" "[n]"]) (simp_all add: same)
  ultimately show "ledger_inv db' \<and> ledger_le db db'" by simp
qed

lemma accept_rows_keep:
  assumes v: "validate_source_operation_acceptance a = Inr v"
    and w: "insert_operation (new_operation a) db = Inr db1" "insert_expectation (expectation_of a) db1 = Inr db2"
      "insert_dispatch (new_dispatch a) db2 = Inr db3"
  shows "keeps_ledger db db3"
  unfolding keeps_ledger_def
proof
  let ?r = "new_operation a" and ?d = "new_dispatch a"
  assume inv: "ledger_inv db"
  have a: "sa_ordinal a = 1" "sa_expected_ledger_revision a = 1" "sa_expected_reconciliation_revision a = 0"
    using v by (auto simp: validate_source_operation_acceptance_def checks_Inr)
  have db3: "t_operations db3 = t_operations db @ [?r]" "t_expectations db3 = t_expectations db @ [expectation_of a]"
      "t_outbox db3 = t_outbox db @ [?d]" "t_reconciliations db3 = t_reconciliations db"
    and new: "op_key ?r \<notin> op_key ` set (t_operations db)" and chk: "outbox_check ?d"
    and ex: "fetch_expectation db (sa_run a) (sa_operation_id a) 1 = None"
    using w a by (auto simp: insert_operation_def insert_expectation_def insert_dispatch_def list_ex_iff op_key_def
        expectation_of_def fetch_expectation_def fetchone_None_iff split: if_splits)
  have key: "ds_key ?d = op_key ?r"
    by (simp add: ds_key_def op_key_def new_dispatch_def new_operation_def)
  have old: "epochs db3 k = epochs db k" if "k \<noteq> op_key ?r" for k
    using that key by (simp add: epochs_def db3)
  have "ds_key d \<noteq> op_key ?r" if "d \<in> set (t_outbox db)" for d
    using ledger_invD(5)[OF inv that] new by metis
  then have "filter (\<lambda>d. ds_key d = op_key ?r) (t_outbox db) = []"
    by (simp add: filter_empty_conv)
  then have fresh: "epochs db3 (op_key ?r) = [dispatch_core ?d]"
    using key by (simp add: epochs_def db3)
  have "fetch_expectation db3 (sa_run a) (sa_operation_id a) 1 = Some (expectation_of a)"
    using ex a by (simp add: fetch_expectation_def fetchone_append db3 expectation_of_def)
  then have "epochs_numbered db3 [dispatch_core ?d]" "epoch_linked db3 ?r (dispatch_core ?d)"
    using a by (simp_all add: epochs_numbered_def epoch_attempt_def epoch_linked_def
        new_dispatch_def new_operation_def List.map_filter_simps)
  then have "op_epochs_ok db3 ?r" by (simp add: op_epochs_ok_def fresh)
  moreover have "op_ok ?r"
    by (simp add: op_ok_def new_operation_def retry_postures_def)
  moreover have neq: "op_key r \<noteq> op_key ?r" if "r \<in> set (t_operations db)" for r
    using new that by (metis imageI)
  moreover have "op_ok r \<and> op_epochs_ok db3 r" if "r \<in> set (t_operations db)" for r
    using ledger_invD(2)[OF inv that] old[OF neq[OF that]]
      op_epochs_ok_le[OF ledger_invD(3)[OF inv that], of r db3 "[expectation_of a]" "[]"] db3
    by simp
  ultimately have "ledger_inv db3"
    using inv new chk key unfolding ledger_inv_def db3 by auto
  moreover have "ledger_le db db3"
    unfolding ledger_le_def
  proof (intro conjI ballI)
    fix r assume r: "r \<in> set (t_operations db)"
    then have "op_key r \<noteq> op_key ?r" by (rule neq)
    then show "\<exists>u \<in> set (t_operations db3). op_le r u \<and>
        (op_observation_ref r \<noteq> None \<longrightarrow> epochs db3 (op_key r) = epochs db (op_key r))"
      using r old op_le_refl unfolding db3 by (metis Un_iff set_append)
  qed (simp_all add: db3)
  ultimately show "ledger_inv db3 \<and> ledger_le db db3" by simp
qed

lemma map_filter_all:
  "(\<And>x. x \<in> set xs \<Longrightarrow> f x \<noteq> None) \<Longrightarrow> List.map_filter f xs = map (\<lambda>x. the (f x)) xs"
  by (induction xs) (force simp: List.map_filter_simps split: option.splits)+

lemma epochs_numbered_snoc:
  assumes num: "epochs_numbered db ds" and ord: "ds_ordinal d = ds_ordinal (last ds) + 1"
    and revs: "ds_intent_revision (last ds) < ds_intent_revision d"
      "ds_expected_ledger_revision (last ds) < ds_expected_ledger_revision d"
      "ds_expected_reconciliation_revision (last ds) < ds_expected_reconciliation_revision d"
    and ref: "\<forall>x \<in> set ds. ds_safe_retry_commit_ref x \<noteq> ds_safe_retry_commit_ref d"
    and db': "t_expectations db' = t_expectations db @ [e]"
    and att: "epoch_attempt db (last ds) = Some m" "epoch_attempt db' d = Some k" "m < k"
  shows "epochs_numbered db' (ds @ [d])"
proof -
  have old: "epochs_numbered db' ds" by (rule epochs_numbered_append[OF db' num])
  note n = old[unfolded epochs_numbered_def]
  have ne: "ds \<noteq> []" using n by blast
  have last: "ds_ordinal (last ds) = int (length ds)"
    using upto_shape(3)[of ds_ordinal ds "int (length ds)"] n by simp
  have lm: "last (map f ds) = f (last ds)" for f :: "dispatch_row \<Rightarrow> int" using ne by (simp add: last_map)
  have mf: "List.map_filter (epoch_attempt db') ds = map (\<lambda>x. the (epoch_attempt db' x)) ds"
    by (rule map_filter_all) (use n in blast)
  have al: "epoch_attempt db' (last ds) = Some m"
    using epoch_attempt_append[OF db'] att(1) by (metis option.distinct(1))
  have "ds_safe_retry_commit_ref d = Some y \<Longrightarrow> y \<notin> set (List.map_filter ds_safe_retry_commit_ref ds)" for y
    using ref by (auto simp: map_filter_mem)
  then have "distinct (List.map_filter ds_safe_retry_commit_ref (ds @ [d]))"
    using n by (auto simp: map_filter_snoc split: option.splits)
  moreover have "map ds_ordinal (ds @ [d]) = [1 .. int (length (ds @ [d]))]"
    using n ord last upto_snoc[of "int (length ds)"] by (simp add: add.commute)
  moreover have "sorted_wrt (<) (map f (ds @ [d]))"
    if "sorted_wrt (<) (map f ds)" "f (last ds) < f d" for f :: "dispatch_row \<Rightarrow> int"
    using sorted_wrt_snoc_last[OF that(1)] that(2) ne lm[of f] by simp
  moreover have "sorted_wrt (<) (List.map_filter (epoch_attempt db') (ds @ [d]))"
    using sorted_wrt_snoc_last[of "map (\<lambda>x. the (epoch_attempt db' x)) ds" k] n ne att(2,3) al lm
    by (simp add: map_filter_snoc mf)
  ultimately show ?thesis
    using n revs att(2) ne unfolding epochs_numbered_def by simp
qed

text \<open>The newest dispatch of an operation is its last epoch.\<close>

lemma latest_is_last:
  assumes inv: "ledger_inv db" and r: "r \<in> set (t_operations db)"
    and l: "latest_source_dispatch db (op_run r) (op_operation_id r) = Some d"
  shows "epochs db (op_key r) \<noteq> []" "last (epochs db (op_key r)) = dispatch_core d"
    "d \<in> set (t_outbox db)" "ds_key d = op_key r"
proof -
  let ?es = "epochs db (op_key r)"
  have "operation_dispatches db (op_run r) (op_operation_id r) = filter (\<lambda>d. ds_key d = op_key r) (t_outbox db)"
    by (simp add: operation_dispatches_def ds_key_def op_key_def)
  then have m: "max_by ds_ordinal (filter (\<lambda>d. ds_key d = op_key r) (t_outbox db)) = Some d"
    using l by (simp add: latest_source_dispatch_def)
  then show d: "d \<in> set (t_outbox db)" "ds_key d = op_key r" by (auto dest: max_by_SomeD)
  have num: "?es \<noteq> []" "map ds_ordinal ?es = [1 .. int (length ?es)]"
    using ledger_invD(3)[OF inv r] by (simp_all add: op_epochs_ok_def epochs_numbered_def)
  have core: "dispatch_core d \<in> set ?es" "\<forall>x \<in> set ?es. ds_ordinal x \<le> ds_ordinal (dispatch_core d)"
    using max_by_SomeD[OF m] by (auto simp: epochs_def)
  have dist: "distinct (map ds_ordinal ?es)" using num(2) by simp
  have "ds_ordinal (last ?es) = int (length ?es)"
    using upto_shape(3)[OF num(2)] num(1) by simp
  moreover have "ds_ordinal (dispatch_core d) \<in> set (map ds_ordinal ?es)" using core(1) unfolding set_map by (rule imageI)
  then have "ds_ordinal (dispatch_core d) \<le> int (length ?es)" unfolding num(2) by simp
  ultimately have "ds_ordinal (last ?es) = ds_ordinal (dispatch_core d)"
    using core(2) num(1) by (metis last_in_set order_antisym)
  then show "last ?es = dispatch_core d"
    using distinct_key_eq[OF dist last_in_set[OF num(1)] core(1)] by simp
  show "?es \<noteq> []" by (rule num(1))
qed

lemma write_epoch_parts:
  assumes "write_epoch db e d n = Inr db'"
  defines "p \<equiv> (\<lambda>x. op_run x = ds_run d \<and> op_operation_id x = ds_operation_id d \<and>
     op_phase x = ''reconciled'' \<and> op_retry_posture x = ''safe_retry'' \<and> op_main_commit_ref x = None \<and>
     op_ledger_revision x = rn_committed_ledger_revision n \<and>
     op_reconciliation_revision x = rn_committed_reconciliation_revision n)"
  obtains db2 where "t_expectations db2 = t_expectations db @ [e]" "t_outbox db2 = t_outbox db @ [d]"
    "t_operations db2 = t_operations db" "t_reconciliations db2 = t_reconciliations db" "outbox_check d"
    "fetch_expectation db (ex_run e) (ex_operation_id e) (ex_ordinal e) = None"
    "\<forall>x \<in> set (t_outbox db). ds_key x = ds_key d \<and> ds_safe_retry_commit_ref d \<noteq> None \<longrightarrow>
       ds_safe_retry_commit_ref x \<noteq> ds_safe_retry_commit_ref d"
    "\<exists>x \<in> set (t_operations db). p x"
    "db' = update_operations p (\<lambda>x. x\<lparr>op_retry_posture := ''no_retry'',
       op_ledger_revision := ds_expected_ledger_revision d\<rparr>) db2"
proof -
  from assms(1) obtain db1 db2 where w: "insert_expectation e db = Inr db1" "insert_dispatch d db1 = Inr db2"
      "rowcount p (t_operations db2) = 1"
      "db' = update_operations p (\<lambda>x. x\<lparr>op_retry_posture := ''no_retry'',
         op_ledger_revision := ds_expected_ledger_revision d\<rparr>) db2"
    unfolding write_epoch_def Let_def p_def[symmetric] by (auto simp: sbind_eq_Inr split: if_splits)
  have "t_expectations db2 = t_expectations db @ [e]" "t_outbox db2 = t_outbox db @ [d]"
    "t_operations db2 = t_operations db" "t_reconciliations db2 = t_reconciliations db" "outbox_check d"
    "fetch_expectation db (ex_run e) (ex_operation_id e) (ex_ordinal e) = None"
    "\<forall>x \<in> set (t_outbox db). ds_key x = ds_key d \<and> ds_safe_retry_commit_ref d \<noteq> None \<longrightarrow>
       ds_safe_retry_commit_ref x \<noteq> ds_safe_retry_commit_ref d"
    using w(1,2) by (auto simp: insert_expectation_def insert_dispatch_def list_ex_iff ds_key_def
        fetch_expectation_def fetchone_None_iff split: if_splits)
  moreover have "\<exists>x \<in> set (t_operations db). p x"
    using w(3) rowcount_pos[of p "t_operations db2"] calculation(3) by simp
  ultimately show thesis using that w(4) by blast
qed

text \<open>The row of an operation whose retry was authorized.\<close>

lemma safe_retry_row:
  assumes "op_ok r" "op_retry_posture r = ''safe_retry''"
  shows "op_phase r = ''reconciled''" "op_observation_ref r = None" "op_dispatch_intent_ref r = None"
    "op_disposition r = None" "op_main_commit_ref r = None" "1 \<le> op_ledger_revision r"
    "0 \<le> op_reconciliation_revision r"
  using assms unfolding op_ok_def by auto

lemma retried_row:
  assumes "op_ok r" "op_retry_posture r = ''safe_retry''"
    and f: "f r = r\<lparr>op_retry_posture := ''no_retry'', op_ledger_revision := op_ledger_revision r + 1\<rparr>"
  shows "op_ok (f r)" "op_le r (f r)"
  using safe_retry_row[OF assms(1,2)] unfolding f
  by (simp_all add: op_ok_def op_le_def op_core_def retry_postures_def)

text \<open>The epochs of an operation after the next one was appended.\<close>

lemma next_epoch:
  assumes inv: "ledger_inv db" and r: "r \<in> set (t_operations db)" "op_key r = ds_key d"
    and prev: "latest_source_dispatch db (op_run r) (op_operation_id r) = Some prev"
    and sr: "op_retry_posture r = ''safe_retry''"
    and n: "n \<in> set (t_reconciliations db)" "retry_proof d n"
    and exp: "ds_expected_ledger_revision d = op_ledger_revision r + 1"
      "ds_expected_reconciliation_revision d = op_reconciliation_revision r"
    and d: "ds_request_hash d = op_request_hash r" "ds_ordinal d = ds_ordinal prev + 1"
      "ds_intent_revision prev < ds_intent_revision d"
    and e: "epoch_attempt db prev = Some m" "epoch_attempt db' d = Some k" "m < k"
    and ref: "\<forall>x \<in> set (t_outbox db). ds_key x = ds_key d \<longrightarrow>
      ds_safe_retry_commit_ref x \<noteq> ds_safe_retry_commit_ref d"
    and db': "t_expectations db' = t_expectations db @ [e]" "t_outbox db' = t_outbox db @ [d]"
      "t_reconciliations db' = t_reconciliations db"
    and u: "u = r\<lparr>op_retry_posture := ''no_retry'', op_ledger_revision := op_ledger_revision r + 1\<rparr>"
  shows "op_epochs_ok db' u"
proof -
  let ?ds = "epochs db (op_key r)"
  note last = latest_is_last[OF inv r(1) prev]
  have num: "epochs_numbered db ?ds" and lin: "\<And>x. x \<in> set ?ds \<Longrightarrow> epoch_linked db r x"
    using ledger_invD(3)[OF inv r(1)] by (simp_all add: op_epochs_ok_def)
  have le: "op_le r u" using retried_row(2)[OF ledger_invD(2)[OF inv r(1)] sr, of "\<lambda>_. u"] u by simp
  have new: "epochs db' (op_key u) = ?ds @ [dispatch_core d]"
    using r(2) op_le_key[OF le] by (simp add: epochs_def db')
  have "epochs_numbered db' (?ds @ [dispatch_core d])"
  proof (rule epochs_numbered_snoc[OF num _ _ _ _ _ db'(1)])
    show "epoch_attempt db (last ?ds) = Some m" "epoch_attempt db' (dispatch_core d) = Some k"
      using e(1,2) last(2) by (simp_all add: epoch_attempt_def)
    show "\<forall>x \<in> set ?ds. ds_safe_retry_commit_ref x \<noteq> ds_safe_retry_commit_ref (dispatch_core d)"
      using ref r(2) by (auto simp: epochs_def)
    have "epoch_linked db r (last ?ds)" using lin last(1) by simp
    then show "ds_expected_ledger_revision (last ?ds) < ds_expected_ledger_revision (dispatch_core d)"
      "ds_expected_reconciliation_revision (last ?ds) < ds_expected_reconciliation_revision (dispatch_core d)"
      using exp sr by (simp_all add: epoch_linked_def)
  qed (use d e(3) last(2) in auto)
  moreover have "epoch_linked db' u x" if "x \<in> set ?ds" for x
    using epoch_linked_le[OF lin[OF that] le] db'(3) by simp
  moreover have "epoch_linked db' u (dispatch_core d)"
    using n d exp by (auto simp: epoch_linked_def u retry_proof_def db')
  ultimately show ?thesis unfolding op_epochs_ok_def new by auto
qed

lemma write_epoch_keeps:
  assumes w: "write_epoch db e d n = Inr db'"
    and r: "fetch_operation db (ds_run d) (ds_operation_id d) = Some r"
    and prev: "latest_source_dispatch db (op_run r) (op_operation_id r) = Some prev"
    and n: "n \<in> set (t_reconciliations db)" "retry_proof d n"
    and d: "ds_request_hash d = op_request_hash r" "ds_ordinal d = ds_ordinal prev + 1"
      "ds_intent_revision prev < ds_intent_revision d"
    and e: "ex_run e = ds_run d" "ex_operation_id e = ds_operation_id d" "ex_ordinal e = ds_ordinal d"
      "epoch_attempt db prev = Some m" "m < ex_attempt_no e"
  shows "keeps_ledger db db'"
  unfolding keeps_ledger_def
proof
  assume inv: "ledger_inv db"
  define p where "p = (\<lambda>x :: operation_row. op_run x = ds_run d \<and> op_operation_id x = ds_operation_id d \<and>
     op_phase x = ''reconciled'' \<and> op_retry_posture x = ''safe_retry'' \<and> op_main_commit_ref x = None \<and>
     op_ledger_revision x = rn_committed_ledger_revision n \<and>
     op_reconciliation_revision x = rn_committed_reconciliation_revision n)"
  define f where "f = (\<lambda>x :: operation_row. x\<lparr>op_retry_posture := ''no_retry'', op_ledger_revision := ds_expected_ledger_revision d\<rparr>)"
  let ?g = "\<lambda>x. if p x then f x else x"
  obtain db2 where db2: "t_expectations db2 = t_expectations db @ [e]" "t_outbox db2 = t_outbox db @ [d]"
      "t_operations db2 = t_operations db" "t_reconciliations db2 = t_reconciliations db"
    and chk: "outbox_check d" and noex: "fetch_expectation db (ex_run e) (ex_operation_id e) (ex_ordinal e) = None"
    and ref: "\<forall>x \<in> set (t_outbox db). ds_key x = ds_key d \<and> ds_safe_retry_commit_ref d \<noteq> None \<longrightarrow>
       ds_safe_retry_commit_ref x \<noteq> ds_safe_retry_commit_ref d"
    and ex: "\<exists>x \<in> set (t_operations db). p x" and db': "db' = update_operations p f db2"
    by (rule write_epoch_parts[OF w, folded p_def f_def])
  have rin: "r \<in> set (t_operations db)" and rkey: "op_key r = ds_key d"
    using r by (auto simp: fetch_operation_def ds_key_def op_key_def dest: fetchone_SomeD)
  have only: "x = r" if "x \<in> set (t_operations db)" "op_key x = ds_key d" for x
    using distinct_key_eq[OF ledger_invD(1)[OF inv] that(1) rin] that(2) rkey by simp
  have pk: "op_key x = ds_key d" if "p x" for x using that by (simp add: p_def op_key_def ds_key_def)
  have pr: "p r" using ex only pk by blast
  then have sr: "op_retry_posture r = ''safe_retry''" and
    exp: "ds_expected_ledger_revision d = op_ledger_revision r + 1"
      "ds_expected_reconciliation_revision d = op_reconciliation_revision r"
    using n(2) by (simp_all add: retry_proof_def p_def)
  note okr = ledger_invD(2)[OF inv rin]
  have fr: "op_ok (f r)" "op_le r (f r)"
    using retried_row[OF okr sr, of f] exp by (simp_all add: f_def)
  have t: "t_operations db' = map ?g (t_operations db)"
    and rest: "t_expectations db' = t_expectations db @ [e]" "t_outbox db' = t_outbox db @ [d]"
      "t_reconciliations db' = t_reconciliations db"
    by (simp_all add: db' update_operations_def update_where_def db2)
  have old: "epochs db' k = epochs db k" if "k \<noteq> ds_key d" for k
    using that by (simp add: epochs_def rest)
  have "epoch_attempt db' d = Some (ex_attempt_no e)"
    using noex e by (simp add: epoch_attempt_def fetch_expectation_def fetchone_append rest)
  then have okf: "op_epochs_ok db' (f r)"
    using next_epoch[OF inv rin rkey prev sr n exp d e(4) _ e(5) _ rest] ref n(2) exp
    by (auto simp: f_def retry_proof_def)
  show "ledger_inv db' \<and> ledger_le db db'"
  proof (rule rows_keep[where g = ?g, OF inv t _ _ rest(2) _ rest(1,3)])
    fix x assume x: "x \<in> set (t_operations db)"
    show "op_ok (?g x) \<and> op_le x (?g x) \<and> op_epochs_ok db' (?g x)"
    proof (cases "op_key x = ds_key d")
      case True
      then show ?thesis using only[OF x] okf fr pr by auto
    next
      case False
      then show ?thesis using pk ledger_invD(2)[OF inv x] old rest
          op_epochs_ok_le[OF ledger_invD(3)[OF inv x], of x db' "[e]" "[]"] by auto
    qed
    show "epochs db' (op_key x) = epochs db (op_key x)" if "op_observation_ref x \<noteq> None"
      using that only[OF x] old safe_retry_row(2)[OF okr sr] by metis
  qed (use chk rin rkey in \<open>auto intro: rev_image_eqI\<close>)
qed

section \<open>The transactions\<close>

record source_env =
  se_clock :: clock
  se_digest :: digest
  se_evidence :: "rcdb \<Rightarrow> run_row \<Rightarrow> source_acceptance \<Rightarrow> bool"
  se_attention :: "rcdb \<Rightarrow> run_row \<Rightarrow> decision \<Rightarrow> bool"
  se_advance :: "rcdb \<Rightarrow> acceptance \<Rightarrow> rc_error + rcdb"

definition same_ledger :: "rcdb \<Rightarrow> rcdb \<Rightarrow> bool" where
  "same_ledger db db' \<longleftrightarrow>
     t_operations db' = t_operations db \<and> t_expectations db' = t_expectations db \<and>
     t_outbox db' = t_outbox db \<and> t_reconciliations db' = t_reconciliations db"

definition same_owners :: "rcdb \<Rightarrow> rcdb \<Rightarrow> bool" where
  "same_owners db db' \<longleftrightarrow>
     t_runs db' = t_runs db \<and> t_leases db' = t_leases db \<and>
     t_browser_lanes db' = t_browser_lanes db \<and> t_lane_resolutions db' = t_lane_resolutions db"

definition env_ok :: "source_env \<Rightarrow> bool" where
  "env_ok env \<longleftrightarrow> (\<forall>db acc db'. se_advance env db acc = Inr db' \<longrightarrow> same_ledger db db' \<and> same_owners db db')"

datatype source_call =
    AcceptOperation source_acceptance
  | AckDispatch dispatch_ack
  | OwnedObservation string string string int int string string string string
  | OwnedUnknown string string string int int int string string string "string option" "string option" string
  | CommitDecision decision "dispatch_row option" "dispatch_row option" "int option"
  | MintEpoch turnover_request turnover_authority bool
  | MainCommit string string "string list" string

datatype source_result =
    AcceptedAs acceptance | AckedAs dispatch_row | OperationNow operation_row
  | ReconciledAs reconciliation_row | CommittedMain

definition source_step :: "source_env \<Rightarrow> rcdb \<Rightarrow> source_call \<Rightarrow> rc_error + (rcdb \<times> source_result)" where
  "source_step env db call =
     (case call of
        AcceptOperation a \<Rightarrow>
          sbind (accept_source_operation (se_digest env) (se_evidence env) (se_advance env) db a)
            (\<lambda>(db', acc). Inr (db', AcceptedAs acc))
      | AckDispatch a \<Rightarrow>
          sbind (record_source_dispatch_ack (se_digest env) db a) (\<lambda>(db', d). Inr (db', AckedAs d))
      | OwnedObservation rid oid executor attempt ledger intent observation disposition at \<Rightarrow>
          sbind (record_owned_source_operation_observation (se_clock env) db rid oid executor attempt
                   ledger intent observation disposition at) (\<lambda>(db', r). Inr (db', OperationNow r))
      | OwnedUnknown rid oid executor attempt ledger revision ref digest outcome conclusion intent at \<Rightarrow>
          sbind (record_owned_source_reconciliation_unknown (se_clock env) db rid oid executor attempt
                   ledger revision ref digest outcome conclusion intent at) (\<lambda>(db', r). Inr (db', OperationNow r))
      | CommitDecision d precondition ack token \<Rightarrow>
          sbind (commit_no_owner_source_reconciliation (se_attention env) db d precondition ack token)
            (\<lambda>(db', n). Inr (db', ReconciledAs n))
      | MintEpoch q t issued \<Rightarrow>
          sbind (mint_safe_retry_dispatch_epoch (se_clock env) (se_digest env) (se_advance env) db q t issued)
            (\<lambda>(db', acc). Inr (db', AcceptedAs acc))
      | MainCommit rid ref oids reason \<Rightarrow>
          sbind (commit_source_operations_with_ref db rid ref oids reason) (\<lambda>db'. Inr (db', CommittedMain)))"

subsection \<open>Each call keeps the ledger\<close>

lemma same_ledger_keeps:
  assumes "same_ledger db db'"
  shows "keeps_ledger db db'"
proof -
  have ep: "\<And>k. epochs db' k = epochs db k" using assms by (simp add: same_ledger_def epochs_def)
  have same: "t_operations db' = t_operations db" "t_expectations db' = t_expectations db @ []"
      "t_reconciliations db' = t_reconciliations db @ []" "t_outbox db' = t_outbox db"
    using assms by (simp_all add: same_ledger_def)
  have "op_epochs_ok db' r" if "op_epochs_ok db r" for r
    using op_epochs_ok_le[OF that op_le_refl ep same(2,3)] .
  then have "ledger_inv db \<Longrightarrow> ledger_inv db'"
    unfolding ledger_inv_def same by simp
  moreover have "ledger_le db db'"
    by (rule ledger_le_sameI[OF same(1) ep same(2,3)]) (simp add: same(4))
  ultimately show ?thesis by (simp add: keeps_ledger_def)
qed

lemma advance_keeps: "env_ok env \<Longrightarrow> se_advance env db acc = Inr db' \<Longrightarrow> keeps_ledger db db'"
  using same_ledger_keeps unfolding env_ok_def by blast

lemma accept_keeps:
  assumes env: "env_ok env"
    and s: "accept_source_operation digest evidence (se_advance env) db a = Inr (db', acc)"
  shows "keeps_ledger db db'"
proof -
  obtain v where v: "validate_source_operation_acceptance a = Inr v"
    using s by (auto simp: accept_source_operation_def sbind_eq_Inr)
  show ?thesis
    using s unfolding accept_source_operation_def Let_def
    by (auto simp: sbind_eq_Inr split: if_splits option.splits
        intro: advance_keeps[OF env] keeps_trans[OF accept_rows_keep[OF v] advance_keeps[OF env]])
qed

lemma ack_keeps:
  assumes "record_source_dispatch_ack digest db a = Inr (db', d)"
  shows "keeps_ledger db db'"
proof -
  have "dispatch_core (acknowledge g j ref kind at x) = dispatch_core x" for g j ref kind at x
    by (simp add: dispatch_core_def acknowledge_def)
  then show ?thesis
    using assms unfolding record_source_dispatch_ack_def Let_def
    by (auto simp: sbind_eq_Inr split: if_splits intro: update_outbox_keeps)
qed

lemma keepsI: "(ledger_inv db \<Longrightarrow> keeps_ledger db db') \<Longrightarrow> keeps_ledger db db'"
  by (auto simp: keeps_ledger_def)

lemma fetched_only:
  assumes "ledger_inv db" "fetch_operation db rid oid = Some r"
  shows "r \<in> set (t_operations db)" "op_key r = (rid, oid)"
    "x \<in> set (t_operations db) \<Longrightarrow> op_run x = rid \<Longrightarrow> op_operation_id x = oid \<Longrightarrow> x = r"
proof -
  show r: "r \<in> set (t_operations db)" "op_key r = (rid, oid)"
    using assms(2) by (auto simp: fetch_operation_def op_key_def dest: fetchone_SomeD)
  show "x \<in> set (t_operations db) \<Longrightarrow> op_run x = rid \<Longrightarrow> op_operation_id x = oid \<Longrightarrow> x = r"
    using distinct_key_eq[OF ledger_invD(1)[OF assms(1)] _ r(1)] r(2) by (simp add: op_key_def)
qed

lemma op_okD:
  assumes "op_ok r"
  shows "1 \<le> op_ledger_revision r" "0 \<le> op_reconciliation_revision r"
    "op_phase r = ''accepted'' \<Longrightarrow> op_observation_ref r = None"
    "op_phase r = ''accepted'' \<Longrightarrow> op_main_commit_ref r = None"
    "op_observation_ref r \<noteq> None \<Longrightarrow> op_disposition r \<noteq> None"
    "op_observation_ref r \<noteq> None \<Longrightarrow> op_dispatch_intent_ref r \<noteq> None"
    "op_observation_ref r \<noteq> None \<Longrightarrow> op_retry_posture r = ''no_retry''"
proof -
  from assms show "1 \<le> op_ledger_revision r" "0 \<le> op_reconciliation_revision r"
    unfolding op_ok_def by - (elim conjE, assumption)+
  from assms have main: "op_main_commit_ref r \<noteq> None \<longleftrightarrow> op_phase r = ''main_committed''"
    and acc: "op_phase r = ''accepted'' \<longrightarrow> op_dispatch_intent_ref r = None \<and> op_observation_ref r = None \<and>
        op_disposition r = None \<and> op_retry_posture r = ''no_retry'' \<and>
        op_reconciliation_revision r = 0 \<and> op_ledger_revision r = 1"
    and obs: "op_observation_ref r \<noteq> None \<longrightarrow> op_dispatch_intent_ref r \<noteq> None \<and> op_disposition r \<noteq> None \<and>
        op_retry_posture r = ''no_retry''"
    unfolding op_ok_def by - (elim conjE, assumption)+
  from acc show "op_phase r = ''accepted'' \<Longrightarrow> op_observation_ref r = None" by blast
  from main show "op_phase r = ''accepted'' \<Longrightarrow> op_main_commit_ref r = None" by auto
  from obs show "op_observation_ref r \<noteq> None \<Longrightarrow> op_disposition r \<noteq> None"
    "op_observation_ref r \<noteq> None \<Longrightarrow> op_dispatch_intent_ref r \<noteq> None"
    "op_observation_ref r \<noteq> None \<Longrightarrow> op_retry_posture r = ''no_retry''" by blast+
qed

lemma observed_row:
  assumes "op_ok x" "op_main_commit_ref x = None" "op_observation_ref x = None"
  assumes u: "u = x\<lparr>op_phase := ''observed'', op_dispatch_intent_ref := Some i, op_observation_ref := Some ob,
     op_disposition := Some disp, op_retry_posture := ''no_retry'', op_ledger_revision := op_ledger_revision x + 1\<rparr>"
  shows "op_ok u \<and> op_le x u"
proof -
  have "1 \<le> op_ledger_revision x" "0 \<le> op_reconciliation_revision x" using op_okD(1,2)[OF assms(1)] .
  then show ?thesis using assms(2,3) by (simp add: u op_ok_def op_le_def op_core_def retry_postures_def)
qed

lemma owned_observation_keeps:
  assumes s: "record_owned_source_operation_observation ck db rid oid executor attempt ledger intent ob disp at = Inr (db', r')"
  shows "keeps_ledger db db'"
proof -
  from s consider "db' = db"
    | p f where "db' = update_operations p f db"
        "\<And>x. p x \<Longrightarrow> op_main_commit_ref x = None \<and> op_observation_ref x = None"
        "\<And>x. f x = x\<lparr>op_phase := ''observed'', op_dispatch_intent_ref := Some intent,
           op_observation_ref := Some ob, op_disposition := Some disp, op_retry_posture := ''no_retry'',
           op_ledger_revision := op_ledger_revision x + 1\<rparr>"
    unfolding record_owned_source_operation_observation_def Let_def
    by (auto simp: sbind_eq_Inr split: if_splits option.splits)
  then show ?thesis
  proof cases
    case (2 p f)
    have "op_ok (f x) \<and> op_le x (f x)" if "p x" "op_ok x" for x
      using observed_row[OF that(2) _ _ 2(3)[of x]] 2(2)[OF that(1)] by simp
    then show ?thesis unfolding 2(1) by (intro update_operations_keeps)
  qed simp
qed

lemma unknown_row:
  assumes "op_ok x" "op_phase x = ''accepted''"
  assumes u: "u = x\<lparr>op_phase := ''reconciled'', op_dispatch_intent_ref := i,
     op_disposition := Some ''reconciliation_unknown'', op_retry_posture := ''reconcile_first'',
     op_reconciliation_revision := op_reconciliation_revision x + 1, op_ledger_revision := op_ledger_revision x + 1\<rparr>"
  shows "op_ok u \<and> op_le x u"
proof -
  have "1 \<le> op_ledger_revision x" "0 \<le> op_reconciliation_revision x" "op_observation_ref x = None"
    "op_main_commit_ref x = None"
    using op_okD[OF assms(1)] assms(2) by simp_all
  then show ?thesis by (simp add: u op_ok_def op_le_def op_core_def retry_postures_def)
qed

lemma owned_unknown_keeps:
  assumes s: "record_owned_source_reconciliation_unknown ck db rid oid executor attempt ledger revision ref dg
     outcome conclusion intent at = Inr (db', r')"
  shows "keeps_ledger db db'"
proof (rule keepsI)
  assume inv: "ledger_inv db"
  from s consider "db' = db"
    | r n p f where "fetch_operation db rid oid = Some r" "op_ledger_revision r = ledger"
        "op_reconciliation_revision r = revision"
        "insert_reconciliation n (update_operations p f db) = Inr db'"
        "\<And>x. p x \<Longrightarrow> op_phase x = ''accepted'' \<and> op_ledger_revision x = ledger \<and> op_reconciliation_revision x = revision"
        "\<And>x. f x = x\<lparr>op_phase := ''reconciled'', op_dispatch_intent_ref := intent,
           op_disposition := Some ''reconciliation_unknown'', op_retry_posture := ''reconcile_first'',
           op_reconciliation_revision := revision + 1, op_ledger_revision := ledger + 1\<rparr>"
    unfolding record_owned_source_reconciliation_unknown_def Let_def
    by (auto simp: sbind_eq_Inr split: if_splits)
  then show "keeps_ledger db db'"
  proof cases
    case (2 r n p f)
    have "op_ok (f x) \<and> op_le x (f x)" if "p x" "op_ok x" for x
      using unknown_row[OF that(2) _ refl, of intent] 2(5)[OF that(1)] 2(6)[of x] by simp
    then have "keeps_ledger db (update_operations p f db)" by (intro update_operations_keeps)
    then show ?thesis using insert_reconciliation_keeps[OF 2(4)] keeps_trans by blast
  qed simp
qed

lemma validated_decision:
  assumes "validate_decision d = Inr v"
  shows "dc_decision_kind d \<in> {''no_dispatch_proved'', ''unresolved'', ''conclusive_observation''}"
    "validate_decision_matrix d = Inr ()"
proof -
  have "\<forall>c \<in> set [rc_require (dc_decision_kind d \<in> {''no_dispatch_proved'', ''unresolved'', ''conclusive_observation''})
         (reconciliation_invalid ''decision_kind''), validate_decision_matrix d]. c = Inr ()"
    using assms unfolding validate_decision_def checks_Inr by (simp only: set_simps insert_iff ball_simps)
  then show "dc_decision_kind d \<in> {''no_dispatch_proved'', ''unresolved'', ''conclusive_observation''}"
    "validate_decision_matrix d = Inr ()" by auto
qed

lemma matrix_cases:
  assumes "validate_decision d = Inr v"
  obtains (no_dispatch) "dc_decision_kind d = ''no_dispatch_proved''" "dc_dispatch_intent_ref d = None"
      "dc_observation_ref d = None" "dc_retry_posture d = ''safe_retry''"
    | (unresolved) "dc_decision_kind d = ''unresolved''" "dc_observation_ref d = None"
      "dc_disposition d = Some ''reconciliation_unknown''" "dc_retry_posture d = ''reconcile_first''"
    | (observed) "dc_decision_kind d = ''conclusive_observation''" "dc_dispatch_intent_ref d \<noteq> None"
      "dc_observation_ref d \<noteq> None" "dc_disposition d \<noteq> None" "dc_retry_posture d = ''no_retry''"
  using validated_decision[OF assms] by (auto simp: validate_decision_matrix_def checks_Inr split: if_splits)

lemma transition_facts:
  assumes "require_source_reconciliation_transition x d = Inr w"
  shows "op_retry_posture x \<noteq> ''safe_retry''"
    "\<not> (op_retry_posture x = ''no_retry'' \<and> op_observation_ref x \<noteq> None \<and> op_disposition x \<noteq> None)"
    "dc_decision_kind d = ''no_dispatch_proved'' \<Longrightarrow> dc_disposition d = None"
  using assms by (auto simp: require_source_reconciliation_transition_def Let_def split: if_splits)

lemma decided_row:
  assumes ok: "op_ok x" and main: "op_main_commit_ref x = None"
    and d: "validate_decision d = Inr v" and t: "require_source_reconciliation_transition x d = Inr w"
    and rev: "op_ledger_revision x = dc_expected_ledger_revision d"
      "op_reconciliation_revision x = dc_expected_reconciliation_revision d"
  shows "op_ok (apply_decision d x) \<and> op_le x (apply_decision d x)"
proof -
  have obs: "op_observation_ref x = None"
    using transition_facts(2)[OF t] op_okD(5,7)[OF ok] by blast
  have pos: "1 \<le> op_ledger_revision x" "0 \<le> op_reconciliation_revision x" by (rule op_okD(1,2)[OF ok])+
  have "op_ok (apply_decision d x)"
    using d
  proof (cases rule: matrix_cases)
    case no_dispatch
    then show ?thesis using pos main rev transition_facts(3)[OF t]
      by (simp add: op_ok_def apply_decision_def retry_postures_def)
  next
    case unresolved
    then show ?thesis using pos main rev by (simp add: op_ok_def apply_decision_def retry_postures_def)
  next
    case observed
    then show ?thesis using pos main rev by (simp add: op_ok_def apply_decision_def retry_postures_def)
  qed
  moreover have "op_le x (apply_decision d x)"
    using main obs rev by (simp add: op_le_def apply_decision_def op_core_def)
  ultimately show ?thesis ..
qed

lemma reconcile_outbox_keeps:
  assumes "reconcile_outbox u d ack db = Inr db'"
  shows "keeps_ledger db db'" "t_operations db' = t_operations db" "t_reconciliations db' = t_reconciliations db"
  using assms unfolding reconcile_outbox_def Let_def
  by (auto split: option.splits if_splits intro!: update_outbox_keeps simp: dispatch_core_def)
    (auto simp: update_outbox_def split: if_splits)

lemma commit_decision_parts:
  assumes "commit_no_owner_source_reconciliation attention db d precondition ack token = Inr (db', n)"
  obtains (replay) "db' = db" "fetch_reconciliation db (dc_reconciliation_id d) = Some n"
    | (new) r update db1 dispatch where "fetch_operation db (dc_run d) (dc_operation_id d) = Some r"
      "source_operation_pair db r = Inr dispatch" "operation_matches_reconciliation r d"
      "dispatch_precondition_matches dispatch d precondition"
      "op_main_commit_ref r = None" "op_ledger_revision r = dc_expected_ledger_revision d"
      "op_reconciliation_revision r = dc_expected_reconciliation_revision d"
      "require_source_reconciliation_transition r d = Inr ()"
      "reconcile_outbox update dispatch ack db = Inr db1"
      "insert_reconciliation (reconciliation_of d (op_ledger_revision r + 1) (op_reconciliation_revision r + 1))
         (update_operations (\<lambda>x. op_run x = dc_run d \<and> op_operation_id x = dc_operation_id d \<and>
            op_phase x \<noteq> ''main_committed'' \<and> op_main_commit_ref x = None \<and>
            op_ledger_revision x = dc_expected_ledger_revision d \<and>
            op_reconciliation_revision x = dc_expected_reconciliation_revision d) (apply_decision d) db1) = Inr db'"
      "fetch_reconciliation db' (dc_reconciliation_id d) = Some n"
  using assms unfolding commit_no_owner_source_reconciliation_def Let_def
  by (auto simp: sbind_eq_Inr split: if_splits option.splits)

lemma commit_decision_keeps:
  assumes s: "commit_no_owner_source_reconciliation attention db d precondition ack token = Inr (db', n)"
  shows "keeps_ledger db db'"
proof (rule keepsI)
  assume inv: "ledger_inv db"
  obtain v where v: "validate_decision d = Inr v"
    using s by (auto simp: commit_no_owner_source_reconciliation_def sbind_eq_Inr)
  from s show ?thesis
  proof (cases rule: commit_decision_parts)
    case (new r update db1 dispatch)
    note out = reconcile_outbox_keeps[OF new(9)]
    have "keeps_ledger db1 (update_operations (\<lambda>x. op_run x = dc_run d \<and> op_operation_id x = dc_operation_id d \<and>
            op_phase x \<noteq> ''main_committed'' \<and> op_main_commit_ref x = None \<and>
            op_ledger_revision x = dc_expected_ledger_revision d \<and>
            op_reconciliation_revision x = dc_expected_reconciliation_revision d) (apply_decision d) db1)"
    proof (rule update_operations_keeps, elim conjE)
      fix x assume x: "x \<in> set (t_operations db1)" "op_ok x" "op_run x = dc_run d" "op_operation_id x = dc_operation_id d"
      then have "x = r" using fetched_only(3)[OF inv new(1)] out(2) by simp
      then show "op_ok (apply_decision d x) \<and> op_le x (apply_decision d x)"
        using decided_row[OF x(2) _ v] new(5-8) by simp
    qed
    then show ?thesis using out(1) insert_reconciliation_keeps[OF new(10)] keeps_trans by blast
  qed simp
qed

lemma main_committed_row:
  assumes "op_ok x" "op_main_commit_ref x = None" "op_observation_ref x \<noteq> None"
    and u: "u = x\<lparr>op_phase := ''main_committed'', op_main_commit_ref := Some ref, op_ledger_revision := op_ledger_revision x + 1\<rparr>"
  shows "op_ok u \<and> op_le x u"
  using op_okD[OF assms(1)] assms(2,3) by (simp add: u op_ok_def op_le_def op_core_def retry_postures_def)

lemma commit_operations_keeps:
  "commit_operations rid ref reason oids db = Inr db' \<Longrightarrow> keeps_ledger db db'"
proof (induction oids arbitrary: db)
  case Nil
  then show ?case by simp
next
  case (Cons oid oids)
  let ?f = "\<lambda>x. x\<lparr>op_phase := ''main_committed'', op_main_commit_ref := Some ref, op_ledger_revision := op_ledger_revision x + 1\<rparr>"
  from Cons.prems obtain p where p: "commit_operations rid ref reason oids (update_operations p ?f db) = Inr db'"
      "\<And>x. p x \<Longrightarrow> op_main_commit_ref x = None \<and> op_observation_ref x \<noteq> None"
    by (auto simp: sbind_eq_Inr Let_def split: if_splits)
  have "keeps_ledger db (update_operations p ?f db)"
    using p(2) by (intro update_operations_keeps main_committed_row) auto
  then show ?case using Cons.IH[OF p(1)] keeps_trans by blast
qed

lemma main_commit_keeps:
  "commit_source_operations_with_ref db rid ref oids reason = Inr db' \<Longrightarrow> keeps_ledger db db'"
  by (auto simp: commit_source_operations_with_ref_def intro: commit_operations_keeps split: if_splits)

text \<open>What a mint that writes a new epoch has checked.\<close>

lemma mint_parts:
  assumes "mint_safe_retry_dispatch_epoch ck digest advance db q t issued = Inr (db', acc)"
  obtains (replay) d where "dispatch_for_safe_retry db (tq_run q) (tq_operation_id q) (tq_reconciliation_id q) = Some d"
      "advance db acc = Inr db'"
    | (new) r n previous h db1 where
      "dispatch_for_safe_retry db (tq_run q) (tq_operation_id q) (tq_reconciliation_id q) = None" "issued"
      "fetch_operation db (tq_run q) (tq_operation_id q) = Some r"
      "fetch_reconciliation db (tq_reconciliation_id q) = Some n"
      "require_reconciliation r n (tq_run q) (tq_operation_id q)
         (tq_expected_ledger_revision q) (tq_expected_reconciliation_revision q) = Inr ()"
      "require_next_epoch ck db r (latest_source_dispatch db (tq_run q) (tq_operation_id q)) t = Inr previous"
      "write_epoch db (authority_expectation t (tq_operation_id q) (ds_ordinal previous + 1))
         (next_dispatch r previous n q h) n = Inr db1"
      "committed_acceptance digest db1 (tq_run q) (tq_operation_id q) (ds_ordinal previous + 1) = Inr acc"
      "advance db1 acc = Inr db'"
  using assms unfolding mint_safe_retry_dispatch_epoch_def Let_def
  by (auto simp: sbind_eq_Inr next_dispatch_def split: if_splits option.splits)

lemma next_epoch_parts:
  assumes "require_next_epoch ck db r latest t = Inr previous"
  shows "latest = Some previous" "ta_run t = op_run r"
    "\<exists>m. epoch_attempt db previous = Some m \<and> m < ta_attempt_no t"
    "\<exists>l. active_lease_row db (op_run r) = Some l \<and> ls_lease_id l = ta_lease_id t \<and>
       ls_executor_id l = ta_executor_id t \<and> ls_attempt_no l = ta_attempt_no t"
proof -
  from assms obtain e l where e: "latest = Some previous" "dispatch_matches_operation previous r"
      "fetch_expectation db (op_run r) (op_operation_id r) (ds_ordinal previous) = Some e"
      "require_current_lease ck db t (op_run r) = Inr l" "ex_attempt_no e < ta_attempt_no t"
    by (auto simp: require_next_epoch_def sbind_eq_Inr checks_Inr split: option.splits if_splits)
  then show "latest = Some previous" "ta_run t = op_run r"
    "\<exists>m. epoch_attempt db previous = Some m \<and> m < ta_attempt_no t"
    "\<exists>l. active_lease_row db (op_run r) = Some l \<and> ls_lease_id l = ta_lease_id t \<and>
       ls_executor_id l = ta_executor_id t \<and> ls_attempt_no l = ta_attempt_no t"
    by (auto simp: epoch_attempt_def dispatch_matches_operation_def require_current_lease_def sbind_eq_Inr
        split: option.splits if_splits)
qed

lemma reconciliation_parts:
  assumes "require_reconciliation r n rid oid ledger revision = Inr u"
  shows "rn_run n = rid" "rn_operation_id n = oid" "rn_decision_kind n = ''no_dispatch_proved''"
    "rn_retry_posture n = ''safe_retry''" "rn_dispatch_intent_ref n = None" "rn_observation_ref n = None"
    "op_ledger_revision r = rn_committed_ledger_revision n"
    "op_reconciliation_revision r = rn_committed_reconciliation_revision n"
    "op_retry_posture r = ''safe_retry''"
  using assms by (auto simp: require_reconciliation_def require_reconciliation_identity_def checks_Inr)

lemma mint_keeps:
  assumes env: "env_ok env"
    and s: "mint_safe_retry_dispatch_epoch ck digest (se_advance env) db q t issued = Inr (db', acc)"
  shows "keeps_ledger db db'"
  using s
proof (cases rule: mint_parts)
  case (replay d)
  then show ?thesis using advance_keeps[OF env] by blast
next
  case (new r n previous h db1)
  note n = reconciliation_parts[OF new(5)] and e = next_epoch_parts[OF new(6)]
  obtain m where m: "epoch_attempt db previous = Some m" "m < ta_attempt_no t" using e(3) by blast
  have k: "op_run r = tq_run q" "op_operation_id r = tq_operation_id q"
    using new(3) by (auto simp: fetch_operation_def dest: fetchone_SomeD)
  have nn: "n \<in> set (t_reconciliations db)" "rn_reconciliation_id n = tq_reconciliation_id q"
    using new(4) by (auto simp: fetch_reconciliation_def dest: fetchone_SomeD)
  have "keeps_ledger db db1"
    by (rule write_epoch_keeps[OF new(7), of r previous m])
      (use new(3) e(1,2) k nn n m in \<open>auto simp: next_dispatch_def authority_expectation_def retry_proof_def ds_key_def\<close>)
  then show ?thesis using advance_keeps[OF env new(9)] keeps_trans by blast
qed

theorem source_step_keeps:
  assumes "env_ok env" "source_step env db call = Inr (db', res)"
  shows "keeps_ledger db db'"
  using assms(2) unfolding source_step_def
  by (auto split: source_call.splits simp: sbind_eq_Inr
      intro: accept_keeps[OF assms(1)] ack_keeps owned_observation_keeps owned_unknown_keeps commit_decision_keeps
        mint_keeps[OF assms(1)] main_commit_keeps)

interpretation sources: txn_system "source_step env" "\<lambda>db. env_ok env \<and> ledger_inv db" for env
  by unfold_locales (use source_step_keeps in \<open>auto simp: keeps_ledger_def\<close>)

lemma run_sources_inv:
  assumes "env_ok env" "ledger_inv db"
  shows "ledger_inv (run_txns (source_step env) db calls)"
  using sources.run_inv[of env db calls] assms by simp

lemma run_sources_le:
  assumes "env_ok env" "ledger_inv db"
  shows "ledger_le db (run_txns (source_step env) db calls)"
proof (rule sources.run_preorder[where R = ledger_le and env = env])
  show "env_ok env \<and> ledger_inv db" using assms by simp
next
  fix x a y r
  assume "env_ok env \<and> ledger_inv x" "source_step env x a = Inr (y, r)"
  then show "ledger_le x y" using source_step_keeps unfolding keeps_ledger_def by blast
qed (auto intro: ledger_le_trans)

section \<open>Delivery\<close>

text \<open>A dispatch that may be handed to the sidecar now: its operation awaits this very epoch.\<close>

definition deliverable_now :: "rcdb \<Rightarrow> dispatch_row \<Rightarrow> bool" where
  "deliverable_now db d \<longleftrightarrow>
     (case (fetch_operation db (ds_run d) (ds_operation_id d),
            latest_source_dispatch db (ds_run d) (ds_operation_id d)) of
        (Some r, Some l) \<Rightarrow> currently_deliverable d r (ds_ordinal l)
      | _ \<Rightarrow> False)"

definition pending_dispatches :: "rcdb \<Rightarrow> dispatch_row list" where
  "pending_dispatches db = sort_key ds_outbox_id (filter (\<lambda>d. ds_status d = ''pending'') (t_outbox db))"

lemma require_dispatch_operation_fetch:
  "require_source_dispatch_operation digest db d = Inr r \<Longrightarrow> fetch_operation db (ds_run d) (ds_operation_id d) = Some r"
  by (auto simp: require_source_dispatch_operation_def sbind_eq_Inr split: option.splits if_splits)

lemma pending_page_filter:
  assumes "pending_page digest db limit found rows = Inr out" "length found < limit"
  shows "out = take limit (found @ filter (deliverable_now db) rows)"
  using assms
proof (induction digest db limit found rows rule: pending_page.induct)
  case (1 digest db limit found)
  then show ?case by simp
next
  case (2 digest db limit found d rows)
  from "2.prems"(1) obtain r l where r: "require_source_dispatch_operation digest db d = Inr r"
      and l: "latest_source_dispatch db (ds_run d) (ds_operation_id d) = Some l"
      and out: "(if currently_deliverable d r (ds_ordinal l)
        then (if length (found @ [d]) = limit then Inr (found @ [d])
           else pending_page digest db limit (found @ [d]) rows)
        else pending_page digest db limit found rows) = Inr out"
    by (auto simp: sbind_eq_Inr)
  have p: "deliverable_now db d \<longleftrightarrow> currently_deliverable d r (ds_ordinal l)"
    using require_dispatch_operation_fetch[OF r] l by (simp add: deliverable_now_def)
  show ?case
    using out "2.IH"[OF r] "2.prems"(2) l p by (auto split: if_splits)
qed

lemma pending_page_found:
  "pending_page digest db limit found rows = Inr out \<Longrightarrow> length found < limit \<Longrightarrow> length out \<le> limit"
  using pending_page_filter by fastforce

lemma take_take_append: "take n (take n xs @ ys) = take n (xs @ ys)"
  by (cases "n \<le> length xs") (auto simp: min_def)

lemma pending_pages_filter:
  assumes "pending_pages digest db limit pending offset found = Inr out" "length found \<le> limit"
  shows "out = take limit (found @ filter (deliverable_now db) (drop offset pending))"
  using assms
proof (induction digest db limit pending offset found rule: pending_pages.induct)
  case (1 digest db limit pending offset found)
  let ?rows = "take limit (drop offset pending)"
  show ?case
  proof (cases "limit \<le> length found \<or> ?rows = []")
    case True
    then show ?thesis
      using "1.prems" by (subst (asm) pending_pages.simps) (auto simp: Let_def split: if_splits)
  next
    case False
    with "1.prems"(1) obtain found' where f: "pending_page digest db limit found ?rows = Inr found'"
        "pending_pages digest db limit pending (offset + length ?rows) found' = Inr out"
      by (subst (asm) pending_pages.simps) (auto simp: Let_def sbind_eq_Inr)
    have n: "length found < limit" using False by simp
    have "drop (offset + length ?rows) pending = drop limit (drop offset pending)"
      by (cases "limit \<le> length (drop offset pending)") (simp_all add: add.commute)
    then have "out = take limit (found' @ filter (deliverable_now db) (drop limit (drop offset pending)))"
      using "1.IH"[of ?rows found'] False f pending_page_found[OF f(1) n] by simp
    also have "\<dots> = take limit (found @ filter (deliverable_now db) ?rows @
        filter (deliverable_now db) (drop limit (drop offset pending)))"
      unfolding pending_page_filter[OF f(1) n] take_take_append by simp
    also have "filter (deliverable_now db) ?rows @ filter (deliverable_now db) (drop limit (drop offset pending)) =
        filter (deliverable_now db) (drop offset pending)"
      by (metis append_take_drop_id filter_append)
    finally show ?thesis .
  qed
qed

lemma pending_page_returns:
  "(\<And>d. d \<in> set rows \<Longrightarrow> d \<in> set (t_outbox db) \<and> (\<exists>r. require_source_dispatch_operation digest db d = Inr r)) \<Longrightarrow>
   \<exists>out. pending_page digest db limit found rows = Inr out"
proof (induction digest db limit found rows rule: pending_page.induct)
  case (1 digest db limit found)
  then show ?case by simp
next
  case (2 digest db limit found d rows)
  obtain r where r: "require_source_dispatch_operation digest db d = Inr r" and d: "d \<in> set (t_outbox db)"
    using "2.prems"[of d] by auto
  have "operation_dispatches db (ds_run d) (ds_operation_id d) \<noteq> []"
    using d by (auto simp: operation_dispatches_def filter_empty_conv)
  then obtain l where "latest_source_dispatch db (ds_run d) (ds_operation_id d) = Some l"
    by (cases "latest_source_dispatch db (ds_run d) (ds_operation_id d)") (auto simp: latest_source_dispatch_def)
  then show ?case using r "2.IH"[OF r] "2.prems" by auto
qed

lemma pending_pages_returns:
  "(\<And>d. d \<in> set pending \<Longrightarrow> d \<in> set (t_outbox db) \<and> (\<exists>r. require_source_dispatch_operation digest db d = Inr r)) \<Longrightarrow>
   \<exists>out. pending_pages digest db limit pending offset found = Inr out"
proof (induction digest db limit pending offset found rule: pending_pages.induct)
  case (1 digest db limit pending offset found)
  let ?rows = "take limit (drop offset pending)"
  have "\<exists>out. pending_page digest db limit found ?rows = Inr out"
    using "1.prems" by (intro pending_page_returns) (meson in_set_dropD in_set_takeD)
  then show ?case using "1.IH"[of ?rows] "1.prems"
    by (subst pending_pages.simps) (auto simp: Let_def)
qed

text \<open>
  C39: The list of pending dispatches equals its reference: the deliverable ones among all pending
  rows in order of their outbox id, cut at the limit, although the code reads them in pages. It is
  returned whenever every pending row passes its checks, and refused for a limit out of range.
\<close>

theorem list_pending_exact:
  "(list_pending_source_dispatches digest db limit = Inr ds \<longrightarrow>
      1 \<le> limit \<and> limit \<le> 100 \<and> ds = take (nat limit) (filter (deliverable_now db) (pending_dispatches db))) \<and>
   (1 \<le> limit \<and> limit \<le> 100 \<and>
    (\<forall>d \<in> set (pending_dispatches db). \<exists>r. require_source_dispatch_operation digest db d = Inr r) \<longrightarrow>
      list_pending_source_dispatches digest db limit =
        Inr (take (nat limit) (filter (deliverable_now db) (pending_dispatches db))))"
proof -
  have eq: "list_pending_source_dispatches digest db limit =
      (if limit < 1 \<or> 100 < limit then py_fail ''source_dispatch_limit_invalid''
       else pending_pages digest db (nat limit) (pending_dispatches db) 0 [])"
    by (simp add: list_pending_source_dispatches_def pending_dispatches_def)
  have val: "out = take (nat limit) (filter (deliverable_now db) (pending_dispatches db))"
    if "pending_pages digest db (nat limit) (pending_dispatches db) 0 [] = Inr out" for out
    using pending_pages_filter[OF that] by simp
  have ret: "\<exists>out. pending_pages digest db (nat limit) (pending_dispatches db) 0 [] = Inr out"
    if "\<forall>d \<in> set (pending_dispatches db). \<exists>r. require_source_dispatch_operation digest db d = Inr r"
    by (rule pending_pages_returns) (use that in \<open>auto simp: pending_dispatches_def\<close>)
  show ?thesis unfolding eq using val ret by (auto split: if_splits)
qed

text \<open>A concrete operation and its first dispatch.\<close>

definition hex64 :: "char \<Rightarrow> string" where
  "hex64 c = replicate 64 c"

definition demo_acceptance :: source_acceptance where
  "demo_acceptance = \<lparr>sa_run = ''r1'', sa_operation_id = ''op1'', sa_source_id = ''liepin'',
     sa_operation_kind = ''cards'', sa_request_hash = hex64 CHR ''0'', sa_idempotency_key = ''key1'',
     sa_requirement_revision_id = ''req'', sa_attempt_no = 1, sa_attempt_authority_ref = ''auth1'',
     sa_attempt_fence_ref = hex64 CHR ''1'', sa_profile_generation = 1, sa_scope_id = Some ''scope'',
     sa_controller_fence_ref = None, sa_outbox_id = ''out1'', sa_intent_id = ''intent1'',
     sa_intent_revision = 1, sa_intent_digest = hex64 CHR ''2'', sa_ordinal = 1,
     sa_acceptance_ref = ''acc1'', sa_expected_ledger_revision = 1, sa_expected_reconciliation_revision = 0\<rparr>"

definition demo_env :: source_env where
  "demo_env = \<lparr>se_clock = tally_clock, se_digest = (\<lambda>_. hex64 CHR ''3''), se_evidence = (\<lambda>_ _ _. False),
     se_attention = (\<lambda>_ _ _. False), se_advance = (\<lambda>db _. Inr db)\<rparr>"

lemma demo_env_ok: "env_ok demo_env"
  by (simp add: env_ok_def demo_env_def same_ledger_def same_owners_def)

definition demo_accepted :: rcdb where
  "demo_accepted = run_txns (source_step demo_env) (demo_db [demo_lease ''l1'' 1 ''active''])
     [AcceptOperation demo_acceptance]"

lemma demo_accepted_eq:
  "demo_accepted = (demo_db [demo_lease ''l1'' 1 ''active''])\<lparr>t_operations := [new_operation demo_acceptance],
     t_expectations := [expectation_of demo_acceptance], t_outbox := [new_dispatch demo_acceptance]\<rparr>"
  by code_simp

lemma demo_source_inv: "ledger_inv (demo_db ls)"
  by (simp add: ledger_inv_def demo_db_def empty_db_def)

theorem list_pending_exact_witness:
  "list_pending_source_dispatches (\<lambda>_. []) demo_accepted 5 = Inr [new_dispatch demo_acceptance]"
proof -
  have "pending_dispatches demo_accepted = [new_dispatch demo_acceptance]" unfolding demo_accepted_eq by code_simp
  moreover have "require_source_dispatch_operation (\<lambda>_. []) demo_accepted (new_dispatch demo_acceptance) =
      Inr (new_operation demo_acceptance)" unfolding demo_accepted_eq by code_simp
  moreover have "deliverable_now demo_accepted (new_dispatch demo_acceptance)" unfolding demo_accepted_eq by code_simp
  ultimately show ?thesis
    using list_pending_exact[of "\<lambda>_. []" demo_accepted 5 "[]"] by simp
qed

section \<open>Reconciling under an executor\<close>

lemma sql_logic:
  "sql_and (Some False) b = Some False" "sql_and b (Some False) = Some False" "sql_and (Some True) b = b"
  "sql_or (Some False) b = b" "sql_or b (Some False) = b"
  by (cases b; simp add: sql_and_def sql_or_def)+

lemma matrix_refuses:
  assumes "rn_decision_kind n = ''unresolved''"
    "rn_history_outcome n = ''not_found'' \<or>
     rn_history_outcome n = ''matched'' \<and> rn_history_conclusion n = Some ''accepted_no_dispatch''"
  shows "reconciliation_matrix n = Some False"
  using assms(2)
  by (elim disjE conjE) (simp_all add: assms(1) reconciliation_matrix_def Let_def sql_all_def sql_in_def sql_logic)

text \<open>
  C40: An executor that learns from the history that its operation was not found, or was accepted
  and not dispatched, cannot store that: with every check of the method passed, the CHECK of the
  reconciliations table refuses the row, and the call ends with an integrity error.
\<close>

theorem no_dispatch_history_not_stored:
  assumes inv: "ledger_inv db" and r: "fetch_operation db rid oid = Some r" "op_phase r = ''accepted''"
    "op_ledger_revision r = ledger" "op_reconciliation_revision r = revision"
    and ex: "require_active_executor ck db rid executor (Some attempt) (Some at) = Inr l"
    and new: "fetch_reconciliation db (''source-history-'' @ dg) = None"
    and h: "outcome = ''not_found'' \<and> conclusion = None \<or>
      outcome = ''matched'' \<and> conclusion = Some ''accepted_no_dispatch''"
  shows "record_owned_source_reconciliation_unknown ck db rid oid executor attempt ledger revision ref dg
    outcome conclusion intent at = Inl IntegrityError"
proof -
  note only = fetched_only[OF inv r(1)]
  have main: "op_main_commit_ref r = None" using op_okD(4)[OF ledger_invD(2)[OF inv only(1)] r(2)] .
  define p where "p = (\<lambda>x :: operation_row. op_run x = rid \<and> op_operation_id x = oid \<and> op_phase x = ''accepted'' \<and>
     op_ledger_revision x = ledger \<and> op_reconciliation_revision x = revision \<and> op_main_commit_ref x = None)"
  have "p r" using only(2) r main by (simp add: p_def op_key_def)
  then have "rowcount p (t_operations db) = 1"
    using rowcount_keyed_iff[OF ledger_invD(1)[OF inv], of p "(rid, oid)"] only(1) by (auto simp: p_def op_key_def)
  moreover have "reconciliation_check n = False"
    if "rn_decision_kind n = ''unresolved''" "rn_history_outcome n = outcome" "rn_history_conclusion n = conclusion" for n
    using matrix_refuses[of n] that h by (auto simp: reconciliation_check_def)
  ultimately show ?thesis
    using r ex new h main
    unfolding record_owned_source_reconciliation_unknown_def Let_def p_def
    by (auto simp: insert_reconciliation_def)
qed

theorem no_dispatch_history_not_stored_witness:
  "record_owned_source_reconciliation_unknown tally_clock demo_accepted ''r1'' ''op1'' ''ex'' 1 1 0 ''ref'' (hex64 CHR ''4'')
     ''not_found'' None None ''+i'' = Inl IntegrityError"
proof (rule no_dispatch_history_not_stored)
  show "ledger_inv demo_accepted"
    unfolding demo_accepted_def by (rule run_sources_inv[OF demo_env_ok demo_source_inv])
  show "fetch_operation demo_accepted ''r1'' ''op1'' = Some (new_operation demo_acceptance)" unfolding demo_accepted_eq by code_simp
  show "require_active_executor tally_clock demo_accepted ''r1'' ''ex'' (Some 1) (Some ''+i'') =
      Inr (demo_lease ''l1'' 1 ''active'')" unfolding demo_accepted_eq by code_simp
  show "fetch_reconciliation demo_accepted (''source-history-'' @ hex64 CHR ''4'') = None" unfolding demo_accepted_eq by code_simp
qed (simp_all add: new_operation_def)

section \<open>Repeated calls\<close>

lemma accept_parts:
  assumes "accept_source_operation digest evidence advance db a = Inr (db', acc)"
  obtains (replay) r where "fetch_operation db (sa_run a) (sa_operation_id a) = Some r"
      "source_operation_acceptance digest db r = Inr acc" "advance db acc = Inr db'"
    | (new) db1 db2 db3 r where "sa_ordinal a = 1"
      "fetch_operation db (sa_run a) (sa_operation_id a) = None"
      "fetch_operation_by_key db (sa_run a) (sa_idempotency_key a) = None"
      "operation_dispatches db (sa_run a) (sa_operation_id a) = []"
      "fetch_expectation db (sa_run a) (sa_operation_id a) 1 = None"
      "insert_operation (new_operation a) db = Inr db1" "insert_expectation (expectation_of a) db1 = Inr db2"
      "insert_dispatch (new_dispatch a) db2 = Inr db3"
      "fetch_operation db3 (sa_run a) (sa_operation_id a) = Some r"
      "source_operation_acceptance digest db3 r = Inr acc" "advance db3 acc = Inr db'"
proof -
  have ord: "sa_ordinal a = 1"
    using assms by (auto simp: accept_source_operation_def validate_source_operation_acceptance_def
        checks_Inr sbind_eq_Inr)
  from assms show thesis
    unfolding accept_source_operation_def Let_def
    apply (auto simp: sbind_eq_Inr replayed_acceptance_def split: if_splits option.splits prod.splits)
    using that ord by blast+
qed

text \<open>The rows right after an acceptance.\<close>

lemma accepted_rows:
  assumes "fetch_operation db (sa_run a) (sa_operation_id a) = None"
    "fetch_operation_by_key db (sa_run a) (sa_idempotency_key a) = None"
    "operation_dispatches db (sa_run a) (sa_operation_id a) = []"
    "fetch_expectation db (sa_run a) (sa_operation_id a) 1 = None" "sa_ordinal a = 1"
    and w: "insert_operation (new_operation a) db = Inr db1" "insert_expectation (expectation_of a) db1 = Inr db2"
      "insert_dispatch (new_dispatch a) db2 = Inr db3"
  shows "fetch_operation db3 (sa_run a) (sa_operation_id a) = Some (new_operation a)"
    "fetch_operation_by_key db3 (sa_run a) (sa_idempotency_key a) = Some (new_operation a)"
    "latest_source_dispatch db3 (sa_run a) (sa_operation_id a) = Some (new_dispatch a)"
    "fetch_expectation db3 (sa_run a) (sa_operation_id a) 1 = Some (expectation_of a)"
    "t_runs db3 = t_runs db"
proof -
  have db3: "t_operations db3 = t_operations db @ [new_operation a]" "t_outbox db3 = t_outbox db @ [new_dispatch a]"
      "t_expectations db3 = t_expectations db @ [expectation_of a]" "t_runs db3 = t_runs db"
    using w by (auto simp: insert_operation_def insert_expectation_def insert_dispatch_def split: if_splits)
  then show "fetch_operation db3 (sa_run a) (sa_operation_id a) = Some (new_operation a)"
    "fetch_operation_by_key db3 (sa_run a) (sa_idempotency_key a) = Some (new_operation a)"
    "latest_source_dispatch db3 (sa_run a) (sa_operation_id a) = Some (new_dispatch a)"
    "fetch_expectation db3 (sa_run a) (sa_operation_id a) 1 = Some (expectation_of a)"
    "t_runs db3 = t_runs db"
    using assms(1-5)
    by (simp_all add: fetch_operation_def fetch_operation_by_key_def latest_source_dispatch_def
        operation_dispatches_def fetch_expectation_def fetchone_append new_operation_def new_dispatch_def expectation_of_def)
qed

text \<open>
  Accepting an operation is idempotent: an acceptance that succeeded and is repeated right away
  returns the same operation, expectation and dispatch and writes nothing, so a caller that lost
  the answer may ask again.
\<close>

theorem accept_idempotent:
  assumes s: "accept_source_operation digest evidence (\<lambda>db acc. Inr db) db a = Inr (db', acc)"
  shows "accept_source_operation digest evidence (\<lambda>db acc. Inr db) db' a = Inr (db', acc)"
  using s
proof (cases rule: accept_parts)
  case (replay r)
  then have "db' = db" by simp
  then show ?thesis using s by simp
next
  case (new db1 db2 db3 r)
  note rows = accepted_rows[OF new(2-5) new(1) new(6-8)]
  have db': "db' = db3" using new(11) by simp
  have r: "r = new_operation a" using new(9) rows(1) by simp
  obtain run v where run: "fetch_run db (sa_run a) = Some run" "validate_source_operation_acceptance a = Inr v"
    using s by (auto simp: accept_source_operation_def sbind_eq_Inr)
  have run3: "fetch_run db3 (sa_run a) = Some run"
    using run(1) rows(5) by (simp add: fetch_run_def)
  have acc: "acc = (new_operation a, expectation_of a, new_dispatch a)"
    using new(1,10) rows(3,4) unfolding r source_operation_acceptance_def source_operation_pair_def
    by (auto simp: sbind_eq_Inr new_operation_def new_dispatch_def split: if_splits option.splits)
  have match: "operation_matches_acceptance (new_operation a) a" "expectation_matches_acceptance (expectation_of a) a"
      "dispatch_matches_acceptance (new_dispatch a) a"
    by (simp_all add: operation_matches_acceptance_def expectation_matches_acceptance_def
        dispatch_matches_acceptance_def new_operation_def new_dispatch_def expectation_of_def)
  have keys: "op_idempotency_key (new_operation a) = sa_idempotency_key a"
      "op_request_hash (new_operation a) = sa_request_hash a" "op_operation_id (new_operation a) = sa_operation_id a"
    by (simp_all add: new_operation_def)
  show ?thesis
    using new(10) unfolding db' accept_source_operation_def Let_def
    by (simp add: run run3 rows r acc match keys replayed_acceptance_def)
qed

theorem accept_idempotent_witness:
  "accept_source_operation (\<lambda>_. []) (\<lambda>_ _ _. False) (\<lambda>db acc. Inr db) demo_accepted demo_acceptance =
     Inr (demo_accepted, (new_operation demo_acceptance, expectation_of demo_acceptance, new_dispatch demo_acceptance))"
proof (rule accept_idempotent)
  show "accept_source_operation (\<lambda>_. []) (\<lambda>_ _ _. False) (\<lambda>db acc. Inr db)
      (demo_db [demo_lease ''l1'' 1 ''active'']) demo_acceptance =
     Inr (demo_accepted, (new_operation demo_acceptance, expectation_of demo_acceptance, new_dispatch demo_acceptance))"
    unfolding demo_accepted_eq by code_simp
qed

lemma fetchone_map: "(\<And>x. q (g x) = q x) \<Longrightarrow> fetchone q (map g xs) = map_option g (fetchone q xs)"
  by (induction xs) auto

text \<open>The rows right after a new epoch was written.\<close>

lemma written_epoch:
  assumes w: "write_epoch db e d n = Inr db1"
    and r: "fetch_operation db (ds_run d) (ds_operation_id d) = Some r"
    and e: "ex_run e = ds_run d" "ex_operation_id e = ds_operation_id d" "ex_ordinal e = ds_ordinal d"
  shows "\<exists>u. fetch_operation db1 (ds_run d) (ds_operation_id d) = Some u \<and> op_core u = op_core r"
    "fetch_expectation db1 (ds_run d) (ds_operation_id d) (ds_ordinal d) = Some e"
    "fetchone (\<lambda>x. ds_run x = ds_run d \<and> ds_operation_id x = ds_operation_id d \<and> ds_ordinal x = ds_ordinal d)
       (t_outbox db1) = Some d"
    "t_outbox db1 = t_outbox db @ [d]" "t_reconciliations db1 = t_reconciliations db"
proof -
  from w obtain a b p f where ab: "insert_expectation e db = Inr a" "insert_dispatch d a = Inr b"
      and db1: "db1 = update_operations p f b"
      and f: "\<And>x. f x = x\<lparr>op_retry_posture := ''no_retry'', op_ledger_revision := ds_expected_ledger_revision d\<rparr>"
    unfolding write_epoch_def Let_def by (auto simp: sbind_eq_Inr split: if_splits)
  let ?g = "\<lambda>x. if p x then f x else x"
  have b: "t_operations b = t_operations db" "t_outbox b = t_outbox db @ [d]"
      "t_expectations b = t_expectations db @ [e]" "t_reconciliations b = t_reconciliations db"
      "fetchone (\<lambda>x. ds_run x = ds_run d \<and> ds_operation_id x = ds_operation_id d \<and> ds_ordinal x = ds_ordinal d)
         (t_outbox db) = None"
      "fetch_expectation db (ds_run d) (ds_operation_id d) (ds_ordinal d) = None"
    using ab e by (auto simp: insert_expectation_def insert_dispatch_def list_ex_iff fetchone_None_iff
        fetch_expectation_def split: if_splits)
  have "fetch_operation db1 (ds_run d) (ds_operation_id d) = Some (?g r)"
    using r fetchone_map[of "\<lambda>x. op_run x = ds_run d \<and> op_operation_id x = ds_operation_id d" ?g "t_operations db"]
    by (simp add: db1 update_operations_def update_where_def fetch_operation_def b f)
  moreover have "op_core (?g r) = op_core r" by (simp add: f op_core_def)
  ultimately show "\<exists>u. fetch_operation db1 (ds_run d) (ds_operation_id d) = Some u \<and> op_core u = op_core r" by blast
  show "fetch_expectation db1 (ds_run d) (ds_operation_id d) (ds_ordinal d) = Some e"
    "fetchone (\<lambda>x. ds_run x = ds_run d \<and> ds_operation_id x = ds_operation_id d \<and> ds_ordinal x = ds_ordinal d)
       (t_outbox db1) = Some d"
    "t_outbox db1 = t_outbox db @ [d]" "t_reconciliations db1 = t_reconciliations db"
    using b e by (simp_all add: db1 update_operations_def fetch_expectation_def fetchone_append)
qed

lemma identity_of_core:
  assumes "require_reconciliation_identity r n rid oid ledger revision = Inr x" "op_core u = op_core r"
  shows "require_reconciliation_identity u n rid oid ledger revision = Inr x"
proof -
  have "op_run u = op_run r" "op_operation_id u = op_operation_id r" "op_source_id u = op_source_id r"
    "op_operation_kind u = op_operation_kind r" "op_request_hash u = op_request_hash r"
    "op_idempotency_key u = op_idempotency_key r" "op_requirement_revision_id u = op_requirement_revision_id r"
    "op_attempt_no u = op_attempt_no r" "op_attempt_authority_ref u = op_attempt_authority_ref r"
    using assms(2) by (cases u, cases r, simp add: op_core_def)+
  then show ?thesis using assms(1) by (simp add: require_reconciliation_identity_def)
qed

lemma committed_parts:
  assumes "committed_acceptance digest db rid oid ordinal = Inr (r, e, d)"
  shows "fetch_operation db rid oid = Some r" "fetch_expectation db rid oid ordinal = Some e"
    "fetchone (\<lambda>x. ds_run x = rid \<and> ds_operation_id x = oid \<and> ds_ordinal x = ordinal) (t_outbox db) = Some d"
    "valid_expectation e" "op_ledger_revision r = ds_expected_ledger_revision d"
    "op_reconciliation_revision r = ds_expected_reconciliation_revision d" "op_retry_posture r = ''no_retry''"
    "require_safe_retry_dispatch_authorization digest r e d = Inr ()"
  using assms by (auto simp: committed_acceptance_def sbind_eq_Inr split: option.splits if_splits)

lemma require_replayI:
  assumes "fetch_operation db (tq_run q) (tq_operation_id q) = Some r"
    "fetch_reconciliation db (tq_reconciliation_id q) = Some n"
    "fetch_expectation db (tq_run q) (tq_operation_id q) (ds_ordinal d) = Some e"
    "require_reconciliation_identity r n (tq_run q) (tq_operation_id q)
       (tq_expected_ledger_revision q) (tq_expected_reconciliation_revision q) = Inr ()"
    "valid_expectation e" "ds_outbox_id d = tq_outbox_id q" "ds_intent_id d = tq_intent_id q"
    "ds_safe_retry_commit_ref d = Some (tq_reconciliation_id q)"
    "ds_expected_ledger_revision d = rn_committed_ledger_revision n + 1"
    "ds_expected_reconciliation_revision d = rn_committed_reconciliation_revision n"
    "op_ledger_revision r = ds_expected_ledger_revision d"
    "op_reconciliation_revision r = ds_expected_reconciliation_revision d"
    "op_retry_posture r = ''no_retry''" "ta_run t = tq_run q"
    "ex_attempt_no e = ta_attempt_no t" "ex_attempt_authority_ref e = ta_attempt_authority_ref t"
    "ex_attempt_fence_ref e = ta_attempt_fence_ref t" "ex_profile_generation e = ta_profile_generation t"
    "ex_scope_id e = Some (ta_scope_id t)" "ex_controller_fence_ref e = ta_controller_fence_ref t"
    "require_safe_retry_dispatch_authorization digest r e d = Inr ()"
  shows "require_replay digest db d q t = Inr (r, e, d)"
  using assms by (simp add: require_replay_def)

text \<open>
  Authorizing a retry is idempotent: a reconciliation is consumed by one epoch, and asking again
  with the same request and authority returns that epoch and writes nothing.
\<close>

theorem mint_idempotent:
  assumes s: "mint_safe_retry_dispatch_epoch ck digest (\<lambda>db acc. Inr db) db q t issued = Inr (db', acc)"
  shows "mint_safe_retry_dispatch_epoch ck digest (\<lambda>db acc. Inr db) db' q t issued' = Inr (db', acc)"
  using s
proof (cases rule: mint_parts)
  case (replay d)
  then show ?thesis using s by (simp add: mint_safe_retry_dispatch_epoch_def)
next
  case (new r n previous h db1)
  obtain v where v: "validate_turnover_request q = Inr v"
    using s by (auto simp: mint_safe_retry_dispatch_epoch_def sbind_eq_Inr)
  have db': "db' = db1" using new(9) by simp
  let ?d = "next_dispatch r previous n q h" and ?o = "ds_ordinal previous + 1"
  let ?e = "authority_expectation t (tq_operation_id q) ?o"
  have k: "op_run r = tq_run q" using new(3) by (auto simp: fetch_operation_def dest: fetchone_SomeD)
  have t: "ta_run t = tq_run q" using next_epoch_parts(2)[OF new(6)] k by simp
  have d: "ds_run ?d = tq_run q" "ds_operation_id ?d = tq_operation_id q" "ds_ordinal ?d = ?o"
      "ds_safe_retry_commit_ref ?d = Some (tq_reconciliation_id q)"
    using new(4) by (auto simp: next_dispatch_def fetch_reconciliation_def dest: fetchone_SomeD)
  note w = written_epoch[OF new(7), unfolded d, OF new(3)]
  have e: "ex_run ?e = tq_run q" "ex_operation_id ?e = tq_operation_id q" "ex_ordinal ?e = ?o"
    by (simp_all add: authority_expectation_def t)
  note w = w[OF e]
  obtain u where u: "fetch_operation db1 (tq_run q) (tq_operation_id q) = Some u" "op_core u = op_core r"
    using w(1) by blast
  obtain r' e' d' where acc: "acc = (r', e', d')" by (cases acc)
  note c = committed_parts[OF new(8)[unfolded acc]]
  have same: "r' = u" "e' = ?e" "d' = ?d" using c(1-3) u(1) w(2,3) by simp_all
  note c = c[unfolded same]
  have "dispatch_for_safe_retry db1 (tq_run q) (tq_operation_id q) (tq_reconciliation_id q) = Some ?d"
    using new(1) d unfolding dispatch_for_safe_retry_def w(4) by (simp add: fetchone_append)
  moreover have "require_replay digest db1 ?d q t = Inr acc"
  proof -
    note rn = reconciliation_parts(7,8)[OF new(5)]
    have n: "require_reconciliation_identity u n (tq_run q) (tq_operation_id q)
        (tq_expected_ledger_revision q) (tq_expected_reconciliation_revision q) = Inr ()"
        "fetch_reconciliation db1 (tq_reconciliation_id q) = Some n"
      using new(4,5) u(2) w(5) identity_of_core[of r n _ _ _ _ _ u]
      by (simp_all add: require_reconciliation_def checks_Inr fetch_reconciliation_def)
    have dn: "ds_outbox_id ?d = tq_outbox_id q" "ds_intent_id ?d = tq_intent_id q"
        "ds_expected_ledger_revision ?d = rn_committed_ledger_revision n + 1"
        "ds_expected_reconciliation_revision ?d = rn_committed_reconciliation_revision n"
      using rn by (simp_all add: next_dispatch_def)
    have et: "ex_attempt_no ?e = ta_attempt_no t" "ex_attempt_authority_ref ?e = ta_attempt_authority_ref t"
        "ex_attempt_fence_ref ?e = ta_attempt_fence_ref t" "ex_profile_generation ?e = ta_profile_generation t"
        "ex_scope_id ?e = Some (ta_scope_id t)" "ex_controller_fence_ref ?e = ta_controller_fence_ref t"
      by (simp_all add: authority_expectation_def)
    have fe: "fetch_expectation db1 (tq_run q) (tq_operation_id q) (ds_ordinal ?d) = Some ?e"
      unfolding d(3) by (rule w(2))
    show ?thesis unfolding acc same
      by (rule require_replayI[OF u(1) n(2) fe n(1) c(4) dn(1,2) d(4) dn(3,4) c(5-7) t et c(8)])
  qed
  ultimately show ?thesis
    unfolding mint_safe_retry_dispatch_epoch_def db' by (simp add: v)
qed

text \<open>The operation after its history proved that nothing was dispatched, and the request for its retry.\<close>

definition demo_decision :: decision where
  "demo_decision = \<lparr>dc_reconciliation_id = ''rec1'', dc_run = ''r1'', dc_operation_id = ''op1'',
     dc_source_id = ''liepin'', dc_operation_kind = ''cards'', dc_request_hash = hex64 CHR ''0'',
     dc_idempotency_key = ''key1'', dc_requirement_revision_id = ''req'', dc_attempt_no = 1,
     dc_attempt_authority_ref = ''auth1'', dc_history_result_ref = ''ref1'',
     dc_history_result_digest = hex64 CHR ''4'', dc_decision_kind = ''no_dispatch_proved'',
     dc_history_outcome = ''not_found'', dc_history_conclusion = None, dc_dispatch_intent_ref = None,
     dc_observation_ref = None, dc_disposition = None, dc_retry_posture = ''safe_retry'',
     dc_expected_ledger_revision = 1, dc_expected_reconciliation_revision = 0, dc_committed_at = ''+i''\<rparr>"

definition demo_request :: turnover_request where
  "demo_request = \<lparr>tq_run = ''r1'', tq_operation_id = ''op1'', tq_reconciliation_id = ''rec1'',
     tq_expected_ledger_revision = 2, tq_expected_reconciliation_revision = 1,
     tq_outbox_id = ''out2'', tq_intent_id = ''intent2''\<rparr>"

definition demo_authority :: turnover_authority where
  "demo_authority = \<lparr>ta_run = ''r1'', ta_executor_id = ''ex'', ta_lease_id = ''l2'', ta_attempt_no = 2,
     ta_observed_at = ''+i'', ta_attempt_authority_ref = ''auth2'', ta_attempt_fence_ref = hex64 CHR ''1'',
     ta_profile_generation = 1, ta_scope_id = ''scope'', ta_controller_fence_ref = None\<rparr>"

definition demo_reconciled :: rcdb where
  "demo_reconciled = run_txns (source_step demo_env)
     (demo_accepted\<lparr>t_runs := [(demo_run ''r1'')\<lparr>run_status := ''resume_requested''\<rparr>], t_leases := []\<rparr>)
     [CommitDecision demo_decision None None None]"

definition demo_turnover :: rcdb where
  "demo_turnover = demo_reconciled\<lparr>t_leases := [demo_lease ''l2'' 2 ''active'']\<rparr>"

definition demo_minted :: "rcdb \<times> acceptance" where
  "demo_minted = (case mint_safe_retry_dispatch_epoch tally_clock (\<lambda>_. hex64 CHR ''3'') (\<lambda>db acc. Inr db)
     demo_turnover demo_request demo_authority True of Inr x \<Rightarrow> x | Inl e \<Rightarrow> (empty_db, undefined))"

theorem mint_idempotent_witness:
  "mint_safe_retry_dispatch_epoch tally_clock (\<lambda>_. hex64 CHR ''3'') (\<lambda>db acc. Inr db) (fst demo_minted)
     demo_request demo_authority False = Inr demo_minted \<and> length (t_outbox (fst demo_minted)) = 2"
proof -
  have n: "length (t_outbox (fst demo_minted)) = 2" by code_simp
  obtain x where "mint_safe_retry_dispatch_epoch tally_clock (\<lambda>_. hex64 CHR ''3'') (\<lambda>db acc. Inr db)
     demo_turnover demo_request demo_authority True = Inr x"
    using n by (auto simp: demo_minted_def empty_db_def split: sum.splits)
  then show ?thesis
    using mint_idempotent[of tally_clock "\<lambda>_. hex64 CHR ''3''" demo_turnover demo_request demo_authority True
      "fst x" "snd x" False] n by (simp add: demo_minted_def)
qed

end
