(* ===== verification/ControlPlane.thy ===== *)
theory ControlPlane
  imports SourceLedger
begin

text \<open>
  The control plane as one system: the lease methods, the lane methods and the ledger of source
  operations work on the same database, and every process may interleave its calls with those of
  the others. A call of one component leaves the tables of the others as they are (the frame
  lemmas), so each component keeps its invariant in the whole system, and properties that need
  two components are stated here.
\<close>

section \<open>Frames\<close>

definition same_leases :: "rcdb \<Rightarrow> rcdb \<Rightarrow> bool" where
  "same_leases db db' \<longleftrightarrow> t_runs db' = t_runs db \<and> t_leases db' = t_leases db"

definition same_lanes :: "rcdb \<Rightarrow> rcdb \<Rightarrow> bool" where
  "same_lanes db db' \<longleftrightarrow> t_browser_lanes db' = t_browser_lanes db \<and> t_lane_resolutions db' = t_lane_resolutions db"

lemma same_owners_iff: "same_owners db db' \<longleftrightarrow> same_leases db db' \<and> same_lanes db db'"
  by (auto simp: same_owners_def same_leases_def same_lanes_def)

lemmas frame_defs = same_leases_def same_lanes_def same_ledger_def same_owners_def

lemma frames_refl [simp]:
  "same_leases db db" "same_lanes db db" "same_ledger db db" "same_owners db db"
  by (simp_all add: frame_defs)

lemma update_run_frame: "update_run rid g f db = (n, db') \<Longrightarrow> same_ledger db db' \<and> same_lanes db db'"
  by (auto simp: update_run_def frame_defs)

lemma expire_frame: "same_ledger db (fold (expire_one now) rows db) \<and> same_lanes db (fold (expire_one now) rows db)"
proof (induction rows arbitrary: db)
  case (Cons r rows)
  have "same_ledger db (expire_one now r db) \<and> same_lanes db (expire_one now r db)"
    by (simp add: expire_one_def update_run_def update_leases_def frame_defs)
  then show ?case using Cons[of "expire_one now r db"] by (simp add: frame_defs)
qed simp

lemma lease_frame:
  assumes "lease_step ck integ db c = Inr (db', res)"
  shows "same_ledger db db' \<and> same_lanes db db'"
proof (cases c)
  case (Expire now batch)
  then show ?thesis
    using assms expire_frame[of db now "expirable_leases db now batch"]
    by (auto simp: returning_Inr expire_executor_leases_def Let_def split: if_splits)
qed (use assms in \<open>auto simp: returning_Inr acquire_executor_lease_def heartbeat_executor_lease_def
      release_executor_lease_def release_executor_lease_txn_def update_run_status_def
      link_workbench_session_def insert_lease_def update_run_def update_leases_def Let_def sbind_eq_Inr
      split_beta frame_defs split: if_splits sum.splits\<close>)

lemma insert_resolution_frame: "insert_resolution x db = Inr db' \<Longrightarrow> same_ledger db db' \<and> same_leases db db'"
  by (auto simp: insert_resolution_def frame_defs split: if_splits)

lemma update_lanes_frame: "same_ledger db (update_lanes p f db) \<and> same_leases db (update_lanes p f db)"
  by (simp add: update_lanes_def frame_defs)

lemma resolve_frame:
  "resolve_expired_browser_lane_after_reconciliation db n rid oid out hc ref dig at fresh = Inr (db', b) \<Longrightarrow>
   same_ledger db db' \<and> same_leases db db'"
  by (auto simp: resolve_expired_browser_lane_after_reconciliation_def sbind_eq_Inr terminalize_lane_def
      update_lanes_def insert_resolution_def frame_defs split: if_splits)

lemma lane_frame:
  assumes "lane_step sha db c = Inr (db', res)"
  shows "same_ledger db db' \<and> same_leases db db'"
proof (cases c)
  case (LaneReconcile lane at fresh)
  then show ?thesis
    using assms resolve_frame update_lanes_frame
    by (auto simp: lane_returning_Inr reconcile_observed_lane_def Let_def sbind_eq_Inr split_beta
        split: option.splits if_splits)
next
  case (LaneObserved rid oid at fresh)
  then show ?thesis
    using assms
    by (auto simp: lane_returning_Inr resolve_browser_lane_from_conclusive_observation_def sbind_eq_Inr
        terminalize_lane_def update_lanes_def insert_resolution_def frame_defs split: option.splits if_splits)
next
  case (LaneResolve n rid oid out hc ref dig at fresh)
  then show ?thesis using assms resolve_frame by (auto simp: lane_returning_Inr)
qed (use assms in \<open>auto simp: lane_returning_Inr try_acquire_browser_lane_def heartbeat_browser_lane_def
      release_browser_lane_def mark_browser_lane_unresolved_def upsert_lane_def update_lanes_def Let_def
      sbind_eq_Inr frame_defs split: if_splits option.splits\<close>)

lemma source_frame:
  assumes env: "env_ok env" and s: "source_step env db c = Inr (db', res)"
  shows "same_owners db db'"
proof -
  have adv: "se_advance env x acc = Inr y \<Longrightarrow> same_owners x y" for x y acc
    using env unfolding env_ok_def by blast
  have ops: "commit_operations rid ref reason oids x = Inr y \<Longrightarrow> same_owners x y" for rid ref reason oids x y
    by (induction oids arbitrary: x)
      (auto simp: sbind_eq_Inr Let_def update_operations_def frame_defs split: if_splits)
  show ?thesis
  proof (cases c)
    case (AcceptOperation a)
    then obtain acc where a: "accept_source_operation (se_digest env) (se_evidence env) (se_advance env) db a = Inr (db', acc)"
      using s by (auto simp: source_step_def sbind_eq_Inr)
    then show ?thesis
    proof (cases rule: accept_parts)
      case (replay r)
      then show ?thesis using adv by blast
    next
      case (new db1 db2 db3 r)
      have "same_owners db db3" using new(6-8)
        by (auto simp: insert_operation_def insert_expectation_def insert_dispatch_def frame_defs split: if_splits)
      then show ?thesis using adv[OF new(11)] by (simp add: frame_defs)
    qed
  next
    case (CommitDecision d precondition ack token)
    then obtain n where "commit_no_owner_source_reconciliation (se_attention env) db d precondition ack token = Inr (db', n)"
      using s by (auto simp: source_step_def sbind_eq_Inr)
    then show ?thesis
    proof (cases rule: commit_decision_parts)
      case (new r update db1 dispatch)
      have "same_owners db db1" using new(9)
        by (auto simp: reconcile_outbox_def update_outbox_def frame_defs Let_def split: option.splits if_splits)
      then show ?thesis using new(10)
        by (auto simp: insert_reconciliation_def update_operations_def frame_defs split: if_splits)
    qed simp
  next
    case (MintEpoch q t issued)
    then obtain acc where "mint_safe_retry_dispatch_epoch (se_clock env) (se_digest env) (se_advance env) db q t issued = Inr (db', acc)"
      using s by (auto simp: source_step_def sbind_eq_Inr)
    then show ?thesis
    proof (cases rule: mint_parts)
      case (new r n previous h db1)
      have "same_owners db db1" using new(7)
        by (auto simp: write_epoch_def insert_expectation_def insert_dispatch_def update_operations_def
            frame_defs Let_def sbind_eq_Inr split: if_splits)
      then show ?thesis using adv[OF new(9)] by (simp add: frame_defs)
    qed (use adv in blast)
  next
    case (MainCommit rid ref oids reason)
    then show ?thesis using s ops
      by (auto simp: source_step_def sbind_eq_Inr commit_source_operations_with_ref_def split: if_splits)
  qed (use s in \<open>auto simp: source_step_def sbind_eq_Inr record_source_dispatch_ack_def update_outbox_def
        record_owned_source_operation_observation_def record_owned_source_reconciliation_unknown_def
        insert_reconciliation_def update_operations_def Let_def frame_defs split: if_splits option.splits\<close>)
qed

section \<open>The system\<close>

record control_env =
  ce_source :: source_env
  ce_integrity :: integrity
  ce_sha :: "string \<Rightarrow> string"

datatype control_call = LeaseCall lease_call | LaneCall lane_call | SourceCall source_call

datatype control_result = LeaseAnswer lease_result | LaneAnswer lane_result | SourceAnswer source_result

definition control_step :: "control_env \<Rightarrow> rcdb \<Rightarrow> control_call \<Rightarrow> rc_error + (rcdb \<times> control_result)" where
  "control_step env db call =
     (case call of
        LeaseCall c \<Rightarrow>
          sbind (lease_step (se_clock (ce_source env)) (ce_integrity env) db c) (\<lambda>(db', r). Inr (db', LeaseAnswer r))
      | LaneCall c \<Rightarrow> sbind (lane_step (ce_sha env) db c) (\<lambda>(db', r). Inr (db', LaneAnswer r))
      | SourceCall c \<Rightarrow> sbind (source_step (ce_source env) db c) (\<lambda>(db', r). Inr (db', SourceAnswer r)))"

definition control_inv :: "rcdb \<Rightarrow> bool" where
  "control_inv db \<longleftrightarrow> lease_inv db \<and> lane_inv db \<and> ledger_inv db"

text \<open>Each invariant speaks of the tables of its component only.\<close>

lemma lease_inv_frame: "same_leases db db' \<Longrightarrow> lease_inv db' = lease_inv db"
  by (simp add: lease_inv_def same_leases_def)

lemma lane_inv_frame: "same_lanes db db' \<Longrightarrow> lane_inv db' = lane_inv db"
  by (simp add: lane_inv_def same_lanes_def)

lemma control_step_cases:
  assumes "control_step env db call = Inr (db', res)" "env_ok (ce_source env)"
  obtains (lease) c r where "call = LeaseCall c"
      "lease_step (se_clock (ce_source env)) (ce_integrity env) db c = Inr (db', r)" "res = LeaseAnswer r"
      "same_ledger db db'" "same_lanes db db'"
    | (lane) c r where "call = LaneCall c" "lane_step (ce_sha env) db c = Inr (db', r)" "res = LaneAnswer r"
      "same_ledger db db'" "same_leases db db'"
    | (source) c r where "call = SourceCall c" "source_step (ce_source env) db c = Inr (db', r)"
      "res = SourceAnswer r" "same_leases db db'" "same_lanes db db'"
proof (cases call)
  case (LeaseCall c)
  then show thesis using assms lease lease_frame by (auto simp: control_step_def sbind_eq_Inr)
next
  case (LaneCall c)
  then show thesis using assms lane lane_frame by (auto simp: control_step_def sbind_eq_Inr)
next
  case (SourceCall c)
  then obtain r where r: "source_step (ce_source env) db c = Inr (db', r)" "res = SourceAnswer r"
    using assms(1) by (auto simp: control_step_def sbind_eq_Inr)
  then show thesis using SourceCall source source_frame[OF assms(2)] same_owners_iff by blast
qed

lemma control_step_inv:
  assumes "env_ok (ce_source env)" "control_inv db" "control_step env db call = Inr (db', res)"
  shows "control_inv db'" "ledger_le db db'"
proof -
  have inv: "lease_inv db" "lane_inv db" "ledger_inv db" using assms(2) by (simp_all add: control_inv_def)
  have "control_inv db' \<and> ledger_le db db'"
    using assms(3,1)
  proof (cases rule: control_step_cases)
    case (lease c r)
    then show ?thesis
      using inv lease_store.step_inv[OF inv(1) lease(2)] lane_inv_frame same_ledger_keeps
      unfolding control_inv_def keeps_ledger_def by blast
  next
    case (lane c r)
    then show ?thesis
      using inv lane_store.step_inv[OF inv(2) lane(2)] lease_inv_frame same_ledger_keeps
      unfolding control_inv_def keeps_ledger_def by blast
  next
    case (source c r)
    then show ?thesis
      using inv source_step_keeps[OF assms(1) source(2)] lease_inv_frame lane_inv_frame
      unfolding control_inv_def keeps_ledger_def by blast
  qed
  then show "control_inv db'" "ledger_le db db'" by simp_all
qed

interpretation control: txn_system "control_step env" "\<lambda>db. env_ok (ce_source env) \<and> control_inv db" for env
  by unfold_locales (use control_step_inv(1) in blast)

lemma run_control_inv:
  "env_ok (ce_source env) \<Longrightarrow> control_inv db \<Longrightarrow> control_inv (run_txns (control_step env) db calls)"
  using control.run_inv[of env db calls] by simp

lemma run_control_le:
  assumes "env_ok (ce_source env)" "control_inv db"
  shows "ledger_le db (run_txns (control_step env) db calls)"
  by (rule control.run_preorder[where R = ledger_le and env = env])
    (use assms control_step_inv(2) ledger_le_trans in auto)

text \<open>A store on which no source operation was accepted yet.\<close>

definition fresh_ledger :: "rcdb \<Rightarrow> bool" where
  "fresh_ledger db \<longleftrightarrow> lease_inv db \<and> lane_inv db \<and> same_ledger empty_db db"

lemma fresh_inv: "fresh_ledger db \<Longrightarrow> control_inv db"
  using same_ledger_keeps empty_ledger by (auto simp: fresh_ledger_def control_inv_def keeps_ledger_def)

section \<open>A story\<close>

text \<open>
  An executor takes the browser lane, accepts an operation and dies; its run is resumed, the history
  proves that nothing was dispatched, the lane is freed and the next executor authorizes the retry.
\<close>

definition demo_control :: control_env where
  "demo_control = \<lparr>ce_source = demo_env, ce_integrity = (\<lambda>_ _. None), ce_sha = (\<lambda>_. hex64 CHR ''5'')\<rparr>"

definition demo_story :: "control_call list" where
  "demo_story =
     [LeaseCall (Acquire ''r1'' ''ex'' ''+'' ''+iii'' ''l1''),
      LaneCall (LaneAcquire ''liepin_browser'' ''ex'' 7 ''boot'' (Some ''r1'') ''op1'' ''cards'' ''1'' ''2''),
      SourceCall (AcceptOperation demo_acceptance),
      LeaseCall (Release ''r1'' ''ex'' None ''+i'' ''released'' None),
      LeaseCall (UpdateStatus ''r1'' ''resume_requested'' ''+i'' None None None None None),
      SourceCall (CommitDecision demo_decision None None None),
      LaneCall (LaneResolve 1 ''r1'' ''op1'' NoEffect None ''ref1'' (hex64 CHR ''4'') ''3'' ''res1''),
      LeaseCall (Acquire ''r1'' ''ex'' ''+'' ''+iii'' ''l2''),
      SourceCall (MintEpoch demo_request demo_authority True)]"

definition demo_end :: rcdb where
  "demo_end = run_txns (control_step demo_control) (demo_db []) demo_story"

lemma demo_control_ok: "env_ok (ce_source demo_control)"
  by (simp add: demo_control_def demo_env_ok)

lemma demo_fresh: "fresh_ledger (demo_db [])"
  using demo_inv(1) by (simp add: fresh_ledger_def lane_inv_def same_ledger_def demo_db_def empty_db_def)

lemma demo_end_inv: "control_inv demo_end"
  unfolding demo_end_def by (rule run_control_inv[OF demo_control_ok fresh_inv[OF demo_fresh]])

text \<open>What the tables hold at the end, evaluated once.\<close>

definition demo_summary :: "rcdb \<Rightarrow> bool" where
  "demo_summary db \<longleftrightarrow>
     map ds_ordinal (t_outbox db) = [1, 2] \<and> t_lane_resolutions db \<noteq> [] \<and>
     fetch_operation db ''r1'' ''op1'' \<noteq> None \<and> length (operation_dispatches db ''r1'' ''op1'') = 2 \<and>
     (\<exists>l \<in> set (t_leases db). ls_status l = ''released'' \<and> ls_run l = ''r1'' \<and> ls_attempt_no l = 1) \<and>
     (\<exists>d \<in> set (t_outbox db). deliverable_now db d \<and> ds_ordinal d = 2)"

lemma demo_end_summary: "demo_summary demo_end"
  by code_simp

lemmas demo_end_tables = demo_end_summary[unfolded demo_summary_def]

definition demo_observed :: rcdb where
  "demo_observed = run_txns (control_step demo_control) (demo_db [])
     [LeaseCall (Acquire ''r1'' ''ex'' ''+'' ''+iii'' ''l1''), SourceCall (AcceptOperation demo_acceptance),
      SourceCall (AckDispatch \<lparr>da_run = ''r1'', da_operation_id = ''op1'', da_outbox_id = ''out1'',
        da_request_hash = hex64 CHR ''0'', da_intent_id = ''intent1'', da_intent_revision = 1,
        da_intent_digest = hex64 CHR ''2'', da_ordinal = 1, da_expected_outbox_revision = 1,
        da_sidecar_generation = 1, da_sidecar_journal_revision = 1, da_ack_ref = ''ack'',
        da_ack_kind = ''new_logical_operation'', da_acknowledged_at = ''+i''\<rparr>),
      SourceCall (OwnedObservation ''r1'' ''op1'' ''ex'' 1 1 ''intent'' ''obs'' ''completed'' ''+i'')]"

lemma demo_observed_inv: "control_inv demo_observed"
  unfolding demo_observed_def by (rule run_control_inv[OF demo_control_ok fresh_inv[OF demo_fresh]])

lemma demo_observed_row:
  "map_option op_observation_ref (fetch_operation demo_observed ''r1'' ''op1'') = Some (Some ''obs'') \<and>
   map ds_status (t_outbox demo_observed) = [''acknowledged'']"
  by code_simp

section \<open>The ledger under all calls\<close>

text \<open>An operation row once seen is still there, larger in the order of the ledger.\<close>

lemma later_operation:
  assumes "ledger_le db db'" "ledger_inv db'" "fetch_operation db rid oid = Some r"
  obtains u where "fetch_operation db' rid oid = Some u" "op_le r u"
    "op_observation_ref r \<noteq> None \<Longrightarrow> epochs db' (op_key r) = epochs db (op_key r)"
proof -
  have r: "r \<in> set (t_operations db)" "op_run r = rid" "op_operation_id r = oid"
    using assms(3) by (auto simp: fetch_operation_def dest: fetchone_SomeD)
  then obtain u where u: "u \<in> set (t_operations db')" "op_le r u"
      "op_observation_ref r \<noteq> None \<longrightarrow> epochs db' (op_key r) = epochs db (op_key r)"
    using assms(1) unfolding ledger_le_def by blast
  have "op_run u = rid" "op_operation_id u = oid" using op_le_key[OF u(2)] r by (simp_all add: op_key_def)
  then have "fetch_operation db' rid oid = Some u"
    using fetchone_keyed[OF ledger_invD(1)[OF assms(2)] u(1), of "\<lambda>x. op_run x = rid \<and> op_operation_id x = oid"]
    by (auto simp: fetch_operation_def op_key_def)
  then show thesis using that u by blast
qed

text \<open>An operation with an observation, or committed by the main process, is deliverable no more.\<close>

lemma observed_not_deliverable:
  assumes "fetch_operation db (ds_run d) (ds_operation_id d) = Some u" "op_observation_ref u \<noteq> None"
  shows "\<not> deliverable_now db d"
  using assms by (auto simp: deliverable_now_def currently_deliverable_def split: option.splits)

lemma listed_deliverable:
  assumes "list_pending_source_dispatches digest db limit = Inr ds" "d \<in> set ds"
  shows "deliverable_now db d"
proof -
  have "pending_pages digest db (nat limit) (pending_dispatches db) 0 [] = Inr ds"
    using assms(1) by (simp add: list_pending_source_dispatches_def pending_dispatches_def split: if_splits)
  from pending_pages_filter[OF this] have "d \<in> set (filter (deliverable_now db) (pending_dispatches db))"
    using assms(2) by (auto dest: in_set_takeD)
  then show ?thesis by simp
qed

text \<open>
  C2: An observation is final. Once an operation has a conclusive observation, then after any
  calls of any component and process it keeps that observation, its dispatch and its disposition, it
  gets no further epoch, and none of its dispatches is handed out again.
\<close>

theorem observed_operation_final:
  assumes env: "env_ok (ce_source env)" and inv: "control_inv db"
    and r: "fetch_operation db rid oid = Some r" "op_observation_ref r \<noteq> None"
    and db': "db' = run_txns (control_step env) db calls"
  shows "(\<exists>u. fetch_operation db' rid oid = Some u \<and> op_observation_ref u = op_observation_ref r \<and>
      op_dispatch_intent_ref u = op_dispatch_intent_ref r \<and> op_disposition u = op_disposition r \<and>
      op_retry_posture u = ''no_retry'') \<and>
    epochs db' (rid, oid) = epochs db (rid, oid) \<and>
    (list_pending_source_dispatches digest db' limit = Inr ds \<longrightarrow> (rid, oid) \<notin> ds_key ` set ds)"
proof -
  have inv': "ledger_inv db'" and le: "ledger_le db db'"
    using run_control_inv[OF env inv] run_control_le[OF env inv] unfolding db' control_inv_def by blast+
  obtain u where u: "fetch_operation db' rid oid = Some u" "op_le r u"
      "op_observation_ref r \<noteq> None \<Longrightarrow> epochs db' (op_key r) = epochs db (op_key r)"
    using later_operation[OF le inv' r(1)] by blast
  note obs = op_le_observed[OF u(2) r(2)]
  have key: "op_key r = (rid, oid)" using r(1) by (auto simp: fetch_operation_def op_key_def dest: fetchone_SomeD)
  have "u \<in> set (t_operations db')" using u(1) by (auto simp: fetch_operation_def dest: fetchone_SomeD)
  then have "op_retry_posture u = ''no_retry''" using op_okD(7)[OF ledger_invD(2)[OF inv']] obs r(2) by metis
  moreover have "(rid, oid) \<notin> ds_key ` set ds" if "list_pending_source_dispatches digest db' limit = Inr ds"
    using listed_deliverable[OF that] observed_not_deliverable[of db' _ u] u(1) obs r(2)
    by (fastforce simp: ds_key_def)
  ultimately show ?thesis using u obs key r(2) by auto
qed

theorem observed_operation_final_witness:
  "\<exists>u. fetch_operation (run_txns (control_step demo_control) demo_observed demo_story) ''r1'' ''op1'' = Some u \<and>
     op_observation_ref u = Some ''obs''"
proof -
  obtain r where r: "fetch_operation demo_observed ''r1'' ''op1'' = Some r" "op_observation_ref r = Some ''obs''"
    using demo_observed_row by auto
  then show ?thesis
    using observed_operation_final[OF demo_control_ok demo_observed_inv r(1) _ refl, of demo_story "\<lambda>_. []" 1 "[]"] by auto
qed

text \<open>An outbox row seen through the epochs of its operation.\<close>

lemma outbox_epoch:
  assumes "ledger_inv db" "d \<in> set (t_outbox db)"
  obtains r where "r \<in> set (t_operations db)" "op_key r = ds_key d" "dispatch_core d \<in> set (epochs db (op_key r))"
    "epoch_linked db r (dispatch_core d)" "epochs_numbered db (epochs db (op_key r))"
proof -
  obtain r where r: "r \<in> set (t_operations db)" "op_key r = ds_key d"
    using ledger_invD(5)[OF assms] by (metis imageE)
  then have e: "dispatch_core d \<in> set (epochs db (op_key r))" using assms(2) by (auto simp: epochs_def)
  then show thesis using that r ledger_invD(3)[OF assms(1) r(1)] unfolding op_epochs_ok_def by blast
qed

text \<open>
  C1: No effect is authorized twice without proof that the first one did not happen. Starting from
  an empty ledger, whatever calls the components make, every dispatch after the first one of an
  operation names a stored reconciliation that proved that nothing was dispatched, committed before
  it, and no two dispatches of an operation name the same one.
\<close>

theorem retry_epochs_backed:
  assumes env: "env_ok (ce_source env)" and fresh: "fresh_ledger db"
    and db': "db' = run_txns (control_step env) db calls"
    and d: "d \<in> set (t_outbox db')" "1 < ds_ordinal d"
  shows "(\<exists>n \<in> set (t_reconciliations db'). ds_safe_retry_commit_ref d = Some (rn_reconciliation_id n) \<and>
      (rn_run n, rn_operation_id n) = ds_key d \<and> rn_decision_kind n = ''no_dispatch_proved'' \<and>
      rn_dispatch_intent_ref n = None \<and> rn_observation_ref n = None \<and>
      rn_committed_ledger_revision n < ds_expected_ledger_revision d) \<and>
    (\<forall>x \<in> set (t_outbox db'). ds_key x = ds_key d \<and>
       ds_safe_retry_commit_ref x = ds_safe_retry_commit_ref d \<longrightarrow> ds_ordinal x = ds_ordinal d)"
proof -
  have inv: "ledger_inv db'"
    using run_control_inv[OF env fresh_inv[OF fresh]] unfolding db' control_inv_def by blast
  obtain r where r: "op_key r = ds_key d" "dispatch_core d \<in> set (epochs db' (op_key r))"
      "epoch_linked db' r (dispatch_core d)" "epochs_numbered db' (epochs db' (op_key r))"
    using outbox_epoch[OF inv d(1)] by blast
  obtain n where n: "n \<in> set (t_reconciliations db')" "retry_proof (dispatch_core d) n"
    using r(3) d(2) by (auto simp: epoch_linked_def)
  have "ds_ordinal x = ds_ordinal d"
    if x: "x \<in> set (t_outbox db')" "ds_key x = ds_key d" "ds_safe_retry_commit_ref x = ds_safe_retry_commit_ref d" for x
  proof -
    have "dispatch_core x \<in> set (epochs db' (op_key r))" using x r(1) by (auto simp: epochs_def)
    moreover have "distinct (List.map_filter ds_safe_retry_commit_ref (epochs db' (op_key r)))"
      using r(4) by (simp add: epochs_numbered_def)
    ultimately have "dispatch_core x = dispatch_core d"
      using map_filter_distinct[of ds_safe_retry_commit_ref _ "dispatch_core x" "dispatch_core d"] r(2) x(3) n(2)
      by (simp add: retry_proof_def)
    then show ?thesis by (metis dispatch_core_fields(2))
  qed
  then show ?thesis using n by (auto simp: retry_proof_def intro!: bexI[of _ n])
qed

theorem retry_epochs_backed_witness:
  "\<exists>d \<in> set (t_outbox demo_end). ds_ordinal d = 2 \<and>
     (\<exists>n \<in> set (t_reconciliations demo_end). ds_safe_retry_commit_ref d = Some (rn_reconciliation_id n))"
proof -
  have "2 \<in> set (map ds_ordinal (t_outbox demo_end))" using demo_end_tables by simp
  then obtain d where d: "d \<in> set (t_outbox demo_end)" "ds_ordinal d = 2" by auto
  then show ?thesis
    using retry_epochs_backed[OF demo_control_ok demo_fresh demo_end_def d(1)] by auto
qed

text \<open>
  The dispatches of an operation are numbered without a gap. From an empty ledger and after any
  calls, the outbox rows of an operation have the ordinals 1, 2, .. in the order of their insertion,
  each has its expectation, and intent revisions, expected revisions and attempt numbers grow.
\<close>

theorem dispatches_numbered:
  assumes env: "env_ok (ce_source env)" and fresh: "fresh_ledger db"
    and db': "db' = run_txns (control_step env) db calls"
    and r: "fetch_operation db' rid oid = Some r"
    and ds: "ds = operation_dispatches db' rid oid"
  shows "ds \<noteq> [] \<and> map ds_ordinal ds = [1 .. int (length ds)] \<and> sorted_wrt (<) (map ds_intent_revision ds) \<and>
    sorted_wrt (<) (map ds_expected_ledger_revision ds) \<and>
    (\<exists>es. map (\<lambda>d. fetch_expectation db' rid oid (ds_ordinal d)) ds = map Some es \<and>
       sorted_wrt (<) (map ex_attempt_no es))"
proof -
  have inv: "ledger_inv db'"
    using run_control_inv[OF env fresh_inv[OF fresh]] unfolding db' control_inv_def by blast
  have rk: "r \<in> set (t_operations db')" "op_key r = (rid, oid)"
    using r by (auto simp: fetch_operation_def op_key_def dest: fetchone_SomeD)
  have e: "epochs db' (op_key r) = map dispatch_core ds"
    by (simp add: epochs_def ds operation_dispatches_def rk(2) ds_key_def)
  have num: "epochs_numbered db' (map dispatch_core ds)"
    using ledger_invD(3)[OF inv rk(1)] by (simp add: op_epochs_ok_def e)
  let ?f = "\<lambda>d. fetch_expectation db' rid oid (ds_ordinal d)"
  have key: "\<forall>d \<in> set ds. ds_run d = rid \<and> ds_operation_id d = oid" by (auto simp: ds operation_dispatches_def)
  then have att: "\<forall>d \<in> set ds. epoch_attempt db' (dispatch_core d) = map_option ex_attempt_no (?f d)"
    by (simp add: epoch_attempt_def)
  then have some: "\<forall>d \<in> set ds. ?f d \<noteq> None" using num by (auto simp: epochs_numbered_def)
  define es where "es = map (\<lambda>d. the (?f d)) ds"
  have "map ?f ds = map Some es" using some by (auto simp: es_def)
  moreover have "List.map_filter (epoch_attempt db') (map dispatch_core ds) = map ex_attempt_no es"
    unfolding es_def using att some by (induction ds) (auto simp: List.map_filter_simps)
  ultimately show ?thesis
    using num by (auto simp: epochs_numbered_def comp_def)
qed

theorem dispatches_numbered_witness:
  "map ds_ordinal (operation_dispatches demo_end ''r1'' ''op1'') = [1, 2]"
proof -
  have e: "fetch_operation demo_end ''r1'' ''op1'' \<noteq> None \<and>
      length (operation_dispatches demo_end ''r1'' ''op1'') = 2" using demo_end_tables by blast
  then obtain r where "fetch_operation demo_end ''r1'' ''op1'' = Some r" by blast
  from dispatches_numbered[OF demo_control_ok demo_fresh demo_end_def this refl] e
  have "map ds_ordinal (operation_dispatches demo_end ''r1'' ''op1'') = [1 .. 2]" by simp
  also have "[1 .. 2] = [1, 2 :: int]" by code_simp
  finally show ?thesis .
qed

interpretation reconciliation_log: append_log "control_step env" "\<lambda>db. env_ok (ce_source env) \<and> control_inv db"
    t_reconciliations for env
  by unfold_locales (use control_step_inv(2) in \<open>auto simp: ledger_le_def\<close>)

text \<open>
  The ledger revision versions an operation. After any calls its row is the one of before or has a
  larger ledger revision; what its acceptance fixed never changes; a row committed by the main
  process stays exactly as it is; and every reconciliation once stored stays.
\<close>

theorem ledger_revision_versions_row:
  assumes env: "env_ok (ce_source env)" and inv: "control_inv db" and r: "fetch_operation db rid oid = Some r"
    and db': "db' = run_txns (control_step env) db calls"
  shows "(\<exists>u. fetch_operation db' rid oid = Some u \<and> op_core u = op_core r \<and>
      (u = r \<or> op_ledger_revision r < op_ledger_revision u \<and> op_main_commit_ref r = None)) \<and>
    (\<exists>ns. t_reconciliations db' = t_reconciliations db @ ns)"
proof -
  have "ledger_inv db'" "ledger_le db db'"
    using run_control_inv[OF env inv] run_control_le[OF env inv] unfolding db' control_inv_def by blast+
  then obtain u where "fetch_operation db' rid oid = Some u" "op_le r u"
    using later_operation[OF _ _ r] by blast
  then show ?thesis
    using reconciliation_log.run_append[of env db calls] env inv unfolding db' op_le_def by blast
qed

theorem ledger_revision_versions_row_witness:
  "\<exists>u. fetch_operation (run_txns (control_step demo_control) demo_accepted demo_story) ''r1'' ''op1'' = Some u \<and>
     op_core u = op_core (new_operation demo_acceptance)"
proof -
  have r: "fetch_operation demo_accepted ''r1'' ''op1'' = Some (new_operation demo_acceptance)"
    unfolding demo_accepted_eq by code_simp
  have "ledger_inv demo_accepted"
    unfolding demo_accepted_def by (rule run_sources_inv[OF demo_env_ok demo_source_inv])
  moreover have "t_runs demo_accepted = t_runs (demo_db [demo_lease ''l1'' 1 ''active'']) \<and>
      t_leases demo_accepted = t_leases (demo_db [demo_lease ''l1'' 1 ''active'']) \<and>
      t_browser_lanes demo_accepted = [] \<and> t_lane_resolutions demo_accepted = []"
    unfolding demo_accepted_eq by code_simp
  ultimately have "control_inv demo_accepted"
    using demo_inv(2)[of "''active''"] by (auto simp: control_inv_def lease_inv_def lane_inv_def)
  from ledger_revision_versions_row[OF demo_control_ok this r refl, of demo_story] show ?thesis by blast
qed

section \<open>Two components\<close>

text \<open>
  What a resolution of the browser lane rests on: for \<open>no_effect\<close> a stored proof that nothing was
  dispatched, for \<open>unknown\<close> a stored unresolved reconciliation, for \<open>terminal_observed\<close> an operation
  with a conclusive observation.
\<close>

definition resolution_backed :: "rcdb \<Rightarrow> lane_resolution_row \<Rightarrow> bool" where
  "resolution_backed db x \<longleftrightarrow>
     (let proof_of = (\<lambda>k n. rn_run n = lr_run x \<and> rn_operation_id n = lr_operation_id x \<and> rn_decision_kind n = k \<and>
            rn_history_result_ref n = lr_evidence_ref x \<and> rn_history_result_digest n = lr_evidence_digest x)
      in if lr_outcome x = ''no_effect''
         then \<exists>n \<in> set (t_reconciliations db). proof_of ''no_dispatch_proved'' n \<and> rn_dispatch_intent_ref n = None
         else if lr_outcome x = ''unknown'' then \<exists>n \<in> set (t_reconciliations db). proof_of ''unresolved'' n
         else lr_outcome x = ''terminal_observed'' \<and>
           (\<exists>r \<in> set (t_operations db). op_key r = (lr_run x, lr_operation_id x) \<and> op_observation_ref r \<noteq> None \<and>
              (op_observation_ref r = Some (lr_evidence_ref x) \<or>
               (\<exists>n \<in> set (t_reconciliations db). proof_of ''conclusive_observation'' n \<and>
                  rn_observation_ref n = op_observation_ref r))))"

lemma resolution_backed_le:
  assumes "resolution_backed db x" "ledger_le db db'"
  shows "resolution_backed db' x"
proof -
  obtain ns where ns: "t_reconciliations db' = t_reconciliations db @ ns" using assms(2) by (auto simp: ledger_le_def)
  have op: "\<exists>u \<in> set (t_operations db'). op_key u = op_key r \<and> op_observation_ref u = op_observation_ref r"
    if "r \<in> set (t_operations db)" "op_observation_ref r \<noteq> None" for r
  proof -
    obtain u where "u \<in> set (t_operations db')" "op_le r u" using assms(2) \<open>r \<in> set (t_operations db)\<close> by (auto simp: ledger_le_def)
    then show ?thesis using op_le_key op_le_observed that(2) by blast
  qed
  show ?thesis
  proof (cases "lr_outcome x = ''terminal_observed''")
    case True
    then obtain r where r: "r \<in> set (t_operations db)" "op_key r = (lr_run x, lr_operation_id x)" "op_observation_ref r \<noteq> None"
        "op_observation_ref r = Some (lr_evidence_ref x) \<or>
         (\<exists>n \<in> set (t_reconciliations db). rn_run n = lr_run x \<and> rn_operation_id n = lr_operation_id x \<and>
            rn_decision_kind n = ''conclusive_observation'' \<and> rn_history_result_ref n = lr_evidence_ref x \<and>
            rn_history_result_digest n = lr_evidence_digest x \<and> rn_observation_ref n = op_observation_ref r)"
      using assms(1) unfolding resolution_backed_def Let_def by auto
    obtain u where u: "u \<in> set (t_operations db')" "op_key u = op_key r" "op_observation_ref u = op_observation_ref r"
      using op[OF r(1,3)] by blast
    show ?thesis using True u r unfolding resolution_backed_def Let_def ns
      by (auto intro!: bexI[of _ u])
  next
    case False
    then show ?thesis using assms(1) unfolding resolution_backed_def Let_def ns by (auto split: if_splits)
  qed
qed

lemma resolve_backed:
  assumes "resolve_expired_browser_lane_after_reconciliation db n rid oid out hc ref dig at fresh = Inr (db', b)"
  shows "\<exists>x. t_lane_resolutions db' = t_lane_resolutions db @ [x] \<and> resolution_backed db x"
proof -
  from assms obtain r rn x db1 where
    r: "fetch_operation db rid oid = Some r" and rn: "evidence_row db rid oid ref dig hc = Some rn"
      "rn_decision_kind rn = expected_decision out"
      "out = NoEffect \<longrightarrow> rn_dispatch_intent_ref rn = None"
      "out = TerminalObserved \<longrightarrow> op_observation_ref r \<noteq> None \<and> rn_observation_ref rn = op_observation_ref r"
    and x: "insert_resolution x db = Inr db1" "lr_run x = rid" "lr_operation_id x = oid"
      "lr_outcome x = lane_outcome_text out" "lr_evidence_ref x = ref" "lr_evidence_digest x = dig"
    and db': "db' = db1 \<or> db' = terminalize_lane n at db1"
    by (auto simp: resolve_expired_browser_lane_after_reconciliation_def sbind_eq_Inr split: if_splits)
  have m: "rn \<in> set (t_reconciliations db)" "rn_run rn = rid" "rn_operation_id rn = oid"
      "rn_history_result_ref rn = ref" "rn_history_result_digest rn = dig"
    using rn(1) by (auto simp: evidence_row_def dest: max_by_SomeD)
  have op: "r \<in> set (t_operations db)" "op_key r = (rid, oid)"
    using r by (auto simp: fetch_operation_def op_key_def dest: fetchone_SomeD)
  have "resolution_backed db x"
    unfolding resolution_backed_def Let_def using x(2-) rn m op
    by (cases out) (auto intro!: bexI[of _ rn] bexI[of _ r])
  then show ?thesis using insert_resolution_InrD[OF x(1)] db' by auto
qed

lemma lane_resolutions_new:
  assumes "lane_step sha db c = Inr (db', res)"
  shows "\<forall>x \<in> set (t_lane_resolutions db'). x \<in> set (t_lane_resolutions db) \<or> resolution_backed db x"
proof (cases c)
  case (LaneResolve n rid oid out hc ref dig at fresh)
  then obtain b where "resolve_expired_browser_lane_after_reconciliation db n rid oid out hc ref dig at fresh = Inr (db', b)"
    using assms by (auto simp: lane_returning_Inr)
  from resolve_backed[OF this] show ?thesis by auto
next
  case (LaneReconcile lane at fresh)
  then obtain r where "reconcile_observed_lane lane db at fresh = Inr (db', r)"
    using assms by (auto simp: lane_returning_Inr)
  then consider "t_lane_resolutions db' = t_lane_resolutions db"
    | n rid oid out hc ref dig b where
      "resolve_expired_browser_lane_after_reconciliation db n rid oid out hc ref dig at fresh = Inr (db', b)"
    by (auto simp: reconcile_observed_lane_def Let_def sbind_eq_Inr split_beta split: option.splits if_splits)
  then show ?thesis using resolve_backed by cases fastforce+
next
  case (LaneObserved rid oid at fresh)
  then obtain b where b: "resolve_browser_lane_from_conclusive_observation sha db rid oid at fresh = Inr (db', b)"
    using assms by (auto simp: lane_returning_Inr)
  show ?thesis
  proof (cases "t_lane_resolutions db' = t_lane_resolutions db")
    case False
    then obtain r x ref db1 where r: "fetch_operation db rid oid = Some r" "op_observation_ref r = Some ref"
        and x: "insert_resolution x db = Inr db1" "lr_run x = rid" "lr_operation_id x = oid"
          "lr_outcome x = ''terminal_observed''" "lr_evidence_ref x = ref"
        and db': "t_lane_resolutions db' = t_lane_resolutions db1"
      using b by (auto simp: resolve_browser_lane_from_conclusive_observation_def sbind_eq_Inr
          split: option.splits if_splits)
    have "r \<in> set (t_operations db)" "op_key r = (rid, oid)"
      using r by (auto simp: fetch_operation_def op_key_def dest: fetchone_SomeD)
    then have "resolution_backed db x"
      unfolding resolution_backed_def Let_def using x(2-) r(2) by (auto intro!: bexI[of _ r])
    then show ?thesis using insert_resolution_InrD[OF x(1)] db' by auto
  qed simp
qed (use assms in \<open>auto simp: lane_returning_Inr try_acquire_browser_lane_def heartbeat_browser_lane_def
      release_browser_lane_def mark_browser_lane_unresolved_def upsert_lane_def Let_def
      sbind_eq_Inr split: if_splits option.splits\<close>)

definition all_backed :: "rcdb \<Rightarrow> bool" where
  "all_backed db \<longleftrightarrow> (\<forall>x \<in> set (t_lane_resolutions db). resolution_backed db x)"

lemma control_step_backed:
  assumes env: "env_ok (ce_source env)" and inv: "control_inv db" "all_backed db"
    and s: "control_step env db call = Inr (db', res)"
  shows "all_backed db'"
proof -
  note le = control_step_inv(2)[OF env inv(1) s]
  have "\<forall>x \<in> set (t_lane_resolutions db'). x \<in> set (t_lane_resolutions db) \<or> resolution_backed db x"
    using s env
  proof (cases rule: control_step_cases)
    case (lane c r)
    then show ?thesis using lane_resolutions_new by blast
  qed (simp_all add: same_lanes_def)
  then show ?thesis using inv(2) resolution_backed_le[OF _ le] unfolding all_backed_def by blast
qed

interpretation backed: txn_system "control_step env" "\<lambda>db. env_ok (ce_source env) \<and> control_inv db \<and> all_backed db" for env
  by unfold_locales (use control_step_inv(1) control_step_backed in blast)

text \<open>
  C4: The browser fence is never ended on hearsay. From a store without resolutions and after any calls
  of all components, every recorded resolution of the browser lane is backed by the ledger as it is
  now: \<open>no_effect\<close> by a stored proof that nothing was dispatched, \<open>terminal_observed\<close> by an operation
  that still has the observation named, \<open>unknown\<close> by an unresolved reconciliation.
\<close>

theorem lane_resolutions_backed:
  assumes env: "env_ok (ce_source env)" and inv: "control_inv db" "t_lane_resolutions db = []"
    and x: "x \<in> set (t_lane_resolutions (run_txns (control_step env) db calls))"
  shows "resolution_backed (run_txns (control_step env) db calls) x"
proof -
  have "all_backed db" using inv(2) by (simp add: all_backed_def)
  then have "all_backed (run_txns (control_step env) db calls)"
    using backed.run_inv[of env db calls] env inv(1) by simp
  then show ?thesis using x by (simp add: all_backed_def)
qed

theorem lane_resolutions_backed_witness:
  "\<exists>x \<in> set (t_lane_resolutions demo_end). resolution_backed demo_end x"
proof -
  have "t_lane_resolutions demo_end \<noteq> []" using demo_end_tables by auto
  then have x: "hd (t_lane_resolutions demo_end) \<in> set (t_lane_resolutions demo_end)" by simp
  have "t_lane_resolutions (demo_db []) = []" by (simp add: demo_db_def empty_db_def)
  from lane_resolutions_backed[OF demo_control_ok fresh_inv[OF demo_fresh] this x[unfolded demo_end_def]] x
  show ?thesis unfolding demo_end_def by blast
qed

lemma retired_control_run:
  assumes env: "env_ok (ce_source env)" and inv: "control_inv db"
    and l: "l \<in> set (t_leases db)" "ls_status l \<noteq> ''active''"
  shows "l \<in> set (t_leases (run_txns (control_step env) db calls))"
proof -
  let ?R = "\<lambda>x y. \<forall>l \<in> set (t_leases x). ls_status l \<noteq> ''active'' \<longrightarrow> l \<in> set (t_leases y)"
  have "?R x y" if "env_ok (ce_source env) \<and> control_inv x" "control_step env x a = Inr (y, r)" for x a y r
    using that(2) env
  proof (cases rule: control_step_cases)
    case (lease c r)
    then show ?thesis using retired_step that(1) by (auto simp: control_inv_def)
  qed (simp_all add: same_leases_def)
  then have "?R db (run_txns (control_step env) db calls)"
    by (intro control.run_preorder[where R = ?R and env = env]) (use env inv in auto)
  then show ?thesis using l by blast
qed

lemma retired_not_current:
  assumes "lease_inv db" "l \<in> set (t_leases db)" "ls_status l \<noteq> ''active''" "active_lease_row db rid = Some k"
  shows "ls_lease_id k \<noteq> ls_lease_id l"
proof
  assume e: "ls_lease_id k = ls_lease_id l"
  have "k \<in> set (t_leases db)" "ls_status k = ''active''"
    using assms(4) by (auto simp: active_lease_row_def active_leases_def dest: max_by_SomeD)
  then show False using distinct_key_eq[of ls_lease_id "t_leases db" k l] assms e by (auto simp: lease_inv_def)
qed

text \<open>
  C3: A retired executor has no hand in the ledger. Once its lease ended, then after any calls of all
  components its observations and reconciliations are refused, and a retry requested under its
  lease is refused unless the retry had been authorized before, in which case nothing is written to
  the outbox.
\<close>

theorem retired_executor_writes_nothing:
  assumes env: "env_ok (ce_source env)" and inv: "control_inv db"
    and l: "l \<in> set (t_leases db)" "ls_status l \<noteq> ''active''"
    and db': "db' = run_txns (control_step env) db calls"
    and disp: "disp \<in> set source_operation_dispositions"
    and hist: "outcome \<in> {''matched'', ''not_found'', ''history_unavailable''}"
      "conclusion \<in> {None, Some ''accepted_no_dispatch'', Some ''dispatch_not_observed''}"
  shows "record_owned_source_operation_observation ck db' (ls_run l) oid ex (ls_attempt_no l) ledger intent
      observation disp at = rc_fail ''runtime_executor_stale'' \<and>
    record_owned_source_reconciliation_unknown ck db' (ls_run l) oid ex (ls_attempt_no l) ledger revision ref dg
      outcome conclusion intent2 at = rc_fail ''runtime_executor_stale'' \<and>
    (ta_lease_id t = ls_lease_id l \<and>
      mint_safe_retry_dispatch_epoch ck digest (se_advance (ce_source env)) db' q t issued = Inr (db2, acc) \<longrightarrow>
      t_outbox db2 = t_outbox db')"
proof -
  have inv': "lease_inv db'"
    using run_control_inv[OF env inv] unfolding db' control_inv_def by blast
  have l': "l \<in> set (t_leases db')" unfolding db' by (rule retired_control_run[OF env inv l])
  note stale = retired_stale[OF inv' l' l(2)]
  have "t_outbox db2 = t_outbox db'" if t: "ta_lease_id t = ls_lease_id l"
    and m: "mint_safe_retry_dispatch_epoch ck digest (se_advance (ce_source env)) db' q t issued = Inr (db2, acc)"
    using m
  proof (cases rule: mint_parts)
    case (replay d)
    then show ?thesis using env by (cases acc) (auto simp: env_ok_def same_ledger_def)
  next
    case (new r n previous h db1)
    obtain k where "active_lease_row db' (op_run r) = Some k" "ls_lease_id k = ta_lease_id t"
      using next_epoch_parts(4)[OF new(6)] by blast
    then show ?thesis using retired_not_current[OF inv' l' l(2)] t by simp
  qed
  then show ?thesis
    using disp hist stale
    by (simp add: record_owned_source_operation_observation_def record_owned_source_reconciliation_unknown_def)
qed

theorem retired_executor_writes_nothing_witness:
  "record_owned_source_operation_observation tally_clock
     (run_txns (control_step demo_control) demo_end [LeaseCall (Expire ''+'' 1)]) ''r1'' ''op1'' ''ex'' 1 1
     ''intent'' ''obs'' ''completed'' ''+i'' = rc_fail ''runtime_executor_stale''"
proof -
  have "\<exists>l \<in> set (t_leases demo_end). ls_status l = ''released'' \<and> ls_run l = ''r1'' \<and> ls_attempt_no l = 1"
    using demo_end_tables by blast
  then obtain l where l: "l \<in> set (t_leases demo_end)" "ls_status l \<noteq> ''active''" "ls_run l = ''r1''" "ls_attempt_no l = 1"
    by auto
  show ?thesis
    using retired_executor_writes_nothing[OF demo_control_ok demo_end_inv l(1,2) refl,
        where disp = "''completed''" and outcome = "''matched''" and conclusion = None and ck = tally_clock and
          oid = "''op1''" and ex = "''ex''" and ledger = 1 and intent = "''intent''" and observation = "''obs''" and
          at = "''+i''" and calls = "[LeaseCall (Expire ''+'' 1)]"] l(3,4)
    by (simp add: source_operation_dispositions_def)
qed

text \<open>
  C5: At most one dispatch of an operation can be handed out at a time, whatever calls were made: the
  newest one.
\<close>

theorem one_deliverable_dispatch:
  assumes env: "env_ok (ce_source env)" and fresh: "fresh_ledger db"
    and db': "db' = run_txns (control_step env) db calls"
    and d: "d \<in> set (t_outbox db')" "deliverable_now db' d"
    and x: "x \<in> set (t_outbox db')" "deliverable_now db' x" "ds_key x = ds_key d"
  shows "x = d \<and> (\<forall>y \<in> set (t_outbox db'). ds_key y = ds_key d \<longrightarrow> ds_ordinal y \<le> ds_ordinal d)"
proof -
  have inv: "ledger_inv db'"
    using run_control_inv[OF env fresh_inv[OF fresh]] unfolding db' control_inv_def by blast
  obtain l where l: "latest_source_dispatch db' (ds_run d) (ds_operation_id d) = Some l"
      "ds_ordinal d = ds_ordinal l" "ds_ordinal x = ds_ordinal l"
    using d(2) x(2,3) by (auto simp: deliverable_now_def currently_deliverable_def ds_key_def split: option.splits)
  obtain r where r: "op_key r = ds_key d" "epochs_numbered db' (epochs db' (op_key r))"
    using outbox_epoch[OF inv d(1)] by blast
  let ?ds = "filter (\<lambda>y. ds_key y = ds_key d) (t_outbox db')"
  have "distinct (map ds_ordinal (map dispatch_core ?ds))"
    using r by (simp add: epochs_numbered_def epochs_def)
  then have "distinct (map ds_ordinal ?ds)" by (simp add: comp_def)
  then have "x = d" using distinct_key_eq[of ds_ordinal ?ds x d] d(1) x(1,3) l(2,3) by simp
  moreover have "ds_ordinal y \<le> ds_ordinal d" if "y \<in> set (t_outbox db')" "ds_key y = ds_key d" for y
    using max_by_SomeD[of ds_ordinal _ l] l(1,2) that
    by (auto simp: latest_source_dispatch_def operation_dispatches_def ds_key_def)
  ultimately show ?thesis by blast
qed

theorem one_deliverable_dispatch_witness:
  "\<exists>d \<in> set (t_outbox demo_end). deliverable_now demo_end d \<and> ds_ordinal d = 2 \<and>
     \<not> (\<exists>x \<in> set (t_outbox demo_end). deliverable_now demo_end x \<and> ds_key x = ds_key d \<and> x \<noteq> d)"
proof -
  obtain d where d: "d \<in> set (t_outbox demo_end)" "deliverable_now demo_end d" "ds_ordinal d = 2"
    using demo_end_tables by blast
  then show ?thesis
    using one_deliverable_dispatch[OF demo_control_ok demo_fresh demo_end_def d(1,2)] by blast
qed

end
