(* ===== verification/PyJson.thy ===== *)
theory PyJson
  imports Prelude
begin

text \<open>
  Values of Python and their compact JSON text: what the stores use of the \<open>json\<close> module,
  \<open>json.dumps(value, ensure_ascii=True, separators=(",", ":"), sort_keys=True)\<close> and
  \<open>json.loads\<close>. A text is the list of its UTF-8 bytes, so the escapes decode it to code points
  and write those above 65535 as a surrogate pair; a byte that is no UTF-8 stands for the lone
  surrogate that Python's \<open>surrogateescape\<close> gives it, so every list of bytes is a text. Floats are
  not modelled. \<open>loads\<close> accepts the
  texts \<open>dumps\<close> writes and other compact texts; the callers compare the text with the dump of the
  value they read, so a text that only the real parser accepts is refused by both. The main fact
  is the round trip \<open>loads_dumps\<close>.
\<close>

section \<open>Values\<close>

datatype pyval =
    PyNone
  | PyBool bool
  | PyInt int
  | PyStr string
  | PyList "pyval list"
  | PyTuple "pyval list"
  | PyDict "(string \<times> pyval) list"

text \<open>
  \<open>==\<close>: a bool is the number it stands for, a list is no tuple, and dicts are compared without
  their order, which \<open>py_key\<close> forgets.
\<close>

primrec py_key :: "pyval \<Rightarrow> pyval" where
  "py_key PyNone = PyNone"
| "py_key (PyBool b) = PyInt (if b then 1 else 0)"
| "py_key (PyInt i) = PyInt i"
| "py_key (PyStr s) = PyStr s"
| "py_key (PyList vs) = PyList (map py_key vs)"
| "py_key (PyTuple vs) = PyTuple (map py_key vs)"
| "py_key (PyDict kvs) = PyDict (sort_key fst (map (map_prod (\<lambda>k. k) py_key) kvs))"

definition py_eq :: "pyval \<Rightarrow> pyval \<Rightarrow> bool" where
  "py_eq v w \<longleftrightarrow> py_key v = py_key w"

text \<open>The value read back from the text: tuples have become lists, dicts are in key order.\<close>

primrec canon :: "pyval \<Rightarrow> pyval" where
  "canon PyNone = PyNone"
| "canon (PyBool b) = PyBool b"
| "canon (PyInt i) = PyInt i"
| "canon (PyStr s) = PyStr s"
| "canon (PyList vs) = PyList (map canon vs)"
| "canon (PyTuple vs) = PyList (map canon vs)"
| "canon (PyDict kvs) = PyDict (sort_key fst (map (map_prod (\<lambda>k. k) canon) kvs))"

primrec has_tuple :: "pyval \<Rightarrow> bool" where
  "has_tuple PyNone = False"
| "has_tuple (PyBool b) = False"
| "has_tuple (PyInt i) = False"
| "has_tuple (PyStr s) = False"
| "has_tuple (PyList vs) = list_ex id (map has_tuple vs)"
| "has_tuple (PyTuple vs) = True"
| "has_tuple (PyDict kvs) = list_ex snd (map (map_prod (\<lambda>k. k) has_tuple) kvs)"

section \<open>UTF-8\<close>

definition continuation_byte :: "int \<Rightarrow> bool" where
  "continuation_byte b \<longleftrightarrow> 128 \<le> b \<and> b < 192"

definition scalar :: "int \<Rightarrow> bool" where
  "scalar p \<longleftrightarrow> 0 \<le> p \<and> p < 55296 \<or> 57344 \<le> p \<and> p \<le> 1114111"

text \<open>The code point that a leading byte above 127 begins, and the bytes after it.\<close>

definition utf8_head :: "int \<Rightarrow> int list \<Rightarrow> (int \<times> int list) option" where
  "utf8_head a s =
     (case s of
        [] \<Rightarrow> None
      | b # s2 \<Rightarrow>
          if \<not> continuation_byte b then None
          else if 194 \<le> a \<and> a < 224 then Some ((a - 192) * 64 + (b - 128), s2)
          else case s2 of
            [] \<Rightarrow> None
          | c # s3 \<Rightarrow>
              if \<not> continuation_byte c then None
              else if 224 \<le> a \<and> a < 240
              then (let p = (a - 224) * 4096 + (b - 128) * 64 + (c - 128)
                    in if 2048 \<le> p \<and> scalar p then Some (p, s3) else None)
              else case s3 of
                [] \<Rightarrow> None
              | d # s4 \<Rightarrow>
                  if \<not> continuation_byte d then None
                  else if 240 \<le> a \<and> a < 245
                  then (let p = (a - 240) * 262144 + (b - 128) * 4096 + (c - 128) * 64 + (d - 128)
                        in if 65536 \<le> p \<and> scalar p then Some (p, s4) else None)
                  else None)"

lemma utf8_head_shorter: "utf8_head a s = Some (p, r) \<Longrightarrow> length r < length s"
  by (auto simp: utf8_head_def Let_def split: list.splits if_splits)

function utf8_points :: "int list \<Rightarrow> int list" where
  "utf8_points [] = []"
| "utf8_points (a # s) =
     (if a < 128 then a # utf8_points s
      else case utf8_head a s of
        None \<Rightarrow> (56320 + a) # utf8_points s
      | Some (p, r) \<Rightarrow> p # utf8_points r)"
  by pat_completeness auto

termination
  by (relation "measure length") (auto dest: utf8_head_shorter)

definition point :: "int \<Rightarrow> bool" where
  "point p \<longleftrightarrow> scalar p \<or> 56448 \<le> p \<and> p < 56576"

definition utf8_bytes :: "int \<Rightarrow> int list" where
  "utf8_bytes p =
     (if p < 128 then [p]
      else if p < 2048 then [192 + p div 64, 128 + p mod 64]
      else if 56448 \<le> p \<and> p < 56576 then [p - 56320]
      else if p < 65536 then [224 + p div 4096, 128 + p div 64 mod 64, 128 + p mod 64]
      else [240 + p div 262144, 128 + p div 4096 mod 64, 128 + p div 64 mod 64, 128 + p mod 64])"

definition code_points :: "string \<Rightarrow> int list" where
  "code_points s = utf8_points (map of_char s)"

definition text_of_points :: "int list \<Rightarrow> string" where
  "text_of_points ps = map char_of (concat (map utf8_bytes ps))"

lemma utf8_split2: "0 \<le> y \<Longrightarrow> y < 64 \<Longrightarrow> (x * 64 + y) div 64 = x \<and> (x * 64 + y) mod 64 = (y :: int)"
  by (simp add: div_add1_eq)

lemma continuation_byte_add: "continuation_byte b \<Longrightarrow> \<exists>y. 0 \<le> y \<and> y < 64 \<and> b = 128 + y"
  unfolding continuation_byte_def by (rule exI[of _ "b - 128"]) linarith

lemma utf8_2:
  assumes "194 \<le> a" "a < 224" "continuation_byte b"
  shows "utf8_bytes ((a - 192) * 64 + (b - 128)) = [a, b]" "scalar ((a - 192) * 64 + (b - 128))"
proof -
  obtain x where x: "a = 192 + x" by (metis add.commute diff_add_cancel)
  obtain y where y: "b = 128 + y" "0 \<le> y" "y < 64" using continuation_byte_add[OF assms(3)] by blast
  show "utf8_bytes ((a - 192) * 64 + (b - 128)) = [a, b]"
    using x y assms(1,2) utf8_split2[of y x] by (simp add: utf8_bytes_def)
  show "scalar ((a - 192) * 64 + (b - 128))"
    using x y assms(1,2) by (simp add: scalar_def)
qed

lemma utf8_3:
  assumes "224 \<le> a" "continuation_byte b" "continuation_byte c"
    and p: "p = (a - 224) * 4096 + (b - 128) * 64 + (c - 128)" "2048 \<le> p" "a < 240" "scalar p"
  shows "utf8_bytes p = [a, b, c]"
proof -
  obtain x where x: "a = 224 + x" by (metis add.commute diff_add_cancel)
  obtain y where y: "b = 128 + y" "0 \<le> y" "y < 64" using continuation_byte_add[OF assms(2)] by blast
  obtain z where z: "c = 128 + z" "0 \<le> z" "z < 64" using continuation_byte_add[OF assms(3)] by blast
  have p': "p = (x * 64 + y) * 64 + z" using p(1) x y z by simp
  have d: "p div 64 = x * 64 + y" "p mod 64 = z"
    unfolding p' using utf8_split2[OF z(2,3)] by blast+
  have "p div 4096 = p div 64 div 64" by (simp add: zdiv_zmult2_eq [symmetric])
  then have "p div 4096 = x" "p div 64 mod 64 = y" unfolding d(1) using utf8_split2[OF y(2,3)] by simp_all
  moreover have "p < 65536" using p' x y z p(3) by simp
  moreover have "\<not> (56448 \<le> p \<and> p < 56576)" using p(4) by (auto simp: scalar_def)
  ultimately show ?thesis using d x y z p(2) by (auto simp: utf8_bytes_def)
qed

lemma utf8_4:
  assumes "240 \<le> a" "continuation_byte b" "continuation_byte c" "continuation_byte d"
    and p: "p = (a - 240) * 262144 + (b - 128) * 4096 + (c - 128) * 64 + (d - 128)" "65536 \<le> p"
  shows "utf8_bytes p = [a, b, c, d]"
proof -
  obtain x where x: "a = 240 + x" by (metis add.commute diff_add_cancel)
  obtain y where y: "b = 128 + y" "0 \<le> y" "y < 64" using continuation_byte_add[OF assms(2)] by blast
  obtain z where z: "c = 128 + z" "0 \<le> z" "z < 64" using continuation_byte_add[OF assms(3)] by blast
  obtain w where w: "d = 128 + w" "0 \<le> w" "w < 64" using continuation_byte_add[OF assms(4)] by blast
  have p': "p = ((x * 64 + y) * 64 + z) * 64 + w" using p(1) x y z w by simp
  have d: "p div 64 = (x * 64 + y) * 64 + z" "p mod 64 = w"
    unfolding p' using utf8_split2[OF w(2,3)] by blast+
  have "p div 4096 = p div 64 div 64" "p div 262144 = p div 64 div 64 div 64"
    by (simp_all add: zdiv_zmult2_eq [symmetric])
  then have "p div 4096 = x * 64 + y" "p div 262144 = x" "p div 64 mod 64 = z"
    unfolding d(1) using utf8_split2[OF y(2,3), of x] utf8_split2[OF z(2,3), of "x * 64 + y"] by simp_all
  then have "p div 4096 mod 64 = y" "p div 262144 = x" "p div 64 mod 64 = z"
    using utf8_split2[OF y(2,3), of x] by simp_all
  then show ?thesis using d x y z w p(2) by (simp add: utf8_bytes_def)
qed

lemma utf8_head_bytes:
  assumes "utf8_head a s = Some (p, r)"
  shows "utf8_bytes p @ r = a # s" "scalar p"
proof -
  obtain b s2 where s: "s = b # s2" "continuation_byte b"
    using assms by (auto simp: utf8_head_def split: list.splits if_splits)
  have "utf8_bytes p @ r = a # s \<and> scalar p"
  proof (cases "194 \<le> a \<and> a < 224")
    case True
    with assms s utf8_2[of a b] show ?thesis by (auto simp: utf8_head_def)
  next
    case no2: False
    then obtain c s3 where s2: "s2 = c # s3" "continuation_byte c"
      using assms s by (auto simp: utf8_head_def split: list.splits if_splits)
    show ?thesis
    proof (cases "224 \<le> a \<and> a < 240")
      case True
      then show ?thesis
        using assms s s2 no2 utf8_3[of a b c, OF _ _ _ refl]
        by (auto simp: utf8_head_def Let_def split: if_splits)
    next
      case no3: False
      then obtain d s4 where s3: "s3 = d # s4" "continuation_byte d"
        using assms no2 s s2 by (auto simp: utf8_head_def split: list.splits if_splits)
      then show ?thesis
        using assms s s2 no2 no3 utf8_4[of a b c d, OF _ _ _ _ refl]
        by (auto simp: utf8_head_def Let_def split: if_splits)
    qed
  qed
  then show "utf8_bytes p @ r = a # s" "scalar p" by simp_all
qed

lemma utf8_points_bytes:
  "list_all (\<lambda>b. 0 \<le> b \<and> b < 256) s \<Longrightarrow>
   concat (map utf8_bytes (utf8_points s)) = s \<and> list_all point (utf8_points s)"
proof (induction s rule: utf8_points.induct)
  case 1
  then show ?case by simp
next
  case (2 a s)
  show ?case
  proof (cases "a < 128")
    case True
    with 2 show ?thesis by (simp add: utf8_bytes_def point_def scalar_def)
  next
    case big: False
    show ?thesis
    proof (cases "utf8_head a s")
      case None
      have "utf8_bytes (56320 + a) = [a]" "point (56320 + a)"
        using 2(4) big by (simp_all add: utf8_bytes_def point_def)
      with 2 None big show ?thesis by simp
    next
      case (Some pr)
      obtain p r where pr: "pr = (p, r)" by (cases pr)
      have h: "utf8_bytes p @ r = a # s" "scalar p" using utf8_head_bytes[of a s p r] Some pr by simp_all
      have "list_all (\<lambda>b. 0 \<le> b \<and> b < 256) (utf8_bytes p @ r)" unfolding h(1) by (rule 2(4))
      then have "list_all (\<lambda>b. 0 \<le> b \<and> b < 256) r" by simp
      from 2(3)[OF big Some pr[symmetric] this] show ?thesis using h big Some pr by (simp add: point_def)
    qed
  qed
qed

lemma code_points_text: "text_of_points (code_points s) = s" "list_all point (code_points s)"
proof -
  have m: "map char_of (map (of_char :: char \<Rightarrow> int) s) = s" by (simp add: comp_def)
  have "0 \<le> (of_char c :: int) \<and> (of_char c :: int) < 256" for c
    by (metis of_char_mod_256 pos_mod_bound pos_mod_sign zero_less_numeral)
  then have "list_all (\<lambda>b. 0 \<le> b \<and> b < 256) (map (of_char :: char \<Rightarrow> int) s)" by (simp add: list_all_iff)
  from utf8_points_bytes[OF this] m show "text_of_points (code_points s) = s" "list_all point (code_points s)"
    by (simp_all add: code_points_def text_of_points_def)
qed

section \<open>Strings\<close>

text \<open>The UTF-16 units of a code point, as \<open>ensure_ascii\<close> writes them.\<close>

definition units :: "int \<Rightarrow> int list" where
  "units p = (if p < 65536 then [p] else [55296 + (p - 65536) div 1024, 56320 + (p - 65536) mod 1024])"

fun join_units :: "int list \<Rightarrow> int list option" where
  "join_units [] = Some []"
| "join_units (u # us) =
     (if u < 55296 \<or> 57344 \<le> u \<or> 56448 \<le> u \<and> u < 56576 then map_option ((#) u) (join_units us)
      else case us of
        [] \<Rightarrow> None
      | v # vs \<Rightarrow>
          if u < 56320 \<and> 56320 \<le> v \<and> v < 57344
          then map_option ((#) (65536 + (u - 55296) * 1024 + (v - 56320))) (join_units vs)
          else None)"

definition hex_digit :: "int \<Rightarrow> char" where
  "hex_digit n = char_of (if n < 10 then 48 + n else 87 + n)"

definition hex_value :: "char \<Rightarrow> int option" where
  "hex_value c = (let n = of_char c in
     if 48 \<le> n \<and> n < 58 then Some (n - 48) else if 97 \<le> n \<and> n < 103 then Some (n - 87) else None)"

definition hex4 :: "int \<Rightarrow> string" where
  "hex4 u = map hex_digit [u div 4096, u div 256 mod 16, u div 16 mod 16, u mod 16]"

definition hex4_value :: "char \<Rightarrow> char \<Rightarrow> char \<Rightarrow> char \<Rightarrow> int option" where
  "hex4_value a b c d =
     (case (hex_value a, hex_value b, hex_value c, hex_value d) of
        (Some w, Some x, Some y, Some z) \<Rightarrow> Some (((w * 16 + x) * 16 + y) * 16 + z)
      | _ \<Rightarrow> None)"

definition short_escapes :: "(int \<times> char) list" where
  "short_escapes = [(34, CHR 0x22), (92, CHR 0x5C), (10, CHR ''n''), (13, CHR ''r''), (9, CHR ''t''),
     (12, CHR ''f''), (8, CHR ''b'')]"

definition escape_unit :: "int \<Rightarrow> string" where
  "escape_unit u =
     (case map_of short_escapes u of
        Some c \<Rightarrow> [CHR 0x5C, c]
      | None \<Rightarrow> if 32 \<le> u \<and> u < 127 then [char_of u] else CHR 0x5C # CHR ''u'' # hex4 u)"

definition dumps_text :: "string \<Rightarrow> string" where
  "dumps_text s = CHR 0x22 # concat (map escape_unit (concat (map units (code_points s)))) @ [CHR 0x22]"

definition short_value :: "char \<Rightarrow> int option" where
  "short_value c = map_of (map prod.swap short_escapes) c"

text \<open>The units of a string literal, after its opening quote, and the text after it.\<close>

fun scan_text :: "string \<Rightarrow> (int list \<times> string) option" where
  "scan_text [] = None"
| "scan_text (c # s) =
     (if c = CHR 0x22 then Some ([], s)
      else if c = CHR 0x5C then
        (case s of
           [] \<Rightarrow> None
         | e # s2 \<Rightarrow>
             if e = CHR ''u'' then
               (case s2 of
                  h1 # h2 # h3 # h4 # s3 \<Rightarrow>
                    (case hex4_value h1 h2 h3 h4 of
                       None \<Rightarrow> None
                     | Some u \<Rightarrow> map_option (apfst ((#) u)) (scan_text s3))
                | _ \<Rightarrow> None)
             else
               (case short_value e of
                  None \<Rightarrow> None
                | Some u \<Rightarrow> map_option (apfst ((#) u)) (scan_text s2)))
      else
        (let u = of_char c in
         if 32 \<le> u \<and> u < 127 then map_option (apfst ((#) u)) (scan_text s) else None))"

definition loads_text :: "string \<Rightarrow> (string \<times> string) option" where
  "loads_text s =
     (case scan_text s of
        None \<Rightarrow> None
      | Some (us, rest) \<Rightarrow> map_option (\<lambda>ps. (text_of_points ps, rest)) (join_units us))"

lemma scalar_high:
  assumes "point p" "\<not> p < 65536"
  shows "0 \<le> (p - 65536) div 1024" "(p - 65536) div 1024 < 1024"
proof -
  have "0 \<le> p - 65536" "p - 65536 < 1048576" using assms by (auto simp: point_def scalar_def)
  then show "0 \<le> (p - 65536) div 1024" "(p - 65536) div 1024 < 1024"
    using zdiv_mono1[of "p - 65536" 1048575 1024] by simp_all
qed

lemma units_below: "point p \<Longrightarrow> u \<in> set (units p) \<Longrightarrow> 0 \<le> u \<and> u < 65536"
  using scalar_high[of p] by (auto simp: units_def point_def scalar_def split: if_splits)

lemma join_units_units: "list_all point ps \<Longrightarrow> join_units (concat (map units ps)) = Some ps"
proof (induction ps)
  case Nil
  then show ?case by simp
next
  case (Cons p ps)
  show ?case
  proof (cases "p < 65536")
    case True
    with Cons show ?thesis by (auto simp: units_def point_def scalar_def)
  next
    case False
    have "0 \<le> (p - 65536) div 1024" "(p - 65536) div 1024 < 1024"
      using Cons.prems scalar_high[of p] False by simp_all
    moreover have "(p - 65536) div 1024 * 1024 + (p - 65536) mod 1024 = p - 65536" by simp
    ultimately show ?thesis using Cons False by (simp add: units_def)
  qed
qed

lemma hex_value_digit: "0 \<le> n \<Longrightarrow> n < 16 \<Longrightarrow> hex_value (hex_digit n) = Some n"
proof -
  have "list_all (\<lambda>n. hex_value (hex_digit n) = Some n) [0..15]" by code_simp
  then have "\<forall>n \<in> {0..15}. hex_value (hex_digit n) = Some n" unfolding list_all_iff by simp
  then show "0 \<le> n \<Longrightarrow> n < 16 \<Longrightarrow> hex_value (hex_digit n) = Some n" by simp
qed

lemma hex4_value_hex4:
  assumes "0 \<le> u" "u < 65536"
  shows "hex4_value (hex_digit (u div 4096)) (hex_digit (u div 256 mod 16)) (hex_digit (u div 16 mod 16))
           (hex_digit (u mod 16)) = Some u"
proof -
  have "0 \<le> u div 4096" "u div 4096 < 16" using assms zdiv_mono1[of u 65535 4096] by simp_all
  moreover have "u div 4096 = u div 16 div 16 div 16" "u div 256 = u div 16 div 16"
    by (simp_all add: zdiv_zmult2_eq [symmetric])
  ultimately show ?thesis by (simp add: hex4_value_def hex_value_digit)
qed

lemma short_escapes_value:
  assumes "map_of short_escapes u = Some c"
  shows "short_value c = Some u" "c \<noteq> CHR ''u''"
proof -
  have "\<forall>(u, c) \<in> set short_escapes. short_value c = Some u \<and> c \<noteq> CHR ''u''" by code_simp
  then show "short_value c = Some u" "c \<noteq> CHR ''u''" using map_of_SomeD[OF assms] by auto
qed

lemma plain_unit:
  assumes "map_of short_escapes u = None" "32 \<le> u" "u < 127"
  shows "of_char (char_of u :: char) = u" "char_of u \<noteq> CHR 0x22" "char_of u \<noteq> CHR 0x5C"
proof -
  show c: "of_char (char_of u :: char) = u" using assms(2,3) by simp
  have "u \<noteq> 34" "u \<noteq> 92" using assms(1) by (auto simp: short_escapes_def)
  moreover have "of_char (CHR 0x22) = (34 :: int)" "of_char (CHR 0x5C) = (92 :: int)" by simp_all
  ultimately show "char_of u \<noteq> CHR 0x22" "char_of u \<noteq> CHR 0x5C" using c by metis+
qed

lemma scan_text_escape:
  assumes "0 \<le> u" "u < 65536"
  shows "scan_text (escape_unit u @ s) = map_option (apfst ((#) u)) (scan_text s)"
proof (cases "map_of short_escapes u")
  case (Some c)
  then show ?thesis using short_escapes_value[OF Some] by (simp add: escape_unit_def)
next
  case None
  show ?thesis
  proof (cases "32 \<le> u \<and> u < 127")
    case True
    then show ?thesis using None plain_unit[OF None] by (simp add: escape_unit_def Let_def)
  next
    case False
    then have "escape_unit u = CHR 0x5C # CHR ''u'' # hex4 u" using None by (auto simp: escape_unit_def)
    then show ?thesis using hex4_value_hex4[OF assms] by (simp add: hex4_def)
  qed
qed

lemma scan_text_escapes:
  "(\<And>u. u \<in> set us \<Longrightarrow> 0 \<le> u \<and> u < 65536) \<Longrightarrow>
   scan_text (concat (map escape_unit us) @ CHR 0x22 # rest) = Some (us, rest)"
  by (induction us) (simp_all add: scan_text_escape)

lemma loads_dumps_text:
  "\<exists>body. dumps_text s = CHR 0x22 # body \<and> loads_text (body @ rest) = Some (s, rest)"
proof -
  let ?us = "concat (map units (code_points s))"
  have "0 \<le> u \<and> u < 65536" if "u \<in> set ?us" for u
    using that code_points_text(2)[of s] units_below by (auto simp: list_all_iff)
  then have "scan_text (concat (map escape_unit ?us) @ CHR 0x22 # rest) = Some (?us, rest)"
    by (rule scan_text_escapes)
  then show ?thesis
    using code_points_text(1)[of s] join_units_units[OF code_points_text(2)]
    by (simp add: dumps_text_def loads_text_def)
qed

section \<open>Numbers\<close>

definition digit :: "int \<Rightarrow> char" where
  "digit n = char_of (48 + n)"

definition is_digit :: "char \<Rightarrow> bool" where
  "is_digit c \<longleftrightarrow> 48 \<le> (of_char c :: int) \<and> (of_char c :: int) < 58"

text \<open>The decimal digits of a natural number.\<close>

function digits :: "int \<Rightarrow> string" where
  "digits n = (if n < 10 then [digit n] else digits (n div 10) @ [digit (n mod 10)])"
  by pat_completeness auto

termination
  by (relation "measure nat") auto

declare digits.simps [simp del]

definition str_int :: "int \<Rightarrow> string" where
  "str_int i = (if i < 0 then CHR ''-'' # digits (- i) else digits i)"

fun scan_digits :: "int \<Rightarrow> string \<Rightarrow> int \<times> string" where
  "scan_digits n [] = (n, [])"
| "scan_digits n (c # s) =
     (if is_digit c then scan_digits (n * 10 + (of_char c - 48)) s else (n, c # s))"

definition loads_number :: "string \<Rightarrow> (int \<times> string) option" where
  "loads_number s =
     (case s of
        [] \<Rightarrow> None
      | c # r \<Rightarrow>
          if is_digit c then Some (scan_digits 0 s)
          else if c = CHR ''-'' \<and> r \<noteq> [] \<and> is_digit (hd r)
          then Some (apfst uminus (scan_digits 0 r))
          else None)"

definition no_digit :: "string \<Rightarrow> bool" where
  "no_digit r \<longleftrightarrow> (case r of [] \<Rightarrow> True | c # _ \<Rightarrow> \<not> is_digit c)"

lemma of_char_digit: "0 \<le> n \<Longrightarrow> n < 10 \<Longrightarrow> of_char (digit n) = 48 + n"
  by (simp add: digit_def)

lemma is_digit_digit: "0 \<le> n \<Longrightarrow> n < 10 \<Longrightarrow> is_digit (digit n)"
  by (simp add: is_digit_def of_char_digit)

lemma digits_all: "0 \<le> n \<Longrightarrow> c \<in> set (digits n) \<Longrightarrow> is_digit c"
proof (induction n rule: digits.induct)
  case (1 n)
  show ?case
  proof (cases "n < 10")
    case True
    then show ?thesis using 1(2,3) by (subst (asm) digits.simps) (simp add: is_digit_digit)
  next
    case False
    then have "c \<in> set (digits (n div 10)) \<or> c = digit (n mod 10)"
      using 1(3) by (subst (asm) digits.simps) auto
    then show ?thesis using 1(1) False is_digit_digit[of "n mod 10"] by auto
  qed
qed

lemma digits_nonempty [simp]: "digits n \<noteq> []"
  by (subst digits.simps) simp

lemma scan_digits_digits:
  "0 \<le> n \<Longrightarrow> scan_digits m (digits n @ r) = scan_digits (m * 10 ^ length (digits n) + n) r"
proof (induction n arbitrary: m r rule: digits.induct)
  case (1 n)
  show ?case
  proof (cases "n < 10")
    case True
    then have "digits n = [digit n]" by (subst digits.simps) simp
    then show ?thesis using True 1(2) by (simp add: is_digit_digit of_char_digit)
  next
    case False
    then have d: "digits n = digits (n div 10) @ [digit (n mod 10)]" by (subst digits.simps) simp
    have "scan_digits m (digits n @ r) =
        scan_digits (m * 10 ^ length (digits (n div 10)) + n div 10) (digit (n mod 10) # r)"
      using 1(1)[OF False] False d by simp
    also have "\<dots> = scan_digits ((m * 10 ^ length (digits (n div 10)) + n div 10) * 10 + n mod 10) r"
      by (simp add: is_digit_digit of_char_digit)
    also have "(m * 10 ^ length (digits (n div 10)) + n div 10) * 10 + n mod 10 =
        m * 10 ^ length (digits n) + n"
      using d by (simp add: algebra_simps)
    finally show ?thesis .
  qed
qed

lemma scan_digits_stop: "no_digit r \<Longrightarrow> scan_digits n r = (n, r)"
  by (cases r) (auto simp: no_digit_def)

lemma hd_digits: "0 \<le> n \<Longrightarrow> is_digit (hd (digits n @ r))"
  using digits_all[of n "hd (digits n)"] by simp

lemma loads_str_int:
  assumes "no_digit r"
  shows "loads_number (str_int i @ r) = Some (i, r)"
proof (cases "i < 0")
  case True
  have "\<not> is_digit CHR ''-''" by code_simp
  then show ?thesis
    using True assms hd_digits[of "- i" r]
    by (simp add: str_int_def loads_number_def scan_digits_digits scan_digits_stop)
next
  case False
  obtain c s where s: "digits i @ r = c # s" by (cases "digits i @ r") auto
  have "scan_digits 0 (c # s) = (i, r)"
    unfolding s[symmetric] using False by (simp add: scan_digits_digits scan_digits_stop assms)
  moreover have "is_digit c" using hd_digits[of i r] s False by simp
  ultimately show ?thesis using False s by (simp add: str_int_def loads_number_def)
qed

lemma str_int_start: "\<exists>c s. str_int i = c # s \<and> (is_digit c \<or> c = CHR ''-'')"
proof (cases "i < 0")
  case False
  then show ?thesis using digits_all[of i "hd (digits i)"]
    by (cases "digits i") (auto simp: str_int_def)
qed (simp add: str_int_def)

section \<open>dumps and loads\<close>

fun join_comma :: "string list \<Rightarrow> string" where
  "join_comma [] = []"
| "join_comma [t] = t"
| "join_comma (t # ts) = t @ CHR '','' # join_comma ts"

definition dumps_member :: "string \<times> string \<Rightarrow> string" where
  "dumps_member = (\<lambda>(k, t). dumps_text k @ CHR '':'' # t)"

primrec dumps :: "pyval \<Rightarrow> string" where
  "dumps PyNone = ''null''"
| "dumps (PyBool b) = (if b then ''true'' else ''false'')"
| "dumps (PyInt i) = str_int i"
| "dumps (PyStr s) = dumps_text s"
| "dumps (PyList vs) = CHR ''['' # join_comma (map dumps vs) @ '']''"
| "dumps (PyTuple vs) = CHR ''['' # join_comma (map dumps vs) @ '']''"
| "dumps (PyDict kvs) =
     CHR ''{'' # join_comma (map dumps_member (sort_key fst (map (map_prod (\<lambda>k. k) dumps) kvs))) @ ''}''"

text \<open>The dicts have each key once, as in every Python value.\<close>

primrec py_wf :: "pyval \<Rightarrow> bool" where
  "py_wf PyNone = True"
| "py_wf (PyBool b) = True"
| "py_wf (PyInt i) = True"
| "py_wf (PyStr s) = True"
| "py_wf (PyList vs) = list_all id (map py_wf vs)"
| "py_wf (PyTuple vs) = list_all id (map py_wf vs)"
| "py_wf (PyDict kvs) = (distinct (map fst kvs) \<and>
     list_all snd (map (map_prod (\<lambda>k. k) py_wf) kvs))"

text \<open>Setting a key of a dict keeps the place of an old key; \<open>d.update(items)\<close>.\<close>

fun dict_set :: "string \<Rightarrow> pyval \<Rightarrow> (string \<times> pyval) list \<Rightarrow> (string \<times> pyval) list" where
  "dict_set k v [] = [(k, v)]"
| "dict_set k v (kv # d) = (if fst kv = k then (k, v) # d else kv # dict_set k v d)"

definition dict_update :: "(string \<times> pyval) list \<Rightarrow> (string \<times> pyval) list \<Rightarrow> (string \<times> pyval) list" where
  "dict_update d items = fold (\<lambda>(k, v). dict_set k v) items d"

definition expect :: "string \<Rightarrow> pyval \<Rightarrow> string \<Rightarrow> (pyval \<times> string) option" where
  "expect w v s = (if take (length w) s = w then Some (v, drop (length w) s) else None)"

fun parse_value :: "nat \<Rightarrow> string \<Rightarrow> (pyval \<times> string) option"
  and parse_items :: "nat \<Rightarrow> string \<Rightarrow> (pyval list \<times> string) option"
  and parse_members :: "nat \<Rightarrow> string \<Rightarrow> ((string \<times> pyval) list \<times> string) option" where
  "parse_value 0 s = None"
| "parse_value (Suc n) s =
     (case s of
        [] \<Rightarrow> None
      | c # r \<Rightarrow>
          if c = CHR 0x22 then map_option (apfst PyStr) (loads_text r)
          else if c = CHR ''['' then
            (if r \<noteq> [] \<and> hd r = CHR '']'' then Some (PyList [], tl r)
             else map_option (apfst PyList) (parse_items n r))
          else if c = CHR ''{'' then
            (if r \<noteq> [] \<and> hd r = CHR ''}'' then Some (PyDict [], tl r)
             else map_option (apfst (\<lambda>kvs. PyDict (dict_update [] kvs))) (parse_members n r))
          else if c = CHR ''n'' then expect ''null'' PyNone s
          else if c = CHR ''t'' then expect ''true'' (PyBool True) s
          else if c = CHR ''f'' then expect ''false'' (PyBool False) s
          else map_option (apfst PyInt) (loads_number s))"
| "parse_items 0 s = None"
| "parse_items (Suc n) s =
     (case parse_value n s of
        Some (v, d # r) \<Rightarrow>
          if d = CHR '','' then map_option (apfst ((#) v)) (parse_items n r)
          else if d = CHR '']'' then Some ([v], r) else None
      | _ \<Rightarrow> None)"
| "parse_members 0 s = None"
| "parse_members (Suc n) s =
     (case s of
        [] \<Rightarrow> None
      | c # r \<Rightarrow>
          if c \<noteq> CHR 0x22 then None
          else
            (case loads_text r of
               Some (k, d # r2) \<Rightarrow>
                 if d \<noteq> CHR '':'' then None
                 else
                   (case parse_value n r2 of
                      Some (v, e # r3) \<Rightarrow>
                        if e = CHR '','' then map_option (apfst ((#) (k, v))) (parse_members n r3)
                        else if e = CHR ''}'' then Some ([(k, v)], r3) else None
                    | _ \<Rightarrow> None)
             | _ \<Rightarrow> None))"

text \<open>Every level of the recursion consumes a character, so the length of the text is fuel enough.\<close>

definition loads :: "string \<Rightarrow> pyval option" where
  "loads s = (case parse_value (length s) s of Some (v, []) \<Rightarrow> Some v | _ \<Rightarrow> None)"

section \<open>Round trip\<close>

lemma map_insort_member:
  "insort_key fst (k, f v) (map (map_prod (\<lambda>k. k) f) xs) = map (map_prod (\<lambda>k. k) f) (insort_key fst (k, v) xs)"
  by (induction xs) auto

lemma sort_members:
  "sort_key fst (map (map_prod (\<lambda>k. k) f) kvs) = map (map_prod (\<lambda>k. k) f) (sort_key fst kvs)"
proof (induction kvs)
  case Nil
  then show ?case by simp
next
  case (Cons kv kvs)
  then show ?case by (cases kv) (simp add: map_insort_member)
qed

lemma sort_sorted: "sort_key fst (sort_key fst xs) = sort_key fst xs"
  by (simp add: sort_key_id_if_sorted)

lemma dict_set_new: "k \<notin> set (map fst d) \<Longrightarrow> dict_set k v d = d @ [(k, v)]"
  by (induction d) auto

lemma dict_update_distinct:
  "distinct (map fst (d @ kvs)) \<Longrightarrow> dict_update d kvs = d @ kvs"
proof (induction kvs arbitrary: d)
  case Nil
  then show ?case by (simp add: dict_update_def)
next
  case (Cons kv kvs)
  obtain k v where kv: "kv = (k, v)" by (cases kv)
  have "dict_update d (kv # kvs) = dict_update (d @ [kv]) kvs"
    using Cons.prems kv by (simp add: dict_update_def dict_set_new)
  then show ?case using Cons kv by simp
qed

definition value_start :: "char \<Rightarrow> bool" where
  "value_start c \<longleftrightarrow> c = CHR 0x22 \<or> c \<in> set ''[{ntf-'' \<or> is_digit c"

lemma dumps_start: "py_wf v \<Longrightarrow> \<exists>c s. dumps v = c # s \<and> value_start c"
proof (cases v)
  case (PyInt i)
  then show ?thesis using str_int_start[of i] by (auto simp: value_start_def)
qed (auto simp: value_start_def dumps_text_def)

lemma value_start_not_close: "\<not> value_start CHR '']''" "\<not> value_start CHR ''}''"
  by code_simp+

lemma expect_append [simp]: "expect w v (w @ r) = Some (v, r)"
  by (simp add: expect_def)

lemma digit_plain:
  assumes "is_digit c"
  shows "c \<noteq> CHR 0x22" "c \<noteq> CHR ''[''" "c \<noteq> CHR ''{''" "c \<noteq> CHR ''n''" "c \<noteq> CHR ''t''" "c \<noteq> CHR ''f''"
  using assms by (auto simp: is_digit_def)

text \<open>What the parser does with the text of one value, for every fuel that covers the text.\<close>

definition parses :: "pyval \<Rightarrow> bool" where
  "parses v \<longleftrightarrow> (\<forall>n r. length (dumps v) \<le> n \<longrightarrow> no_digit r \<longrightarrow> parse_value n (dumps v @ r) = Some (canon v, r))"

lemma parses_items:
  assumes "list_all parses vs" "vs \<noteq> []" "length (join_comma (map dumps vs)) < n"
  shows "parse_items n (join_comma (map dumps vs) @ CHR '']'' # r) = Some (map canon vs, r)"
  using assms
proof (induction vs arbitrary: n)
  case Nil
  then show ?case by simp
next
  case (Cons v vs)
  then obtain m where n: "n = Suc m" by (cases n) auto
  have nd: "no_digit (CHR '']'' # s)" "no_digit (CHR '','' # s)" for s
    by (simp_all add: no_digit_def is_digit_def)
  show ?case
  proof (cases vs)
    case Nil
    then show ?thesis using Cons.prems n nd by (simp add: parses_def)
  next
    case (Cons w ws)
    have "length (dumps v) \<le> m" "length (join_comma (map dumps vs)) < m"
      using Cons.prems(3) Cons n by simp_all
    then have "parse_items m (join_comma (map dumps vs) @ CHR '']'' # r) = Some (map canon vs, r)"
      "parse_value m (dumps v @ CHR '','' # s) = Some (canon v, CHR '','' # s)" for s
      using Cons.IH[of m] Cons Cons.prems(1) nd by (simp_all add: parses_def)
    then show ?thesis using Cons n by simp
  qed
qed

lemma parses_members:
  assumes "\<And>k v. (k, v) \<in> set kvs \<Longrightarrow> parses v" "kvs \<noteq> []"
    and "length (join_comma (map dumps_member (map (map_prod (\<lambda>k. k) dumps) kvs))) < n"
  shows "parse_members n (join_comma (map dumps_member (map (map_prod (\<lambda>k. k) dumps) kvs)) @ CHR ''}'' # r) =
     Some (map (map_prod (\<lambda>k. k) canon) kvs, r)"
  using assms
proof (induction kvs arbitrary: n)
  case Nil
  then show ?case by simp
next
  case (Cons kv kvs)
  obtain k v where kv: "kv = (k, v)" by (cases kv)
  obtain m where n: "n = Suc m" using Cons.prems(3) by (cases n) auto
  have v: "parses v" using Cons.prems(1) kv by auto
  have nd: "no_digit (CHR ''}'' # s)" "no_digit (CHR '','' # s)" for s
    by (simp_all add: no_digit_def is_digit_def)
  have member: "\<exists>body. dumps_member (k, dumps v) @ c # s = CHR 0x22 # body \<and>
      loads_text body = Some (k, CHR '':'' # dumps v @ c # s)" for c s
    using loads_dumps_text[of k "CHR '':'' # dumps v @ c # s"] by (auto simp: dumps_member_def)
  have len: "length (dumps v) < length (dumps_member (k, dumps v))" by (simp add: dumps_member_def)
  show ?case
  proof (cases kvs)
    case Nil
    then have "length (dumps v) \<le> m" using Cons.prems(3) n kv len by simp
    then have "parse_value m (dumps v @ CHR ''}'' # r) = Some (canon v, CHR ''}'' # r)"
      using v nd by (simp add: parses_def)
    then show ?thesis using member[of "CHR ''}''" r] Nil kv n by auto
  next
    case (Cons kw kws)
    let ?rest = "join_comma (map dumps_member (map (map_prod (\<lambda>k. k) dumps) kvs)) @ CHR ''}'' # r"
    have "length (dumps v) \<le> m" "length (join_comma (map dumps_member (map (map_prod (\<lambda>k. k) dumps) kvs))) < m"
      using Cons.prems(3) Cons n kv len by simp_all
    then have "parse_value m (dumps v @ CHR '','' # ?rest) = Some (canon v, CHR '','' # ?rest)"
      using v nd by (simp add: parses_def)
    moreover have "parse_members m ?rest = Some (map (map_prod (\<lambda>k. k) canon) kvs, r)"
      using Cons.IH[of m] Cons.prems(1) Cons \<open>_ < m\<close> by (metis list.distinct(1) list.set_intros(2))
    ultimately show ?thesis using member[of "CHR '',''" ?rest] Cons kv n by auto
  qed
qed

lemma parse_number:
  assumes "is_digit c \<or> c = CHR ''-''"
  shows "parse_value (Suc n) (c # s) = map_option (apfst PyInt) (loads_number (c # s))"
proof -
  have "c \<noteq> CHR 0x22" "c \<noteq> CHR ''[''" "c \<noteq> CHR ''{''" "c \<noteq> CHR ''n''" "c \<noteq> CHR ''t''" "c \<noteq> CHR ''f''"
    using assms digit_plain[of c] by auto
  then show ?thesis by simp
qed

lemma parses_number: "parses (PyInt i)"
  unfolding parses_def
proof (intro allI impI)
  fix n r assume n: "length (dumps (PyInt i)) \<le> n" "no_digit r"
  obtain c s where c: "str_int i = c # s" "is_digit c \<or> c = CHR ''-''" using str_int_start by blast
  with n obtain m where m: "n = Suc m" by (cases n) auto
  have "parse_value n (str_int i @ r) = map_option (apfst PyInt) (loads_number (str_int i @ r))"
    unfolding m c(1) append_Cons by (rule parse_number[OF c(2)])
  then show "parse_value n (dumps (PyInt i) @ r) = Some (canon (PyInt i), r)"
    using loads_str_int[OF n(2)] by simp
qed

lemma parses_text: "parses (PyStr s)"
  unfolding parses_def
proof (intro allI impI)
  fix n r assume n: "length (dumps (PyStr s)) \<le> n"
  from loads_dumps_text[of s r] obtain body where
    b: "dumps_text s = CHR 0x22 # body" "loads_text (body @ r) = Some (s, r)" by auto
  then show "parse_value n (dumps (PyStr s) @ r) = Some (canon (PyStr s), r)"
    using n by (cases n) simp_all
qed

lemma parses_list:
  assumes "list_all parses vs" "list_all py_wf vs"
  shows "parses (PyList vs)"
  unfolding parses_def
proof (intro allI impI)
  fix n r assume n: "length (dumps (PyList vs)) \<le> n"
  then obtain m where m: "n = Suc m" by (cases n) auto
  show "parse_value n (dumps (PyList vs) @ r) = Some (canon (PyList vs), r)"
  proof (cases vs)
    case Nil
    then show ?thesis by (simp add: m)
  next
    case (Cons w ws)
    obtain c s where c: "dumps w = c # s" "value_start c" using dumps_start[of w] assms(2) Cons by auto
    have "length (join_comma (map dumps vs)) < m" using n m by simp
    then have "parse_items m (join_comma (map dumps vs) @ CHR '']'' # r) = Some (map canon vs, r)"
      using parses_items[OF assms(1)] Cons by simp
    moreover have "\<exists>t. join_comma (map dumps vs) = c # t" using c(1) Cons by (cases ws) simp_all
    moreover have "c \<noteq> CHR '']''" using c(2) value_start_not_close by auto
    ultimately show ?thesis by (auto simp: m)
  qed
qed

lemma parses_tuple: "parses (PyList vs) \<Longrightarrow> parses (PyTuple vs)"
  by (simp add: parses_def)

lemma parses_dict:
  assumes "\<And>k v. (k, v) \<in> set kvs \<Longrightarrow> parses v" "distinct (map fst kvs)"
  shows "parses (PyDict kvs)"
  unfolding parses_def
proof (intro allI impI)
  fix n r assume n: "length (dumps (PyDict kvs)) \<le> n"
  then obtain m where m: "n = Suc m" by (cases n) auto
  let ?kvs = "sort_key fst kvs"
  let ?body = "join_comma (map dumps_member (map (map_prod (\<lambda>k. k) dumps) ?kvs))"
  show "parse_value n (dumps (PyDict kvs) @ r) = Some (canon (PyDict kvs), r)"
  proof (cases "kvs = []")
    case True
    then show ?thesis by (simp add: m dict_update_def)
  next
    case False
    then obtain kv rest where kv: "?kvs = kv # rest" by (cases "?kvs") (auto dest: arg_cong[of _ _ length])
    have mem: "(k, v) \<in> set ?kvs \<Longrightarrow> parses v" for k v using assms(1) by simp
    have "length ?body < m" using n m by (simp add: sort_members)
    then have "parse_members m (?body @ CHR ''}'' # r) = Some (map (map_prod (\<lambda>k. k) canon) ?kvs, r)"
      using parses_members[of ?kvs m r] mem kv by (metis list.distinct(1))
    moreover have "\<exists>t. ?body = CHR 0x22 # t"
    proof -
      have "\<exists>t. dumps_member (map_prod (\<lambda>k. k) dumps kv) = CHR 0x22 # t"
        by (cases kv) (auto simp: dumps_member_def dumps_text_def)
      then show ?thesis unfolding kv by (cases rest) auto
    qed
    moreover have "distinct (map fst (map (map_prod (\<lambda>k. k) canon) ?kvs))"
      using assms(2) by (simp add: comp_def distinct_map)
    then have "dict_update [] (map (map_prod (\<lambda>k. k) canon) ?kvs) = map (map_prod (\<lambda>k. k) canon) ?kvs"
      using dict_update_distinct[of "[]"] by simp
    ultimately show ?thesis by (auto simp: m sort_members)
  qed
qed

lemma wf_parses: "py_wf v \<Longrightarrow> parses v"
proof (induction v)
  case (PyInt i)
  show ?case by (rule parses_number)
next
  case (PyStr s)
  then show ?case by (simp add: parses_text)
next
  case (PyList vs)
  then show ?case by (intro parses_list) (auto simp: list_all_iff)
next
  case (PyTuple vs)
  then show ?case by (intro parses_tuple parses_list) (auto simp: list_all_iff)
next
  case (PyDict kvs)
  show ?case
  proof (rule parses_dict)
    fix k v assume kv: "(k, v) \<in> set kvs"
    then show "parses v"
      using PyDict.prems PyDict.IH[OF kv, of v] by (force simp: list_all_iff)
  qed (use PyDict.prems in simp)
qed (auto simp: parses_def expect_def Suc_le_eq gr0_conv_Suc elim!: less_natE)

theorem loads_dumps:
  assumes "py_wf v"
  shows "loads (dumps v) = Some (canon v)"
proof -
  have "parse_value (length (dumps v)) (dumps v @ []) = Some (canon v, [])"
    using wf_parses[OF assms] unfolding parses_def by (metis le_refl list.simps(4) no_digit_def)
  then show ?thesis by (simp add: loads_def)
qed

lemma dumps_canon: "dumps (canon v) = dumps v"
proof (induction v)
  case (PyDict kvs)
  have "map (map_prod (\<lambda>k. k) dumps) (map (map_prod (\<lambda>k. k) canon) kvs) = map (map_prod (\<lambda>k. k) dumps) kvs"
    using PyDict by (force simp: map_prod_def split: prod.splits)
  then show ?case by (simp add: sort_members[symmetric] sort_sorted del: map_map)
qed (simp_all add: comp_def cong: map_cong)

lemma canon_canon: "canon (canon v) = canon v"
proof (induction v)
  case (PyDict kvs)
  have "map (map_prod (\<lambda>k. k) canon) (map (map_prod (\<lambda>k. k) canon) kvs) = map (map_prod (\<lambda>k. k) canon) kvs"
    using PyDict by (force simp: map_prod_def split: prod.splits)
  then show ?case by (simp add: sort_members[symmetric] sort_sorted del: map_map)
qed (simp_all add: comp_def cong: map_cong)

lemma loads_canonical: "py_wf v \<Longrightarrow> loads (dumps v) = Some w \<Longrightarrow> dumps w = dumps v"
  by (auto simp: loads_dumps dumps_canon)

lemma canon_wf: "py_wf v \<Longrightarrow> py_wf (canon v)"
proof (induction v)
  case (PyDict kvs)
  have "py_wf v" if "(k, v) \<in> set kvs" for k v using PyDict.prems that by (force simp: list_all_iff)
  then have "py_wf (canon v)" if "(k, v) \<in> set kvs" for k v using PyDict.IH[OF that, of v] that by simp
  then show ?case using PyDict.prems
    by (auto simp: sort_members list_all_iff comp_def distinct_map)
qed (auto simp: list_all_iff)

lemma canon_no_tuple: "\<not> has_tuple (canon v)"
proof (induction v)
  case (PyDict kvs)
  then show ?case by (fastforce simp: sort_members list_ex_iff)
qed (auto simp: list_ex_iff)

lemma py_eq_refl [simp]: "py_eq v v"
  by (simp add: py_eq_def)

lemma py_key_canon: "\<not> has_tuple v \<Longrightarrow> py_key (canon v) = py_key v"
proof (induction v)
  case (PyDict kvs)
  have "\<not> has_tuple v" if "(k, v) \<in> set kvs" for k v using PyDict.prems that by (force simp: list_ex_iff)
  then have "py_key (canon v) = py_key v" if "(k, v) \<in> set kvs" for k v
    using PyDict.IH[OF that, of v] that by simp
  then have "map (map_prod (\<lambda>k. k) py_key) (map (map_prod (\<lambda>k. k) canon) kvs) = map (map_prod (\<lambda>k. k) py_key) kvs"
    by (force simp: map_prod_def split: prod.splits)
  then show ?case by (simp add: sort_members[symmetric] sort_sorted del: map_map)
qed (auto simp: list_ex_iff)

text \<open>A value without tuples is equal to what is read back from its text.\<close>

lemma py_eq_canon: "\<not> has_tuple v \<Longrightarrow> py_eq (canon v) v"
  by (simp add: py_eq_def py_key_canon)

text \<open>What the parser returns has every key once.\<close>

lemma dict_set_keys: "set (map fst (dict_set k v d)) = insert k (set (map fst d))"
  by (induction d) auto

lemma dict_set_distinct: "distinct (map fst d) \<Longrightarrow> distinct (map fst (dict_set k v d))"
  by (induction d) (use dict_set_keys in auto)

lemma dict_set_values: "(j, w) \<in> set (dict_set k v d) \<Longrightarrow> (j, w) \<in> set d \<or> w = v"
  by (induction d) (auto split: if_splits)

lemma dict_set_get: "map_of (dict_set k v d) j = (if j = k then Some v else map_of d j)"
  by (induction d) auto

lemma dict_update_wf:
  assumes "py_wf (PyDict d)" "\<And>k v. (k, v) \<in> set items \<Longrightarrow> py_wf v"
  shows "py_wf (PyDict (dict_update d items))"
  using assms
proof (induction items arbitrary: d)
  case Nil
  then show ?case by (simp add: dict_update_def)
next
  case (Cons kv items)
  obtain k v where kv: "kv = (k, v)" by (cases kv)
  have "py_wf (PyDict (dict_set k v d))"
    using Cons.prems kv dict_set_distinct dict_set_values[of _ _ k v d] by (fastforce simp: list_all_iff)
  from Cons.IH[OF this] have "py_wf (PyDict (dict_update (dict_set k v d) items))"
    using Cons.prems(2) by (meson list.set_intros(2))
  then show ?case using kv by (simp add: dict_update_def)
qed

lemma parsed_wf:
  "parse_value n s = Some (v, r) \<Longrightarrow> py_wf v"
  "parse_items n s = Some (vs, r) \<Longrightarrow> list_all py_wf vs"
  "parse_members n s = Some (kvs, r) \<Longrightarrow> list_all (\<lambda>kv. py_wf (snd kv)) kvs"
proof (induction n s and n s and n s arbitrary: v r and vs r and kvs r
    rule: parse_value_parse_items_parse_members.induct)
  case (2 n s)
  show ?case
  proof (cases s)
    case Nil
    with 2 show ?thesis by simp
  next
    case (Cons c t)
    have items: "list_all py_wf vs" if "parse_items n t = Some (vs, r)" "c = CHR ''[''" "t = [] \<or> hd t \<noteq> CHR '']''" for vs r
      using 2(1)[OF Cons, of vs r] that by auto
    have members: "py_wf (PyDict (dict_update [] kvs))"
      if "parse_members n t = Some (kvs, r)" "c = CHR ''{''" "t = [] \<or> hd t \<noteq> CHR ''}''" for kvs r
      using 2(2)[OF Cons, of kvs r] that by (intro dict_update_wf) (auto simp: list_all_iff)
    show ?thesis using 2(3) Cons items members
      by (auto simp: expect_def list_all_iff split: if_splits)
  qed
next
  case (4 n s)
  then show ?case by (fastforce split: option.splits list.splits if_splits)
next
  case (6 n s)
  then show ?case by (fastforce split: option.splits list.splits if_splits)
qed simp_all

lemma loads_wf: "loads s = Some v \<Longrightarrow> py_wf v"
  by (auto simp: loads_def dest: parsed_wf(1) split: option.splits list.splits prod.splits)

end
