(* ===== verification/WorkflowCodec.thy ===== *)
theory WorkflowCodec
  imports Schema PyJson
begin

text \<open>
  The rows of durable workflow transitions: \<open>seektalent_runtime_control/workflow_transition.py\<close>.
  A transition carries a continuation (a JSON object) and artifact references; the row keeps their
  canonical text, its SHA-256 and its size, and every reader decodes the text, encodes it again and
  compares. The hash is the parameter \<open>sha\<close>, the \<open>hexdigest\<close> of \<open>hashlib.sha256\<close>.
\<close>

section \<open>Texts and identities\<close>

definition STEP_KINDS :: "string list" where
  "STEP_KINDS = [''source_dispatch'', ''detail_queued'', ''detail_dispatch'', ''lane_completed'']"

definition TRANSITION_STATUSES :: "string list" where
  "TRANSITION_STATUSES = [''active'', ''superseded'', ''checkpointed'']"

definition FORBIDDEN_PAYLOAD_KEYS :: "string list" where
  "FORBIDDEN_PAYLOAD_KEYS =
     [''runState'', ''candidateStore'', ''normalizedStore'', ''scorecardsByResumeId'', ''candidates'', ''resume'']"

text \<open>\<open>_require_opaque\<close> with the pattern \<open>[^\x00-\x1f\x7f]+\<close>.\<close>

definition plain_byte :: "char \<Rightarrow> bool" where
  "plain_byte c \<longleftrightarrow> 32 \<le> (of_char c :: int) \<and> (of_char c :: int) \<noteq> 127"

definition opaque_id :: "int \<Rightarrow> string \<Rightarrow> bool" where
  "opaque_id max_bytes s \<longleftrightarrow> s \<noteq> [] \<and> int (length s) \<le> max_bytes \<and> list_all plain_byte s"

definition validate_transition_identity ::
  "string \<Rightarrow> string \<Rightarrow> string \<Rightarrow> int \<Rightarrow> string \<Rightarrow> rc_error + unit" where
  "validate_transition_identity rid lane query round_no step_kind =
     (if \<not> opaque_id 96 rid then rc_fail ''runtime_workflow_transition_run_id_invalid''
      else if \<not> opaque_id 256 lane then rc_fail ''runtime_workflow_transition_lane_id_invalid''
      else if \<not> opaque_id 96 query then rc_fail ''runtime_workflow_transition_query_id_invalid''
      else if round_no < 1 then rc_fail ''runtime_workflow_transition_round_invalid''
      else if step_kind \<notin> set STEP_KINDS then rc_fail ''runtime_workflow_transition_step_invalid''
      else Inr ())"

lemma validate_transition_identity_Inr [simp]:
  "validate_transition_identity rid lane query n kind = Inr u \<longleftrightarrow>
   opaque_id 96 rid \<and> opaque_id 256 lane \<and> opaque_id 96 query \<and> 1 \<le> n \<and> kind \<in> set STEP_KINDS"
  by (auto simp: validate_transition_identity_def)

section \<open>The payload\<close>

text \<open>\<open>_reject_large_state_keys\<close>: a forbidden key at any depth.\<close>

primrec large_state :: "pyval \<Rightarrow> bool" where
  "large_state PyNone = False"
| "large_state (PyBool b) = False"
| "large_state (PyInt i) = False"
| "large_state (PyStr s) = False"
| "large_state (PyList vs) = list_ex id (map large_state vs)"
| "large_state (PyTuple vs) = list_ex id (map large_state vs)"
| "large_state (PyDict kvs) =
     list_ex (\<lambda>(k, b). k \<in> set FORBIDDEN_PAYLOAD_KEYS \<or> b) (map (map_prod (\<lambda>k. k) large_state) kvs)"

definition payload_value :: "pyval \<Rightarrow> string list \<Rightarrow> pyval" where
  "payload_value continuation refs =
     PyDict [(''artifactRefs'', PyList (map PyStr refs)), (''continuation'', continuation)]"

definition MAX_WORKFLOW_TRANSITION_BYTES :: int where
  "MAX_WORKFLOW_TRANSITION_BYTES = 64 * 1024"

definition workflow_transition_payload ::
  "(string \<Rightarrow> string) \<Rightarrow> pyval \<Rightarrow> string list \<Rightarrow> rc_error + string \<times> string \<times> int" where
  "workflow_transition_payload sha continuation refs =
     (if (case continuation of PyDict kvs \<Rightarrow> kvs = [] | _ \<Rightarrow> True)
      then rc_fail ''runtime_workflow_transition_continuation_invalid''
      else if large_state continuation then rc_fail ''runtime_workflow_transition_large_state_forbidden''
      else if \<not> distinct refs then rc_fail ''runtime_workflow_transition_artifact_refs_invalid''
      else if \<not> list_all (opaque_id 256) refs then rc_fail ''runtime_workflow_transition_artifact_ref_invalid''
      else
        let encoded = dumps (payload_value continuation refs)
        in if MAX_WORKFLOW_TRANSITION_BYTES < int (length encoded)
           then rc_fail ''runtime_workflow_transition_payload_too_large''
           else Inr (encoded, sha encoded, int (length encoded)))"

text \<open>\<open>workflow_round_barrier_logical_payload\<close>: the barrier and its lanes as one JSON object.\<close>

definition opt_text :: "string option \<Rightarrow> pyval" where
  "opt_text s = (case s of None \<Rightarrow> PyNone | Some t \<Rightarrow> PyStr t)"

definition workflow_round_barrier_logical_payload ::
  "(string \<Rightarrow> string) \<Rightarrow> barrier_row \<Rightarrow> (string \<times> string) list \<Rightarrow> rc_error + string \<times> int" where
  "workflow_round_barrier_logical_payload sha b lanes =
     (let encoded = dumps (PyDict
        [(''barrier'', PyDict
           [(''baseCheckpointId'', PyStr (wb_base_checkpoint_id b)),
            (''createdAt'', PyStr (wb_created_at b)),
            (''executorAttemptNo'', PyInt (wb_attempt_no b)),
            (''expectedLaneCount'', PyInt (int (length lanes))),
            (''laneSetHash'', PyStr (wb_lane_set_hash b)),
            (''roundNo'', PyInt (wb_round_no b)),
            (''runtimeRunId'', PyStr (wb_run b)),
            (''settledAt'', PyNone),
            (''status'', PyStr ''active''),
            (''workPlanArtifactHash'', PyStr (wb_work_plan_hash b)),
            (''workPlanArtifactRef'', PyStr (wb_work_plan_ref b))]),
         (''lanes'', PyList (map (\<lambda>(lane, query). PyDict
           [(''queryInstanceId'', PyStr query), (''roundNo'', PyInt (wb_round_no b)),
            (''runtimeRunId'', PyStr (wb_run b)), (''settledAt'', PyNone),
            (''sourceLaneRunId'', PyStr lane), (''status'', PyStr ''pending'')]) lanes))])
      in if 64 * 1024 < int (length encoded) then rc_fail ''runtime_workflow_barrier_payload_too_large''
         else Inr (sha encoded, int (length encoded)))"

section \<open>Reading a row\<close>

record transition =
  tr_transition_id :: string
  tr_run :: string
  tr_lane_run_id :: string
  tr_query_id :: string
  tr_parent_transition_id :: "string option"
  tr_base_checkpoint_id :: string
  tr_round_no :: int
  tr_step_kind :: string
  tr_continuation :: pyval
  tr_artifact_refs :: "string list"
  tr_payload_hash :: string
  tr_payload_size_bytes :: int
  tr_status :: string
  tr_attempt_no :: int
  tr_created_at :: string
  tr_settled_at :: "string option"

abbreviation corrupt_row :: "rc_error + 'a" where
  "corrupt_row \<equiv> rc_fail ''runtime_workflow_transition_corrupt''"

definition columns_ok :: "transition_row \<Rightarrow> bool" where
  "columns_ok r \<longleftrightarrow>
     opaque_id 96 (wt_transition_id r) \<and> opaque_id 96 (wt_run r) \<and> opaque_id 256 (wt_lane_run_id r) \<and>
     opaque_id 96 (wt_query_id r) \<and> opaque_id 96 (wt_base_checkpoint_id r) \<and>
     (case wt_parent_transition_id r of None \<Rightarrow> True | Some p \<Rightarrow> opaque_id 96 p) \<and>
     1 \<le> wt_round_no r \<and> wt_step_kind r \<in> set STEP_KINDS \<and> wt_status r \<in> set TRANSITION_STATUSES \<and>
     1 \<le> wt_attempt_no r"

text \<open>
  The references of a decoded payload. A value that is no list of texts leads to another text
  when it is encoded again (or is refused as no text), so it is corrupt either way.
\<close>

fun text_list :: "pyval list \<Rightarrow> string list option" where
  "text_list [] = Some []"
| "text_list (PyStr s # vs) = map_option ((#) s) (text_list vs)"
| "text_list (_ # vs) = None"

definition decode_payload :: "string \<Rightarrow> (pyval \<times> string list) option" where
  "decode_payload json =
     (case loads json of
        Some (PyDict d) \<Rightarrow>
          (case (map_of d ''continuation'', map_of d ''artifactRefs'') of
             (Some continuation, Some (PyList vs)) \<Rightarrow> map_option (Pair continuation) (text_list vs)
           | _ \<Rightarrow> None)
      | _ \<Rightarrow> None)"

definition transition_of :: "transition_row \<Rightarrow> pyval \<Rightarrow> string list \<Rightarrow> transition" where
  "transition_of r continuation refs =
     \<lparr>tr_transition_id = wt_transition_id r, tr_run = wt_run r, tr_lane_run_id = wt_lane_run_id r,
      tr_query_id = wt_query_id r, tr_parent_transition_id = wt_parent_transition_id r,
      tr_base_checkpoint_id = wt_base_checkpoint_id r, tr_round_no = wt_round_no r,
      tr_step_kind = wt_step_kind r, tr_continuation = continuation, tr_artifact_refs = refs,
      tr_payload_hash = wt_payload_hash r, tr_payload_size_bytes = wt_payload_size_bytes r,
      tr_status = wt_status r, tr_attempt_no = wt_attempt_no r, tr_created_at = wt_created_at r,
      tr_settled_at = wt_settled_at r\<rparr>"

definition workflow_transition_from_row ::
  "(string \<Rightarrow> string) \<Rightarrow> transition_row \<Rightarrow> rc_error + transition" where
  "workflow_transition_from_row sha r =
     (case decode_payload (wt_payload_json r) of
        None \<Rightarrow> corrupt_row
      | Some (continuation, refs) \<Rightarrow>
          (case workflow_transition_payload sha continuation refs of
             Inl e \<Rightarrow> corrupt_row
           | Inr (canonical, payload_hash, payload_size) \<Rightarrow>
               if canonical \<noteq> wt_payload_json r \<or> payload_hash \<noteq> wt_payload_hash r \<or>
                  payload_size \<noteq> wt_payload_size_bytes r \<or> \<not> columns_ok r
               then corrupt_row
               else Inr (transition_of r continuation refs)))"

section \<open>What is written is read back\<close>

lemma text_list_PyStr [simp]: "text_list (map PyStr refs) = Some refs"
  by (induction refs) auto

lemma large_state_canon: "large_state (canon v) = large_state v"
proof (induction v)
  case (PyDict kvs)
  then show ?case by (force simp: sort_members list_ex_iff)
qed (auto simp: list_ex_iff)

lemma payload_value_wf: "py_wf c \<Longrightarrow> py_wf (payload_value c refs)"
  by (simp add: payload_value_def list_all_iff)

lemma canon_payload_value: "canon (payload_value c refs) = payload_value (canon c) refs"
  by (simp add: payload_value_def comp_def less_list_code less_char_def)

lemma decode_encode:
  assumes "py_wf c"
  shows "decode_payload (dumps (payload_value c refs)) = Some (canon c, refs)"
  using loads_dumps[OF payload_value_wf[OF assms]]
  by (simp add: decode_payload_def canon_payload_value) (simp add: payload_value_def)

lemma payload_Inr:
  "workflow_transition_payload sha c refs = Inr (json, h, n) \<longleftrightarrow>
   (\<exists>kvs. c = PyDict kvs \<and> kvs \<noteq> []) \<and> \<not> large_state c \<and> distinct refs \<and> list_all (opaque_id 256) refs \<and>
   json = dumps (payload_value c refs) \<and> int (length json) \<le> MAX_WORKFLOW_TRANSITION_BYTES \<and>
   h = sha json \<and> n = int (length json)"
  by (auto simp: workflow_transition_payload_def Let_def split: pyval.splits if_splits)

lemma canon_dict: "(\<exists>kvs. canon c = PyDict kvs \<and> kvs \<noteq> []) \<longleftrightarrow> (\<exists>kvs. c = PyDict kvs \<and> kvs \<noteq> [])"
  by (cases c) (auto dest: arg_cong[of _ _ length])

lemma payload_canon:
  "workflow_transition_payload sha c refs = Inr (json, h, n) \<Longrightarrow>
   workflow_transition_payload sha (canon c) refs = Inr (json, h, n)"
  unfolding payload_Inr canon_dict large_state_canon
  by (auto simp: canon_payload_value[symmetric] dumps_canon)

text \<open>
  The payload columns hold the encoding of \<open>c\<close> and \<open>refs\<close>; such a row reads back.
\<close>

definition payload_columns :: "(string \<Rightarrow> string) \<Rightarrow> pyval \<Rightarrow> string list \<Rightarrow> transition_row \<Rightarrow> bool" where
  "payload_columns sha c refs r \<longleftrightarrow>
     workflow_transition_payload sha c refs =
       Inr (wt_payload_json r, wt_payload_hash r, wt_payload_size_bytes r)"

lemma from_row_written:
  assumes "payload_columns sha c refs r" "columns_ok r" "py_wf c"
  shows "workflow_transition_from_row sha r = Inr (transition_of r (canon c) refs)"
proof -
  have p: "workflow_transition_payload sha (canon c) refs =
      Inr (wt_payload_json r, wt_payload_hash r, wt_payload_size_bytes r)"
    using payload_canon assms(1) unfolding payload_columns_def by blast
  have "wt_payload_json r = dumps (payload_value c refs)"
    using assms(1) unfolding payload_columns_def payload_Inr by blast
  then have "decode_payload (wt_payload_json r) = Some (canon c, refs)"
    using decode_encode[OF assms(3)] by simp
  then show ?thesis using p assms(2) by (simp add: workflow_transition_from_row_def)
qed

lemma decode_payload_wf: "decode_payload json = Some (c, refs) \<Longrightarrow> py_wf c"
  by (fastforce simp: decode_payload_def list_all_iff
      dest!: loads_wf map_of_SomeD split: option.splits pyval.splits prod.splits)

lemma from_row_parts:
  assumes "workflow_transition_from_row sha r = Inr t"
  obtains c refs where "t = transition_of r c refs" "columns_ok r" "payload_columns sha c refs r" "py_wf c"
  using assms decode_payload_wf[of "wt_payload_json r"]
  by (auto simp: workflow_transition_from_row_def payload_columns_def
      split: option.splits sum.splits prod.splits if_splits)

text \<open>A row can be read; the columns of its lifecycle do not matter.\<close>

definition readable :: "(string \<Rightarrow> string) \<Rightarrow> transition_row \<Rightarrow> bool" where
  "readable sha r \<longleftrightarrow> (\<exists>t. workflow_transition_from_row sha r = Inr t)"

lemma from_row_id: "workflow_transition_from_row sha r = Inr t \<Longrightarrow> tr_transition_id t = wt_transition_id r"
  by (auto elim!: from_row_parts simp: transition_of_def)

lemma transition_of_simps [simp]:
  "tr_transition_id (transition_of r c refs) = wt_transition_id r" "tr_run (transition_of r c refs) = wt_run r"
  "tr_lane_run_id (transition_of r c refs) = wt_lane_run_id r" "tr_query_id (transition_of r c refs) = wt_query_id r"
  "tr_parent_transition_id (transition_of r c refs) = wt_parent_transition_id r"
  "tr_base_checkpoint_id (transition_of r c refs) = wt_base_checkpoint_id r"
  "tr_round_no (transition_of r c refs) = wt_round_no r" "tr_step_kind (transition_of r c refs) = wt_step_kind r"
  "tr_continuation (transition_of r c refs) = c" "tr_artifact_refs (transition_of r c refs) = refs"
  "tr_status (transition_of r c refs) = wt_status r" "tr_attempt_no (transition_of r c refs) = wt_attempt_no r"
  by (simp_all add: transition_of_def)

section \<open>The property\<close>

text \<open>
  C27: A written payload is read back. A row that stores the text, hash and size computed by
  \<open>workflow_transition_payload\<close> under valid columns is decoded to the canonical form of the
  continuation (keys in order, tuples as lists) with the same references; the canonical form has the
  same encoding, and equals the continuation itself in Python's sense when it has no tuples.
\<close>

theorem transition_payload_roundtrip:
  assumes p: "workflow_transition_payload sha c refs = Inr (json, h, n)" and wf: "py_wf c"
    and r: "wt_payload_json r = json" "wt_payload_hash r = h" "wt_payload_size_bytes r = n" "columns_ok r"
  shows "workflow_transition_from_row sha r = Inr (transition_of r (canon c) refs) \<and>
    workflow_transition_payload sha (canon c) refs = Inr (json, h, n) \<and>
    (\<not> has_tuple c \<longrightarrow> py_eq (canon c) c)"
  using from_row_written[of sha c refs r] payload_canon[OF p] py_eq_canon p wf r by (simp add: payload_columns_def)

definition demo_payload :: pyval where
  "demo_payload = PyDict [(''step'', PyInt (- 3)), (''detail'', PyTuple [PyNone, PyStr (''caf'' @ [CHR 0xC3, CHR 0xA9])])]"

definition demo_row :: transition_row where
  "demo_row = \<lparr>wt_transition_id = ''t1'', wt_run = ''r1'', wt_lane_run_id = ''lane1'', wt_query_id = ''query1'',
     wt_parent_transition_id = None, wt_base_checkpoint_id = ''cp1'', wt_round_no = 1,
     wt_step_kind = ''source_dispatch'', wt_payload_json = dumps (payload_value demo_payload [''a'']),
     wt_payload_hash = ''h'', wt_payload_size_bytes = int (length (dumps (payload_value demo_payload [''a'']))),
     wt_status = ''active'', wt_attempt_no = 1, wt_created_at = ''+'', wt_settled_at = None\<rparr>"

theorem transition_payload_roundtrip_witness:
  "workflow_transition_from_row (\<lambda>_. ''h'') demo_row = Inr (transition_of demo_row (canon demo_payload) [''a'']) \<and>
   canon demo_payload \<noteq> demo_payload"
proof -
  have p: "workflow_transition_payload (\<lambda>_. ''h'') demo_payload [''a''] =
      Inr (wt_payload_json demo_row, wt_payload_hash demo_row, wt_payload_size_bytes demo_row)"
    by code_simp
  have "py_wf demo_payload" "columns_ok demo_row" "canon demo_payload \<noteq> demo_payload" by code_simp+
  with transition_payload_roundtrip[OF p] show ?thesis by blast
qed

end
