(* ===== verification/Workflow.thy ===== *)
theory Workflow
  imports WorkflowCodec SourceLedger
begin

text \<open>
  Durable workflow transitions and round barriers: the methods
  \<open>open_workflow_round_barrier\<close>, \<open>skip_workflow_barrier_lane\<close>, \<open>write_workflow_transition\<close>,
  \<open>get_active_workflow_transition(_chain)\<close>, \<open>get_workflow_round_resume_lanes\<close> and the helpers
  \<open>_workflow_transition_chain_from_active_row\<close>, \<open>_advance_workflow_transition_dispatch_epoch\<close> and
  \<open>_checkpoint_workflow_round_barrier\<close> of \<open>store.py\<close>, on the tables of
  \<open>workflow_transition.py\<close> with their CHECKs, keys and the partial unique index.

  A round opens a barrier with its lanes (all pending). The first step of a lane activates it, every
  later step supersedes the active transition of the lane and names it as its parent, the step
  \<open>lane_completed\<close> completes the lane; a pending lane may be skipped. A checkpoint of the round
  settles the barrier when every lane is completed or skipped.
\<close>

type_synonym sha = "string \<Rightarrow> string"

section \<open>Tables\<close>

definition transition_check :: "transition_row \<Rightarrow> bool" where
  "transition_check r \<longleftrightarrow>
     1 \<le> wt_round_no r \<and> wt_step_kind r \<in> set STEP_KINDS \<and> length (wt_payload_hash r) = 64 \<and>
     0 < wt_payload_size_bytes r \<and> wt_payload_size_bytes r \<le> 65536 \<and>
     wt_status r \<in> set TRANSITION_STATUSES \<and> (wt_status r = ''active'' \<longleftrightarrow> wt_settled_at r = None)"

definition lane_of :: "transition_row \<Rightarrow> string \<times> string \<times> string" where
  "lane_of r = (wt_run r, wt_lane_run_id r, wt_query_id r)"

text \<open>The primary key, the CHECKs and the index \<open>one_active_lane\<close>.\<close>

definition insert_transition :: "transition_row \<Rightarrow> rcdb \<Rightarrow> rc_error + rcdb" where
  "insert_transition r db =
     (if \<not> transition_check r \<or>
         list_ex (\<lambda>x. wt_transition_id x = wt_transition_id r) (t_transitions db) \<or>
         wt_status r = ''active'' \<and> list_ex (\<lambda>x. wt_status x = ''active'' \<and> lane_of x = lane_of r) (t_transitions db)
      then Inl IntegrityError else Inr (db\<lparr>t_transitions := t_transitions db @ [r]\<rparr>))"

text \<open>
  The trigger \<open>runtime_control_workflow_transitions_one_way\<close>: what an UPDATE may do to a row.
\<close>

definition one_way :: "transition_row \<Rightarrow> transition_row \<Rightarrow> bool" where
  "one_way old new \<longleftrightarrow>
     wt_status old = ''active'' \<and> wt_status new \<in> {''superseded'', ''checkpointed''} \<and>
     wt_settled_at new \<noteq> None \<and>
     new = old\<lparr>wt_status := wt_status new, wt_settled_at := wt_settled_at new\<rparr>"

definition settle_transition :: "string \<Rightarrow> string \<Rightarrow> transition_row \<Rightarrow> transition_row" where
  "settle_transition status at r = r\<lparr>wt_status := status, wt_settled_at := Some at\<rparr>"

definition update_transitions ::
  "(transition_row \<Rightarrow> bool) \<Rightarrow> (transition_row \<Rightarrow> transition_row) \<Rightarrow> rcdb \<Rightarrow> rcdb" where
  "update_transitions p f db = db\<lparr>t_transitions := update_where p f (t_transitions db)\<rparr>"

text \<open>\<open>UPDATE .. SET status = 'superseded' .. WHERE transition_id = ? AND status = 'active'\<close>.\<close>

definition supersede :: "string \<Rightarrow> string \<Rightarrow> rcdb \<Rightarrow> rc_error + rcdb" where
  "supersede tid at db =
     (let p = (\<lambda>x. wt_transition_id x = tid \<and> wt_status x = ''active'')
      in if rowcount p (t_transitions db) \<noteq> 1 then rc_fail ''runtime_workflow_transition_conflict''
         else Inr (update_transitions p (settle_transition ''superseded'' at) db))"

definition barrier_check :: "barrier_row \<Rightarrow> bool" where
  "barrier_check b \<longleftrightarrow>
     1 \<le> wb_round_no b \<and> 1 \<le> wb_expected_lane_count b \<and> length (wb_work_plan_hash b) = 64 \<and>
     length (wb_lane_set_hash b) = 64 \<and> wb_status b \<in> {''active'', ''checkpointed''} \<and>
     (wb_status b = ''active'' \<longleftrightarrow> wb_settled_at b = None)"

definition fetch_barrier :: "rcdb \<Rightarrow> string \<Rightarrow> int \<Rightarrow> barrier_row option" where
  "fetch_barrier db rid n = fetchone (\<lambda>b. wb_run b = rid \<and> wb_round_no b = n) (t_barriers db)"

definition insert_barrier :: "barrier_row \<Rightarrow> rcdb \<Rightarrow> rc_error + rcdb" where
  "insert_barrier b db =
     (if \<not> barrier_check b \<or> fetch_barrier db (wb_run b) (wb_round_no b) \<noteq> None
      then Inl IntegrityError else Inr (db\<lparr>t_barriers := t_barriers db @ [b]\<rparr>))"

definition barrier_lane_key :: "barrier_lane_row \<Rightarrow> string \<times> int \<times> string \<times> string" where
  "barrier_lane_key l = (wl_run l, wl_round_no l, wl_lane_run_id l, wl_query_id l)"

definition barrier_lane_check :: "barrier_lane_row \<Rightarrow> bool" where
  "barrier_lane_check l \<longleftrightarrow>
     wl_status l \<in> {''pending'', ''active'', ''completed'', ''skipped''} \<and>
     (wl_status l \<in> {''pending'', ''active''} \<longleftrightarrow> wl_settled_at l = None)"

definition insert_barrier_lane :: "barrier_lane_row \<Rightarrow> rcdb \<Rightarrow> rc_error + rcdb" where
  "insert_barrier_lane l db =
     (if \<not> barrier_lane_check l \<or> list_ex (\<lambda>x. barrier_lane_key x = barrier_lane_key l) (t_barrier_lanes db)
      then Inl IntegrityError else Inr (db\<lparr>t_barrier_lanes := t_barrier_lanes db @ [l]\<rparr>))"

definition pending_lane :: "string \<Rightarrow> int \<Rightarrow> string \<times> string \<Rightarrow> barrier_lane_row" where
  "pending_lane rid n lq =
     \<lparr>wl_run = rid, wl_round_no = n, wl_lane_run_id = fst lq, wl_query_id = snd lq,
      wl_status = ''pending'', wl_settled_at = None\<rparr>"

text \<open>\<open>executemany\<close>.\<close>

fun insert_barrier_lanes :: "string \<Rightarrow> int \<Rightarrow> (string \<times> string) list \<Rightarrow> rcdb \<Rightarrow> rc_error + rcdb" where
  "insert_barrier_lanes rid n [] db = Inr db"
| "insert_barrier_lanes rid n (lq # lanes) db =
     sbind (insert_barrier_lane (pending_lane rid n lq) db) (insert_barrier_lanes rid n lanes)"

text \<open>\<open>ORDER BY source_lane_run_id, query_instance_id\<close>.\<close>

definition round_lanes :: "rcdb \<Rightarrow> string \<Rightarrow> int \<Rightarrow> barrier_lane_row list" where
  "round_lanes db rid n =
     sort_key (\<lambda>l. (wl_lane_run_id l, wl_query_id l))
       (filter (\<lambda>l. wl_run l = rid \<and> wl_round_no l = n) (t_barrier_lanes db))"

definition fetch_barrier_lane :: "rcdb \<Rightarrow> string \<Rightarrow> int \<Rightarrow> string \<Rightarrow> string \<Rightarrow> barrier_lane_row option" where
  "fetch_barrier_lane db rid n lane query =
     fetchone (\<lambda>l. barrier_lane_key l = (rid, n, lane, query)) (t_barrier_lanes db)"

text \<open>
  \<open>UPDATE .. SET status = ?, settled_at = ? WHERE <lane> AND status = ?\<close>, and its row count.
\<close>

definition lane_in_status :: "string \<Rightarrow> int \<Rightarrow> string \<Rightarrow> string \<Rightarrow> string \<Rightarrow> barrier_lane_row \<Rightarrow> bool" where
  "lane_in_status rid n lane query status l \<longleftrightarrow>
     barrier_lane_key l = (rid, n, lane, query) \<and> wl_status l = status"

definition update_barrier_lanes ::
  "(barrier_lane_row \<Rightarrow> bool) \<Rightarrow> (barrier_lane_row \<Rightarrow> barrier_lane_row) \<Rightarrow> rcdb \<Rightarrow> rcdb" where
  "update_barrier_lanes p f db = db\<lparr>t_barrier_lanes := update_where p f (t_barrier_lanes db)\<rparr>"

definition move_lane ::
  "string \<Rightarrow> int \<Rightarrow> string \<Rightarrow> string \<Rightarrow> string \<Rightarrow> (barrier_lane_row \<Rightarrow> barrier_lane_row) \<Rightarrow> rcdb \<Rightarrow> rc_error + rcdb" where
  "move_lane rid n lane query status f db =
     (let p = lane_in_status rid n lane query status
      in if rowcount p (t_barrier_lanes db) \<noteq> 1 then rc_fail ''runtime_workflow_barrier_lane_conflict''
         else Inr (update_barrier_lanes p f db))"

section \<open>Opening a round\<close>

definition lane_set_payload :: "(string \<times> string) list \<Rightarrow> string" where
  "lane_set_payload lanes =
     dumps (PyList (map (\<lambda>(lane, query).
       PyDict [(''queryInstanceId'', PyStr query), (''sourceLaneRunId'', PyStr lane)]) lanes))"

text \<open>The run may still be written, and is starting or running.\<close>

definition require_workflow_run :: "rcdb \<Rightarrow> string \<Rightarrow> rc_error + run_row" where
  "require_workflow_run db rid =
     sbind (or_raise (RuntimeControlLookupError ''runtime_run_not_found'') (fetch_run db rid)) (\<lambda>run.
     sbind (require_run_truth_mutable run) (\<lambda>_.
     if run_status run \<notin> {''starting'', ''running''}
     then rc_fail ''runtime_workflow_transition_run_not_active'' else Inr run))"

text \<open>
  The run's latest checkpoint, which must stand before the controller of this round. The column
  \<open>round_no\<close> of a checkpoint may be NULL, where \<open>int(None)\<close> raises.
\<close>

definition round_checkpoint :: "rcdb \<Rightarrow> run_row \<Rightarrow> int \<Rightarrow> rc_error + string" where
  "round_checkpoint db run n =
     (let invalid = rc_fail ''runtime_workflow_transition_checkpoint_invalid'' in
      case run_latest_checkpoint_id run of
        None \<Rightarrow> invalid
      | Some cid \<Rightarrow>
          (case fetchone (\<lambda>c. cp_run c = run_id run \<and> cp_checkpoint_id c = cid) (t_checkpoints db) of
             None \<Rightarrow> invalid
           | Some c \<Rightarrow>
               if cp_safe_boundary c \<noteq> ''before_round_controller'' then invalid
               else (case cp_round_no c of
                       None \<Rightarrow> Inl (PyTypeError ''int() argument must not be NoneType'')
                     | Some m \<Rightarrow> if m \<noteq> n then invalid else Inr cid)))"

record barrier_open =
  bo_run :: string
  bo_executor_id :: string
  bo_attempt_no :: int
  bo_round_no :: int
  bo_lanes :: "(string \<times> string) list"
  bo_work_plan_ref :: string
  bo_work_plan_hash :: string
  bo_created_at :: string

text \<open>The dataclass \<open>WorkflowRoundBarrierWriteResult\<close> without the duration.\<close>

record barrier_result =
  br_lane_set_hash :: string
  br_payload_hash :: string
  br_payload_size_bytes :: int
  br_inserted :: bool

fun validate_lanes :: "string \<Rightarrow> int \<Rightarrow> (string \<times> string) list \<Rightarrow> rc_error + unit" where
  "validate_lanes rid n [] = Inr ()"
| "validate_lanes rid n (lq # lanes) =
     sbind (validate_transition_identity rid (fst lq) (snd lq) n ''source_dispatch'')
       (\<lambda>_. validate_lanes rid n lanes)"

definition new_barrier :: "sha \<Rightarrow> barrier_open \<Rightarrow> (string \<times> string) list \<Rightarrow> string \<Rightarrow> barrier_row" where
  "new_barrier sha q lanes base =
     \<lparr>wb_run = bo_run q, wb_round_no = bo_round_no q, wb_base_checkpoint_id = base,
      wb_work_plan_ref = bo_work_plan_ref q, wb_work_plan_hash = bo_work_plan_hash q,
      wb_expected_lane_count = int (length lanes), wb_lane_set_hash = sha (lane_set_payload lanes),
      wb_status = ''active'', wb_attempt_no = bo_attempt_no q, wb_created_at = bo_created_at q,
      wb_settled_at = None\<rparr>"

definition open_workflow_round_barrier ::
  "clock \<Rightarrow> sha \<Rightarrow> rcdb \<Rightarrow> barrier_open \<Rightarrow> rc_error + rcdb \<times> barrier_result" where
  "open_workflow_round_barrier ck sha db q =
     (let rid = bo_run q; n = bo_round_no q; lanes = sort (remdups (bo_lanes q)) in
      if lanes = [] \<or> length lanes \<noteq> length (bo_lanes q) then rc_fail ''runtime_workflow_barrier_lanes_invalid''
      else if bo_work_plan_ref q = [] \<or> 256 < length (bo_work_plan_ref q) \<or> \<not> sha256_text (bo_work_plan_hash q)
      then rc_fail ''runtime_workflow_barrier_work_plan_invalid''
      else
        sbind (validate_lanes rid n lanes) (\<lambda>_.
        sbind (require_active_executor ck db rid (bo_executor_id q) (Some (bo_attempt_no q)) (Some (bo_created_at q))) (\<lambda>_.
        sbind (require_workflow_run db rid) (\<lambda>run.
        sbind (round_checkpoint db run n) (\<lambda>base.
        let row = new_barrier sha q lanes base
        in case fetch_barrier db rid n of
             Some b \<Rightarrow>
               if wb_status b \<noteq> ''active'' \<or> wb_base_checkpoint_id b \<noteq> base \<or>
                  wb_work_plan_ref b \<noteq> bo_work_plan_ref q \<or> wb_work_plan_hash b \<noteq> bo_work_plan_hash q \<or>
                  wb_expected_lane_count b \<noteq> int (length lanes) \<or> wb_lane_set_hash b \<noteq> wb_lane_set_hash row \<or>
                  map (\<lambda>l. (wl_lane_run_id l, wl_query_id l)) (round_lanes db rid n) \<noteq> lanes
               then rc_fail ''runtime_workflow_barrier_conflict''
               else
                 sbind (workflow_round_barrier_logical_payload sha b lanes) (\<lambda>(h, size).
                 Inr (db, \<lparr>br_lane_set_hash = wb_lane_set_hash row, br_payload_hash = h,
                           br_payload_size_bytes = size, br_inserted = False\<rparr>))
           | None \<Rightarrow>
               sbind (workflow_round_barrier_logical_payload sha row lanes) (\<lambda>(h, size).
               sbind (insert_barrier row db) (\<lambda>db1.
               sbind (insert_barrier_lanes rid n lanes db1) (\<lambda>db2.
               Inr (db2, \<lparr>br_lane_set_hash = wb_lane_set_hash row, br_payload_hash = h,
                          br_payload_size_bytes = size, br_inserted = True\<rparr>)))))))))"

definition skip_workflow_barrier_lane ::
  "clock \<Rightarrow> rcdb \<Rightarrow> string \<Rightarrow> string \<Rightarrow> int \<Rightarrow> int \<Rightarrow> string \<Rightarrow> string \<Rightarrow> string \<Rightarrow> rc_error + rcdb" where
  "skip_workflow_barrier_lane ck db rid executor attempt n lane query at =
     sbind (validate_transition_identity rid lane query n ''source_dispatch'') (\<lambda>_.
     sbind (require_active_executor ck db rid executor (Some attempt) (Some at)) (\<lambda>_.
     let p = lane_in_status rid n lane query ''pending''
     in if rowcount p (t_barrier_lanes db) = 1
        then Inr (update_barrier_lanes p (\<lambda>l. l\<lparr>wl_status := ''skipped'', wl_settled_at := Some at\<rparr>) db)
        else (case fetch_barrier_lane db rid n lane query of
                None \<Rightarrow> rc_fail ''runtime_workflow_barrier_lane_conflict''
              | Some l \<Rightarrow>
                  if wl_status l \<noteq> ''skipped'' then rc_fail ''runtime_workflow_barrier_lane_conflict''
                  else Inr db)))"

section \<open>Writing a step\<close>

definition active_in_lane :: "string \<Rightarrow> string \<Rightarrow> string \<Rightarrow> transition_row \<Rightarrow> bool" where
  "active_in_lane rid lane query r \<longleftrightarrow> lane_of r = (rid, lane, query) \<and> wt_status r = ''active''"

definition fetch_active :: "rcdb \<Rightarrow> string \<Rightarrow> string \<Rightarrow> string \<Rightarrow> transition_row option" where
  "fetch_active db rid lane query = fetchone (active_in_lane rid lane query) (t_transitions db)"

definition get_active_workflow_transition ::
  "sha \<Rightarrow> rcdb \<Rightarrow> string \<Rightarrow> string \<Rightarrow> string \<Rightarrow> rc_error + transition option" where
  "get_active_workflow_transition sha db rid lane query =
     (case fetch_active db rid lane query of
        None \<Rightarrow> Inr None
      | Some r \<Rightarrow> sbind (workflow_transition_from_row sha r) (\<lambda>t. Inr (Some t)))"

record step_write =
  sw_run :: string
  sw_lane_run_id :: string
  sw_query_id :: string
  sw_executor_id :: string
  sw_attempt_no :: int
  sw_round_no :: int
  sw_step_kind :: string
  sw_continuation :: pyval
  sw_artifact_refs :: "string list"
  sw_operation_ids :: "string list"
  sw_created_at :: string
  sw_transition_id :: "string option"

text \<open>\<open>transition_id or f"rttransition_{uuid4().hex}"\<close>; \<open>fresh\<close> is the generated id.\<close>

definition stored_transition_id :: "step_write \<Rightarrow> string \<Rightarrow> string" where
  "stored_transition_id w fresh =
     (case sw_transition_id w of None \<Rightarrow> fresh | Some tid \<Rightarrow> if tid = [] then fresh else tid)"

definition same_step :: "transition \<Rightarrow> step_write \<Rightarrow> bool" where
  "same_step t w \<longleftrightarrow>
     tr_round_no t = sw_round_no w \<and> tr_step_kind t = sw_step_kind w \<and>
     py_eq (tr_continuation t) (sw_continuation w) \<and> tr_artifact_refs t = sw_artifact_refs w"

text \<open>The first step of a lane: the checkpoint it starts from.\<close>

definition require_first_step :: "rcdb \<Rightarrow> run_row \<Rightarrow> step_write \<Rightarrow> rc_error + string" where
  "require_first_step db run w =
     (if sw_step_kind w \<noteq> ''source_dispatch'' then rc_fail ''runtime_workflow_transition_parent_missing''
      else if run_latest_checkpoint_id run = None then rc_fail ''runtime_workflow_transition_checkpoint_missing''
      else
        sbind (round_checkpoint db run (sw_round_no w)) (\<lambda>base.
        let missing = rc_fail ''runtime_workflow_barrier_lane_missing'' in
        case (fetch_barrier_lane db (sw_run w) (sw_round_no w) (sw_lane_run_id w) (sw_query_id w),
              fetch_barrier db (sw_run w) (sw_round_no w)) of
          (Some l, Some b) \<Rightarrow>
            if wl_status l \<noteq> ''pending'' \<or> wb_status b \<noteq> ''active'' \<or> wb_base_checkpoint_id b \<noteq> base
            then missing else Inr base
        | _ \<Rightarrow> missing))"

text \<open>A later step supersedes the active transition.\<close>

definition require_next_step :: "transition \<Rightarrow> step_write \<Rightarrow> rc_error + unit" where
  "require_next_step t w =
     (if tr_step_kind t \<notin> {''source_dispatch'', ''detail_dispatch''} \<or>
         sw_step_kind w \<notin> {''detail_queued'', ''lane_completed''} \<or>
         sw_step_kind w = ''lane_completed'' \<and> tr_step_kind t \<notin> {''source_dispatch'', ''detail_dispatch''} \<or>
         tr_round_no t \<noteq> sw_round_no w
      then rc_fail ''runtime_workflow_transition_order_invalid'' else Inr ())"

definition step_row ::
  "step_write \<Rightarrow> string \<Rightarrow> string option \<Rightarrow> string \<Rightarrow> string \<times> string \<times> int \<Rightarrow> transition_row" where
  "step_row w tid parent base payload =
     \<lparr>wt_transition_id = tid, wt_run = sw_run w, wt_lane_run_id = sw_lane_run_id w,
      wt_query_id = sw_query_id w, wt_parent_transition_id = parent, wt_base_checkpoint_id = base,
      wt_round_no = sw_round_no w, wt_step_kind = sw_step_kind w, wt_payload_json = fst payload,
      wt_payload_hash = fst (snd payload), wt_payload_size_bytes = snd (snd payload),
      wt_status = ''active'', wt_attempt_no = sw_attempt_no w, wt_created_at = sw_created_at w,
      wt_settled_at = None\<rparr>"

text \<open>The row written for a step: its parent is the active transition, or it starts the lane.\<close>

definition place_step ::
  "rcdb \<Rightarrow> run_row \<Rightarrow> transition option \<Rightarrow> step_write \<Rightarrow> string \<Rightarrow> string \<times> string \<times> int \<Rightarrow>
   rc_error + rcdb \<times> transition_row" where
  "place_step db run active w tid payload =
     (case active of
        None \<Rightarrow> sbind (require_first_step db run w) (\<lambda>base. Inr (db, step_row w tid None base payload))
      | Some t \<Rightarrow>
          sbind (require_next_step t w) (\<lambda>_.
          sbind (supersede (tr_transition_id t) (sw_created_at w) db) (\<lambda>db1.
          Inr (db1, step_row w tid (Some (tr_transition_id t)) (tr_base_checkpoint_id t) payload))))"

definition activate_lane :: "barrier_lane_row \<Rightarrow> barrier_lane_row" where
  "activate_lane l = l\<lparr>wl_status := ''active''\<rparr>"

definition complete_lane :: "string \<Rightarrow> barrier_lane_row \<Rightarrow> barrier_lane_row" where
  "complete_lane at l = l\<lparr>wl_status := ''completed'', wl_settled_at := Some at\<rparr>"

text \<open>The lane is activated by its first step and completed by its last one.\<close>

definition enter_lane :: "step_write \<Rightarrow> bool \<Rightarrow> rcdb \<Rightarrow> rc_error + rcdb" where
  "enter_lane w first db =
     (if first
      then move_lane (sw_run w) (sw_round_no w) (sw_lane_run_id w) (sw_query_id w) ''pending'' activate_lane db
      else Inr db)"

definition leave_lane :: "step_write \<Rightarrow> rcdb \<Rightarrow> rc_error + rcdb" where
  "leave_lane w db =
     (if sw_step_kind w = ''lane_completed''
      then move_lane (sw_run w) (sw_round_no w) (sw_lane_run_id w) (sw_query_id w) ''active''
             (complete_lane (sw_created_at w)) db
      else Inr db)"

text \<open>A step that does not repeat the active one: the writes, and the row read back.\<close>

definition append_step ::
  "sha \<Rightarrow> rcdb \<Rightarrow> run_row \<Rightarrow> transition option \<Rightarrow> step_write \<Rightarrow> string \<Rightarrow> string \<times> string \<times> int \<Rightarrow>
   rc_error + rcdb \<times> transition" where
  "append_step sha db run active w tid payload =
     sbind (place_step db run active w tid payload) (\<lambda>(db1, row).
     if list_ex (\<lambda>x. wt_transition_id x = tid) (t_transitions db1)
     then rc_fail ''runtime_workflow_transition_identity_conflict''
     else
       sbind (insert_transition row db1) (\<lambda>db2.
       sbind (enter_lane w (active = None) db2) (\<lambda>db3.
       sbind (commit_source_operations_with_ref db3 (sw_run w) tid (sw_operation_ids w)
                ''runtime_workflow_transition_source_commit_conflict'') (\<lambda>db4.
       sbind (leave_lane w db4) (\<lambda>db5.
       sbind (or_raise (RuntimeControlError ''runtime_workflow_transition_incomplete'' [])
                (fetchone (\<lambda>x. wt_transition_id x = tid) (t_transitions db5))) (\<lambda>stored.
       sbind (workflow_transition_from_row sha stored) (\<lambda>t. Inr (db5, t))))))))"

definition write_workflow_transition ::
  "clock \<Rightarrow> sha \<Rightarrow> rcdb \<Rightarrow> step_write \<Rightarrow> string \<Rightarrow> rc_error + rcdb \<times> transition \<times> bool" where
  "write_workflow_transition ck sha db w fresh =
     (let rid = sw_run w; lane = sw_lane_run_id w; query = sw_query_id w in
      sbind (validate_transition_identity rid lane query (sw_round_no w) (sw_step_kind w)) (\<lambda>_.
      sbind (workflow_transition_payload sha (sw_continuation w) (sw_artifact_refs w)) (\<lambda>payload.
      if \<not> distinct (sw_operation_ids w) then rc_fail ''runtime_workflow_transition_source_operations_invalid''
      else
        sbind (require_active_executor ck db rid (sw_executor_id w) (Some (sw_attempt_no w)) (Some (sw_created_at w))) (\<lambda>_.
        sbind (require_workflow_run db rid) (\<lambda>run.
        sbind (get_active_workflow_transition sha db rid lane query) (\<lambda>active.
        if (case active of None \<Rightarrow> False | Some t \<Rightarrow> same_step t w)
        then
          sbind (require_transition_source_commits db rid (tr_transition_id (the active)) (sw_operation_ids w)) (\<lambda>_.
          Inr (db, the active, False))
        else
          sbind (append_step sha db run active w (stored_transition_id w fresh) payload) (\<lambda>(db', t).
          Inr (db', t, True))))))))"

section \<open>The chain of a lane\<close>

abbreviation chain_invalid :: "rc_error + 'a" where
  "chain_invalid \<equiv> rc_fail ''runtime_workflow_transition_chain_invalid''"

definition parent_row :: "rcdb \<Rightarrow> string \<Rightarrow> string \<Rightarrow> string \<Rightarrow> string \<Rightarrow> transition_row option" where
  "parent_row db rid lane query tid =
     fetchone (\<lambda>r. wt_transition_id r = tid \<and> lane_of r = (rid, lane, query)) (t_transitions db)"

text \<open>
  The walk from the active row to the first transition of the lane. \<open>seen\<close> makes it end on every
  table, cyclic parents included: each round adds an id of the table that was not seen before.
\<close>

function walk_parents ::
  "sha \<Rightarrow> rcdb \<Rightarrow> string \<Rightarrow> string \<Rightarrow> string \<Rightarrow> transition_row \<Rightarrow> string list \<Rightarrow> transition list \<Rightarrow>
   rc_error + transition list" where
  "walk_parents sha db rid lane query row seen chain =
     sbind (workflow_transition_from_row sha row) (\<lambda>t.
       if (tr_run t, tr_lane_run_id t, tr_query_id t) \<noteq> (rid, lane, query) \<or> tr_transition_id t \<in> set seen
       then chain_invalid
       else
         case tr_parent_transition_id t of
           None \<Rightarrow> Inr (chain @ [t])
         | Some p \<Rightarrow>
             (case parent_row db rid lane query p of
                None \<Rightarrow> chain_invalid
              | Some parent \<Rightarrow>
                  walk_parents sha db rid lane query parent (tr_transition_id t # seen) (chain @ [t])))"
  by pat_completeness auto

termination
proof (relation "measure (\<lambda>(sha, db, rid, lane, query, row, seen, chain).
    card (insert (wt_transition_id row) (wt_transition_id ` set (t_transitions db)) - set seen))")
  fix sha db rid lane query row seen chain t p parent
  assume row: "workflow_transition_from_row sha row = Inr t"
    and new: "\<not> ((tr_run t, tr_lane_run_id t, tr_query_id t) \<noteq> (rid, lane, query) \<or> tr_transition_id t \<in> set seen)"
    and parent: "parent_row db rid lane query p = Some parent"
  let ?ids = "wt_transition_id ` set (t_transitions db)"
  have t: "tr_transition_id t = wt_transition_id row" using row by (auto elim!: from_row_parts)
  have "wt_transition_id parent \<in> ?ids" using parent by (auto simp: parent_row_def dest: fetchone_SomeD)
  then have "insert (wt_transition_id parent) ?ids - set (tr_transition_id t # seen) \<subset>
      insert (wt_transition_id row) ?ids - set seen"
    using new t by auto
  then show "((sha, db, rid, lane, query, parent, tr_transition_id t # seen, chain @ [t]),
      sha, db, rid, lane, query, row, seen, chain) \<in> measure (\<lambda>(sha, db, rid, lane, query, row, seen, chain).
      card (insert (wt_transition_id row) (wt_transition_id ` set (t_transitions db)) - set seen))"
    by (simp add: psubset_card_mono)
qed simp

declare walk_parents.simps [simp del]

definition linked :: "transition \<times> transition \<Rightarrow> bool" where
  "linked = (\<lambda>(previous, current).
     tr_parent_transition_id current = Some (tr_transition_id previous) \<and>
     tr_base_checkpoint_id current = tr_base_checkpoint_id previous)"

definition workflow_transition_chain_from_active_row ::
  "sha \<Rightarrow> rcdb \<Rightarrow> transition_row option \<Rightarrow> string \<Rightarrow> string \<Rightarrow> string \<Rightarrow> rc_error + transition list" where
  "workflow_transition_chain_from_active_row sha db active_row rid lane query =
     (case active_row of
        None \<Rightarrow> Inr []
      | Some row \<Rightarrow>
          sbind (walk_parents sha db rid lane query row [] []) (\<lambda>walked.
          let chain = rev walked in
          if tr_step_kind (hd chain) \<noteq> ''source_dispatch'' \<or> \<not> list_all linked (zip chain (tl chain))
          then chain_invalid else Inr chain))"

definition get_active_workflow_transition_chain ::
  "sha \<Rightarrow> rcdb \<Rightarrow> string \<Rightarrow> string \<Rightarrow> string \<Rightarrow> rc_error + transition list" where
  "get_active_workflow_transition_chain sha db rid lane query =
     workflow_transition_chain_from_active_row sha db (fetch_active db rid lane query) rid lane query"

section \<open>Resuming a round\<close>

text \<open>\<open>.. WHERE runtime_run_id = ? AND status = 'active' ORDER BY source_lane_run_id, query_instance_id\<close>\<close>

definition active_rows :: "rcdb \<Rightarrow> string \<Rightarrow> transition_row list" where
  "active_rows db rid =
     sort_key (\<lambda>r. (wt_lane_run_id r, wt_query_id r))
       (filter (\<lambda>r. wt_run r = rid \<and> wt_status r = ''active'') (t_transitions db))"

definition active_barriers :: "rcdb \<Rightarrow> string \<Rightarrow> barrier_row list" where
  "active_barriers db rid =
     sort_key wb_round_no (filter (\<lambda>b. wb_run b = rid \<and> wb_status b = ''active'') (t_barriers db))"

fun get_chains :: "sha \<Rightarrow> rcdb \<Rightarrow> string \<Rightarrow> transition_row list \<Rightarrow> rc_error + transition list list" where
  "get_chains sha db rid [] = Inr []"
| "get_chains sha db rid (r # rows) =
     sbind (get_active_workflow_transition_chain sha db rid (wt_lane_run_id r) (wt_query_id r)) (\<lambda>chain.
     sbind (get_chains sha db rid rows) (\<lambda>chains. Inr (chain # chains)))"

definition get_active_workflow_transition_chains ::
  "sha \<Rightarrow> rcdb \<Rightarrow> string \<Rightarrow> rc_error + transition list list" where
  "get_active_workflow_transition_chains sha db rid = get_chains sha db rid (active_rows db rid)"

text \<open>The dataclass \<open>RuntimeWorkflowLaneResume\<close>.\<close>

record lane_resume =
  re_round_no :: int
  re_base_checkpoint_id :: string
  re_lane_run_id :: string
  re_query_id :: string
  re_barrier_status :: string
  re_work_plan_ref :: string
  re_work_plan_hash :: string
  re_transitions :: "transition list"

abbreviation barrier_invalid :: "rc_error + 'a" where
  "barrier_invalid \<equiv> rc_fail ''runtime_workflow_round_barrier_invalid''"

definition row_key :: "transition_row \<Rightarrow> string \<times> string" where
  "row_key r = (wt_lane_run_id r, wt_query_id r)"

definition lane_key :: "barrier_lane_row \<Rightarrow> string \<times> string" where
  "lane_key l = (wl_lane_run_id l, wl_query_id l)"

definition lane_transitions ::
  "sha \<Rightarrow> rcdb \<Rightarrow> string \<Rightarrow> barrier_lane_row \<Rightarrow> transition_row option \<Rightarrow> rc_error + transition list" where
  "lane_transitions sha db rid l active =
     (if wl_status l \<in> {''pending'', ''skipped''} then (if active \<noteq> None then barrier_invalid else Inr [])
      else if wl_status l \<notin> {''active'', ''completed''} then barrier_invalid
      else
        sbind (workflow_transition_chain_from_active_row sha db active rid (wl_lane_run_id l) (wl_query_id l)) (\<lambda>chain.
        if chain = [] \<or> wl_status l = ''completed'' \<and> tr_step_kind (last chain) \<noteq> ''lane_completed'' \<or>
           wl_status l = ''active'' \<and> tr_step_kind (last chain) = ''lane_completed''
        then barrier_invalid else Inr chain))"

text \<open>The loop over the lanes; \<open>active_by_lane\<close> is a dict whose entries are popped.\<close>

fun resume_lanes ::
  "sha \<Rightarrow> rcdb \<Rightarrow> string \<Rightarrow> barrier_row \<Rightarrow> barrier_lane_row list \<Rightarrow> ((string \<times> string) \<times> transition_row) list \<Rightarrow>
   rc_error + lane_resume list" where
  "resume_lanes sha db rid b [] active_by_lane =
     (if active_by_lane \<noteq> [] then barrier_invalid else Inr [])"
| "resume_lanes sha db rid b (l # lanes) active_by_lane =
     sbind (lane_transitions sha db rid l (map_of active_by_lane (lane_key l))) (\<lambda>chain.
     sbind (resume_lanes sha db rid b lanes (filter (\<lambda>kr. fst kr \<noteq> lane_key l) active_by_lane)) (\<lambda>resumes.
     Inr (\<lparr>re_round_no = wb_round_no b, re_base_checkpoint_id = wb_base_checkpoint_id b,
           re_lane_run_id = wl_lane_run_id l, re_query_id = wl_query_id l, re_barrier_status = wl_status l,
           re_work_plan_ref = wb_work_plan_ref b, re_work_plan_hash = wb_work_plan_hash b,
           re_transitions = chain\<rparr> # resumes)))"

definition get_workflow_round_resume_lanes ::
  "sha \<Rightarrow> rcdb \<Rightarrow> string \<Rightarrow> string \<Rightarrow> rc_error + lane_resume list" where
  "get_workflow_round_resume_lanes sha db rid base =
     (case active_barriers db rid of
        [] \<Rightarrow>
          if active_rows db rid \<noteq> [] then rc_fail ''runtime_workflow_round_barrier_missing'' else Inr []
      | b # others \<Rightarrow>
          if others \<noteq> [] \<or> wb_base_checkpoint_id b \<noteq> base then barrier_invalid
          else if wb_work_plan_ref b = [] \<or> length (wb_work_plan_hash b) \<noteq> 64 then barrier_invalid
          else
            let lanes = round_lanes db rid (wb_round_no b); rows = active_rows db rid
            in if int (length lanes) \<noteq> wb_expected_lane_count b then barrier_invalid
               else if sha (lane_set_payload (map lane_key lanes)) \<noteq> wb_lane_set_hash b then barrier_invalid
               else if \<not> distinct (map row_key rows) then barrier_invalid
               else resume_lanes sha db rid b lanes (map (\<lambda>r. (row_key r, r)) rows))"

text \<open>\<open>resume_payload\<close> of a transition and of a lane: what the executor hands to the runtime.\<close>

definition transition_resume_payload :: "transition \<Rightarrow> pyval" where
  "transition_resume_payload t = PyDict
     [(''schemaVersion'', PyStr ''runtime-control-workflow-transition/v1''),
      (''transitionId'', PyStr (tr_transition_id t)),
      (''sourceLaneRunId'', PyStr (tr_lane_run_id t)),
      (''queryInstanceId'', PyStr (tr_query_id t)),
      (''parentTransitionId'', opt_text (tr_parent_transition_id t)),
      (''baseCheckpointId'', PyStr (tr_base_checkpoint_id t)),
      (''roundNo'', PyInt (tr_round_no t)),
      (''stepKind'', PyStr (tr_step_kind t)),
      (''continuation'', tr_continuation t),
      (''artifactRefs'', PyList (map PyStr (tr_artifact_refs t))),
      (''payloadHash'', PyStr (tr_payload_hash t)),
      (''payloadSizeBytes'', PyInt (tr_payload_size_bytes t))]"

definition lane_resume_payload :: "lane_resume \<Rightarrow> pyval" where
  "lane_resume_payload x = PyDict
     [(''roundNo'', PyInt (re_round_no x)),
      (''baseCheckpointId'', PyStr (re_base_checkpoint_id x)),
      (''sourceLaneRunId'', PyStr (re_lane_run_id x)),
      (''queryInstanceId'', PyStr (re_query_id x)),
      (''barrierStatus'', PyStr (re_barrier_status x)),
      (''workPlanArtifactRef'', PyStr (re_work_plan_ref x)),
      (''workPlanArtifactHash'', PyStr (re_work_plan_hash x)),
      (''transitions'', PyList (map transition_resume_payload (re_transitions x)))]"

definition get_workflow_round_barrier_lanes ::
  "rcdb \<Rightarrow> string \<Rightarrow> int \<Rightarrow> (string \<times> string \<times> string) list" where
  "get_workflow_round_barrier_lanes db rid n =
     (case fetch_barrier db rid n of
        None \<Rightarrow> []
      | Some b \<Rightarrow> map (\<lambda>l. (wl_lane_run_id l, wl_query_id l, wl_status l)) (round_lanes db rid n))"

section \<open>A dispatch advances the transition of its operation\<close>

definition py_get :: "pyval \<Rightarrow> string \<Rightarrow> pyval" where
  "py_get v k =
     (case v of PyDict kvs \<Rightarrow> (case map_of kvs k of None \<Rightarrow> PyNone | Some x \<Rightarrow> x) | _ \<Rightarrow> PyNone)"

definition py_items :: "pyval \<Rightarrow> (string \<times> pyval) list" where
  "py_items v = (case v of PyDict kvs \<Rightarrow> kvs | _ \<Rightarrow> [])"

fun read_transitions :: "sha \<Rightarrow> transition_row list \<Rightarrow> rc_error + transition list" where
  "read_transitions sha [] = Inr []"
| "read_transitions sha (r # rows) =
     sbind (workflow_transition_from_row sha r) (\<lambda>t.
     sbind (read_transitions sha rows) (\<lambda>ts. Inr (t # ts)))"

definition target_values :: "acceptance \<Rightarrow> (string \<times> pyval) list" where
  "target_values = (\<lambda>(r, e, d).
     [(''dispatchAuthorizationOrdinal'', PyInt (ds_ordinal d)),
      (''dispatchIntentId'', PyStr (ds_intent_id d)),
      (''dispatchIntentDigest'', PyStr (ds_intent_digest d)),
      (''runtimeAttemptNo'', PyInt (ex_attempt_no e)),
      (''runtimeAttemptFenceRef'', PyStr (ex_attempt_fence_ref e)),
      (''browserControlScopeId'', opt_text (ex_scope_id e))])"

definition dispatched_step :: "string \<Rightarrow> string" where
  "dispatched_step kind = (if kind = ''details'' then ''detail_dispatch'' else ''source_dispatch'')"

definition dispatched_schema :: "string \<Rightarrow> string" where
  "dispatched_schema kind =
     (if kind = ''details'' then ''runtime-detail-dispatch-continuation/v1''
      else ''runtime-source-dispatch-continuation/v1'')"

definition valid_initial :: "string \<Rightarrow> transition \<Rightarrow> int \<Rightarrow> bool" where
  "valid_initial kind t ordinal \<longleftrightarrow>
     ordinal = 1 \<and> py_get (tr_continuation t) ''dispatchAuthorizationOrdinal'' = PyNone \<and>
     (kind = ''details'' \<and> tr_step_kind t = ''detail_queued'' \<and>
        py_eq (py_get (tr_continuation t) ''schemaVersion'') (PyStr ''runtime-detail-queued-continuation/v1'') \<or>
      kind = ''cards'' \<and> tr_step_kind t = ''source_dispatch'' \<and>
        py_eq (py_get (tr_continuation t) ''schemaVersion'') (PyStr ''runtime-source-dispatch-continuation/v1''))"

definition valid_retry :: "string \<Rightarrow> transition \<Rightarrow> int \<Rightarrow> bool" where
  "valid_retry kind t ordinal \<longleftrightarrow>
     tr_step_kind t = dispatched_step kind \<and>
     (case py_get (tr_continuation t) ''dispatchAuthorizationOrdinal'' of
        PyInt previous \<Rightarrow> previous + 1 = ordinal | _ \<Rightarrow> False)"

definition advanced_continuation :: "string \<Rightarrow> transition \<Rightarrow> acceptance \<Rightarrow> pyval" where
  "advanced_continuation kind t acc =
     PyDict (dict_update (dict_set ''schemaVersion'' (PyStr (dispatched_schema kind)) (py_items (tr_continuation t)))
               (target_values acc))"

definition dispatch_transition_id :: "sha \<Rightarrow> transition \<Rightarrow> dispatch_row \<Rightarrow> string" where
  "dispatch_transition_id sha t d =
     ''rttransition_dispatch_'' @
       take 48 (sha (tr_transition_id t @ CHR '':'' # ds_intent_id d @ CHR '':'' # str_int (ds_ordinal d)))"

definition dispatch_row_of ::
  "sha \<Rightarrow> string \<Rightarrow> transition \<Rightarrow> acceptance \<Rightarrow> string \<Rightarrow> string \<times> string \<times> int \<Rightarrow> transition_row" where
  "dispatch_row_of sha kind t acc at payload =
     \<lparr>wt_transition_id = dispatch_transition_id sha t (snd (snd acc)), wt_run = tr_run t,
      wt_lane_run_id = tr_lane_run_id t, wt_query_id = tr_query_id t,
      wt_parent_transition_id = Some (tr_transition_id t), wt_base_checkpoint_id = tr_base_checkpoint_id t,
      wt_round_no = tr_round_no t, wt_step_kind = dispatched_step kind, wt_payload_json = fst payload,
      wt_payload_hash = fst (snd payload), wt_payload_size_bytes = snd (snd payload),
      wt_status = ''active'', wt_attempt_no = ex_attempt_no (fst (snd acc)), wt_created_at = at,
      wt_settled_at = None\<rparr>"

text \<open>The one active transition of the run that names the operation.\<close>

definition transition_of_operation :: "sha \<Rightarrow> rcdb \<Rightarrow> operation_row \<Rightarrow> rc_error + transition" where
  "transition_of_operation sha db r =
     sbind (read_transitions sha (filter (\<lambda>x. wt_run x = op_run r \<and> wt_status x = ''active'') (t_transitions db))) (\<lambda>ts.
     case filter (\<lambda>t. py_eq (py_get (tr_continuation t) ''operationId'') (PyStr (op_operation_id r))) ts of
       [t] \<Rightarrow> Inr t
     | _ \<Rightarrow> rc_fail ''runtime_workflow_dispatch_transition_missing'')"

definition advance_workflow_transition_dispatch_epoch ::
  "sha \<Rightarrow> rcdb \<Rightarrow> acceptance \<Rightarrow> string \<Rightarrow> string \<Rightarrow> rc_error + rcdb" where
  "advance_workflow_transition_dispatch_epoch sha db acc at kind =
     (let r = fst acc; d = snd (snd acc);
          mismatch = rc_fail ''runtime_workflow_dispatch_transition_mismatch''
      in if kind \<notin> {''cards'', ''details''} \<or> op_operation_kind r \<noteq> kind then mismatch
         else
           sbind (transition_of_operation sha db r) (\<lambda>t.
           if tr_step_kind t \<notin> (if kind = ''details'' then {''detail_queued'', ''detail_dispatch''} else {''source_dispatch''}) \<or>
              \<not> py_eq (py_get (tr_continuation t) ''requestHash'') (PyStr (op_request_hash r))
           then mismatch
           else if list_all (\<lambda>(k, v). py_eq (py_get (tr_continuation t) k) v) (target_values acc) \<and>
                   tr_step_kind t = dispatched_step kind
           then Inr db
           else if \<not> valid_initial kind t (ds_ordinal d) \<and> \<not> valid_retry kind t (ds_ordinal d)
           then rc_fail ''runtime_workflow_dispatch_epoch_mismatch''
           else
             sbind (workflow_transition_payload sha (advanced_continuation kind t acc) (tr_artifact_refs t)) (\<lambda>payload.
             sbind (supersede (tr_transition_id t) at db) (\<lambda>db1.
             insert_transition (dispatch_row_of sha kind t acc at payload) db1))))"

section \<open>A checkpoint settles the round\<close>

abbreviation unsettled :: "rc_error + 'a" where
  "unsettled \<equiv> rc_fail ''runtime_workflow_round_barrier_unsettled''"

fun completed_lanes ::
  "sha \<Rightarrow> int \<Rightarrow> transition_row list \<Rightarrow> (string \<times> string) list \<Rightarrow> rc_error + (string \<times> string) list" where
  "completed_lanes sha n [] keys = Inr keys"
| "completed_lanes sha n (r # rows) keys =
     sbind (workflow_transition_from_row sha r) (\<lambda>t.
     if tr_round_no t \<noteq> n \<or> (tr_lane_run_id t, tr_query_id t) \<in> set keys \<or> tr_step_kind t \<noteq> ''lane_completed''
     then unsettled
     else completed_lanes sha n rows (keys @ [(tr_lane_run_id t, tr_query_id t)]))"

definition all_source_operations_main_committed :: "rcdb \<Rightarrow> string \<Rightarrow> bool" where
  "all_source_operations_main_committed db rid \<longleftrightarrow>
     \<not> list_ex (\<lambda>r. op_run r = rid \<and> (op_phase r \<noteq> ''main_committed'' \<or> op_main_commit_ref r = None)) (t_operations db)"

definition settle_round :: "string \<Rightarrow> int \<Rightarrow> string \<Rightarrow> nat \<Rightarrow> rcdb \<Rightarrow> rc_error + rcdb" where
  "settle_round rid n at count db =
     (let p = (\<lambda>r. wt_run r = rid \<and> wt_round_no r = n \<and> wt_status r = ''active'');
          q = (\<lambda>b. wb_run b = rid \<and> wb_round_no b = n \<and> wb_status b = ''active'')
      in if rowcount p (t_transitions db) \<noteq> count then rc_fail ''runtime_workflow_transition_conflict''
         else if rowcount q (t_barriers db) \<noteq> 1 then rc_fail ''runtime_workflow_barrier_conflict''
         else Inr ((update_transitions p (settle_transition ''checkpointed'' at) db)
                \<lparr>t_barriers := update_where q (\<lambda>b. b\<lparr>wb_status := ''checkpointed'', wb_settled_at := Some at\<rparr>)
                   (t_barriers db)\<rparr>))"

definition checkpoint_workflow_round_barrier ::
  "sha \<Rightarrow> rcdb \<Rightarrow> string \<Rightarrow> int option \<Rightarrow> string \<Rightarrow> rc_error + rcdb" where
  "checkpoint_workflow_round_barrier sha db rid round_no at =
     (let rows = active_rows db rid; barriers = active_barriers db rid
      in if rows = [] \<and> barriers = [] then Inr db
         else
           case (round_no, barriers) of
             (Some n, [b]) \<Rightarrow>
               if wb_round_no b \<noteq> n then unsettled
               else
                 let lanes = round_lanes db rid n
                 in if int (length lanes) \<noteq> wb_expected_lane_count b \<or>
                       list_ex (\<lambda>l. wl_status l \<notin> {''completed'', ''skipped''}) lanes
                    then unsettled
                    else
                      sbind (completed_lanes sha n rows []) (\<lambda>keys.
                      if list_ex (\<lambda>l. (wl_status l = ''completed'') \<noteq> (lane_key l \<in> set keys)) lanes then unsettled
                      else if \<not> all_source_operations_main_committed db rid then unsettled
                      else settle_round rid n at (length keys) db)
           | _ \<Rightarrow> unsettled)"

end
