(* ===== verification/WorkflowRounds.thy ===== *)
theory WorkflowRounds
  imports Workflow
begin

text \<open>
  What the tables of the workflow keep: every transition row reads back, the transitions of a lane
  form a chain that ends at its first dispatch, and barriers, lanes and active transitions agree.
\<close>

section \<open>The rows of transitions\<close>

definition parent_ok :: "transition_row list \<Rightarrow> transition_row \<Rightarrow> bool" where
  "parent_ok earlier r \<longleftrightarrow>
     (case wt_parent_transition_id r of
        None \<Rightarrow> wt_step_kind r = ''source_dispatch''
      | Some p \<Rightarrow> \<exists>x \<in> set earlier. wt_transition_id x = p \<and> lane_of x = lane_of r \<and>
                  wt_base_checkpoint_id x = wt_base_checkpoint_id r)"

text \<open>The newest row first: each row names a parent that was written before it.\<close>

fun chained :: "transition_row list \<Rightarrow> bool" where
  "chained [] \<longleftrightarrow> True"
| "chained (r # earlier) \<longleftrightarrow> parent_ok earlier r \<and> chained earlier"

lemma chained_append: "chained (ys @ zs) \<Longrightarrow> chained zs"
  by (induction ys) auto

definition is_active :: "transition_row \<Rightarrow> bool" where
  "is_active r \<longleftrightarrow> wt_status r = ''active''"

definition rows_ok :: "sha \<Rightarrow> transition_row list \<Rightarrow> bool" where
  "rows_ok sha t \<longleftrightarrow>
     distinct (map wt_transition_id t) \<and> list_all (readable sha) t \<and> chained (rev t) \<and>
     distinct (map lane_of (filter is_active t))"

lemma rows_okD:
  assumes "rows_ok sha t"
  shows "distinct (map wt_transition_id t)" "\<And>r. r \<in> set t \<Longrightarrow> readable sha r" "chained (rev t)"
    "distinct (map lane_of (filter is_active t))"
  using assms by (auto simp: rows_ok_def list_all_iff)

lemma one_active:
  assumes "rows_ok sha t" "r \<in> set t" "r' \<in> set t" "is_active r" "is_active r'" "lane_of r = lane_of r'"
  shows "r = r'"
  using distinct_key_eq[OF rows_okD(4)[OF assms(1)], of r r'] assms(2-) by simp

lemma settle_simps [simp]:
  "wt_transition_id (settle_transition st at r) = wt_transition_id r"
  "lane_of (settle_transition st at r) = lane_of r"
  "wt_parent_transition_id (settle_transition st at r) = wt_parent_transition_id r"
  "wt_base_checkpoint_id (settle_transition st at r) = wt_base_checkpoint_id r"
  "wt_step_kind (settle_transition st at r) = wt_step_kind r"
  "wt_round_no (settle_transition st at r) = wt_round_no r"
  "wt_run (settle_transition st at r) = wt_run r"
  "wt_status (settle_transition st at r) = st"
  by (simp_all add: settle_transition_def lane_of_def)

lemma settle_columns:
  "wt_payload_json (settle_transition st at r) = wt_payload_json r"
  "wt_payload_hash (settle_transition st at r) = wt_payload_hash r"
  "wt_payload_size_bytes (settle_transition st at r) = wt_payload_size_bytes r"
  "columns_ok r \<Longrightarrow> st \<in> set TRANSITION_STATUSES \<Longrightarrow> columns_ok (settle_transition st at r)"
  by (simp_all add: settle_transition_def columns_ok_def)

lemma readable_iff:
  "readable sha r \<longleftrightarrow> (\<exists>c refs. decode_payload (wt_payload_json r) = Some (c, refs) \<and>
     payload_columns sha c refs r \<and> columns_ok r)"
  by (auto simp: readable_def workflow_transition_from_row_def payload_columns_def
      split: option.splits sum.splits prod.splits)

lemma readable_settle:
  "readable sha r \<Longrightarrow> st \<in> set TRANSITION_STATUSES \<Longrightarrow> readable sha (settle_transition st at r)"
  using settle_columns by (auto simp: readable_iff payload_columns_def)

lemma chained_map:
  assumes "\<And>r. f r = r \<or> (\<exists>st at. f r = settle_transition st at r)"
  shows "chained (map f t) = chained t"
proof (induction t)
  case Nil
  then show ?case by simp
next
  case (Cons r t)
  have same: "wt_transition_id (f x) = wt_transition_id x" "lane_of (f x) = lane_of x"
      "wt_base_checkpoint_id (f x) = wt_base_checkpoint_id x" "wt_step_kind (f x) = wt_step_kind x"
      "wt_parent_transition_id (f x) = wt_parent_transition_id x" for x
    using assms[of x] by auto
  have "parent_ok (map f t) (f r) = parent_ok t r"
    by (simp add: parent_ok_def same split: option.splits)
  with Cons show ?case by simp
qed

lemma rows_ok_settle:
  assumes "rows_ok sha t" "st \<in> set TRANSITION_STATUSES" "st \<noteq> ''active''"
  shows "rows_ok sha (update_where p (settle_transition st at) t)"
proof -
  let ?f = "\<lambda>r. if p r then settle_transition st at r else r"
  have "map wt_transition_id (update_where p (settle_transition st at) t) = map wt_transition_id t"
    by (rule map_update_where) simp
  moreover have "chained (rev (update_where p (settle_transition st at) t)) = chained (rev t)"
    unfolding update_where_def rev_map by (rule chained_map) auto
  moreover have "list_all (readable sha) (update_where p (settle_transition st at) t)"
    using rows_okD(2)[OF assms(1)] readable_settle[OF _ assms(2)]
    by (auto simp: list_all_iff set_update_where)
  moreover have "filter is_active (update_where p (settle_transition st at) t) =
      filter (\<lambda>r. is_active r \<and> \<not> p r) t"
    using assms(3) by (induction t) (auto simp: is_active_def)
  moreover have "distinct (map lane_of (filter (\<lambda>r. is_active r \<and> \<not> p r) t))"
    using distinct_map_filter[OF rows_okD(4)[OF assms(1)], of "\<lambda>r. \<not> p r"] by (simp add: conj_commute)
  ultimately show ?thesis using assms(1) by (simp add: rows_ok_def)
qed

lemma insert_transition_parts:
  assumes "insert_transition r db = Inr db'"
  shows "t_transitions db' = t_transitions db @ [r]" "transition_check r"
    "wt_transition_id r \<notin> wt_transition_id ` set (t_transitions db)"
    "is_active r \<Longrightarrow> x \<in> set (t_transitions db) \<Longrightarrow> is_active x \<Longrightarrow> lane_of x \<noteq> lane_of r"
    "t_barriers db' = t_barriers db" "t_barrier_lanes db' = t_barrier_lanes db"
  using assms by (auto simp: insert_transition_def list_ex_iff is_active_def split: if_splits)

lemma rows_ok_insert:
  assumes "rows_ok sha (t_transitions db)" "insert_transition r db = Inr db'" "readable sha r"
    "parent_ok (t_transitions db) r"
  shows "rows_ok sha (t_transitions db')"
proof -
  note p = insert_transition_parts[OF assms(2)]
  have "parent_ok (rev (t_transitions db)) r" using assms(4) by (auto simp: parent_ok_def split: option.splits)
  moreover have "lane_of r \<notin> lane_of ` set (filter is_active (t_transitions db))" if "is_active r"
  proof
    assume "lane_of r \<in> lane_of ` set (filter is_active (t_transitions db))"
    then obtain x where "x \<in> set (t_transitions db)" "is_active x" "lane_of x = lane_of r" by auto
    then show False using p(4)[OF that] by blast
  qed
  ultimately show ?thesis
    using rows_okD[OF assms(1)] p(1,3) assms(3)
    by (simp add: rows_ok_def list_all_iff)
qed

lemma supersede_parts:
  assumes "supersede tid at db = Inr db'"
  shows "db' = update_transitions (\<lambda>x. wt_transition_id x = tid \<and> is_active x) (settle_transition ''superseded'' at) db"
    "\<exists>x \<in> set (t_transitions db). wt_transition_id x = tid \<and> is_active x"
proof -
  let ?p = "\<lambda>x. wt_transition_id x = tid \<and> is_active x"
  have "rowcount ?p (t_transitions db) = 1"
    and e: "db' = update_transitions ?p (settle_transition ''superseded'' at) db"
    using assms by (auto simp: supersede_def Let_def is_active_def split: if_splits)
  then show "db' = update_transitions ?p (settle_transition ''superseded'' at) db"
    "\<exists>x \<in> set (t_transitions db). wt_transition_id x = tid \<and> is_active x"
    using rowcount_pos[of ?p "t_transitions db"] by auto
qed

section \<open>The walk over the parents\<close>

lemma from_row_readable:
  assumes "readable sha r"
  obtains t where "workflow_transition_from_row sha r = Inr t" "tr_transition_id t = wt_transition_id r"
    "(tr_run t, tr_lane_run_id t, tr_query_id t) = lane_of r"
    "tr_parent_transition_id t = wt_parent_transition_id r" "tr_step_kind t = wt_step_kind r"
    "tr_base_checkpoint_id t = wt_base_checkpoint_id r" "tr_round_no t = wt_round_no r"
    "tr_status t = wt_status r"
proof -
  from assms obtain t where t: "workflow_transition_from_row sha r = Inr t" by (auto simp: readable_def)
  then show thesis using that[OF t] by (elim from_row_parts) (simp add: lane_of_def)
qed

text \<open>What the walk collects, the newest transition first.\<close>

definition walked :: "transition list \<Rightarrow> bool" where
  "walked w \<longleftrightarrow> w \<noteq> [] \<and> tr_step_kind (last w) = ''source_dispatch'' \<and>
     successively (\<lambda>current previous. linked (previous, current)) w"

lemma walk_returns:
  assumes "chained (r # earlier)" "distinct (map wt_transition_id (r # earlier))"
    and tab: "set (r # earlier) \<subseteq> set (t_transitions db)" "distinct (map wt_transition_id (t_transitions db))"
    and rd: "\<And>x. x \<in> set (r # earlier) \<Longrightarrow> readable sha x"
    and lane: "lane_of r = (rid, lane, query)"
    and seen: "set seen \<inter> wt_transition_id ` set (r # earlier) = {}"
  shows "\<exists>t w. workflow_transition_from_row sha r = Inr t \<and>
     walk_parents sha db rid lane query r seen chain = Inr (chain @ t # w) \<and> walked (t # w)"
  using assms
proof (induction "length earlier" arbitrary: r earlier seen chain rule: less_induct)
  case less
  obtain t where t: "workflow_transition_from_row sha r = Inr t" "tr_transition_id t = wt_transition_id r"
      "(tr_run t, tr_lane_run_id t, tr_query_id t) = lane_of r"
      "tr_parent_transition_id t = wt_parent_transition_id r" "tr_step_kind t = wt_step_kind r"
      "tr_base_checkpoint_id t = wt_base_checkpoint_id r"
    using less.prems(5)[of r] by (auto elim: from_row_readable)
  have new: "tr_transition_id t \<notin> set seen" using less.prems(7) t(2) by auto
  show ?case
  proof (cases "wt_parent_transition_id r")
    case None
    then show ?thesis
      using t new less.prems(1,6) by (subst walk_parents.simps) (simp add: parent_ok_def walked_def)
  next
    case (Some p)
    then obtain x where x: "x \<in> set earlier" "wt_transition_id x = p" "lane_of x = lane_of r"
        "wt_base_checkpoint_id x = wt_base_checkpoint_id r"
      using less.prems(1) by (auto simp: parent_ok_def)
    then obtain ys zs where e: "earlier = ys @ x # zs" by (meson split_list)
    have "parent_row db rid lane query p = Some x"
      unfolding parent_row_def
      by (rule fetchone_keyed[OF less.prems(4)]) (use x less.prems(3,6) in auto)
    then have step: "walk_parents sha db rid lane query r seen chain =
        walk_parents sha db rid lane query x (tr_transition_id t # seen) (chain @ [t])"
      using t new less.prems(6) Some by (subst walk_parents.simps) simp
    have ch: "chained (x # zs)" using less.prems(1) chained_append[of "r # ys" "x # zs"] e by simp
    have "\<exists>u w. workflow_transition_from_row sha x = Inr u \<and>
        walk_parents sha db rid lane query x (tr_transition_id t # seen) (chain @ [t]) =
          Inr ((chain @ [t]) @ u # w) \<and> walked (u # w)"
      by (rule less.hyps[OF _ ch])
        (use less.prems x e t(2) in auto)
    then obtain u w where u: "workflow_transition_from_row sha x = Inr u"
        "walk_parents sha db rid lane query x (tr_transition_id t # seen) (chain @ [t]) = Inr ((chain @ [t]) @ u # w)"
        "walked (u # w)" by blast
    have "tr_transition_id u = p" "tr_base_checkpoint_id u = tr_base_checkpoint_id t"
      using u(1) x t(6) less.prems(5)[of x] e by (auto elim!: from_row_readable)
    then have "walked (t # u # w)" using u(3) Some t(4) by (simp add: walked_def linked_def)
    then show ?thesis using t(1) step u(2) by auto
  qed
qed

lemma zip_tl_successively: "list_all P (zip xs (tl xs)) \<longleftrightarrow> successively (\<lambda>x y. P (x, y)) xs"
proof (induction xs)
  case (Cons x xs)
  then show ?case by (cases xs) auto
qed simp

lemma chain_returns:
  assumes "rows_ok sha (t_transitions db)" "r \<in> set (t_transitions db)" "lane_of r = (rid, lane, query)"
  shows "\<exists>chain t. workflow_transition_chain_from_active_row sha db (Some r) rid lane query = Inr chain \<and>
     chain \<noteq> [] \<and> workflow_transition_from_row sha r = Inr t \<and> last chain = t \<and>
     tr_step_kind (hd chain) = ''source_dispatch'' \<and> list_all linked (zip chain (tl chain))"
proof -
  note ok = rows_okD[OF assms(1)]
  obtain ys zs where e: "rev (t_transitions db) = ys @ r # zs" using assms(2) by (metis set_rev split_list)
  have "chained (r # zs)" using ok(3) chained_append[of ys] e by metis
  moreover have "distinct (map wt_transition_id (r # zs))"
    using ok(1) e by (metis distinct_append distinct_rev map_append rev_map)
  moreover have "set (r # zs) \<subseteq> set (t_transitions db)" using e by (metis set_append set_rev sup_ge2)
  ultimately obtain t w where w: "workflow_transition_from_row sha r = Inr t"
      "walk_parents sha db rid lane query r [] [] = Inr ([] @ t # w)" "walked (t # w)"
    using walk_returns[of r zs db sha rid lane query "[]" "[]"] ok(1,2) assms(3) by (auto simp: subset_iff)
  let ?c = "rev (t # w)"
  have "hd ?c = last (t # w)" by (simp add: hd_rev)
  then have "tr_step_kind (hd ?c) = ''source_dispatch''" "list_all linked (zip ?c (tl ?c))"
    using w(3) unfolding walked_def zip_tl_successively successively_rev by simp_all
  then have "workflow_transition_chain_from_active_row sha db (Some r) rid lane query = Inr ?c"
    using w(2) by (simp add: workflow_transition_chain_from_active_row_def Let_def)
  then show ?thesis using w(1) \<open>tr_step_kind (hd ?c) = _\<close> \<open>list_all linked _\<close>
    by (intro exI[of _ ?c] exI[of _ t]) simp
qed

section \<open>Barriers, lanes and active transitions\<close>

definition active_set :: "transition_row list \<Rightarrow> transition_row set" where
  "active_set t = {r \<in> set t. is_active r}"

definition row_lane :: "transition_row \<Rightarrow> string \<times> int \<times> string \<times> string" where
  "row_lane r = (wt_run r, wt_round_no r, wt_lane_run_id r, wt_query_id r)"

definition barrier_key :: "barrier_row \<Rightarrow> string \<times> int" where
  "barrier_key b = (wb_run b, wb_round_no b)"

definition lane_round :: "barrier_lane_row \<Rightarrow> string \<times> int" where
  "lane_round l = (wl_run l, wl_round_no l)"

definition lane_status_of :: "transition_row \<Rightarrow> string" where
  "lane_status_of r = (if wt_step_kind r = ''lane_completed'' then ''completed'' else ''active'')"

text \<open>An active transition belongs to a lane in its status and to an active barrier.\<close>

definition row_backed :: "barrier_row list \<Rightarrow> barrier_lane_row list \<Rightarrow> transition_row \<Rightarrow> bool" where
  "row_backed bs ls r \<longleftrightarrow>
     (\<exists>l \<in> set ls. barrier_lane_key l = row_lane r \<and> wl_status l = lane_status_of r) \<and>
     (\<exists>b \<in> set bs. barrier_key b = (wt_run r, wt_round_no r) \<and> wb_status b = ''active'' \<and>
        wb_base_checkpoint_id b = wt_base_checkpoint_id r)"

text \<open>A lane belongs to a barrier; while that is active, a lane at work has an active transition.\<close>

definition lane_backed :: "transition_row set \<Rightarrow> barrier_row list \<Rightarrow> barrier_lane_row \<Rightarrow> bool" where
  "lane_backed rs bs l \<longleftrightarrow>
     wl_status l \<in> {''pending'', ''active'', ''completed'', ''skipped''} \<and>
     (\<exists>b \<in> set bs. barrier_key b = lane_round l) \<and>
     (wl_status l \<in> {''active'', ''completed''} \<and>
      (\<exists>b \<in> set bs. barrier_key b = lane_round l \<and> wb_status b = ''active'') \<longrightarrow>
      (\<exists>r \<in> rs. row_lane r = barrier_lane_key l))"

definition links :: "transition_row set \<Rightarrow> barrier_row list \<Rightarrow> barrier_lane_row list \<Rightarrow> bool" where
  "links rs bs ls \<longleftrightarrow> (\<forall>r \<in> rs. row_backed bs ls r) \<and> (\<forall>l \<in> set ls. lane_backed rs bs l)"

text \<open>The barrier records its lanes: their number and the hash of their identities.\<close>

definition round_keys :: "barrier_lane_row list \<Rightarrow> string \<Rightarrow> int \<Rightarrow> (string \<times> string) list" where
  "round_keys ls rid n = sort (map lane_key (filter (\<lambda>l. lane_round l = (rid, n)) ls))"

definition barrier_ok :: "sha \<Rightarrow> barrier_lane_row list \<Rightarrow> barrier_row \<Rightarrow> bool" where
  "barrier_ok sha ls b \<longleftrightarrow>
     wb_work_plan_ref b \<noteq> [] \<and> length (wb_work_plan_hash b) = 64 \<and> wb_status b \<in> {''active'', ''checkpointed''} \<and>
     wb_expected_lane_count b = int (length (round_keys ls (wb_run b) (wb_round_no b))) \<and>
     wb_lane_set_hash b = sha (lane_set_payload (round_keys ls (wb_run b) (wb_round_no b)))"

definition round_inv :: "sha \<Rightarrow> rcdb \<Rightarrow> bool" where
  "round_inv sha db \<longleftrightarrow>
     rows_ok sha (t_transitions db) \<and>
     distinct (map barrier_key (t_barriers db)) \<and> distinct (map barrier_lane_key (t_barrier_lanes db)) \<and>
     list_all (barrier_ok sha (t_barrier_lanes db)) (t_barriers db) \<and>
     links (active_set (t_transitions db)) (t_barriers db) (t_barrier_lanes db)"

lemma round_invD:
  assumes "round_inv sha db"
  shows "rows_ok sha (t_transitions db)" "distinct (map barrier_key (t_barriers db))"
    "distinct (map barrier_lane_key (t_barrier_lanes db))"
    "\<And>b. b \<in> set (t_barriers db) \<Longrightarrow> barrier_ok sha (t_barrier_lanes db) b"
    "links (active_set (t_transitions db)) (t_barriers db) (t_barrier_lanes db)"
  using assms by (auto simp: round_inv_def list_all_iff)

lemma linksD:
  assumes "links rs bs ls"
  shows "\<And>r. r \<in> rs \<Longrightarrow> row_backed bs ls r" "\<And>l. l \<in> set ls \<Longrightarrow> lane_backed rs bs l"
  using assms by (auto simp: links_def)

lemma empty_rounds:
  assumes "t_transitions db = []" "t_barriers db = []" "t_barrier_lanes db = []"
  shows "round_inv sha db"
  using assms by (simp add: round_inv_def rows_ok_def links_def active_set_def)

lemma row_lane_eq: "row_lane r = row_lane r' \<longleftrightarrow> lane_of r = lane_of r' \<and> wt_round_no r = wt_round_no r'"
  by (auto simp: row_lane_def lane_of_def)

text \<open>The identities of the lanes do not change with their status.\<close>

lemma round_keys_map:
  assumes "map barrier_lane_key ls' = map barrier_lane_key ls"
  shows "round_keys ls' rid n = round_keys ls rid n"
proof -
  have g: "map lane_key (filter (\<lambda>l. lane_round l = (rid, n)) xs) =
      map (snd \<circ> snd) (filter (\<lambda>k. (fst k, fst (snd k)) = (rid, n)) (map barrier_lane_key xs))" for xs
    by (induction xs) (auto simp: lane_key_def lane_round_def barrier_lane_key_def)
  show ?thesis unfolding round_keys_def g assms ..
qed

lemma barrier_ok_map:
  assumes "map barrier_lane_key ls' = map barrier_lane_key ls"
  shows "barrier_ok sha ls' = barrier_ok sha ls"
  by (intro ext) (simp add: barrier_ok_def round_keys_map[OF assms])

lemma map_key_sort: "map k (sort_key k xs) = sort (map k xs)"
proof (induction xs)
  case (Cons x xs)
  have "map k (insort_key k x ys) = insort (k x) (map k ys)" for ys by (induction ys) auto
  with Cons show ?case by simp
qed simp

lemma round_lanes_keys: "map lane_key (round_lanes db rid n) = round_keys (t_barrier_lanes db) rid n"
proof -
  have k: "(\<lambda>l. (wl_lane_run_id l, wl_query_id l)) = lane_key" by (intro ext) (simp add: lane_key_def)
  have f: "(\<lambda>l. wl_run l = rid \<and> wl_round_no l = n) = (\<lambda>l. lane_round l = (rid, n))"
    by (intro ext) (simp add: lane_round_def)
  show ?thesis unfolding round_lanes_def round_keys_def k f by (rule map_key_sort)
qed

lemma row_backed_keep:
  assumes "row_backed bs ls r"
    and "\<And>l. l \<in> set ls \<Longrightarrow> barrier_lane_key l = row_lane r \<Longrightarrow> wl_status l = lane_status_of r \<Longrightarrow> l \<in> set ls'"
  shows "row_backed bs ls' r"
  using assms unfolding row_backed_def by blast

lemma lane_status_not_pending [simp]: "lane_status_of r \<noteq> ''pending''" "lane_status_of r \<noteq> ''skipped''"
  by (simp_all add: lane_status_of_def)

section \<open>One step of a lane\<close>

text \<open>
  A row takes the place of the active transition of its lane; with \<open>lane_completed\<close> the lane
  follows.
\<close>

lemma links_replace:
  assumes l: "links rs bs ls" and keyed: "distinct (map barrier_lane_key ls)"
    and inj: "\<And>r r'. r \<in> rs \<Longrightarrow> r' \<in> rs \<Longrightarrow> lane_of r = lane_of r' \<Longrightarrow> r = r'"
    and t: "t \<in> rs" "wt_step_kind t \<noteq> ''lane_completed''"
    and row: "row_lane row = row_lane t" "wt_base_checkpoint_id row = wt_base_checkpoint_id t"
    and ls': "ls' = (if wt_step_kind row = ''lane_completed''
      then update_where (\<lambda>l. barrier_lane_key l = row_lane t \<and> wl_status l = ''active'') (complete_lane at) ls else ls)"
  shows "links (insert row (rs - {t})) bs ls'"
proof -
  let ?p = "\<lambda>l. barrier_lane_key l = row_lane t \<and> wl_status l = ''active''"
  have key: "barrier_lane_key (complete_lane at l) = barrier_lane_key l" "lane_round (complete_lane at l) = lane_round l"
      "wl_status (complete_lane at l) = ''completed''" for l
    by (simp_all add: complete_lane_def barrier_lane_key_def lane_round_def)
  obtain lt where lt: "lt \<in> set ls" "barrier_lane_key lt = row_lane t" "wl_status lt = ''active''"
    using linksD(1)[OF l t(1)] t(2) by (auto simp: row_backed_def lane_status_of_def)
  have mem: "l \<in> set ls' \<Longrightarrow> l \<in> set ls \<or> (\<exists>l0 \<in> set ls. ?p l0 \<and> l = complete_lane at l0)"
    and keep: "l \<in> set ls \<Longrightarrow> \<not> ?p l \<Longrightarrow> l \<in> set ls'" for l
    unfolding ls' by (auto simp: set_update_where split: if_splits)
  have "row_backed bs ls' r" if r: "r \<in> insert row (rs - {t})" for r
  proof (cases "r = row")
    case True
    have "\<exists>l \<in> set ls'. barrier_lane_key l = row_lane row \<and> wl_status l = lane_status_of row"
    proof (cases "wt_step_kind row = ''lane_completed''")
      case True
      then have "complete_lane at lt \<in> set ls'" using lt unfolding ls' by (auto simp: set_update_where)
      then show ?thesis using key lt row(1) True
        by (intro bexI[of _ "complete_lane at lt"]) (simp_all add: lane_status_of_def)
    next
      case False
      then show ?thesis using lt row(1) unfolding ls' by (auto simp: lane_status_of_def)
    qed
    moreover have "(wt_run row, wt_round_no row) = (wt_run t, wt_round_no t)"
      using row(1) by (simp add: row_lane_def)
    ultimately show ?thesis using True linksD(1)[OF l t(1)] row(2) by (auto simp: row_backed_def)
  next
    case False
    then have rs: "r \<in> rs" "r \<noteq> t" using r by auto
    then have "row_lane r \<noteq> row_lane t" using inj[OF rs(1) t(1)] by (auto simp: row_lane_eq)
    with keep show ?thesis by (intro row_backed_keep[OF linksD(1)[OF l rs(1)]]) auto
  qed
  moreover have "lane_backed (insert row (rs - {t})) bs l'" if l': "l' \<in> set ls'" for l'
  proof -
    obtain l0 where l0: "l0 \<in> set ls" "barrier_lane_key l' = barrier_lane_key l0" "lane_round l' = lane_round l0"
        "wl_status l' = wl_status l0 \<or> wl_status l' = ''completed'' \<and> wl_status l0 = ''active''"
      using mem[OF l'] key by auto
    have "\<exists>r \<in> insert row (rs - {t}). row_lane r = barrier_lane_key l0" if "\<exists>r \<in> rs. row_lane r = barrier_lane_key l0"
      using that row(1) by (metis DiffI empty_iff insertCI insertE)
    then show ?thesis using linksD(2)[OF l l0(1)] l0(2-4) unfolding lane_backed_def by auto
  qed
  ultimately show ?thesis by (simp add: links_def)
qed

text \<open>The first step of a pending lane.\<close>

lemma links_first:
  assumes l: "links rs bs ls"
    and pend: "pl \<in> set ls" "barrier_lane_key pl = row_lane row" "wl_status pl = ''pending''"
    and keyed: "distinct (map barrier_lane_key ls)"
    and b: "b \<in> set bs" "barrier_key b = (wt_run row, wt_round_no row)" "wb_status b = ''active''"
      "wb_base_checkpoint_id b = wt_base_checkpoint_id row"
    and step: "wt_step_kind row \<noteq> ''lane_completed''"
  shows "links (insert row rs) bs
    (update_where (\<lambda>l. barrier_lane_key l = row_lane row \<and> wl_status l = ''pending'') activate_lane ls)"
proof -
  let ?p = "\<lambda>l. barrier_lane_key l = row_lane row \<and> wl_status l = ''pending''"
  let ?ls = "update_where ?p activate_lane ls"
  have key: "barrier_lane_key (activate_lane l) = barrier_lane_key l" "lane_round (activate_lane l) = lane_round l"
      "wl_status (activate_lane l) = ''active''" for l
    by (simp_all add: activate_lane_def barrier_lane_key_def lane_round_def)
  have act: "activate_lane pl \<in> set ?ls" using pend by (auto simp: set_update_where)
  have keep: "l \<in> set ls \<Longrightarrow> wl_status l \<noteq> ''pending'' \<Longrightarrow> l \<in> set ?ls" for l
    by (auto simp: set_update_where)
  have "row_backed bs ?ls r" if r: "r \<in> insert row rs" for r
  proof (cases "r = row")
    case True
    then show ?thesis unfolding row_backed_def
      using act key pend b step
      by (intro conjI bexI[of _ "activate_lane pl"] bexI[of _ b]) (simp_all add: lane_status_of_def)
  next
    case False
    then have "row_backed bs ls r" using r linksD(1)[OF l] by blast
    then show ?thesis by (rule row_backed_keep) (use keep in auto)
  qed
  moreover have "lane_backed (insert row rs) bs l'" if l': "l' \<in> set ?ls" for l'
  proof (cases "l' \<in> set ls")
    case True
    then show ?thesis using linksD(2)[OF l True] by (auto simp: lane_backed_def)
  next
    case False
    then obtain l0 where l0: "l0 \<in> set ls" "?p l0" "l' = activate_lane l0"
      using l' by (auto simp: set_update_where split: if_splits)
    then show ?thesis using linksD(2)[OF l l0(1)] key by (auto simp: lane_backed_def)
  qed
  ultimately show ?thesis by (simp add: links_def)
qed

text \<open>A pending lane is skipped.\<close>

lemma links_skip:
  assumes l: "links rs bs ls"
    and f: "\<And>l. barrier_lane_key (f l) = barrier_lane_key l \<and> wl_status (f l) = ''skipped''"
    and p: "\<And>l. p l \<Longrightarrow> wl_status l = ''pending''"
  shows "links rs bs (update_where p f ls)"
proof -
  have round: "lane_round l = (fst (barrier_lane_key l), fst (snd (barrier_lane_key l)))" for l
    by (simp add: lane_round_def barrier_lane_key_def)
  have "row_backed bs (update_where p f ls) r" if r: "r \<in> rs" for r
  proof (rule row_backed_keep[OF linksD(1)[OF l r]])
    fix l assume "l \<in> set ls" "wl_status l = lane_status_of r"
    then show "l \<in> set (update_where p f ls)" using p[of l] by (auto simp: set_update_where)
  qed
  moreover have "lane_backed rs bs l'" if l': "l' \<in> set (update_where p f ls)" for l'
  proof (cases "l' \<in> set ls")
    case True
    then show ?thesis using linksD(2)[OF l] by blast
  next
    case False
    then obtain l0 where l0: "l0 \<in> set ls" "l' = f l0" "p l0"
      using l' by (auto simp: set_update_where split: if_splits)
    then show ?thesis using linksD(2)[OF l l0(1)] f[of l0] round[of l0] round[of l'] by (auto simp: lane_backed_def)
  qed
  ultimately show ?thesis by (simp add: links_def)
qed

text \<open>A barrier is settled with all transitions of its round.\<close>

definition settle_barrier :: "string \<Rightarrow> barrier_row \<Rightarrow> barrier_row" where
  "settle_barrier at b = b\<lparr>wb_status := ''checkpointed'', wb_settled_at := Some at\<rparr>"

lemma links_settle:
  assumes l: "links rs bs ls"
  shows "links {r \<in> rs. (wt_run r, wt_round_no r) \<noteq> k}
    (update_where (\<lambda>b. barrier_key b = k \<and> wb_status b = ''active'') (settle_barrier at) bs) ls"
proof -
  let ?p = "\<lambda>b. barrier_key b = k \<and> wb_status b = ''active''"
  let ?bs = "update_where ?p (settle_barrier at) bs"
  have key: "barrier_key (settle_barrier at b) = barrier_key b" "wb_status (settle_barrier at b) = ''checkpointed''" for b
    by (simp_all add: settle_barrier_def barrier_key_def)
  have keep: "b \<in> set bs \<Longrightarrow> barrier_key b \<noteq> k \<Longrightarrow> b \<in> set ?bs" for b by (auto simp: set_update_where)
  have old: "b \<in> set bs \<and> barrier_key b \<noteq> k" if "b \<in> set ?bs" "wb_status b = ''active''" for b
    using that key(2) by (auto simp: set_update_where split: if_splits)
  have some: "\<exists>b \<in> set ?bs. barrier_key b = j" if "\<exists>b \<in> set bs. barrier_key b = j" for j
  proof -
    from that obtain b where b: "b \<in> set bs" "barrier_key b = j" by blast
    have "(if ?p b then settle_barrier at b else b) \<in> set ?bs" using b(1) by (auto simp: set_update_where)
    moreover have "barrier_key (if ?p b then settle_barrier at b else b) = j" using b(2) key(1)[of b] by (simp split: if_split)
    ultimately show ?thesis by blast
  qed
  have "row_backed ?bs ls r" if r: "r \<in> rs" "(wt_run r, wt_round_no r) \<noteq> k" for r
  proof -
    obtain b where b: "b \<in> set bs" "barrier_key b = (wt_run r, wt_round_no r)" "wb_status b = ''active''"
        "wb_base_checkpoint_id b = wt_base_checkpoint_id r"
      using linksD(1)[OF l r(1)] by (auto simp: row_backed_def)
    moreover have "b \<in> set ?bs" using keep[OF b(1)] b(2) r(2) by simp
    ultimately show ?thesis using linksD(1)[OF l r(1)] unfolding row_backed_def by blast
  qed
  moreover have "lane_backed {r \<in> rs. (wt_run r, wt_round_no r) \<noteq> k} ?bs l'" if l': "l' \<in> set ls" for l'
  proof -
    have lb: "lane_backed rs bs l'" using linksD(2)[OF l l'] .
    have "\<exists>r \<in> {r \<in> rs. (wt_run r, wt_round_no r) \<noteq> k}. row_lane r = barrier_lane_key l'"
      if st: "wl_status l' \<in> {''active'', ''completed''}"
        and b: "b \<in> set ?bs" "barrier_key b = lane_round l'" "wb_status b = ''active''" for b
    proof -
      have "b \<in> set bs" "lane_round l' \<noteq> k" using old b by auto
      then obtain r where r: "r \<in> rs" "row_lane r = barrier_lane_key l'"
        using lb st b unfolding lane_backed_def by blast
      moreover have "(wt_run r, wt_round_no r) = lane_round l'"
        using r(2) by (simp add: row_lane_def barrier_lane_key_def lane_round_def)
      ultimately show ?thesis using \<open>lane_round l' \<noteq> k\<close> by auto
    qed
    then show ?thesis using lb some unfolding lane_backed_def by blast
  qed
  ultimately show ?thesis by (simp add: links_def)
qed

text \<open>A new barrier with its pending lanes.\<close>

lemma links_open:
  assumes l: "links rs bs ls" and fresh: "barrier_key b \<notin> barrier_key ` set bs"
    and b: "barrier_key b = (rid, n)"
  shows "links rs (bs @ [b]) (ls @ map (pending_lane rid n) lanes)"
proof -
  have new: "lane_backed rs (bs @ [b]) (pending_lane rid n lq)" for lq
    using b by (auto simp: lane_backed_def pending_lane_def lane_round_def)
  have "row_backed (bs @ [b]) (ls @ map (pending_lane rid n) lanes) r" if "r \<in> rs" for r
    using linksD(1)[OF l that] unfolding row_backed_def by auto
  moreover have "lane_backed rs (bs @ [b]) l'" if "l' \<in> set ls" for l'
  proof -
    have lb: "lane_backed rs bs l'" using linksD(2)[OF l that] .
    then have "barrier_key b \<noteq> lane_round l'" using fresh unfolding lane_backed_def by force
    then show ?thesis using lb by (auto simp: lane_backed_def)
  qed
  ultimately show ?thesis using new by (auto simp: links_def)
qed

section \<open>The operations keep the tables\<close>

definition same_rounds :: "rcdb \<Rightarrow> rcdb \<Rightarrow> bool" where
  "same_rounds db db' \<longleftrightarrow>
     t_transitions db' = t_transitions db \<and> t_barriers db' = t_barriers db \<and> t_barrier_lanes db' = t_barrier_lanes db"

lemma round_inv_frame: "same_rounds db db' \<Longrightarrow> round_inv sha db' = round_inv sha db"
  by (simp add: round_inv_def same_rounds_def)

lemma insert_lanes_parts:
  assumes "insert_barrier_lanes rid n lanes db = Inr db'"
  shows "t_barrier_lanes db' = t_barrier_lanes db @ map (pending_lane rid n) lanes"
    "t_transitions db' = t_transitions db" "t_barriers db' = t_barriers db"
  using assms
  by (induction lanes arbitrary: db) (auto simp: sbind_eq_Inr insert_barrier_lane_def split: if_splits)

lemma insert_lanes_distinct:
  assumes "insert_barrier_lanes rid n lanes db = Inr db'" "distinct (map barrier_lane_key (t_barrier_lanes db))"
  shows "distinct (map barrier_lane_key (t_barrier_lanes db'))"
  using assms
proof (induction lanes arbitrary: db)
  case Nil
  then show ?case by simp
next
  case (Cons lq lanes)
  then obtain db1 where db1: "insert_barrier_lane (pending_lane rid n lq) db = Inr db1"
      "insert_barrier_lanes rid n lanes db1 = Inr db'" by (auto simp: sbind_eq_Inr)
  have "distinct (map barrier_lane_key (t_barrier_lanes db1))"
    using db1(1) Cons.prems(2) by (auto simp: insert_barrier_lane_def list_ex_key split: if_splits)
  with Cons.IH[OF db1(2)] show ?case .
qed

lemma round_keys_append:
  "round_keys (ls @ map (pending_lane rid n) lanes) r m =
   (if (r, m) = (rid, n) then sort (map lane_key (filter (\<lambda>l. lane_round l = (rid, n)) ls) @ lanes)
    else round_keys ls r m)"
proof -
  have "lane_round (pending_lane rid n lq) = (rid, n)" "lane_key (pending_lane rid n lq) = lq" for lq
    by (simp_all add: lane_round_def pending_lane_def lane_key_def)
  then have "filter (\<lambda>l. lane_round l = (r, m)) (map (pending_lane rid n) lanes) =
      (if (r, m) = (rid, n) then map (pending_lane rid n) lanes else [])"
    "map lane_key (map (pending_lane rid n) lanes) = lanes"
    by (induction lanes) auto
  then show ?thesis by (simp add: round_keys_def del: map_map)
qed

lemma open_parts:
  assumes "open_workflow_round_barrier ck sha db q = Inr (db', res)"
  obtains (replay) "db' = db"
    | (new) base db1 lanes where "lanes = sort (remdups (bo_lanes q))"
      "insert_barrier (new_barrier sha q lanes base) db = Inr db1"
      "insert_barrier_lanes (bo_run q) (bo_round_no q) lanes db1 = Inr db'"
      "bo_work_plan_ref q \<noteq> []" "sha256_text (bo_work_plan_hash q)"
      "\<exists>run. require_workflow_run db (bo_run q) = Inr run \<and> round_checkpoint db run (bo_round_no q) = Inr base"
  using assms unfolding open_workflow_round_barrier_def Let_def
  by (auto simp: sbind_eq_Inr split_beta split: if_splits option.splits)

lemma open_inv:
  assumes "open_workflow_round_barrier ck sha db q = Inr (db', res)" "round_inv sha db"
  shows "round_inv sha db'"
  using assms(1)
proof (cases rule: open_parts)
  case replay
  then show ?thesis using assms(2) by simp
next
  case (new base db1 lanes)
  let ?b = "new_barrier sha q lanes base" and ?rid = "bo_run q" and ?n = "bo_round_no q"
  note inv = round_invD[OF assms(2)]
  have key: "barrier_key ?b = (?rid, ?n)" by (simp add: new_barrier_def barrier_key_def)
  have b: "t_barriers db1 = t_barriers db @ [?b]" "t_transitions db1 = t_transitions db"
      "t_barrier_lanes db1 = t_barrier_lanes db" "fetch_barrier db ?rid ?n = None"
    using new(2) by (auto simp: insert_barrier_def new_barrier_def split: if_splits)
  note ls = insert_lanes_parts[OF new(3)]
  have fresh: "barrier_key ?b \<notin> barrier_key ` set (t_barriers db)"
    using b(4) key by (auto simp: fetch_barrier_def fetchone_None_iff barrier_key_def)
  have none: "filter (\<lambda>l. lane_round l = (?rid, ?n)) (t_barrier_lanes db) = []"
    using linksD(2)[OF inv(5)] fresh key by (force simp: filter_empty_conv lane_backed_def)
  have keys: "round_keys (t_barrier_lanes db') r m = (if (r, m) = (?rid, ?n) then lanes else round_keys (t_barrier_lanes db) r m)"
    for r m using none new(1) by (simp add: ls(1) b(3) round_keys_append sorted_sort_id)
  have "barrier_ok sha (t_barrier_lanes db') ?b"
    using new(4,5) by (simp add: barrier_ok_def keys new_barrier_def sha256_text_def)
  moreover have "barrier_ok sha (t_barrier_lanes db') x" if "x \<in> set (t_barriers db)" for x
  proof -
    have "(wb_run x, wb_round_no x) \<noteq> (?rid, ?n)" using fresh key that by (force simp: barrier_key_def)
    then show ?thesis using inv(4)[OF that] by (auto simp: barrier_ok_def keys)
  qed
  moreover have "links (active_set (t_transitions db')) (t_barriers db') (t_barrier_lanes db')"
    using links_open[OF inv(5) fresh key] ls b by simp
  ultimately show ?thesis using inv(1,2) insert_lanes_distinct[OF new(3)] inv(3) ls b fresh
    by (auto simp: round_inv_def list_all_iff)
qed

lemma skip_inv:
  assumes "skip_workflow_barrier_lane ck db rid executor attempt n lane query at = Inr db'" "round_inv sha db"
  shows "round_inv sha db'"
proof -
  note inv = round_invD[OF assms(2)]
  let ?p = "lane_in_status rid n lane query ''pending''"
  let ?f = "\<lambda>l :: barrier_lane_row. l\<lparr>wl_status := ''skipped'', wl_settled_at := Some at\<rparr>"
  have "db' = db \<or> db' = update_barrier_lanes ?p ?f db"
    using assms(1) by (auto simp: skip_workflow_barrier_lane_def sbind_eq_Inr Let_def split: if_splits option.splits)
  then show ?thesis
  proof
    assume e: "db' = update_barrier_lanes ?p ?f db"
    have "links (active_set (t_transitions db)) (t_barriers db) (update_where ?p ?f (t_barrier_lanes db))"
      by (rule links_skip[OF inv(5)]) (auto simp: barrier_lane_key_def lane_in_status_def)
    moreover have m: "map barrier_lane_key (update_where ?p ?f (t_barrier_lanes db)) = map barrier_lane_key (t_barrier_lanes db)"
      by (rule map_update_where) (simp add: barrier_lane_key_def)
    ultimately show ?thesis using inv(1-4) barrier_ok_map[OF m] e
      by (simp add: round_inv_def update_barrier_lanes_def list_all_iff)
  qed (use assms(2) in simp)
qed

text \<open>A row replaces the active transition \<open>r\<close> of its lane.\<close>

lemma replace_inv:
  assumes inv: "round_inv sha db" and r: "r \<in> set (t_transitions db)" "is_active r" "wt_step_kind r \<noteq> ''lane_completed''"
    and s: "supersede (wt_transition_id r) at db = Inr db1" and i: "insert_transition row db1 = Inr db2"
    and row: "row_lane row = row_lane r" "wt_base_checkpoint_id row = wt_base_checkpoint_id r"
      "wt_parent_transition_id row = Some (wt_transition_id r)" "is_active row" "readable sha row"
    and db': "t_transitions db' = t_transitions db2" "t_barriers db' = t_barriers db2"
      "t_barrier_lanes db' = (if wt_step_kind row = ''lane_completed''
        then update_where (\<lambda>l. barrier_lane_key l = row_lane r \<and> wl_status l = ''active'') (complete_lane done_at) (t_barrier_lanes db2)
        else t_barrier_lanes db2)"
  shows "round_inv sha db'"
proof -
  note I = round_invD[OF inv] and R = rows_okD[OF round_invD(1)[OF inv]]
  let ?p = "\<lambda>x. wt_transition_id x = wt_transition_id r \<and> is_active x"
  have db1: "t_transitions db1 = update_where ?p (settle_transition ''superseded'' at) (t_transitions db)"
      "t_barriers db1 = t_barriers db" "t_barrier_lanes db1 = t_barrier_lanes db"
    using supersede_parts(1)[OF s] by (simp_all add: update_transitions_def)
  note db2 = insert_transition_parts[OF i]
  have rows1: "rows_ok sha (t_transitions db1)"
    unfolding db1(1) by (rule rows_ok_settle[OF I(1)]) (simp_all add: TRANSITION_STATUSES_def)
  have lane: "lane_of row = lane_of r" using row(1) by (simp add: row_lane_eq)
  have "settle_transition ''superseded'' at r \<in> set (t_transitions db1)"
    using r(1,2) unfolding db1(1) by (auto simp: set_update_where)
  then have "parent_ok (t_transitions db1) row"
    using row(2,3) lane unfolding parent_ok_def by (force intro: bexI[of _ "settle_transition ''superseded'' at r"])
  then have rows: "rows_ok sha (t_transitions db')"
    using rows_ok_insert[OF rows1 i row(5)] db'(1) by simp
  have eq: "?p x \<longleftrightarrow> x = r" if "x \<in> set (t_transitions db)" for x
    using distinct_key_eq[OF R(1) that r(1)] r(2) by auto
  have "settle_transition ''superseded'' at r \<noteq> r"
    using r(2) by (auto simp: is_active_def dest: arg_cong[of _ _ wt_status])
  then have "active_set (t_transitions db1) = active_set (t_transitions db) - {r}"
    unfolding db1(1) active_set_def using eq r(2) by (auto simp: set_update_where is_active_def)
  then have act: "active_set (t_transitions db') = insert row (active_set (t_transitions db) - {r})"
    using db'(1) db2(1) row(4) by (auto simp: active_set_def)
  have keys: "map barrier_lane_key (t_barrier_lanes db') = map barrier_lane_key (t_barrier_lanes db)"
    unfolding db'(3) db2(6) db1(3) by (auto intro!: map_update_where simp: complete_lane_def barrier_lane_key_def)
  have "links (insert row (active_set (t_transitions db) - {r})) (t_barriers db) (t_barrier_lanes db')"
  proof (rule links_replace[where at = done_at, OF I(5,3) _ _ r(3) row(1,2)])
    show "r' = r''" if "r' \<in> active_set (t_transitions db)" "r'' \<in> active_set (t_transitions db)" "lane_of r' = lane_of r''" for r' r''
      using one_active[OF I(1)] that by (simp add: active_set_def)
  qed (use r db'(3) db2(6) db1(3) in \<open>simp_all add: active_set_def\<close>)
  then show ?thesis using rows I(2,3,4) keys barrier_ok_map[OF keys] act db'(2) db2(5) db1(2)
    by (simp add: round_inv_def list_all_iff)
qed

text \<open>The first transition of a pending lane.\<close>

lemma first_inv:
  assumes inv: "round_inv sha db" and i: "insert_transition row db = Inr db1"
    and row: "wt_parent_transition_id row = None" "wt_step_kind row = ''source_dispatch''" "is_active row" "readable sha row"
    and pl: "pl \<in> set (t_barrier_lanes db)" "barrier_lane_key pl = row_lane row" "wl_status pl = ''pending''"
    and b: "b \<in> set (t_barriers db)" "barrier_key b = (wt_run row, wt_round_no row)" "wb_status b = ''active''"
      "wb_base_checkpoint_id b = wt_base_checkpoint_id row"
    and db': "t_transitions db' = t_transitions db1" "t_barriers db' = t_barriers db1"
      "t_barrier_lanes db' = update_where (\<lambda>l. barrier_lane_key l = row_lane row \<and> wl_status l = ''pending'')
         activate_lane (t_barrier_lanes db1)"
  shows "round_inv sha db'"
proof -
  note I = round_invD[OF inv] and db1 = insert_transition_parts[OF i]
  have rows: "rows_ok sha (t_transitions db')"
    using rows_ok_insert[OF I(1) i row(4)] row(1,2) db'(1) by (simp add: parent_ok_def)
  have act: "active_set (t_transitions db') = insert row (active_set (t_transitions db))"
    using db'(1) db1(1) row(3) by (auto simp: active_set_def)
  have keys: "map barrier_lane_key (t_barrier_lanes db') = map barrier_lane_key (t_barrier_lanes db)"
    unfolding db'(3) db1(6) by (rule map_update_where) (simp add: activate_lane_def barrier_lane_key_def)
  have "links (insert row (active_set (t_transitions db))) (t_barriers db) (t_barrier_lanes db')"
    unfolding db'(3) db1(6) by (rule links_first[OF I(5) pl I(3) b]) (simp add: row(2))
  then show ?thesis using rows I(2,3,4) keys barrier_ok_map[OF keys] act db'(2) db1(5)
    by (simp add: round_inv_def list_all_iff)
qed

lemma commit_operations_rounds:
  "commit_operations rid ref reason oids db = Inr db' \<Longrightarrow> same_rounds db db'"
  by (induction oids arbitrary: db)
    (auto simp: sbind_eq_Inr Let_def update_operations_def same_rounds_def split: if_splits)

lemma commit_with_ref_rounds:
  "commit_source_operations_with_ref db rid ref oids reason = Inr db' \<Longrightarrow> same_rounds db db'"
  using commit_operations_rounds by (auto simp: commit_source_operations_with_ref_def split: if_splits)

lemma move_lane_parts:
  assumes "move_lane rid n lane query status f db = Inr db'"
  shows "t_barrier_lanes db' = update_where (lane_in_status rid n lane query status) f (t_barrier_lanes db)"
    "t_transitions db' = t_transitions db" "t_barriers db' = t_barriers db"
    "\<exists>l \<in> set (t_barrier_lanes db). lane_in_status rid n lane query status l"
  using assms rowcount_pos[of "lane_in_status rid n lane query status" "t_barrier_lanes db"]
  by (auto simp: move_lane_def Let_def update_barrier_lanes_def split: if_splits)

lemma fetch_active_parts:
  assumes "fetch_active db rid lane query = Some r"
  shows "r \<in> set (t_transitions db)" "is_active r" "lane_of r = (rid, lane, query)"
  using assms by (auto simp: fetch_active_def active_in_lane_def is_active_def dest: fetchone_SomeD)

lemma get_active_parts:
  assumes "get_active_workflow_transition sha db rid lane query = Inr (Some t)"
  obtains r where "fetch_active db rid lane query = Some r" "workflow_transition_from_row sha r = Inr t"
  using assms by (auto simp: get_active_workflow_transition_def sbind_eq_Inr split: option.splits)

text \<open>What a write did: nothing when it repeats the active step, else it appended a row.\<close>

lemma append_parts:
  assumes "append_step sha db run active w tid payload = Inr (db', t)"
  obtains db1 row db2 db3 db4 stored where "place_step db run active w tid payload = Inr (db1, row)"
    "insert_transition row db1 = Inr db2" "enter_lane w (active = None) db2 = Inr db3"
    "commit_source_operations_with_ref db3 (sw_run w) tid (sw_operation_ids w)
       ''runtime_workflow_transition_source_commit_conflict'' = Inr db4"
    "leave_lane w db4 = Inr db'" "fetchone (\<lambda>x. wt_transition_id x = tid) (t_transitions db') = Some stored"
    "workflow_transition_from_row sha stored = Inr t"
  using assms unfolding append_step_def
  by (auto simp: sbind_eq_Inr if_Inl_eq_Inr split: prod.splits if_splits)

lemma write_parts:
  assumes "write_workflow_transition ck sha db w fresh = Inr (db', t, inserted)"
  obtains (replay) "db' = db" "\<not> inserted"
      "get_active_workflow_transition sha db (sw_run w) (sw_lane_run_id w) (sw_query_id w) = Inr (Some t)"
      "same_step t w" "require_transition_source_commits db (sw_run w) (tr_transition_id t) (sw_operation_ids w) = Inr ()"
    | (new) run active payload where "inserted"
      "get_active_workflow_transition sha db (sw_run w) (sw_lane_run_id w) (sw_query_id w) = Inr active"
      "workflow_transition_payload sha (sw_continuation w) (sw_artifact_refs w) = Inr payload"
      "require_workflow_run db (sw_run w) = Inr run"
      "append_step sha db run active w (stored_transition_id w fresh) payload = Inr (db', t)"
  using assms unfolding write_workflow_transition_def Let_def
  by (auto simp: sbind_eq_Inr split: if_splits option.splits)

lemma step_row_simps [simp]:
  "lane_of (step_row w tid p base payload) = (sw_run w, sw_lane_run_id w, sw_query_id w)"
  "wt_transition_id (step_row w tid p base payload) = tid" "is_active (step_row w tid p base payload)"
  "wt_round_no (step_row w tid p base payload) = sw_round_no w" "wt_run (step_row w tid p base payload) = sw_run w"
  "wt_step_kind (step_row w tid p base payload) = sw_step_kind w"
  "wt_parent_transition_id (step_row w tid p base payload) = p"
  "wt_base_checkpoint_id (step_row w tid p base payload) = base"
  "row_lane (step_row w tid p base payload) = (sw_run w, sw_round_no w, sw_lane_run_id w, sw_query_id w)"
  by (simp_all add: step_row_def lane_of_def is_active_def row_lane_def)

lemma place_parts:
  assumes "place_step db run active w tid payload = Inr (db1, row)"
  obtains (first) base where "active = None" "db1 = db" "require_first_step db run w = Inr base"
      "row = step_row w tid None base payload"
    | (next_step) t where "active = Some t" "require_next_step t w = Inr ()"
      "supersede (tr_transition_id t) (sw_created_at w) db = Inr db1"
      "row = step_row w tid (Some (tr_transition_id t)) (tr_base_checkpoint_id t) payload"
  using assms by (auto simp: place_step_def sbind_eq_Inr split: option.splits)

lemma first_step_parts:
  assumes "require_first_step db run w = Inr base"
  obtains l b where "sw_step_kind w = ''source_dispatch''" "l \<in> set (t_barrier_lanes db)"
    "barrier_lane_key l = (sw_run w, sw_round_no w, sw_lane_run_id w, sw_query_id w)" "wl_status l = ''pending''"
    "b \<in> set (t_barriers db)" "barrier_key b = (sw_run w, sw_round_no w)" "wb_status b = ''active''"
    "wb_base_checkpoint_id b = base" "round_checkpoint db run (sw_round_no w) = Inr base"
proof -
  from assms obtain l b where l: "fetch_barrier_lane db (sw_run w) (sw_round_no w) (sw_lane_run_id w) (sw_query_id w) = Some l"
      and b: "fetch_barrier db (sw_run w) (sw_round_no w) = Some b" and w: "sw_step_kind w = ''source_dispatch''"
        "wl_status l = ''pending''" "wb_status b = ''active''" "wb_base_checkpoint_id b = base"
        "round_checkpoint db run (sw_round_no w) = Inr base"
    by (cases "fetch_barrier_lane db (sw_run w) (sw_round_no w) (sw_lane_run_id w) (sw_query_id w)";
        cases "fetch_barrier db (sw_run w) (sw_round_no w)")
      (auto simp: require_first_step_def sbind_eq_Inr split: if_splits)
  show thesis
    using that[OF w(1) _ _ w(2) _ _ w(3,4,5)] l b
    by (auto simp: fetch_barrier_lane_def fetch_barrier_def barrier_key_def dest!: fetchone_SomeD)
qed

lemma enter_parts:
  assumes "enter_lane w first db = Inr db'"
  shows "t_transitions db' = t_transitions db" "t_barriers db' = t_barriers db"
  using assms by (auto simp: enter_lane_def dest: move_lane_parts(2,3) split: if_splits)

lemma leave_parts:
  assumes "leave_lane w db = Inr db'"
  shows "t_transitions db' = t_transitions db" "t_barriers db' = t_barriers db"
  using assms by (auto simp: leave_lane_def dest: move_lane_parts(2,3) split: if_splits)

lemma append_readable:
  assumes "append_step sha db run active w tid payload = Inr (db', t)" "round_inv sha db"
    and "place_step db run active w tid payload = Inr (db1, row)" "insert_transition row db1 = Inr db2"
    and same: "t_transitions db' = t_transitions db2"
    and "fetchone (\<lambda>x. wt_transition_id x = tid) (t_transitions db') = Some stored"
  shows "stored = row"
proof -
  have id: "wt_transition_id row = tid" using assms(3) by (cases rule: place_parts) simp_all
  have "map wt_transition_id (t_transitions db1) = map wt_transition_id (t_transitions db)"
    using assms(3)
  proof (cases rule: place_parts)
    case (next_step t)
    show ?thesis unfolding supersede_parts(1)[OF next_step(3)] update_transitions_def
      by (simp add: map_update_where)
  qed simp
  then have "distinct (map wt_transition_id (t_transitions db1))"
    using rows_okD(1)[OF round_invD(1)[OF assms(2)]] by simp
  then have "distinct (map wt_transition_id (t_transitions db2))"
    using insert_transition_parts(1,3)[OF assms(4)] by simp
  moreover have "row \<in> set (t_transitions db2)" using insert_transition_parts(1)[OF assms(4)] by simp
  ultimately have "fetchone (\<lambda>x. wt_transition_id x = tid) (t_transitions db2) = Some row"
    by (rule fetchone_keyed) (simp_all add: id)
  then show ?thesis using assms(6) same by simp
qed

lemma append_step_inv:
  assumes a: "append_step sha db run active w tid payload = Inr (db', t)" and inv: "round_inv sha db"
    and g: "get_active_workflow_transition sha db (sw_run w) (sw_lane_run_id w) (sw_query_id w) = Inr active"
  shows "round_inv sha db'"
  using a
proof (rule append_parts)
  fix db1 row db2 db3 db4 stored
  assume p: "place_step db run active w tid payload = Inr (db1, row)" and i: "insert_transition row db1 = Inr db2"
    and e: "enter_lane w (active = None) db2 = Inr db3"
    and c: "commit_source_operations_with_ref db3 (sw_run w) tid (sw_operation_ids w)
        ''runtime_workflow_transition_source_commit_conflict'' = Inr db4"
    and l: "leave_lane w db4 = Inr db'" and f: "fetchone (\<lambda>x. wt_transition_id x = tid) (t_transitions db') = Some stored"
    and t: "workflow_transition_from_row sha stored = Inr t"
  have c': "same_rounds db3 db4" by (rule commit_with_ref_rounds[OF c])
  have same: "t_transitions db' = t_transitions db2" "t_barriers db' = t_barriers db2"
    using enter_parts[OF e] leave_parts[OF l] c' by (simp_all add: same_rounds_def)
  have rd: "readable sha row"
    using t append_readable[OF a inv p i same(1) f] by (auto simp: readable_def)
  show ?thesis
    using p
  proof (cases rule: place_parts)
    case (first base)
    obtain pl b where pl: "sw_step_kind w = ''source_dispatch''" "pl \<in> set (t_barrier_lanes db)"
        "barrier_lane_key pl = (sw_run w, sw_round_no w, sw_lane_run_id w, sw_query_id w)" "wl_status pl = ''pending''"
        "b \<in> set (t_barriers db)" "barrier_key b = (sw_run w, sw_round_no w)" "wb_status b = ''active''"
        "wb_base_checkpoint_id b = base"
      using first(3) by (rule first_step_parts)
    have "t_barrier_lanes db' = update_where (\<lambda>l. barrier_lane_key l = row_lane row \<and> wl_status l = ''pending'')
        activate_lane (t_barrier_lanes db2)"
      using e c' l first(1,4) pl(1)
      by (auto simp: enter_lane_def leave_lane_def same_rounds_def lane_in_status_def[abs_def] dest!: move_lane_parts(1))
    with first_inv[OF inv i[unfolded first(2)], of pl b db'] rd pl first(4) same
    show ?thesis by simp
  next
    case (next_step u)
    from g[unfolded next_step(1)] obtain r where r: "fetch_active db (sw_run w) (sw_lane_run_id w) (sw_query_id w) = Some r"
        "workflow_transition_from_row sha r = Inr u" by (rule get_active_parts)
    note R = fetch_active_parts[OF r(1)]
    have u: "tr_transition_id u = wt_transition_id r" "tr_base_checkpoint_id u = wt_base_checkpoint_id r"
        "tr_step_kind u = wt_step_kind r" "tr_round_no u = wt_round_no r"
      using from_row_readable[of sha r] r(2) by (auto simp: readable_def)
    have n: "wt_step_kind r \<noteq> ''lane_completed''" "wt_round_no r = sw_round_no w"
      using next_step(2) u by (auto simp: require_next_step_def split: if_splits)
    have "row_lane r = (sw_run w, sw_round_no w, sw_lane_run_id w, sw_query_id w)"
      using R(3) n(2) by (simp add: row_lane_def lane_of_def)
    moreover from this have "t_barrier_lanes db' = (if wt_step_kind row = ''lane_completed''
        then update_where (\<lambda>l. barrier_lane_key l = row_lane r \<and> wl_status l = ''active'')
          (complete_lane (sw_created_at w)) (t_barrier_lanes db2) else t_barrier_lanes db2)"
      using e c' l next_step(1,4)
      by (auto simp: enter_lane_def leave_lane_def same_rounds_def lane_in_status_def[abs_def] dest!: move_lane_parts(1)
          split: if_splits)
    ultimately show ?thesis
      using replace_inv[OF inv R(1,2) n(1) next_step(3)[unfolded u(1)] i, of db' "sw_created_at w"] rd same next_step(4) u
      by simp
  qed
qed

lemma write_inv:
  assumes "write_workflow_transition ck sha db w fresh = Inr (db', t, inserted)" "round_inv sha db"
  shows "round_inv sha db'"
  using assms(1)
proof (cases rule: write_parts)
  case replay
  then show ?thesis using assms(2) by simp
next
  case (new run active payload)
  then show ?thesis using append_step_inv assms(2) by blast
qed

section \<open>A dispatch advances its transition\<close>

text \<open>What \<open>hashlib\<close> documents of a \<open>hexdigest\<close>.\<close>

definition sha_ok :: "sha \<Rightarrow> bool" where
  "sha_ok sha \<longleftrightarrow> (\<forall>s. sha256_text (sha s))"

lemma hex_plain: "list_all (\<lambda>c. c \<in> set ''0123456789abcdef'') s \<Longrightarrow> list_all plain_byte s"
proof -
  have "list_all plain_byte ''0123456789abcdef''" by code_simp
  then show "list_all (\<lambda>c. c \<in> set ''0123456789abcdef'') s \<Longrightarrow> list_all plain_byte s"
    unfolding list_all_iff by blast
qed

lemma dispatch_id_opaque: "sha_ok sha \<Longrightarrow> opaque_id 96 (dispatch_transition_id sha t d)"
proof -
  assume sha: "sha_ok sha"
  define h where "h = take 48 (sha (tr_transition_id t @ CHR '':'' # ds_intent_id d @ CHR '':'' # str_int (ds_ordinal d)))"
  have "list_all (\<lambda>c. c \<in> set ''0123456789abcdef'') h"
    using sha unfolding h_def sha_ok_def sha256_text_def list_all_iff by (meson in_set_takeD)
  then have "list_all plain_byte h" by (rule hex_plain)
  moreover have "list_all plain_byte ''rttransition_dispatch_''" by code_simp
  moreover have "length h \<le> 48" by (simp add: h_def)
  ultimately show "opaque_id 96 (dispatch_transition_id sha t d)"
    by (simp add: dispatch_transition_id_def opaque_id_def h_def[symmetric])
qed

lemma read_transitions_mem:
  "read_transitions sha rows = Inr ts \<Longrightarrow> t \<in> set ts \<Longrightarrow> \<exists>r \<in> set rows. workflow_transition_from_row sha r = Inr t"
  by (induction rows arbitrary: ts) (auto simp: sbind_eq_Inr)

lemma transition_of_operation_parts:
  assumes "transition_of_operation sha db r = Inr t"
  obtains x where "x \<in> set (t_transitions db)" "wt_run x = op_run r" "is_active x"
    "workflow_transition_from_row sha x = Inr t"
    "py_eq (py_get (tr_continuation t) ''operationId'') (PyStr (op_operation_id r))"
proof -
  let ?rows = "filter (\<lambda>x. wt_run x = op_run r \<and> wt_status x = ''active'') (t_transitions db)"
  let ?named = "\<lambda>t. py_eq (py_get (tr_continuation t) ''operationId'') (PyStr (op_operation_id r))"
  from assms obtain ts where ts: "read_transitions sha ?rows = Inr ts"
    and c: "(case filter ?named ts of [t] \<Rightarrow> Inr t
      | _ \<Rightarrow> rc_fail ''runtime_workflow_dispatch_transition_missing'') = Inr t"
    unfolding transition_of_operation_def sbind_eq_Inr by blast
  have "filter ?named ts = [t]"
    using c by (cases "filter ?named ts" rule: remdups_adj.cases) simp_all
  then have "t \<in> set (filter ?named ts)" by simp
  then have t: "t \<in> set ts" "?named t" by simp_all
  from read_transitions_mem[OF ts t(1)] obtain x where "x \<in> set ?rows" "workflow_transition_from_row sha x = Inr t" by blast
  then show thesis using that t(2) by (auto simp: is_active_def)
qed

text \<open>The continuation of a dispatch is a dict with every key once.\<close>

lemma advanced_wf:
  assumes "py_wf (tr_continuation t)"
  shows "py_wf (advanced_continuation kind t acc)"
proof -
  obtain r e d where acc: "acc = (r, e, d)" by (cases acc)
  have "py_wf (PyDict (py_items (tr_continuation t)))" using assms by (cases "tr_continuation t") (simp_all add: py_items_def)
  then have "py_wf (PyDict (dict_update (py_items (tr_continuation t)) [(''schemaVersion'', PyStr (dispatched_schema kind))]))"
    by (rule dict_update_wf) auto
  then have "py_wf (PyDict (dict_set ''schemaVersion'' (PyStr (dispatched_schema kind)) (py_items (tr_continuation t))))"
    by (simp add: dict_update_def)
  then show ?thesis unfolding advanced_continuation_def
    by (rule dict_update_wf) (auto simp: target_values_def acc opt_text_def split: option.splits)
qed

lemma advance_parts:
  assumes "advance_workflow_transition_dispatch_epoch sha db acc at kind = Inr db'"
  obtains (same) "db' = db"
    | (moved) x t payload db1 where "x \<in> set (t_transitions db)" "is_active x" "wt_run x = op_run (fst acc)"
      "workflow_transition_from_row sha x = Inr t" "wt_step_kind x \<noteq> ''lane_completed''"
      "py_eq (py_get (tr_continuation t) ''operationId'') (PyStr (op_operation_id (fst acc)))"
      "py_eq (py_get (tr_continuation t) ''requestHash'') (PyStr (op_request_hash (fst acc)))"
      "valid_initial kind t (ds_ordinal (snd (snd acc))) \<or> valid_retry kind t (ds_ordinal (snd (snd acc)))"
      "workflow_transition_payload sha (advanced_continuation kind t acc) (tr_artifact_refs t) = Inr payload"
      "supersede (wt_transition_id x) at db = Inr db1"
      "insert_transition (dispatch_row_of sha kind t acc at payload) db1 = Inr db'"
proof -
  let ?r = "fst acc" and ?d = "snd (snd acc)"
  from assms obtain t where t: "transition_of_operation sha db ?r = Inr t"
    by (auto simp: advance_workflow_transition_dispatch_epoch_def Let_def sbind_eq_Inr split: if_splits)
  from transition_of_operation_parts[OF this] obtain x where x: "x \<in> set (t_transitions db)" "wt_run x = op_run ?r" "is_active x"
      "workflow_transition_from_row sha x = Inr t" "py_eq (py_get (tr_continuation t) ''operationId'') (PyStr (op_operation_id ?r))" .
  have u: "tr_transition_id t = wt_transition_id x" "tr_step_kind t = wt_step_kind x"
    using from_row_readable[of sha x] x(4) by (auto simp: readable_def)
  from assms t have "db' = db \<or>
      (tr_step_kind t \<in> {''detail_queued'', ''detail_dispatch'', ''source_dispatch''} \<and>
       py_eq (py_get (tr_continuation t) ''requestHash'') (PyStr (op_request_hash ?r)) \<and>
       (valid_initial kind t (ds_ordinal ?d) \<or> valid_retry kind t (ds_ordinal ?d)) \<and>
       (\<exists>payload db1. workflow_transition_payload sha (advanced_continuation kind t acc) (tr_artifact_refs t) = Inr payload \<and>
          supersede (tr_transition_id t) at db = Inr db1 \<and>
          insert_transition (dispatch_row_of sha kind t acc at payload) db1 = Inr db'))"
    by (auto simp: advance_workflow_transition_dispatch_epoch_def Let_def sbind_eq_Inr split: if_splits)
  then show thesis using same moved[OF x(1,3,2,4)] x(5) u by auto
qed

lemma dispatch_row_readable:
  assumes sha: "sha_ok sha" and x: "workflow_transition_from_row sha x = Inr t" and acc: "1 \<le> ex_attempt_no (fst (snd acc))"
    and p: "workflow_transition_payload sha (advanced_continuation kind t acc) (tr_artifact_refs t) = Inr payload"
  shows "readable sha (dispatch_row_of sha kind t acc at payload)"
proof -
  let ?row = "dispatch_row_of sha kind t acc at payload"
  from x obtain c refs where c: "t = transition_of x c refs" "columns_ok x" "py_wf c" by (rule from_row_parts)
  have "payload_columns sha (advanced_continuation kind t acc) (tr_artifact_refs t) ?row"
    using p by (simp add: payload_columns_def dispatch_row_of_def)
  moreover have "columns_ok ?row"
    using c(2) acc dispatch_id_opaque[OF sha] unfolding c(1)
    by (simp add: columns_ok_def dispatch_row_of_def STEP_KINDS_def TRANSITION_STATUSES_def dispatched_step_def)
  moreover have "py_wf (advanced_continuation kind t acc)" by (rule advanced_wf) (simp add: c)
  ultimately show ?thesis using from_row_written unfolding readable_def by blast
qed

lemma advance_inv:
  assumes a: "advance_workflow_transition_dispatch_epoch sha db acc at kind = Inr db'"
    and sha: "sha_ok sha" and inv: "round_inv sha db" and acc: "1 \<le> ex_attempt_no (fst (snd acc))"
  shows "round_inv sha db'"
  using a
proof (cases rule: advance_parts)
  case same
  then show ?thesis using inv by simp
next
  case (moved x t payload db1)
  let ?row = "dispatch_row_of sha kind t acc at payload"
  from moved(4) obtain c refs where t: "t = transition_of x c refs" by (rule from_row_parts)
  have row: "row_lane ?row = row_lane x" "wt_base_checkpoint_id ?row = wt_base_checkpoint_id x"
      "wt_parent_transition_id ?row = Some (wt_transition_id x)" "is_active ?row"
      "wt_step_kind ?row \<noteq> ''lane_completed''"
    by (simp_all add: t dispatch_row_of_def row_lane_def is_active_def dispatched_step_def)
  show ?thesis
    by (rule replace_inv[OF inv moved(1,2,5,10,11) row(1-4) dispatch_row_readable[OF sha moved(4) acc moved(9)]])
      (simp_all add: row(5))
qed

section \<open>A checkpoint settles the round\<close>

lemma settle_parts:
  assumes "settle_round rid n at count db = Inr db'"
  shows "db' = db\<lparr>t_transitions := update_where (\<lambda>r. (wt_run r, wt_round_no r) = (rid, n) \<and> is_active r)
            (settle_transition ''checkpointed'' at) (t_transitions db),
          t_barriers := update_where (\<lambda>b. barrier_key b = (rid, n) \<and> wb_status b = ''active'')
            (settle_barrier at) (t_barriers db)\<rparr>"
proof -
  have "(\<lambda>b. b\<lparr>wb_status := ''checkpointed'', wb_settled_at := Some at\<rparr>) = settle_barrier at"
    by (intro ext) (simp add: settle_barrier_def)
  then show ?thesis using assms
    by (simp add: settle_round_def Let_def update_transitions_def barrier_key_def is_active_def conj_assoc split: if_splits)
qed

lemma settle_inv:
  assumes s: "settle_round rid n at count db = Inr db'" and inv: "round_inv sha db"
  shows "round_inv sha db'"
proof -
  note I = round_invD[OF inv] and e = settle_parts[OF s]
  let ?p = "\<lambda>r. (wt_run r, wt_round_no r) = (rid, n) \<and> is_active r"
  have "rows_ok sha (t_transitions db')"
    unfolding e by (simp, rule rows_ok_settle[OF I(1)]) (simp_all add: TRANSITION_STATUSES_def)
  moreover have "active_set (t_transitions db') =
      {r \<in> active_set (t_transitions db). (wt_run r, wt_round_no r) \<noteq> (rid, n)}"
    unfolding e active_set_def by (auto simp: set_update_where is_active_def)
  moreover have "barrier_ok sha (t_barrier_lanes db) b" if b: "b \<in> set (t_barriers db')" for b
  proof -
    obtain b0 where "b0 \<in> set (t_barriers db)" "b = b0 \<or> b = settle_barrier at b0"
      using b unfolding e by (auto simp: set_update_where split: if_splits)
    then show ?thesis using I(4)[of b0] by (auto simp: barrier_ok_def settle_barrier_def)
  qed
  moreover have "map barrier_key (t_barriers db') = map barrier_key (t_barriers db)"
    unfolding e by (simp, rule map_update_where) (simp add: settle_barrier_def barrier_key_def)
  moreover have "t_barrier_lanes db' = t_barrier_lanes db" unfolding e by simp
  ultimately show ?thesis
    using I(2,3) links_settle[OF I(5), of "(rid, n)" at] e
    by (simp add: round_inv_def list_all_iff)
qed

lemma checkpoint_parts:
  assumes "checkpoint_workflow_round_barrier sha db rid round_no at = Inr db'"
  obtains (idle) "db' = db" "active_rows db rid = []" "active_barriers db rid = []"
    | (settled) n b keys where "round_no = Some n" "active_barriers db rid = [b]" "wb_round_no b = n"
      "list_all (\<lambda>l. wl_status l \<in> {''completed'', ''skipped''}) (round_lanes db rid n)"
      "completed_lanes sha n (active_rows db rid) [] = Inr keys"
      "list_all (\<lambda>l. (wl_status l = ''completed'') = (lane_key l \<in> set keys)) (round_lanes db rid n)"
      "all_source_operations_main_committed db rid" "settle_round rid n at (length keys) db = Inr db'"
proof (cases "active_rows db rid = [] \<and> active_barriers db rid = []")
  case True
  then show thesis using assms idle by (simp add: checkpoint_workflow_round_barrier_def)
next
  case False
  define body where "body n b =
      (if wb_round_no b \<noteq> n then unsettled
       else let lanes = round_lanes db rid n
            in if int (length lanes) \<noteq> wb_expected_lane_count b \<or>
                  list_ex (\<lambda>l. wl_status l \<notin> {''completed'', ''skipped''}) lanes
               then unsettled
               else sbind (completed_lanes sha n (active_rows db rid) []) (\<lambda>keys.
                 if list_ex (\<lambda>l. (wl_status l = ''completed'') \<noteq> (lane_key l \<in> set keys)) lanes then unsettled
                 else if \<not> all_source_operations_main_committed db rid then unsettled
                 else settle_round rid n at (length keys) db))" for n and b :: barrier_row
  have e: "checkpoint_workflow_round_barrier sha db rid round_no at =
      (case (round_no, active_barriers db rid) of (Some n, [b]) \<Rightarrow> body n b | _ \<Rightarrow> unsettled)"
    using False unfolding checkpoint_workflow_round_barrier_def body_def Let_def by (auto split: option.split)
  obtain n where n: "round_no = Some n" using assms e by (cases round_no) auto
  obtain b where b: "active_barriers db rid = [b]"
    using assms e n by (cases "active_barriers db rid" rule: remdups_adj.cases) auto
  have "body n b = Inr db'" using assms e n b by simp
  then show thesis
    using settled[OF n b] unfolding body_def Let_def
    by (auto simp: sbind_eq_Inr list_ex_iff list_all_iff split: if_splits)
qed

lemma checkpoint_inv:
  assumes "checkpoint_workflow_round_barrier sha db rid round_no at = Inr db'" "round_inv sha db"
  shows "round_inv sha db'"
  using assms(1) by (cases rule: checkpoint_parts) (use assms(2) settle_inv in blast)+

lemma completed_lanes_rounds:
  "completed_lanes sha n rows keys = Inr out \<Longrightarrow> r \<in> set rows \<Longrightarrow> wt_round_no r = n"
proof (induction rows arbitrary: keys)
  case (Cons x rows)
  then obtain t where t: "workflow_transition_from_row sha x = Inr t" "tr_round_no t = n"
      "completed_lanes sha n rows (keys @ [(tr_lane_run_id t, tr_query_id t)]) = Inr out"
    by (auto simp: sbind_eq_Inr split: if_splits)
  have "tr_round_no t = wt_round_no x" using from_row_readable[of sha x] t(1) by (auto simp: readable_def)
  then show ?case using Cons t by auto
qed simp

section \<open>Resuming\<close>

lemma active_rows_mem: "r \<in> set (active_rows db rid) \<longleftrightarrow> r \<in> active_set (t_transitions db) \<and> wt_run r = rid"
  by (auto simp: active_rows_def active_set_def is_active_def)

lemma active_barriers_mem:
  "b \<in> set (active_barriers db rid) \<longleftrightarrow> b \<in> set (t_barriers db) \<and> wb_run b = rid \<and> wb_status b = ''active''"
  by (auto simp: active_barriers_def)

lemma round_lanes_mem: "l \<in> set (round_lanes db rid n) \<longleftrightarrow> l \<in> set (t_barrier_lanes db) \<and> lane_round l = (rid, n)"
  by (auto simp: round_lanes_def lane_round_def)

lemma lane_of_key: "lane_of r = (wt_run r, row_key r)"
  by (simp add: lane_of_def row_key_def)

text \<open>What a lane resumes with.\<close>

definition resumes_ok :: "barrier_lane_row \<Rightarrow> transition list \<Rightarrow> bool" where
  "resumes_ok l chain \<longleftrightarrow>
     (if wl_status l \<in> {''pending'', ''skipped''} then chain = []
      else chain \<noteq> [] \<and> tr_step_kind (hd chain) = ''source_dispatch'' \<and> list_all linked (zip chain (tl chain)) \<and>
        (tr_step_kind (last chain) = ''lane_completed'') = (wl_status l = ''completed''))"

lemma resume_lanes_return:
  assumes "rows_ok sha (t_transitions db)" "distinct (map lane_key lanes)" "distinct (map row_key rows)"
    and "set rows \<subseteq> set (t_transitions db)" "\<And>r. r \<in> set rows \<Longrightarrow> wt_run r = rid"
    and "\<And>r. r \<in> set rows \<Longrightarrow> \<exists>l \<in> set lanes. lane_key l = row_key r \<and> wl_status l = lane_status_of r"
    and "\<And>l. l \<in> set lanes \<Longrightarrow> wl_status l \<in> {''pending'', ''active'', ''completed'', ''skipped''}"
    and "\<And>l. l \<in> set lanes \<Longrightarrow> wl_status l \<in> {''active'', ''completed''} \<Longrightarrow> \<exists>r \<in> set rows. row_key r = lane_key l"
  shows "\<exists>resumes. resume_lanes sha db rid b lanes (map (\<lambda>r. (row_key r, r)) rows) = Inr resumes \<and>
    map (\<lambda>x. (re_lane_run_id x, re_query_id x)) resumes = map lane_key lanes \<and>
    map re_barrier_status resumes = map wl_status lanes \<and>
    list_all2 resumes_ok lanes (map re_transitions resumes)"
  using assms
proof (induction lanes arbitrary: rows)
  case Nil
  then have "rows = []" by (cases rows) auto
  then show ?case by simp
next
  case (Cons l lanes)
  let ?D = "map (\<lambda>r. (row_key r, r)) rows"
  let ?rows = "filter (\<lambda>r. row_key r \<noteq> lane_key l) rows"
  have rest: "filter (\<lambda>kr. fst kr \<noteq> lane_key l) ?D = map (\<lambda>r. (row_key r, r)) ?rows"
    by (induction rows) auto
  have "\<exists>resumes. resume_lanes sha db rid b lanes (map (\<lambda>r. (row_key r, r)) ?rows) = Inr resumes \<and>
    map (\<lambda>x. (re_lane_run_id x, re_query_id x)) resumes = map lane_key lanes \<and>
    map re_barrier_status resumes = map wl_status lanes \<and>
    list_all2 resumes_ok lanes (map re_transitions resumes)"
  proof (rule Cons.IH)
    show "\<exists>l \<in> set lanes. lane_key l = row_key r \<and> wl_status l = lane_status_of r" if "r \<in> set ?rows" for r
      using Cons.prems(6)[of r] that by fastforce
    show "\<exists>r \<in> set ?rows. row_key r = lane_key k" if k: "k \<in> set lanes" "wl_status k \<in> {''active'', ''completed''}" for k
    proof -
      obtain r where r: "r \<in> set rows" "row_key r = lane_key k" using Cons.prems(8)[of k] k by auto
      moreover have "lane_key k \<noteq> lane_key l" using Cons.prems(2) k(1) by (metis distinct.simps(2) image_eqI list.simps(9) list.set_map)
      ultimately show ?thesis by auto
    qed
  qed (use Cons.prems in \<open>auto simp: distinct_map_filter\<close>)
  then obtain resumes where IH: "resume_lanes sha db rid b lanes (map (\<lambda>r. (row_key r, r)) ?rows) = Inr resumes"
      "map (\<lambda>x. (re_lane_run_id x, re_query_id x)) resumes = map lane_key lanes"
      "map re_barrier_status resumes = map wl_status lanes" "list_all2 resumes_ok lanes (map re_transitions resumes)" by blast
  have "\<exists>chain. lane_transitions sha db rid l (map_of ?D (lane_key l)) = Inr chain \<and> resumes_ok l chain"
  proof (cases "map_of ?D (lane_key l)")
    case None
    then have "lane_key l \<notin> row_key ` set rows" by (simp add: map_of_eq_None_iff image_image)
    then have "wl_status l \<in> {''pending'', ''skipped''}" using Cons.prems(7,8)[of l] by force
    then show ?thesis using None by (auto simp: lane_transitions_def resumes_ok_def)
  next
    case (Some r)
    then have r: "r \<in> set rows" "row_key r = lane_key l" using map_of_SomeD[OF Some] by auto
    then obtain k where k: "k \<in> set (l # lanes)" "lane_key k = lane_key l" "wl_status k = lane_status_of r"
      using Cons.prems(6)[OF r(1)] by auto
    have "k = l" using k(1,2) Cons.prems(2) by (metis distinct.simps(2) image_eqI list.simps(9) list.set_map set_ConsD)
    then have st: "wl_status l = lane_status_of r" using k(3) by simp
    have "lane_of r = (rid, wl_lane_run_id l, wl_query_id l)"
      using r Cons.prems(5) by (simp add: lane_of_key lane_key_def)
    then obtain chain t where chain: "workflow_transition_chain_from_active_row sha db (Some r) rid (wl_lane_run_id l) (wl_query_id l) = Inr chain"
        "chain \<noteq> []" "workflow_transition_from_row sha r = Inr t" "last chain = t"
        "tr_step_kind (hd chain) = ''source_dispatch''" "list_all linked (zip chain (tl chain))"
      using chain_returns[OF Cons.prems(1)] Cons.prems(4) r(1) by blast
    have "tr_step_kind t = wt_step_kind r" using from_row_readable[of sha r] chain(3) by (auto simp: readable_def)
    then show ?thesis using Some st chain by (auto simp: lane_transitions_def resumes_ok_def lane_status_of_def)
  qed
  then show ?case using IH rest by (auto simp: lane_key_def)
qed

text \<open>The one active barrier of a run resumes.\<close>

lemma barrier_resumes:
  assumes inv: "round_inv sha db" and b: "active_barriers db rid = [b]"
  shows "\<exists>resumes. get_workflow_round_resume_lanes sha db rid (wb_base_checkpoint_id b) = Inr resumes \<and>
    map (\<lambda>x. (re_lane_run_id x, re_query_id x)) resumes = map lane_key (round_lanes db rid (wb_round_no b)) \<and>
    map re_barrier_status resumes = map wl_status (round_lanes db rid (wb_round_no b)) \<and>
    list_all2 resumes_ok (round_lanes db rid (wb_round_no b)) (map re_transitions resumes)"
proof -
  note I = round_invD[OF inv]
  let ?n = "wb_round_no b" and ?lanes = "round_lanes db rid (wb_round_no b)" and ?rows = "active_rows db rid"
  have "b \<in> set (active_barriers db rid)" using b by simp
  then have bm: "b \<in> set (t_barriers db)" "wb_run b = rid" "wb_status b = ''active''"
    by (simp_all add: active_barriers_mem)
  have len: "length ?lanes = length (round_keys (t_barrier_lanes db) rid ?n)" by (metis length_map round_lanes_keys)
  have ok: "wb_work_plan_ref b \<noteq> []" "length (wb_work_plan_hash b) = 64"
      "int (length ?lanes) = wb_expected_lane_count b" "sha (lane_set_payload (map lane_key ?lanes)) = wb_lane_set_hash b"
    using I(4)[OF bm(1)] round_lanes_keys[of db rid ?n] bm(2) len by (simp_all add: barrier_ok_def)
  have round: "wt_round_no r = ?n" if r: "r \<in> set ?rows" for r
  proof -
    obtain b' where "b' \<in> set (t_barriers db)" "barrier_key b' = (rid, wt_round_no r)" "wb_status b' = ''active''"
      using linksD(1)[OF I(5), of r] r by (auto simp: active_rows_mem row_backed_def)
    then have "b' \<in> set (active_barriers db rid)" by (simp add: active_barriers_mem barrier_key_def)
    then show ?thesis using b \<open>barrier_key b' = _\<close> by (simp add: barrier_key_def)
  qed
  have d1: "distinct (map lane_key ?lanes)"
  proof -
    have "distinct (map barrier_lane_key ?lanes)"
      using I(3) by (auto simp: round_lanes_def distinct_map intro: inj_on_subset)
    moreover have "barrier_lane_key l = (rid, ?n, lane_key l)" if "l \<in> set ?lanes" for l
      using that by (simp add: round_lanes_mem lane_round_def barrier_lane_key_def lane_key_def)
    ultimately show ?thesis by (auto simp: distinct_map inj_on_def)
  qed
  have d2: "distinct (map row_key ?rows)"
  proof -
    have "distinct ?rows" using rows_okD(1)[OF I(1)] by (simp add: active_rows_def distinct_map)
    moreover have "inj_on row_key (set ?rows)"
      using one_active[OF I(1)] by (auto simp: inj_on_def active_rows_mem active_set_def lane_of_key)
    ultimately show ?thesis by (simp add: distinct_map)
  qed
  have lanes: "lane_key l = row_key r \<longleftrightarrow> barrier_lane_key l = row_lane r" if "l \<in> set ?lanes" "r \<in> set ?rows" for l r
    using that round[of r]
    by (auto simp: round_lanes_mem lane_round_def barrier_lane_key_def lane_key_def row_key_def row_lane_def active_rows_mem)
  have "\<exists>resumes. resume_lanes sha db rid b ?lanes (map (\<lambda>r. (row_key r, r)) ?rows) = Inr resumes \<and>
    map (\<lambda>x. (re_lane_run_id x, re_query_id x)) resumes = map lane_key ?lanes \<and>
    map re_barrier_status resumes = map wl_status ?lanes \<and> list_all2 resumes_ok ?lanes (map re_transitions resumes)"
  proof (rule resume_lanes_return[OF I(1) d1 d2])
    show "\<exists>l \<in> set ?lanes. lane_key l = row_key r \<and> wl_status l = lane_status_of r" if r: "r \<in> set ?rows" for r
    proof -
      obtain l where l: "l \<in> set (t_barrier_lanes db)" "barrier_lane_key l = row_lane r" "wl_status l = lane_status_of r"
        using linksD(1)[OF I(5), of r] r by (auto simp: active_rows_mem row_backed_def)
      then have "l \<in> set ?lanes" using round[OF r] r
        by (simp add: round_lanes_mem lane_round_def barrier_lane_key_def row_lane_def active_rows_mem)
      then show ?thesis using l lanes r by blast
    qed
    show "\<exists>r \<in> set ?rows. row_key r = lane_key l" if l: "l \<in> set ?lanes" "wl_status l \<in> {''active'', ''completed''}" for l
    proof -
      have "l \<in> set (t_barrier_lanes db)" "lane_round l = barrier_key b"
        using l(1) bm(2) by (simp_all add: round_lanes_mem barrier_key_def)
      then obtain r where r: "r \<in> active_set (t_transitions db)" "row_lane r = barrier_lane_key l"
        using linksD(2)[OF I(5), of l] l(2) bm(1,3) unfolding lane_backed_def by metis
      have "r \<in> set ?rows" using r l(1)
        by (simp add: active_rows_mem row_lane_def barrier_lane_key_def round_lanes_mem lane_round_def)
      then show ?thesis using lanes[OF l(1)] r(2) by metis
    qed
    show "wl_status l \<in> {''pending'', ''active'', ''completed'', ''skipped''}" if "l \<in> set ?lanes" for l
      using linksD(2)[OF I(5), of l] that by (simp add: round_lanes_mem lane_backed_def)
  qed (auto simp: active_rows_mem active_set_def)
  moreover have "get_workflow_round_resume_lanes sha db rid (wb_base_checkpoint_id b) =
      resume_lanes sha db rid b ?lanes (map (\<lambda>r. (row_key r, r)) ?rows)"
    using b ok d2 by (simp add: get_workflow_round_resume_lanes_def Let_def)
  ultimately show ?thesis by simp
qed

lemma no_barrier_resumes:
  assumes inv: "round_inv sha db" and b: "active_barriers db rid = []"
  shows "get_workflow_round_resume_lanes sha db rid base = Inr []"
proof -
  have "active_rows db rid = []"
  proof (rule ccontr)
    assume "active_rows db rid \<noteq> []"
    then obtain r where r: "r \<in> set (active_rows db rid)" by (meson list.set_sel(1))
    then obtain b' where "b' \<in> set (t_barriers db)" "barrier_key b' = (rid, wt_round_no r)" "wb_status b' = ''active''"
      using linksD(1)[OF round_invD(5)[OF inv], of r] by (auto simp: active_rows_mem row_backed_def)
    then have "b' \<in> set (active_barriers db rid)" by (simp add: active_barriers_mem barrier_key_def)
    with b show False by simp
  qed
  with b show ?thesis by (simp add: get_workflow_round_resume_lanes_def)
qed

end
