(* ===== verification/WorkflowSystem.thy ===== *)
theory WorkflowSystem
  imports ControlPlane WorkflowRounds
begin

text \<open>
  The control plane with its workflow: source operations that are accepted or retried advance the
  transition that names them in the same transaction, a step of a lane commits the source
  operations it consumed, and a checkpoint settles the round. Here the participant \<open>advance\<close> of
  the ledger is the code's own function, so the hypothesis \<open>env_ok\<close> of the ledger's theorems is
  proved of it, and every interleaving of the calls of all components keeps the invariants of all.
\<close>

section \<open>Checkpoints\<close>

text \<open>
  The keyword arguments of \<open>write_checkpoint_v2\<close> that reach the modelled tables; \<open>ck_content\<close> are the
  columns computed from its argument \<open>projection\<close> and the ledgers.
\<close>

record checkpoint_write =
  ck_checkpoint_id :: string
  ck_run :: string
  ck_executor_id :: string
  ck_attempt_no :: "int option"
  ck_stage :: string
  ck_round_no :: "int option"
  ck_safe_boundary :: string
  ck_requirement_revision_id :: string
  ck_created_at :: string
  ck_operation_ids :: "string list"
  ck_schema_version :: string
  ck_content :: checkpoint_content

definition V2_SAFE_BOUNDARIES :: "string list" where
  "V2_SAFE_BOUNDARIES =
     [''before_source_dispatch'', ''before_round_controller'', ''after_source_result_commit'',
      ''runtime_candidate_checkpoint'', ''after_round_controller'', ''before_finalization'',
      ''after_finalization_commit'', ''entering_pause'', ''entering_needs_attention'']"

definition checkpoint_row_of :: "checkpoint_write \<Rightarrow> checkpoint_row" where
  "checkpoint_row_of c =
     \<lparr>cp_checkpoint_id = ck_checkpoint_id c, cp_run = ck_run c, cp_stage = ck_stage c,
      cp_round_no = ck_round_no c, cp_safe_boundary = ck_safe_boundary c,
      cp_schema_version = ck_schema_version c,
      cp_requirement_revision_id = Some (ck_requirement_revision_id c), cp_content = ck_content c\<rparr>"

text \<open>
  \<open>write_checkpoint_participant\<close> for the v2 schema: an existing row must be equal in all columns;
  \<open>same_payload\<close> says so of the columns the model leaves out.
\<close>

definition write_checkpoint_participant :: "bool \<Rightarrow> checkpoint_row \<Rightarrow> rcdb \<Rightarrow> rc_error + rcdb" where
  "write_checkpoint_participant same_payload row db =
     (case fetchone (\<lambda>c. cp_checkpoint_id c = cp_checkpoint_id row) (t_checkpoints db) of
        None \<Rightarrow> Inr (db\<lparr>t_checkpoints := t_checkpoints db @ [row]\<rparr>)
      | Some existing \<Rightarrow>
          if existing \<noteq> row \<or> \<not> same_payload then rc_fail ''runtime_checkpoint_replay_conflict'' else Inr db)"

definition point_run :: "checkpoint_write \<Rightarrow> int \<Rightarrow> run_row \<Rightarrow> run_row" where
  "point_run c state_revision r =
     r\<lparr>run_latest_checkpoint_id := Some (ck_checkpoint_id c), run_current_stage := ck_stage c,
       run_current_round := ck_round_no c, run_updated_at := ck_created_at c,
       run_state_revision := state_revision\<rparr>"

definition update_checkpoint_pointer :: "checkpoint_write \<Rightarrow> int \<Rightarrow> rcdb \<Rightarrow> rc_error + rcdb" where
  "update_checkpoint_pointer c state_revision db =
     (let (n, db') = update_run (ck_run c) outcome_clear (point_run c state_revision) db
      in if n \<noteq> 1 then rc_fail ''runtime_failed_outcome_terminal_immutable'' else Inr db')"

text \<open>The end of the transaction: main commits, the round, the checkpoint row, the pointer.\<close>

definition commit_checkpoint :: "sha \<Rightarrow> bool \<Rightarrow> checkpoint_write \<Rightarrow> int \<Rightarrow> rcdb \<Rightarrow> rc_error + rcdb" where
  "commit_checkpoint sha same_payload c state_revision db =
     sbind (commit_source_operations_with_ref db (ck_run c) (ck_checkpoint_id c) (ck_operation_ids c)
              ''source_operation_checkpoint_conflict'') (\<lambda>db1.
     sbind (checkpoint_workflow_round_barrier sha db1 (ck_run c) (ck_round_no c) (ck_created_at c)) (\<lambda>db2.
     sbind (write_checkpoint_participant same_payload (checkpoint_row_of c) db2) (\<lambda>db3.
     update_checkpoint_pointer c state_revision db3)))"

text \<open>
  \<open>write_checkpoint_v2\<close>. The ledgers of candidates, rounds, finalization and detail claims are
  synchronised before the commit; they are other tables, so the parameter \<open>projection\<close> gives the
  error they raise, or whether the stored payload of this checkpoint id is the same.
\<close>

definition write_checkpoint_v2 ::
  "clock \<Rightarrow> sha \<Rightarrow> (rcdb \<Rightarrow> checkpoint_write \<Rightarrow> rc_error + bool) \<Rightarrow> rcdb \<Rightarrow> checkpoint_write \<Rightarrow> rc_error + rcdb" where
  "write_checkpoint_v2 ck sha projection db c =
     (if ck_schema_version c \<noteq> ''runtime-control-checkpoint/v2''
      then rc_fail ''runtime_checkpoint_schema_unsupported''
      else if ck_safe_boundary c \<notin> set V2_SAFE_BOUNDARIES
      then rc_fail ''runtime_checkpoint_safe_boundary_unregistered''
      else
        sbind (require_active_executor ck db (ck_run c) (ck_executor_id c) (ck_attempt_no c) (Some (ck_created_at c))) (\<lambda>_.
        sbind (or_raise (RuntimeControlLookupError ''runtime_run_not_found'') (fetch_run db (ck_run c))) (\<lambda>run.
        sbind (require_run_truth_mutable run) (\<lambda>_.
        if run_approved_requirement run \<noteq> ck_requirement_revision_id c
        then rc_fail ''runtime_checkpoint_requirement_revision_mismatch''
        else
          sbind (projection db c) (\<lambda>same_payload.
          commit_checkpoint sha same_payload c (run_state_revision run + 1) db)))))"

section \<open>The workflow's calls\<close>

datatype workflow_call =
    OpenRound barrier_open
  | SkipLane string string int int string string string
  | WriteStep step_write string
  | WriteCheckpoint checkpoint_write

datatype workflow_result =
    RoundOpened barrier_result | LaneSkipped | StepWritten transition bool | CheckpointWritten

record workflow_env =
  we_clock :: clock
  we_sha :: sha
  we_projection :: "rcdb \<Rightarrow> checkpoint_write \<Rightarrow> rc_error + bool"

definition workflow_step :: "workflow_env \<Rightarrow> rcdb \<Rightarrow> workflow_call \<Rightarrow> rc_error + (rcdb \<times> workflow_result)" where
  "workflow_step env db call =
     (case call of
        OpenRound q \<Rightarrow>
          sbind (open_workflow_round_barrier (we_clock env) (we_sha env) db q) (\<lambda>(db', r). Inr (db', RoundOpened r))
      | SkipLane rid executor attempt n lane query at \<Rightarrow>
          sbind (skip_workflow_barrier_lane (we_clock env) db rid executor attempt n lane query at)
            (\<lambda>db'. Inr (db', LaneSkipped))
      | WriteStep w fresh \<Rightarrow>
          sbind (write_workflow_transition (we_clock env) (we_sha env) db w fresh)
            (\<lambda>(db', t, inserted). Inr (db', StepWritten t inserted))
      | WriteCheckpoint c \<Rightarrow>
          sbind (write_checkpoint_v2 (we_clock env) (we_sha env) (we_projection env) db c)
            (\<lambda>db'. Inr (db', CheckpointWritten)))"

section \<open>Dispatches advance their transition\<close>

text \<open>
  What the callers of the ledger pass for one acceptance: nothing (no transition is kept for it),
  or the kind of the operation and the time of the transition.
\<close>

type_synonym advance_mode = "rcdb \<Rightarrow> acceptance \<Rightarrow> (string \<times> string) option"

definition advance_participant :: "sha \<Rightarrow> advance_mode \<Rightarrow> rcdb \<Rightarrow> acceptance \<Rightarrow> rc_error + rcdb" where
  "advance_participant sha mode db acc =
     (case mode db acc of
        None \<Rightarrow> Inr db
      | Some (kind, at) \<Rightarrow> advance_workflow_transition_dispatch_epoch sha db acc at kind)"

definition with_workflow :: "control_env \<Rightarrow> advance_mode \<Rightarrow> control_env" where
  "with_workflow env mode =
     env\<lparr>ce_source := (ce_source env)\<lparr>se_advance := advance_participant (ce_sha env) mode\<rparr>\<rparr>"

lemma with_workflow_simps [simp]:
  "se_advance (ce_source (with_workflow env mode)) = advance_participant (ce_sha env) mode"
  "ce_sha (with_workflow env mode) = ce_sha env"
  by (simp_all add: with_workflow_def)

lemma advance_frame:
  assumes "advance_workflow_transition_dispatch_epoch sha db acc at kind = Inr db'"
  shows "same_ledger db db' \<and> same_owners db db'"
  using assms
proof (cases rule: advance_parts)
  case (moved x t payload db1)
  then show ?thesis
    using supersede_parts(1)[OF moved(10)]
    by (auto simp: insert_transition_def update_transitions_def frame_defs split: if_splits)
qed simp

text \<open>The hypothesis of the ledger's theorems holds of the code's own participant.\<close>

lemma workflow_env_ok: "env_ok (ce_source (with_workflow env mode))"
  using advance_frame by (auto simp: env_ok_def advance_participant_def split: option.splits)

section \<open>Frames\<close>

text \<open>What the calls of the other components leave as it is: the rounds and the checkpoints.\<close>

definition same_flow :: "rcdb \<Rightarrow> rcdb \<Rightarrow> bool" where
  "same_flow db db' \<longleftrightarrow> same_rounds db db' \<and> t_checkpoints db' = t_checkpoints db"

lemmas flow_defs = same_flow_def same_rounds_def

lemma same_flow_refl [simp]: "same_flow db db"
  by (simp add: flow_defs)

lemma same_flow_trans: "same_flow x y \<Longrightarrow> same_flow y z \<Longrightarrow> same_flow x z"
  by (simp add: flow_defs)

lemma update_run_flow: "update_run rid g f db = (n, db') \<Longrightarrow> same_flow db db'"
  by (auto simp: update_run_def flow_defs)

lemma expire_flow: "same_flow db (fold (expire_one now) rows db)"
proof (induction rows arbitrary: db)
  case (Cons r rows)
  have "same_flow db (expire_one now r db)"
    by (simp add: expire_one_def update_run_def update_leases_def flow_defs)
  then show ?case using Cons[of "expire_one now r db"] same_flow_trans by simp
qed simp

lemma lease_flow:
  assumes "lease_step ck integ db c = Inr (db', res)"
  shows "same_flow db db'"
proof (cases c)
  case (Expire now batch)
  then show ?thesis
    using assms expire_flow
    by (auto simp: returning_Inr expire_executor_leases_def Let_def split: if_splits)
qed (use assms in \<open>auto simp: returning_Inr acquire_executor_lease_def heartbeat_executor_lease_def
      release_executor_lease_def release_executor_lease_txn_def update_run_status_def
      link_workbench_session_def insert_lease_def update_run_def update_leases_def Let_def sbind_eq_Inr
      split_beta flow_defs split: if_splits sum.splits\<close>)

lemma resolve_flow:
  "resolve_expired_browser_lane_after_reconciliation db n rid oid out hc ref dig at fresh = Inr (db', b) \<Longrightarrow>
   same_flow db db'"
  by (auto simp: resolve_expired_browser_lane_after_reconciliation_def sbind_eq_Inr terminalize_lane_def
      update_lanes_def insert_resolution_def flow_defs split: if_splits)

lemma lane_flow:
  assumes "lane_step sha db c = Inr (db', res)"
  shows "same_flow db db'"
proof (cases c)
  case (LaneReconcile lane at fresh)
  have "same_flow db (update_lanes p f db)" for p f by (simp add: update_lanes_def flow_defs)
  then show ?thesis
    using LaneReconcile assms resolve_flow
    by (auto simp: lane_returning_Inr reconcile_observed_lane_def Let_def sbind_eq_Inr split_beta
        split: option.splits if_splits)
next
  case (LaneObserved rid oid at fresh)
  then show ?thesis
    using assms
    by (auto simp: lane_returning_Inr resolve_browser_lane_from_conclusive_observation_def sbind_eq_Inr
        terminalize_lane_def update_lanes_def insert_resolution_def flow_defs split: option.splits if_splits)
next
  case (LaneResolve n rid oid out hc ref dig at fresh)
  then show ?thesis using assms resolve_flow by (auto simp: lane_returning_Inr)
qed (use assms in \<open>auto simp: lane_returning_Inr try_acquire_browser_lane_def heartbeat_browser_lane_def
      release_browser_lane_def mark_browser_lane_unresolved_def upsert_lane_def update_lanes_def Let_def
      sbind_eq_Inr flow_defs split: if_splits option.splits\<close>)

text \<open>
  A source call leaves them too, or hands an acceptance whose expectation was validated to the
  participant \<open>advance\<close>, and ends with the database it returns.
\<close>

lemma acceptance_valid:
  "source_operation_acceptance digest db r = Inr acc \<Longrightarrow> valid_expectation (fst (snd acc))"
  by (auto simp: source_operation_acceptance_def source_operation_pair_def sbind_eq_Inr split: option.splits if_splits)

lemma replay_valid: "require_replay digest db d q t = Inr acc \<Longrightarrow> valid_expectation (fst (snd acc))"
  by (auto simp: require_replay_def split: option.splits if_splits)

lemma mint_valid:
  "mint_safe_retry_dispatch_epoch ck digest advance db q t issued = Inr (db', acc) \<Longrightarrow> valid_expectation (fst (snd acc))"
  unfolding mint_safe_retry_dispatch_epoch_def Let_def
  by (cases acc) (auto simp: sbind_eq_Inr next_dispatch_def split: if_splits option.splits
      dest: replay_valid committed_parts(4))

lemma valid_attempt: "valid_expectation e \<Longrightarrow> 1 \<le> ex_attempt_no e"
  by (auto simp: valid_expectation_def validate_admission_expectation_def checks_Inr require_positive_def
      require_positive_json_safe_def positive_json_def split: if_splits)

lemma source_flow:
  assumes s: "source_step env db c = Inr (db', res)"
  obtains (same) "same_flow db db'"
    | (advance) db1 acc where "same_flow db db1" "valid_expectation (fst (snd acc))" "se_advance env db1 acc = Inr db'"
proof (cases c)
  case (AcceptOperation a)
  then obtain acc where a: "accept_source_operation (se_digest env) (se_evidence env) (se_advance env) db a = Inr (db', acc)"
    using s by (auto simp: source_step_def sbind_eq_Inr)
  then show thesis
  proof (cases rule: accept_parts)
    case (replay r)
    then show ?thesis using advance[of db acc] acceptance_valid by auto
  next
    case (new db1 db2 db3 r)
    have "same_flow db db3" using new(6-8)
      by (auto simp: insert_operation_def insert_expectation_def insert_dispatch_def flow_defs split: if_splits)
    then show ?thesis using advance[of db3 acc] new(10,11) acceptance_valid by auto
  qed
next
  case (CommitDecision d precondition ack token)
  then obtain n where "commit_no_owner_source_reconciliation (se_attention env) db d precondition ack token = Inr (db', n)"
    using s by (auto simp: source_step_def sbind_eq_Inr)
  then show thesis
  proof (cases rule: commit_decision_parts)
    case (new r update db1 dispatch)
    have "same_flow db db1" using new(9)
      by (auto simp: reconcile_outbox_def update_outbox_def flow_defs Let_def split: option.splits if_splits)
    then show ?thesis using new(10) same
      by (auto simp: insert_reconciliation_def update_operations_def flow_defs split: if_splits)
  qed (use same in simp)
next
  case (MintEpoch q t issued)
  then obtain acc where m: "mint_safe_retry_dispatch_epoch (se_clock env) (se_digest env) (se_advance env) db q t issued = Inr (db', acc)"
    using s by (auto simp: source_step_def sbind_eq_Inr)
  then show thesis
  proof (cases rule: mint_parts)
    case (replay d)
    then show ?thesis using advance[of db acc] mint_valid[OF m] by simp
  next
    case (new r n previous h db1)
    have "same_flow db db1" using new(7)
      by (auto simp: write_epoch_def insert_expectation_def insert_dispatch_def update_operations_def
          flow_defs Let_def sbind_eq_Inr split: if_splits)
    then show ?thesis using advance[of db1 acc] mint_valid[OF m] new(9) by simp
  qed
next
  case (MainCommit rid ref oids reason)
  have "commit_operations rid ref reason oids x = Inr y \<Longrightarrow> same_flow x y" for x y
    by (induction oids arbitrary: x)
      (auto simp: sbind_eq_Inr Let_def update_operations_def flow_defs split: if_splits)
  then show ?thesis using MainCommit s same
    by (auto simp: source_step_def sbind_eq_Inr commit_source_operations_with_ref_def split: if_splits)
qed (use s same in \<open>auto simp: source_step_def sbind_eq_Inr record_source_dispatch_ack_def update_outbox_def
      record_owned_source_operation_observation_def record_owned_source_reconciliation_unknown_def
      insert_reconciliation_def update_operations_def Let_def flow_defs split: if_splits option.splits\<close>)

section \<open>The system\<close>

datatype system_call = Control control_call | Flow workflow_call

datatype system_result = ControlAnswer control_result | FlowAnswer workflow_result

record system_env =
  sy_control :: control_env
  sy_advance :: advance_mode
  sy_projection :: "rcdb \<Rightarrow> checkpoint_write \<Rightarrow> rc_error + bool"

definition flow_env :: "system_env \<Rightarrow> workflow_env" where
  "flow_env env =
     \<lparr>we_clock = se_clock (ce_source (sy_control env)), we_sha = ce_sha (sy_control env),
      we_projection = sy_projection env\<rparr>"

definition system_step :: "system_env \<Rightarrow> rcdb \<Rightarrow> system_call \<Rightarrow> rc_error + (rcdb \<times> system_result)" where
  "system_step env db call =
     (case call of
        Control c \<Rightarrow>
          sbind (control_step (with_workflow (sy_control env) (sy_advance env)) db c)
            (\<lambda>(db', r). Inr (db', ControlAnswer r))
      | Flow c \<Rightarrow> sbind (workflow_step (flow_env env) db c) (\<lambda>(db', r). Inr (db', FlowAnswer r)))"

abbreviation sy_sha :: "system_env \<Rightarrow> sha" where
  "sy_sha env \<equiv> ce_sha (sy_control env)"

definition system_inv :: "system_env \<Rightarrow> rcdb \<Rightarrow> bool" where
  "system_inv env db \<longleftrightarrow> control_inv db \<and> round_inv (sy_sha env) db"

text \<open>A call of the control plane: its own effects, and at most one advanced transition.\<close>

lemma control_flow:
  assumes s: "control_step (with_workflow cenv mode) db c = Inr (db', r)"
  obtains (same) "same_flow db db'"
    | (advance) db1 acc kind at where "same_flow db db1" "1 \<le> ex_attempt_no (fst (snd acc))"
      "advance_workflow_transition_dispatch_epoch (ce_sha cenv) db1 acc at kind = Inr db'"
  using s workflow_env_ok
proof (cases rule: control_step_cases)
  case (lease c r)
  then show thesis using same lease_flow by blast
next
  case (lane c r)
  then show thesis using same lane_flow by blast
next
  case (source c r)
  from source(2) show thesis
  proof (cases rule: source_flow)
    case (advance db1 acc)
    then show thesis
      using same that(2)[of db1 acc] valid_attempt
      by (auto simp: advance_participant_def split: option.splits)
  qed (rule same)
qed

lemma control_rounds:
  assumes "control_step (with_workflow cenv mode) db c = Inr (db', r)"
    and "sha_ok (ce_sha cenv)" "round_inv (ce_sha cenv) db"
  shows "round_inv (ce_sha cenv) db'"
  using assms(1)
proof (cases rule: control_flow)
  case same
  then show ?thesis using assms(3) round_inv_frame same_flow_def by blast
next
  case (advance db1 acc kind at)
  then have "round_inv (ce_sha cenv) db1" using assms(3) round_inv_frame same_flow_def by blast
  with advance_inv[OF advance(3) assms(2)] advance(2) show ?thesis by blast
qed

text \<open>A main commit touches the rows of operations only.\<close>

lemma commit_with_ref_parts:
  assumes "commit_source_operations_with_ref db rid ref oids reason = Inr db'"
  shows "keeps_ledger db db' \<and> same_owners db db' \<and> same_flow db db'"
proof -
  have "commit_operations rid ref reason oids x = Inr y \<Longrightarrow> same_owners x y \<and> same_flow x y" for x y
    by (induction oids arbitrary: x)
      (auto simp: sbind_eq_Inr Let_def update_operations_def frame_defs flow_defs split: if_splits)
  then show ?thesis using assms main_commit_keeps
    by (auto simp: commit_source_operations_with_ref_def split: if_splits)
qed

lemma control_inv_owners: "same_owners db db' \<Longrightarrow> keeps_ledger db db' \<Longrightarrow> control_inv db \<Longrightarrow> control_inv db'"
  using lease_inv_frame lane_inv_frame by (auto simp: control_inv_def same_owners_iff keeps_ledger_def)

lemma same_tables_control:
  "same_owners db db' \<Longrightarrow> same_ledger db db' \<Longrightarrow> control_inv db \<Longrightarrow> control_inv db'"
  using control_inv_owners same_ledger_keeps by blast

text \<open>What the writes of the rounds leave as it is.\<close>

definition same_rest :: "rcdb \<Rightarrow> rcdb \<Rightarrow> bool" where
  "same_rest db db' \<longleftrightarrow> same_owners db db' \<and> same_ledger db db' \<and> t_checkpoints db' = t_checkpoints db"

lemmas rest_defs = same_rest_def frame_defs

lemma same_rest_refl [simp]: "same_rest db db"
  by (simp add: rest_defs)

lemma same_rest_trans: "same_rest x y \<Longrightarrow> same_rest y z \<Longrightarrow> same_rest x z"
  by (simp add: rest_defs)

lemma same_rest_keeps: "same_rest db db' \<Longrightarrow> same_owners db db' \<and> keeps_ledger db db' \<and> t_checkpoints db' = t_checkpoints db"
  using same_ledger_keeps by (simp add: same_rest_def)

lemma insert_transition_rest: "insert_transition r db = Inr db' \<Longrightarrow> same_rest db db' \<and> t_barriers db' = t_barriers db"
  by (auto simp: insert_transition_def rest_defs split: if_splits)

lemma supersede_rest: "supersede tid at db = Inr db' \<Longrightarrow> same_rest db db' \<and> t_barriers db' = t_barriers db"
  by (auto simp: supersede_def update_transitions_def rest_defs Let_def split: if_splits)

lemma move_lane_rest: "move_lane rid n lane query st f db = Inr db' \<Longrightarrow> same_rest db db' \<and> t_barriers db' = t_barriers db"
  by (auto simp: move_lane_def update_barrier_lanes_def rest_defs Let_def split: if_splits)

lemma advance_rest:
  assumes "advance_workflow_transition_dispatch_epoch sha db acc at kind = Inr db'"
  shows "same_rest db db' \<and> t_barriers db' = t_barriers db"
  using assms
proof (cases rule: advance_parts)
  case (moved x t payload db1)
  then show ?thesis
    using supersede_rest[OF moved(10)] insert_transition_rest[OF moved(11)] same_rest_trans[of db db1 db'] by simp
qed simp

lemma open_rest:
  assumes "open_workflow_round_barrier ck sha db q = Inr (db', res)"
  shows "same_rest db db'"
  using assms
proof (cases rule: open_parts)
  case (new base db1 lanes)
  have "same_rest db db1" using new(2) by (auto simp: insert_barrier_def rest_defs split: if_splits)
  moreover have "insert_barrier_lanes rid n ls x = Inr y \<Longrightarrow> same_rest x y" for rid n ls x y
    by (induction ls arbitrary: x) (auto simp: sbind_eq_Inr insert_barrier_lane_def rest_defs split: if_splits)
  ultimately show ?thesis using new(3) same_rest_trans by blast
qed simp

lemma skip_rest:
  "skip_workflow_barrier_lane ck db rid executor attempt n lane query at = Inr db' \<Longrightarrow>
   same_rest db db' \<and> t_barriers db' = t_barriers db"
  by (auto simp: skip_workflow_barrier_lane_def sbind_eq_Inr Let_def update_barrier_lanes_def rest_defs
      split: if_splits option.splits)

lemma write_rest:
  assumes "write_workflow_transition ck sha db w fresh = Inr (db', t, inserted)"
  shows "same_owners db db' \<and> keeps_ledger db db' \<and> t_checkpoints db' = t_checkpoints db \<and> t_barriers db' = t_barriers db"
  using assms
proof (cases rule: write_parts)
  case replay
  then show ?thesis using same_rest_keeps[of db db] by simp
next
  case (new run active payload)
  show ?thesis
    using new(5)
  proof (rule append_parts)
    fix db1 row db2 db3 db4 stored
    assume p: "place_step db run active w (stored_transition_id w fresh) payload = Inr (db1, row)"
      and i: "insert_transition row db1 = Inr db2" and e: "enter_lane w (active = None) db2 = Inr db3"
      and c: "commit_source_operations_with_ref db3 (sw_run w) (stored_transition_id w fresh) (sw_operation_ids w)
          ''runtime_workflow_transition_source_commit_conflict'' = Inr db4"
      and l: "leave_lane w db4 = Inr db'"
    have "same_rest db db1 \<and> t_barriers db1 = t_barriers db"
      using p by (cases rule: place_parts) (auto dest: supersede_rest)
    moreover have "same_rest db2 db3 \<and> t_barriers db3 = t_barriers db2" "same_rest db4 db' \<and> t_barriers db' = t_barriers db4"
      using e l move_lane_rest by (auto simp: enter_lane_def leave_lane_def split: if_splits)
    ultimately have a: "same_rest db db3" "t_barriers db3 = t_barriers db" "same_rest db4 db'" "t_barriers db' = t_barriers db4"
      using insert_transition_rest[OF i] by (auto simp: rest_defs)
    have "keeps_ledger db db'"
      using same_rest_keeps[OF a(1)] commit_with_ref_parts[OF c] same_rest_keeps[OF a(3)] keeps_trans by blast
    then show ?thesis
      using a commit_with_ref_parts[OF c] by (auto simp: rest_defs flow_defs)
  qed
qed

section \<open>The checkpoint\<close>

lemma write_checkpoint_parts:
  assumes "write_checkpoint_v2 ck sha projection db c = Inr db'"
  obtains run same_payload db1 db2 db3 where
    "fetch_run db (ck_run c) = Some run"
    "commit_source_operations_with_ref db (ck_run c) (ck_checkpoint_id c) (ck_operation_ids c)
       ''source_operation_checkpoint_conflict'' = Inr db1"
    "checkpoint_workflow_round_barrier sha db1 (ck_run c) (ck_round_no c) (ck_created_at c) = Inr db2"
    "write_checkpoint_participant same_payload (checkpoint_row_of c) db2 = Inr db3"
    "update_checkpoint_pointer c (run_state_revision run + 1) db3 = Inr db'"
    "\<exists>l. require_active_executor ck db (ck_run c) (ck_executor_id c) (ck_attempt_no c) (Some (ck_created_at c)) = Inr l"
  using assms unfolding write_checkpoint_v2_def commit_checkpoint_def
  by (auto simp: sbind_eq_Inr split: if_splits)

lemma participant_parts:
  assumes "write_checkpoint_participant same row db = Inr db'"
  shows "db' = db\<lparr>t_checkpoints := t_checkpoints db'\<rparr>"
    "t_checkpoints db' = (if row \<in> set (t_checkpoints db) then t_checkpoints db else t_checkpoints db @ [row])"
    "distinct (map cp_checkpoint_id (t_checkpoints db)) \<Longrightarrow> distinct (map cp_checkpoint_id (t_checkpoints db'))"
proof -
  have "fetchone (\<lambda>c. cp_checkpoint_id c = cp_checkpoint_id row) (t_checkpoints db) = None \<and>
      db' = db\<lparr>t_checkpoints := t_checkpoints db @ [row]\<rparr> \<or>
      fetchone (\<lambda>c. cp_checkpoint_id c = cp_checkpoint_id row) (t_checkpoints db) = Some row \<and> db' = db"
    using assms by (auto simp: write_checkpoint_participant_def split: option.splits if_splits)
  then show "db' = db\<lparr>t_checkpoints := t_checkpoints db'\<rparr>"
    "t_checkpoints db' = (if row \<in> set (t_checkpoints db) then t_checkpoints db else t_checkpoints db @ [row])"
    "distinct (map cp_checkpoint_id (t_checkpoints db)) \<Longrightarrow> distinct (map cp_checkpoint_id (t_checkpoints db'))"
    by (auto simp: fetchone_None_iff dest: fetchone_SomeD) (metis fetchone_SomeD)
qed

lemma pointer_parts:
  assumes "update_checkpoint_pointer c revision db = Inr db'"
  shows "db' = db\<lparr>t_runs := update_where (\<lambda>r. run_id r = ck_run c \<and> outcome_clear r) (point_run c revision) (t_runs db)\<rparr>"
    "\<exists>r \<in> set (t_runs db). run_id r = ck_run c \<and> outcome_clear r"
proof -
  have r: "rowcount (\<lambda>r. run_id r = ck_run c \<and> outcome_clear r) (t_runs db) = 1"
    using assms by (simp add: update_checkpoint_pointer_def update_run_def split: if_splits)
  then show "\<exists>r \<in> set (t_runs db). run_id r = ck_run c \<and> outcome_clear r"
    by (metis (mono_tags, lifting) rowcount_0 zero_neq_one)
  show "db' = db\<lparr>t_runs := update_where (\<lambda>r. run_id r = ck_run c \<and> outcome_clear r) (point_run c revision) (t_runs db)\<rparr>"
    using assms by (simp add: update_checkpoint_pointer_def update_run_def split: if_splits)
qed

lemma barrier_checkpoint_rest:
  assumes "checkpoint_workflow_round_barrier sha db rid n at = Inr db'"
  shows "same_rest db db'"
  using assms
proof (cases rule: checkpoint_parts)
  case (settled m b keys)
  then show ?thesis by (auto dest!: settle_parts simp: rest_defs)
qed simp

lemma write_checkpoint_inv:
  assumes s: "write_checkpoint_v2 ck sha projection db c = Inr db'" and inv: "control_inv db" "round_inv sha db"
  shows "control_inv db' \<and> round_inv sha db' \<and> keeps_ledger db db'"
  using s
proof (rule write_checkpoint_parts)
  fix run same_payload db1 db2 db3
  assume c: "commit_source_operations_with_ref db (ck_run c) (ck_checkpoint_id c) (ck_operation_ids c)
       ''source_operation_checkpoint_conflict'' = Inr db1"
    and b: "checkpoint_workflow_round_barrier sha db1 (ck_run c) (ck_round_no c) (ck_created_at c) = Inr db2"
    and p: "write_checkpoint_participant same_payload (checkpoint_row_of c) db2 = Inr db3"
    and u: "update_checkpoint_pointer c (run_state_revision run + 1) db3 = Inr db'"
  note C = commit_with_ref_parts[OF c] and B = barrier_checkpoint_rest[OF b] and P = participant_parts[OF p] and U = pointer_parts[OF u]
  have "control_inv db1" using C inv(1) control_inv_owners by blast
  then have i2: "control_inv db2" using B same_tables_control[of db1 db2] by (simp add: same_rest_def)
  obtain cs where q: "db3 = db2\<lparr>t_checkpoints := cs\<rparr>" using P(1) by blast
  have pu: "same_ledger db2 db' \<and> same_lanes db2 db' \<and> same_rounds db2 db'"
    unfolding U(1) q by (simp add: frame_defs flow_defs)
  have "map run_id (t_runs db') = map run_id (t_runs db2) \<and> t_leases db' = t_leases db2"
    unfolding U(1) q by (simp add: map_update_where point_run_def)
  then have "lease_inv db'" using i2 by (simp add: control_inv_def lease_inv_def)
  then have "control_inv db'"
    using i2 pu lane_inv_frame same_ledger_keeps by (auto simp: control_inv_def keeps_ledger_def)
  moreover have "round_inv sha db1" using C inv(2) round_inv_frame same_flow_def by blast
  then have "round_inv sha db'" using checkpoint_inv[OF b] pu round_inv_frame by blast
  moreover have "keeps_ledger db db'"
    using C B pu same_ledger_keeps keeps_trans by (metis same_rest_def)
  ultimately show ?thesis by blast
qed

section \<open>Every call keeps the invariants\<close>

lemma flow_step_inv:
  assumes s: "workflow_step env db c = Inr (db', r)" and inv: "control_inv db" "round_inv (we_sha env) db"
  shows "control_inv db' \<and> round_inv (we_sha env) db' \<and> keeps_ledger db db'"
proof (cases c)
  case (OpenRound q)
  then obtain res where o1: "open_workflow_round_barrier (we_clock env) (we_sha env) db q = Inr (db', res)"
    using s by (auto simp: workflow_step_def sbind_eq_Inr)
  show ?thesis using open_inv[OF o1 inv(2)] same_rest_keeps[OF open_rest[OF o1]] control_inv_owners inv(1) by blast
next
  case (SkipLane rid ex attempt n lane query at)
  then have k: "skip_workflow_barrier_lane (we_clock env) db rid ex attempt n lane query at = Inr db'"
    using s by (auto simp: workflow_step_def sbind_eq_Inr)
  show ?thesis using skip_inv[OF k inv(2)] same_rest_keeps skip_rest[OF k] control_inv_owners inv(1) by blast
next
  case (WriteStep w fresh)
  then obtain t i where w: "write_workflow_transition (we_clock env) (we_sha env) db w fresh = Inr (db', t, i)"
    using s by (auto simp: workflow_step_def sbind_eq_Inr)
  show ?thesis using write_inv[OF w inv(2)] write_rest[OF w] control_inv_owners inv(1) by blast
next
  case (WriteCheckpoint cw)
  then have "write_checkpoint_v2 (we_clock env) (we_sha env) (we_projection env) db cw = Inr db'"
    using s by (auto simp: workflow_step_def sbind_eq_Inr)
  then show ?thesis using write_checkpoint_inv inv by blast
qed

lemma system_step_inv:
  assumes sha: "sha_ok (sy_sha env)" and inv: "system_inv env db" and s: "system_step env db c = Inr (db', r)"
  shows "system_inv env db' \<and> ledger_le db db'"
proof (cases c)
  case (Control d)
  then obtain a where a: "control_step (with_workflow (sy_control env) (sy_advance env)) db d = Inr (db', a)"
    using s by (auto simp: system_step_def sbind_eq_Inr)
  show ?thesis
    using control_step_inv[OF workflow_env_ok _ a] control_rounds[OF a sha] inv by (simp add: system_inv_def)
next
  case (Flow d)
  then obtain a where a: "workflow_step (flow_env env) db d = Inr (db', a)"
    using s by (auto simp: system_step_def sbind_eq_Inr)
  show ?thesis
    using flow_step_inv[OF a] inv
    by (auto simp: system_inv_def flow_env_def control_inv_def keeps_ledger_def)
qed

interpretation system: txn_system "system_step env" "\<lambda>db. sha_ok (sy_sha env) \<and> system_inv env db" for env
  by unfold_locales (use system_step_inv in blast)

end
