(* ===== verification/WorkflowRecovery.thy ===== *)
theory WorkflowRecovery
  imports WorkflowSystem
begin

text \<open>
  What a restarted executor relies on: the chain of every active lane can be read, the open round is
  the one of the run's latest checkpoint, its lanes are exactly those it was opened with, and a
  checkpoint settles a round only when nothing of it is left. All statements are about every
  database that calls of all components reach.
\<close>

section \<open>The open round belongs to the latest checkpoint\<close>

definition run_pointers :: "rcdb \<Rightarrow> (string \<times> string option) list" where
  "run_pointers db = map (\<lambda>r. (run_id r, run_latest_checkpoint_id r)) (t_runs db)"

text \<open>
  The calls that move the pointer of a run: checkpoints, and status updates that name a checkpoint
  (no caller under \<open>src/\<close> does).
\<close>

fun keeps_pointer :: "system_call \<Rightarrow> bool" where
  "keeps_pointer (Control (LeaseCall (UpdateStatus rid st at stage rnd reason done_at cp))) \<longleftrightarrow> cp = None"
| "keeps_pointer _ \<longleftrightarrow> True"

definition pinned :: "(string \<times> string option) list \<Rightarrow> checkpoint_row list \<Rightarrow> barrier_row \<Rightarrow> bool" where
  "pinned ps cs b \<longleftrightarrow>
     (wb_run b, Some (wb_base_checkpoint_id b)) \<in> set ps \<and>
     (\<exists>c \<in> set cs. cp_checkpoint_id c = wb_base_checkpoint_id b \<and> cp_round_no c = Some (wb_round_no b))"

definition pinned_inv :: "rcdb \<Rightarrow> bool" where
  "pinned_inv db \<longleftrightarrow>
     distinct (map cp_checkpoint_id (t_checkpoints db)) \<and>
     (\<forall>b \<in> set (t_barriers db). wb_status b = ''active'' \<longrightarrow> pinned (run_pointers db) (t_checkpoints db) b)"

lemma pointers_update:
  assumes "\<And>r. run_id (f r) = run_id r" "\<And>r. run_latest_checkpoint_id (f r) = run_latest_checkpoint_id r"
  shows "run_pointers (snd (update_run rid g f db)) = run_pointers db"
proof -
  have "map (\<lambda>r. (run_id r, run_latest_checkpoint_id r)) (update_where p f t) =
      map (\<lambda>r. (run_id r, run_latest_checkpoint_id r)) t" for p t
    by (rule map_update_where) (simp only: assms)
  then show ?thesis by (simp add: update_run_def run_pointers_def)
qed

lemma pointers_same: "t_runs db' = t_runs db \<Longrightarrow> run_pointers db' = run_pointers db"
  by (simp add: run_pointers_def)

lemma bump_pointer [simp]:
  "run_id (bump_run r) = run_id r" "run_latest_checkpoint_id (bump_run r) = run_latest_checkpoint_id r"
  by (simp_all add: bump_run_def)

lemma pointers_leases [simp]: "run_pointers (update_leases p f db) = run_pointers db"
  by (simp add: update_leases_def run_pointers_def)

lemma expire_pointers: "run_pointers (fold (expire_one now) rows db) = run_pointers db"
  by (induction rows arbitrary: db) (simp_all add: expire_one_def pointers_update)

lemma lease_pointers:
  assumes s: "lease_step ck integ db c = Inr (db', res)" and k: "keeps_pointer (Control (LeaseCall c))"
  shows "run_pointers db' = run_pointers db"
proof (cases c)
  case (Acquire rid ex at exp fresh)
  then obtain l db1 where l: "insert_lease l db = Inr db1" "db' = snd (update_run rid outcome_clear bump_run db1)"
    using s by (auto simp: returning_Inr acquire_executor_lease_def Let_def sbind_eq_Inr split_beta split: if_splits)
  have "t_runs db1 = t_runs db" using l(1) by (auto simp: insert_lease_def split: if_splits)
  then show ?thesis using pointers_same[of db1 db] by (simp add: l(2) pointers_update)
next
  case (Heartbeat rid ex n at exp)
  then obtain p f where "db' = snd (update_run rid (\<lambda>_. True) bump_run (update_leases p f db))"
    using s by (auto simp: returning_Inr heartbeat_executor_lease_def Let_def sbind_eq_Inr split_beta split: if_splits)
  then show ?thesis by (simp add: pointers_update)
next
  case (Release rid ex n at st reason)
  then obtain p f g where "db' = snd (update_run rid g bump_run (update_leases p f db))"
    using s by (auto simp: returning_Inr release_executor_lease_def release_executor_lease_txn_def Let_def
        sbind_eq_Inr split_beta split: if_splits sum.splits)
  then show ?thesis by (simp add: pointers_update)
next
  case (Expire now batch)
  then show ?thesis using s expire_pointers
    by (auto simp: returning_Inr expire_executor_leases_def Let_def split: if_splits)
next
  case (UpdateStatus rid st at stage rnd reason done_at cp)
  then obtain row where "db' = snd (update_run rid outcome_clear (set_run_status row st at stage rnd reason done_at None) db)"
    using s k by (auto simp: returning_Inr update_run_status_def sbind_eq_Inr split_beta split: if_splits)
  then show ?thesis by (simp add: pointers_update set_run_status_def coalesce_def)
next
  case (LinkSession rid wb at)
  then have "db' = snd (update_run rid outcome_clear
      (\<lambda>r. bump_run (r\<lparr>run_workbench_session_id := Some wb, run_updated_at := at\<rparr>)) db)"
    using s by (auto simp: returning_Inr link_workbench_session_def sbind_eq_Inr split_beta split: if_splits)
  then show ?thesis by (simp add: pointers_update)
qed

lemma control_pointers:
  assumes s: "control_step (with_workflow cenv mode) db c = Inr (db', r)" and k: "keeps_pointer (Control c)"
  shows "run_pointers db' = run_pointers db \<and> t_checkpoints db' = t_checkpoints db \<and> t_barriers db' = t_barriers db"
proof -
  have "run_pointers db' = run_pointers db"
    using s workflow_env_ok
  proof (cases rule: control_step_cases)
    case (lease d r)
    then show ?thesis using lease_pointers k by blast
  qed (auto simp: same_leases_def intro: pointers_same)
  moreover have "t_checkpoints db' = t_checkpoints db \<and> t_barriers db' = t_barriers db"
    using s
  proof (cases rule: control_flow)
    case (advance db1 acc kind at)
    then show ?thesis using advance_rest[OF advance(3)] by (simp add: flow_defs rest_defs)
  qed (simp add: flow_defs)
  ultimately show ?thesis by simp
qed

text \<open>A row that no update of its kind could have written was there before, unmatched.\<close>

lemma update_where_left:
  assumes "x \<in> set (update_where p f t)" "Q x" "\<And>y. \<not> Q (f y)"
  shows "x \<in> set t \<and> \<not> p x"
  using assms by (auto simp: set_update_where)

text \<open>A checkpoint leaves no open round of its run.\<close>

lemma checkpoint_settles:
  assumes "checkpoint_workflow_round_barrier sha db rid n at = Inr db'"
  shows "active_rows db' rid = [] \<and> active_barriers db' rid = []"
  using assms
proof (cases rule: checkpoint_parts)
  case (settled m b keys)
  note e = settle_parts[OF settled(8)]
  have "r \<notin> set (active_rows db' rid)" for r
  proof
    assume "r \<in> set (active_rows db' rid)"
    then have r: "r \<in> set (update_where (\<lambda>r. (wt_run r, wt_round_no r) = (rid, m) \<and> is_active r)
        (settle_transition ''checkpointed'' at) (t_transitions db))" "is_active r" "wt_run r = rid"
      unfolding e by (simp_all add: active_rows_mem active_set_def)
    have "\<not> is_active (settle_transition ''checkpointed'' at x)" for x by (simp add: is_active_def settle_transition_def)
    from update_where_left[where Q = is_active, OF r(1,2) this] have "r \<in> set (active_rows db rid)" "wt_round_no r \<noteq> m"
      using r(2,3) by (simp_all add: active_rows_mem active_set_def)
    then show False using completed_lanes_rounds[OF settled(5)] by blast
  qed
  moreover have "c \<notin> set (active_barriers db' rid)" for c
  proof
    assume "c \<in> set (active_barriers db' rid)"
    then have c: "c \<in> set (update_where (\<lambda>b. barrier_key b = (rid, m) \<and> wb_status b = ''active'')
        (settle_barrier at) (t_barriers db))" "wb_status c = ''active''" "wb_run c = rid"
      unfolding e by (simp_all add: active_barriers_mem)
    have "\<not> wb_status (settle_barrier at x) = ''active''" for x by (simp add: settle_barrier_def)
    from update_where_left[where Q = "\<lambda>c. wb_status c = ''active''", OF c(1,2) this]
    have "c \<in> set (active_barriers db rid)" "wb_round_no c \<noteq> m"
      using c(2,3) by (simp_all add: active_barriers_mem barrier_key_def)
    then show False using settled(2,3) by simp
  qed
  ultimately show ?thesis by (meson list.set_sel(1))
qed simp

lemma pinned_le: "pinned ps cs b \<Longrightarrow> set cs \<subseteq> set cs' \<Longrightarrow> (wb_run b, Some (wb_base_checkpoint_id b)) \<in> set ps' \<Longrightarrow> pinned ps' cs' b"
  by (auto simp: pinned_def)

lemma pinned_open:
  assumes o1: "open_workflow_round_barrier ck sha db q = Inr (db', res)" and inv: "pinned_inv db"
  shows "pinned_inv db'"
  using o1
proof (cases rule: open_parts)
  case (new base db1 lanes)
  note rest = open_rest[OF o1]
  have b: "t_barriers db' = t_barriers db @ [new_barrier sha q lanes base]"
    using new(2) insert_lanes_parts(3)[OF new(3)] by (auto simp: insert_barrier_def split: if_splits)
  obtain run where run: "require_workflow_run db (bo_run q) = Inr run" "round_checkpoint db run (bo_round_no q) = Inr base"
    using new(6) by blast
  then have r: "run \<in> set (t_runs db)" "run_id run = bo_run q"
    by (auto simp: require_workflow_run_def sbind_eq_Inr fetch_run_def dest: fetchone_SomeD split: if_splits)
  obtain c where c: "run_latest_checkpoint_id run = Some base" "c \<in> set (t_checkpoints db)" "cp_checkpoint_id c = base"
      "cp_round_no c = Some (bo_round_no q)"
    using run(2) by (auto simp: round_checkpoint_def Let_def dest!: fetchone_SomeD split: option.splits if_splits)
  have "pinned (run_pointers db) (t_checkpoints db) (new_barrier sha q lanes base)"
    using r c by (force simp: pinned_def new_barrier_def run_pointers_def)
  moreover have "run_pointers db' = run_pointers db" "t_checkpoints db' = t_checkpoints db"
    using rest by (simp_all add: rest_defs run_pointers_def)
  ultimately show ?thesis using inv b by (auto simp: pinned_inv_def)
qed (use inv in simp)

lemma pinned_checkpoint:
  assumes s: "write_checkpoint_v2 ck sha projection db c = Inr db'" and inv: "pinned_inv db"
  shows "pinned_inv db' \<and> active_rows db' (ck_run c) = [] \<and> active_barriers db' (ck_run c) = []"
  using s
proof (rule write_checkpoint_parts)
  fix run same_payload db1 db2 db3
  assume cc: "commit_source_operations_with_ref db (ck_run c) (ck_checkpoint_id c) (ck_operation_ids c)
       ''source_operation_checkpoint_conflict'' = Inr db1"
    and b: "checkpoint_workflow_round_barrier sha db1 (ck_run c) (ck_round_no c) (ck_created_at c) = Inr db2"
    and p: "write_checkpoint_participant same_payload (checkpoint_row_of c) db2 = Inr db3"
    and u: "update_checkpoint_pointer c (run_state_revision run + 1) db3 = Inr db'"
  note C = commit_with_ref_parts[OF cc] and B = barrier_checkpoint_rest[OF b] and P = participant_parts[OF p] and U = pointer_parts[OF u]
  obtain cs where q: "db3 = db2\<lparr>t_checkpoints := cs\<rparr>" using P(1) by blast
  have t: "t_barriers db' = t_barriers db2" "t_transitions db' = t_transitions db2" "t_checkpoints db' = cs"
    unfolding U(1) q by simp_all
  have old: "t_checkpoints db2 = t_checkpoints db" "t_runs db2 = t_runs db"
    using C B by (simp_all add: rest_defs flow_defs)
  have none: "active_rows db' (ck_run c) = [] \<and> active_barriers db' (ck_run c) = []"
    using checkpoint_settles[OF b] t by (simp add: active_rows_def active_barriers_def)
  have cs: "set (t_checkpoints db) \<subseteq> set cs" "distinct (map cp_checkpoint_id cs)"
    using P(2,3) q old inv by (auto simp: pinned_inv_def)
  have "pinned (run_pointers db') cs x" if x: "x \<in> set (t_barriers db')" "wb_status x = ''active''" for x
  proof -
    have other: "wb_run x \<noteq> ck_run c" using none x active_barriers_mem[of x db' "ck_run c"] by auto
    have "x \<in> set (t_barriers db)"
    proof -
      have "x \<in> set (t_barriers db1)"
        using b
      proof (cases rule: checkpoint_parts)
        case (settled m y keys)
        show ?thesis using x t(1) unfolding settle_parts[OF settled(8)]
          by (auto simp: set_update_where settle_barrier_def split: if_splits)
      qed (use x t in simp)
      then show ?thesis using C by (simp add: flow_defs)
    qed
    then have pin: "pinned (run_pointers db) (t_checkpoints db) x" using inv x(2) by (simp add: pinned_inv_def)
    then obtain r where r: "r \<in> set (t_runs db)" "run_id r = wb_run x" "run_latest_checkpoint_id r = Some (wb_base_checkpoint_id x)"
      by (auto simp: pinned_def run_pointers_def)
    have "r \<in> set (t_runs db')" unfolding U(1) q using r other old(2) by (auto simp: set_update_where)
    then have "(wb_run x, Some (wb_base_checkpoint_id x)) \<in> set (run_pointers db')"
      using r by (force simp: run_pointers_def)
    then show ?thesis using pinned_le[OF pin cs(1)] by blast
  qed
  then show ?thesis using cs none t by (simp add: pinned_inv_def)
qed

lemma pinned_same:
  "run_pointers db' = run_pointers db \<and> t_checkpoints db' = t_checkpoints db \<and> t_barriers db' = t_barriers db \<Longrightarrow>
   pinned_inv db \<Longrightarrow> pinned_inv db'"
  by (simp add: pinned_inv_def)

lemma pinned_step:
  assumes s: "system_step env db c = Inr (db', r)" and k: "keeps_pointer c" and inv: "pinned_inv db"
  shows "pinned_inv db'"
proof (cases c)
  case (Control d)
  then obtain a where "control_step (with_workflow (sy_control env) (sy_advance env)) db d = Inr (db', a)"
    using s by (auto simp: system_step_def sbind_eq_Inr)
  from control_pointers[OF this] k Control show ?thesis using pinned_same inv by blast
next
  case (Flow d)
  then obtain a where w: "workflow_step (flow_env env) db d = Inr (db', a)"
    using s by (auto simp: system_step_def sbind_eq_Inr)
  show ?thesis
  proof (cases d)
    case (OpenRound q)
    then show ?thesis using w pinned_open inv by (auto simp: workflow_step_def sbind_eq_Inr)
  next
    case (SkipLane rid ex attempt n lane query at)
    then have "same_rest db db' \<and> t_barriers db' = t_barriers db"
      using w skip_rest by (auto simp: workflow_step_def sbind_eq_Inr)
    then show ?thesis using pinned_same[of db' db] inv by (simp add: rest_defs run_pointers_def)
  next
    case (WriteStep sw fresh)
    then obtain t i where "write_workflow_transition (we_clock (flow_env env)) (we_sha (flow_env env)) db sw fresh = Inr (db', t, i)"
      using w by (auto simp: workflow_step_def sbind_eq_Inr)
    from write_rest[OF this] show ?thesis using pinned_same[of db' db] inv by (simp add: frame_defs run_pointers_def)
  next
    case (WriteCheckpoint cw)
    then show ?thesis using w pinned_checkpoint inv by (auto simp: workflow_step_def sbind_eq_Inr)
  qed
qed

definition recovery_inv :: "system_env \<Rightarrow> rcdb \<Rightarrow> bool" where
  "recovery_inv env db \<longleftrightarrow> sha_ok (sy_sha env) \<and> system_inv env db \<and> pinned_inv db"

text \<open>The calls of the components as they are made: a status update names no checkpoint.\<close>

definition flow_step :: "system_env \<Rightarrow> rcdb \<Rightarrow> system_call \<Rightarrow> rc_error + (rcdb \<times> system_result)" where
  "flow_step env db c = (if keeps_pointer c then system_step env db c else Inl (PyTypeError ''checkpoint''))"

interpretation recovery: txn_system "flow_step env" "recovery_inv env" for env
  by unfold_locales (use system_step_inv pinned_step in \<open>auto simp: flow_step_def recovery_inv_def split: if_splits\<close>)

lemma run_flow_steps: "list_all keeps_pointer calls \<Longrightarrow> run_txns (flow_step env) db calls = run_txns (system_step env) db calls"
  by (induction calls arbitrary: db) (simp_all add: flow_step_def)

lemma run_recovery_inv:
  "recovery_inv env db \<Longrightarrow> list_all keeps_pointer calls \<Longrightarrow> recovery_inv env (run_txns (system_step env) db calls)"
  using recovery.run_inv[of env db calls] run_flow_steps by simp

lemma run_system_inv:
  "sha_ok (sy_sha env) \<Longrightarrow> system_inv env db \<Longrightarrow> system_inv env (run_txns (system_step env) db calls)"
  using system.run_inv[of env db calls] by simp

text \<open>One open round at most, that of the run's checkpoint.\<close>

lemma one_open_round:
  assumes inv: "recovery_inv env db" and b: "b \<in> set (active_barriers db rid)"
  shows "active_barriers db rid = [b]"
    "run \<in> set (t_runs db) \<Longrightarrow> run_id run = rid \<Longrightarrow> run_latest_checkpoint_id run = Some (wb_base_checkpoint_id b)"
proof -
  have R: "distinct (map run_id (t_runs db))"
    using inv by (simp add: recovery_inv_def system_inv_def control_inv_def lease_inv_def)
  have C: "distinct (map cp_checkpoint_id (t_checkpoints db))" using inv by (simp add: recovery_inv_def pinned_inv_def)
  have K: "distinct (map barrier_key (t_barriers db))"
    using inv round_invD(2) unfolding recovery_inv_def system_inv_def by blast
  have pin: "pinned (run_pointers db) (t_checkpoints db) x" if "x \<in> set (active_barriers db rid)" for x
    using inv that by (simp add: recovery_inv_def pinned_inv_def active_barriers_mem)
  have latest: "run_latest_checkpoint_id run = Some (wb_base_checkpoint_id x)"
    if x: "x \<in> set (active_barriers db rid)" and run: "run \<in> set (t_runs db)" "run_id run = rid" for x run
  proof -
    obtain r where "r \<in> set (t_runs db)" "run_id r = rid" "run_latest_checkpoint_id r = Some (wb_base_checkpoint_id x)"
      using pin[OF x] x by (auto simp: pinned_def run_pointers_def active_barriers_mem)
    then show ?thesis using distinct_key_eq[OF R run(1)] run(2) by metis
  qed
  show "run \<in> set (t_runs db) \<Longrightarrow> run_id run = rid \<Longrightarrow> run_latest_checkpoint_id run = Some (wb_base_checkpoint_id b)"
    using latest[OF b] .
  have "x = b" if x: "x \<in> set (active_barriers db rid)" for x
  proof -
    obtain r where "r \<in> set (t_runs db)" "run_id r = rid"
      using pin[OF b] b by (auto simp: pinned_def run_pointers_def active_barriers_mem)
    then have e: "wb_base_checkpoint_id x = wb_base_checkpoint_id b" using latest[OF b] latest[OF x] by force
    obtain c where c: "c \<in> set (t_checkpoints db)" "cp_checkpoint_id c = wb_base_checkpoint_id b" "cp_round_no c = Some (wb_round_no b)"
      using pin[OF b] by (auto simp: pinned_def)
    obtain d where d: "d \<in> set (t_checkpoints db)" "cp_checkpoint_id d = wb_base_checkpoint_id b" "cp_round_no d = Some (wb_round_no x)"
      using pin[OF x] e by (auto simp: pinned_def)
    have "c = d" using distinct_key_eq[OF C c(1) d(1)] c(2) d(2) by simp
    then have "barrier_key x = barrier_key b" using c d x b by (simp add: barrier_key_def active_barriers_mem)
    then show ?thesis using distinct_key_eq[OF K, of x b] x b by (simp add: active_barriers_mem)
  qed
  then have "set (active_barriers db rid) = {b}" using b by blast
  moreover have "distinct (active_barriers db rid)" using K by (simp add: active_barriers_def distinct_map)
  ultimately show "active_barriers db rid = [b]"
    by (cases "active_barriers db rid" rule: remdups_adj.cases) auto
qed

section \<open>A story\<close>

text \<open>
  An executor opens a round of two lanes, dispatches the cards operation of the first and skips the
  second. The operation is observed, the lane completes and commits it, and the checkpoint settles
  the round.
\<close>

definition demo_system :: system_env where
  "demo_system = \<lparr>sy_control = demo_control, sy_advance = (\<lambda>_ _. Some (''cards'', ''+i'')),
     sy_projection = (\<lambda>_ _. Inr True)\<rparr>"

definition demo_content :: checkpoint_content where
  "demo_content = \<lparr>cc_run_state_json = ''{}'', cc_source_plan_json = ''{}'', cc_pending_commands_json = ''[]'',
     cc_control_state_hash = None, cc_candidate_truth_revision = 1, cc_candidate_truth_hash = None,
     cc_durable_refs_json = ''{}'', cc_field_bytes_json = ''{}''\<rparr>"

definition demo_start :: rcdb where
  "demo_start = (demo_db [])\<lparr>t_runs := [(demo_run ''r1'')\<lparr>run_latest_checkpoint_id := Some ''cp1''\<rparr>],
     t_checkpoints := [\<lparr>cp_checkpoint_id = ''cp1'', cp_run = ''r1'', cp_stage = ''rounds'', cp_round_no = Some 1,
       cp_safe_boundary = ''before_round_controller'', cp_schema_version = ''runtime-control-checkpoint/v2'',
       cp_requirement_revision_id = Some ''req'', cp_content = demo_content\<rparr>]\<rparr>"

definition demo_continuation :: pyval where
  "demo_continuation = PyDict [(''schemaVersion'', PyStr ''runtime-source-dispatch-continuation/v1''),
     (''operationId'', PyStr ''op1''), (''requestHash'', PyStr (hex64 CHR ''0''))]"

definition demo_write :: "string \<Rightarrow> pyval \<Rightarrow> string list \<Rightarrow> string \<Rightarrow> step_write" where
  "demo_write kind continuation oids tid = \<lparr>sw_run = ''r1'', sw_lane_run_id = ''lane1'', sw_query_id = ''query1'',
     sw_executor_id = ''ex'', sw_attempt_no = 1, sw_round_no = 1, sw_step_kind = kind,
     sw_continuation = continuation, sw_artifact_refs = [''artifact''], sw_operation_ids = oids,
     sw_created_at = ''+i'', sw_transition_id = Some tid\<rparr>"

definition demo_open :: barrier_open where
  "demo_open = \<lparr>bo_run = ''r1'', bo_executor_id = ''ex'', bo_attempt_no = 1, bo_round_no = 1,
     bo_lanes = [(''lane2'', ''query2''), (''lane1'', ''query1'')], bo_work_plan_ref = ''plan'',
     bo_work_plan_hash = hex64 CHR ''7'', bo_created_at = ''+i''\<rparr>"

definition demo_checkpoint :: checkpoint_write where
  "demo_checkpoint = \<lparr>ck_checkpoint_id = ''cp2'', ck_run = ''r1'', ck_executor_id = ''ex'',
     ck_attempt_no = Some 1, ck_stage = ''rounds'', ck_round_no = Some 1,
     ck_safe_boundary = ''after_round_controller'', ck_requirement_revision_id = ''req'',
     ck_created_at = ''+i'', ck_operation_ids = [], ck_schema_version = ''runtime-control-checkpoint/v2'',
     ck_content = demo_content\<rparr>"

definition demo_round_calls :: "system_call list" where
  "demo_round_calls =
     [Control (LeaseCall (Acquire ''r1'' ''ex'' ''+'' ''+iii'' ''l1'')),
      Flow (OpenRound demo_open),
      Flow (WriteStep (demo_write ''source_dispatch'' demo_continuation [] ''t1'') ''t1''),
      Control (SourceCall (AcceptOperation demo_acceptance)),
      Flow (SkipLane ''r1'' ''ex'' 1 1 ''lane2'' ''query2'' ''+i'')]"

definition demo_finish_calls :: "system_call list" where
  "demo_finish_calls =
     [Control (SourceCall (AckDispatch \<lparr>da_run = ''r1'', da_operation_id = ''op1'', da_outbox_id = ''out1'',
        da_request_hash = hex64 CHR ''0'', da_intent_id = ''intent1'', da_intent_revision = 1,
        da_intent_digest = hex64 CHR ''2'', da_ordinal = 1, da_expected_outbox_revision = 1,
        da_sidecar_generation = 1, da_sidecar_journal_revision = 1, da_ack_ref = ''ack'',
        da_ack_kind = ''new_logical_operation'', da_acknowledged_at = ''+i''\<rparr>)),
      Control (SourceCall (OwnedObservation ''r1'' ''op1'' ''ex'' 1 1 ''intent'' ''obs'' ''completed'' ''+i'')),
      Flow (WriteStep (demo_write ''lane_completed'' (PyDict [(''done'', PyBool True)]) [''op1''] ''t2'') ''t2'')]"

definition demo_round :: rcdb where
  "demo_round = run_txns (system_step demo_system) demo_start demo_round_calls"

definition demo_completed :: rcdb where
  "demo_completed = run_txns (system_step demo_system) demo_round demo_finish_calls"

lemma demo_system_ok: "sha_ok (sy_sha demo_system)"
proof -
  have "sha256_text (hex64 CHR ''5'')" by code_simp
  then show ?thesis by (simp add: sha_ok_def demo_system_def demo_control_def)
qed

lemma demo_start_inv: "recovery_inv demo_system demo_start"
proof -
  have "control_inv demo_start"
    using demo_inv(1) demo_source_inv[of "[]"]
    by (simp add: demo_start_def control_inv_def lease_inv_def lane_inv_def ledger_inv_def demo_db_def empty_db_def demo_run_def)
  moreover have "round_inv sha demo_start" for sha
    by (rule empty_rounds) (simp_all add: demo_start_def demo_db_def empty_db_def)
  ultimately show ?thesis
    using demo_system_ok
    by (simp add: recovery_inv_def system_inv_def pinned_inv_def demo_start_def demo_db_def empty_db_def)
qed

lemma demo_calls_ok: "list_all keeps_pointer demo_round_calls" "list_all keeps_pointer demo_finish_calls"
  by (simp_all add: demo_round_calls_def demo_finish_calls_def)

lemma demo_round_inv: "recovery_inv demo_system demo_round"
  unfolding demo_round_def by (rule run_recovery_inv[OF demo_start_inv demo_calls_ok(1)])

lemma demo_completed_inv: "recovery_inv demo_system demo_completed"
  unfolding demo_completed_def by (rule run_recovery_inv[OF demo_round_inv demo_calls_ok(2)])

text \<open>What the tables hold, evaluated once.\<close>

definition demo_round_summary :: "rcdb \<Rightarrow> bool" where
  "demo_round_summary db \<longleftrightarrow>
     map wt_status (t_transitions db) = [''superseded'', ''active''] \<and>
     map wl_status (t_barrier_lanes db) = [''active'', ''skipped''] \<and>
     map wb_round_no (active_barriers db ''r1'') = [1] \<and>
     map (\<lambda>r. (run_id r, run_latest_checkpoint_id r)) (t_runs db) = [(''r1'', Some ''cp1'')] \<and>
     map wl_status (round_lanes db ''r1'' 1) = [''active'', ''skipped''] \<and>
     (\<exists>r \<in> set (t_transitions db). wt_status r = ''active'' \<and> lane_of r = (''r1'', ''lane1'', ''query1''))"

lemma demo_round_tables: "demo_round_summary demo_round"
  by code_simp

definition demo_completed_summary :: "rcdb \<Rightarrow> bool" where
  "demo_completed_summary db \<longleftrightarrow>
     map wt_status (t_transitions db) = [''superseded'', ''superseded'', ''active''] \<and>
     map wl_status (t_barrier_lanes db) = [''completed'', ''skipped''] \<and>
     map wb_round_no (active_barriers db ''r1'') = [1] \<and>
     \<not> isl (write_checkpoint_v2 tally_clock (sy_sha demo_system) (sy_projection demo_system) db demo_checkpoint) \<and>
     \<not> isl (write_workflow_transition tally_clock (sy_sha demo_system) db
            (demo_write ''lane_completed'' (PyDict [(''done'', PyBool True)]) [''op1''] ''t2'') ''other'')"

lemma demo_completed_tables: "demo_completed_summary demo_completed"
  by code_simp

section \<open>Recovery\<close>

text \<open>
  C10: Whatever calls of all components are interleaved, the tables of leases, browser lanes, the source
  ledger and the rounds stay consistent together: transition ids are unique, every row can be read,
  names a parent that was written before it, and each lane has at most one active transition; each
  active transition belongs to a lane of an active barrier that is active or, after
  \<open>lane_completed\<close>, completed, and each such lane of an active barrier has its transition.
\<close>

theorem workflow_tables_consistent:
  assumes sha: "sha_ok (sy_sha env)" and inv: "control_inv db" "round_inv (sy_sha env) db"
  shows "control_inv (run_txns (system_step env) db calls) \<and> round_inv (sy_sha env) (run_txns (system_step env) db calls)"
  using run_system_inv[OF sha, of db calls] inv by (simp add: system_inv_def)

theorem workflow_tables_consistent_witness:
  "control_inv demo_round \<and> round_inv (sy_sha demo_system) demo_round"
proof -
  have "control_inv demo_start" "round_inv (sy_sha demo_system) demo_start"
    using demo_start_inv by (simp_all add: recovery_inv_def system_inv_def)
  then show ?thesis using workflow_tables_consistent[OF demo_system_ok] unfolding demo_round_def by blast
qed

lemma fetch_active_row:
  assumes rows: "rows_ok sha (t_transitions db)" and r: "r \<in> set (t_transitions db)" "is_active r" "lane_of r = (rid, lane, query)"
  shows "fetch_active db rid lane query = Some r"
proof (cases "fetch_active db rid lane query")
  case None
  then show ?thesis using r by (auto simp: fetch_active_def fetchone_None_iff active_in_lane_def is_active_def)
next
  case (Some x)
  note X = fetch_active_parts[OF Some]
  have "x = r" by (rule one_active[OF rows X(1) r(1) X(2) r(2)]) (simp add: X(3) r(3))
  then show ?thesis using Some by simp
qed



text \<open>
  C28: The walk along the parents of a lane ends with the whole chain in every reachable database: for
  every active transition the chain of its lane is returned, starts with \<open>source_dispatch\<close>, is
  linked parent by parent on one base checkpoint, and ends with this very row.
\<close>

theorem active_chain_returned:
  assumes sha: "sha_ok (sy_sha env)" and inv: "system_inv env db"
    and db': "db' = run_txns (system_step env) db calls"
    and r: "r \<in> set (t_transitions db')" "wt_status r = ''active''"
  shows "\<exists>chain t. get_active_workflow_transition_chain (sy_sha env) db' (wt_run r) (wt_lane_run_id r) (wt_query_id r) = Inr chain \<and>
    workflow_transition_from_row (sy_sha env) r = Inr t \<and> chain \<noteq> [] \<and> last chain = t \<and>
    tr_step_kind (hd chain) = ''source_dispatch'' \<and> list_all linked (zip chain (tl chain))"
proof -
  have rows: "rows_ok (sy_sha env) (t_transitions db')"
    using run_system_inv[OF sha inv] round_invD(1) unfolding db' system_inv_def by blast
  have l: "lane_of r = (wt_run r, wt_lane_run_id r, wt_query_id r)" by (simp add: lane_of_def)
  have "fetch_active db' (wt_run r) (wt_lane_run_id r) (wt_query_id r) = Some r"
    by (rule fetch_active_row[OF rows r(1) _ l]) (simp add: is_active_def r(2))
  then show ?thesis
    using chain_returns[OF rows r(1) l] unfolding get_active_workflow_transition_chain_def by auto
qed

theorem active_chain_returned_witness:
  "\<exists>chain. get_active_workflow_transition_chain (sy_sha demo_system) demo_round ''r1'' ''lane1'' ''query1'' = Inr chain \<and> chain \<noteq> []"
proof -
  note t = demo_round_tables[unfolded demo_round_summary_def]
  obtain r where r: "r \<in> set (t_transitions demo_round)" "wt_status r = ''active''" "lane_of r = (''r1'', ''lane1'', ''query1'')"
    using t by blast
  have inv: "system_inv demo_system demo_start" using demo_start_inv by (simp add: recovery_inv_def)
  from active_chain_returned[OF demo_system_ok inv demo_round_def r(1,2)] r(3) show ?thesis
    by (auto simp: lane_of_def)
qed

section \<open>Checkpoints\<close>

lemma commit_same_operations:
  "checkpoint_workflow_round_barrier sha db rid n at = Inr db' \<Longrightarrow> t_operations db' = t_operations db"
  using barrier_checkpoint_rest by (auto simp: rest_defs)

text \<open>
  C9: A checkpoint never leaves a round half done. When \<open>write_checkpoint_v2\<close> succeeds, the run has no
  active transition and no active barrier any more and points to the checkpoint; when a round was
  open, the checkpoint was for this round, every lane of it was completed or skipped, and every
  source operation of the run is main committed.
\<close>

theorem checkpoint_settles_round:
  assumes inv: "pinned_inv db" and s: "write_checkpoint_v2 ck sha projection db c = Inr db'"
  shows "active_rows db' (ck_run c) = [] \<and> active_barriers db' (ck_run c) = [] \<and>
    (\<exists>run \<in> set (t_runs db'). run_id run = ck_run c \<and> run_latest_checkpoint_id run = Some (ck_checkpoint_id c)) \<and>
    (\<forall>b \<in> set (active_barriers db (ck_run c)).
       ck_round_no c = Some (wb_round_no b) \<and>
       list_all (\<lambda>l. wl_status l \<in> {''completed'', ''skipped''}) (round_lanes db (ck_run c) (wb_round_no b)) \<and>
       all_source_operations_main_committed db' (ck_run c))"
  using s
proof (rule write_checkpoint_parts)
  fix run same_payload db1 db2 db3
  assume cc: "commit_source_operations_with_ref db (ck_run c) (ck_checkpoint_id c) (ck_operation_ids c)
       ''source_operation_checkpoint_conflict'' = Inr db1"
    and b: "checkpoint_workflow_round_barrier sha db1 (ck_run c) (ck_round_no c) (ck_created_at c) = Inr db2"
    and p: "write_checkpoint_participant same_payload (checkpoint_row_of c) db2 = Inr db3"
    and u: "update_checkpoint_pointer c (run_state_revision run + 1) db3 = Inr db'"
  note C = commit_with_ref_parts[OF cc] and P = participant_parts[OF p] and U = pointer_parts[OF u]
  obtain cs where q: "db3 = db2\<lparr>t_checkpoints := cs\<rparr>" using P(1) by blast
  have ops: "t_operations db' = t_operations db1" unfolding U(1) q using commit_same_operations[OF b] by simp
  have old: "active_barriers db1 rid = active_barriers db rid" "round_lanes db1 rid n = round_lanes db rid n" for rid n
    using C by (simp_all add: active_barriers_def round_lanes_def flow_defs)
  obtain r where "r \<in> set (t_runs db3)" "run_id r = ck_run c" "outcome_clear r" using U(2) by blast
  then have "point_run c (run_state_revision run + 1) r \<in> set (t_runs db')"
    unfolding U(1) by (auto simp: set_update_where)
  moreover have "run_id (point_run c n r) = ck_run c \<and> run_latest_checkpoint_id (point_run c n r) = Some (ck_checkpoint_id c)" for n
    using \<open>run_id r = ck_run c\<close> by (simp add: point_run_def)
  ultimately have run: "\<exists>run \<in> set (t_runs db'). run_id run = ck_run c \<and> run_latest_checkpoint_id run = Some (ck_checkpoint_id c)"
    by blast
  have "ck_round_no c = Some (wb_round_no x) \<and>
      list_all (\<lambda>l. wl_status l \<in> {''completed'', ''skipped''}) (round_lanes db (ck_run c) (wb_round_no x)) \<and>
      all_source_operations_main_committed db' (ck_run c)" if x: "x \<in> set (active_barriers db (ck_run c))" for x
    using b
  proof (cases rule: checkpoint_parts)
    case (settled n y keys)
    then have "x = y" using x old by simp
    then show ?thesis
      using settled(1,3,4,7) old ops by (simp add: all_source_operations_main_committed_def)
  qed (use x old in simp)
  then show ?thesis using pinned_checkpoint[OF s inv] run by blast
qed

theorem checkpoint_settles_round_witness:
  "\<exists>db'. write_checkpoint_v2 tally_clock (sy_sha demo_system) (sy_projection demo_system) demo_completed demo_checkpoint = Inr db' \<and>
     active_barriers db' ''r1'' = [] \<and> all_source_operations_main_committed db' ''r1''"
proof -
  note t = demo_completed_tables[unfolded demo_completed_summary_def]
  obtain db' where s: "write_checkpoint_v2 tally_clock (sy_sha demo_system) (sy_projection demo_system) demo_completed demo_checkpoint = Inr db'"
    using t by (auto simp: isl_def) (metis sum.exhaust)
  have inv: "pinned_inv demo_completed" using demo_completed_inv by (simp add: recovery_inv_def)
  have r: "ck_run demo_checkpoint = ''r1''" by (simp add: demo_checkpoint_def)
  have "active_barriers demo_completed ''r1'' \<noteq> []" using t by auto
  then obtain b where "b \<in> set (active_barriers demo_completed ''r1'')" by (meson list.set_sel(1))
  then show ?thesis using checkpoint_settles_round[OF inv s] s unfolding r by blast
qed

section \<open>Rows move one way\<close>

text \<open>A log whose rows change along \<open>R\<close> and are appended to.\<close>

definition grows :: "('a \<Rightarrow> 'a \<Rightarrow> bool) \<Rightarrow> 'a list \<Rightarrow> 'a list \<Rightarrow> bool" where
  "grows R xs ys \<longleftrightarrow> (\<exists>us new. ys = us @ new \<and> list_all2 R xs us)"

lemma grows_refl: "(\<And>x. R x x) \<Longrightarrow> grows R xs xs"
  unfolding grows_def by (intro exI[of _ xs] exI[of _ "[]"]) (simp add: list.rel_refl)

lemma grows_append: "grows R xs ys \<Longrightarrow> grows R xs (ys @ zs)"
  by (force simp: grows_def)

lemma grows_update:
  assumes "\<And>x. R x x" "\<And>x. x \<in> set xs \<Longrightarrow> p x \<Longrightarrow> R x (f x)"
  shows "grows R xs (update_where p f xs)"
  unfolding grows_def using list_all2_update_where[of xs R p f] assms by force

lemma grows_trans:
  assumes R: "\<And>x y z. R x y \<Longrightarrow> R y z \<Longrightarrow> R x z" and "grows R xs ys" "grows R ys zs"
  shows "grows R xs zs"
proof -
  obtain us new vs new' where g: "ys = us @ new" "list_all2 R xs us" "zs = vs @ new'" "list_all2 R ys vs"
    using assms(2,3) by (auto simp: grows_def)
  then obtain vs1 vs2 where v: "vs = vs1 @ vs2" "list_all2 R us vs1" by (auto simp: list_all2_append1)
  have "list_all2 R xs vs1" by (rule list_all2_trans[OF R g(2) v(2)])
  then show ?thesis using g(3) v(1) by (auto simp: grows_def)
qed

definition moved_on :: "transition_row \<Rightarrow> transition_row \<Rightarrow> bool" where
  "moved_on r u \<longleftrightarrow> u = r \<or> one_way r u"

lemma moved_on_refl: "moved_on r r"
  by (simp add: moved_on_def)

lemma one_way_once: "one_way x y \<Longrightarrow> \<not> one_way y z"
  unfolding one_way_def by fastforce

lemma moved_on_trans: "moved_on x y \<Longrightarrow> moved_on y z \<Longrightarrow> moved_on x z"
  using one_way_once unfolding moved_on_def by blast

lemma moved_on_settle:
  "is_active r \<Longrightarrow> st \<in> {''superseded'', ''checkpointed''} \<Longrightarrow> moved_on r (settle_transition st at r)"
  by (simp add: moved_on_def one_way_def is_active_def settle_transition_def)

text \<open>The states of a barrier lane.\<close>

inductive lane_move :: "string \<Rightarrow> string \<Rightarrow> bool" where
  activate: "lane_move ''pending'' ''active''"
| complete: "lane_move ''active'' ''completed''"
| skip: "lane_move ''pending'' ''skipped''"

definition lane_moved :: "barrier_lane_row \<Rightarrow> barrier_lane_row \<Rightarrow> bool" where
  "lane_moved l u \<longleftrightarrow> u = l \<or>
     (barrier_lane_key u = barrier_lane_key l \<and> lane_move\<^sup>+\<^sup>+ (wl_status l) (wl_status u))"

lemma lane_moved_refl: "lane_moved l l"
  by (simp add: lane_moved_def)

lemma lane_moved_trans: "lane_moved x y \<Longrightarrow> lane_moved y z \<Longrightarrow> lane_moved x z"
  by (auto simp: lane_moved_def)

definition rounds_le :: "rcdb \<Rightarrow> rcdb \<Rightarrow> bool" where
  "rounds_le db db' \<longleftrightarrow>
     grows moved_on (t_transitions db) (t_transitions db') \<and>
     grows lane_moved (t_barrier_lanes db) (t_barrier_lanes db')"

lemma rounds_le_same: "same_rounds db db' \<Longrightarrow> rounds_le db db'"
  by (simp add: rounds_le_def same_rounds_def grows_refl moved_on_refl lane_moved_refl)

lemma rounds_le_trans: "rounds_le x y \<Longrightarrow> rounds_le y z \<Longrightarrow> rounds_le x z"
  unfolding rounds_le_def by (blast intro: grows_trans moved_on_trans lane_moved_trans)

lemma insert_transition_le: "insert_transition r db = Inr db' \<Longrightarrow> rounds_le db db'"
  using insert_transition_parts(1,6)[of r db db']
  by (simp add: rounds_le_def grows_append grows_refl moved_on_refl lane_moved_refl)

lemma supersede_le: "supersede tid at db = Inr db' \<Longrightarrow> rounds_le db db'"
  using supersede_parts(1)[of tid at db db']
  by (simp add: rounds_le_def update_transitions_def grows_refl lane_moved_refl)
    (rule grows_update, auto intro: moved_on_refl moved_on_settle)

lemma move_lane_le:
  assumes "move_lane rid n lane query st f db = Inr db'"
    and "\<And>l. wl_status l = st \<Longrightarrow> barrier_lane_key (f l) = barrier_lane_key l \<and> lane_move st (wl_status (f l))"
  shows "rounds_le db db'"
proof -
  note p = move_lane_parts[OF assms(1)]
  have "grows lane_moved (t_barrier_lanes db) (update_where (lane_in_status rid n lane query st) f (t_barrier_lanes db))"
    by (rule grows_update) (use assms(2) in \<open>auto simp: lane_moved_def lane_in_status_def\<close>)
  then show ?thesis using p by (simp add: rounds_le_def grows_refl moved_on_refl)
qed

lemma enter_lane_le: "enter_lane w first db = Inr db' \<Longrightarrow> rounds_le db db'"
  by (auto simp: enter_lane_def activate_lane_def barrier_lane_key_def rounds_le_same same_rounds_def lane_move.simps
      elim!: move_lane_le split: if_splits)

lemma leave_lane_le: "leave_lane w db = Inr db' \<Longrightarrow> rounds_le db db'"
  by (auto simp: leave_lane_def complete_lane_def barrier_lane_key_def rounds_le_same same_rounds_def lane_move.simps
      elim!: move_lane_le split: if_splits)

lemma advance_le:
  assumes "advance_workflow_transition_dispatch_epoch sha db acc at kind = Inr db'"
  shows "rounds_le db db'"
  using assms
proof (cases rule: advance_parts)
  case (moved x t payload db1)
  then show ?thesis using supersede_le[OF moved(10)] insert_transition_le[OF moved(11)] rounds_le_trans by blast
qed (simp add: rounds_le_same same_rounds_def)

lemma write_le:
  assumes "write_workflow_transition ck sha db w fresh = Inr (db', t, inserted)"
  shows "rounds_le db db'"
  using assms
proof (cases rule: write_parts)
  case replay
  then show ?thesis by (simp add: rounds_le_same same_rounds_def)
next
  case (new run active payload)
  show ?thesis
    using new(5)
  proof (rule append_parts)
    fix db1 row db2 db3 db4 stored
    assume p: "place_step db run active w (stored_transition_id w fresh) payload = Inr (db1, row)"
      and i: "insert_transition row db1 = Inr db2" and e: "enter_lane w (active = None) db2 = Inr db3"
      and c: "commit_source_operations_with_ref db3 (sw_run w) (stored_transition_id w fresh) (sw_operation_ids w)
          ''runtime_workflow_transition_source_commit_conflict'' = Inr db4"
      and l: "leave_lane w db4 = Inr db'"
    have "rounds_le db db1"
      using p by (cases rule: place_parts) (auto intro: supersede_le rounds_le_same simp: same_rounds_def)
    then show ?thesis
      using insert_transition_le[OF i] enter_lane_le[OF e] rounds_le_same[OF commit_with_ref_rounds[OF c]]
        leave_lane_le[OF l] rounds_le_trans by blast
  qed
qed

lemma open_le:
  assumes "open_workflow_round_barrier ck sha db q = Inr (db', res)"
  shows "rounds_le db db'"
  using assms
proof (cases rule: open_parts)
  case (new base db1 lanes)
  have "t_transitions db1 = t_transitions db" "t_barrier_lanes db1 = t_barrier_lanes db"
    using new(2) by (auto simp: insert_barrier_def split: if_splits)
  then show ?thesis using insert_lanes_parts(1,2)[OF new(3)]
    by (simp add: rounds_le_def grows_append grows_refl moved_on_refl lane_moved_refl)
qed (simp add: rounds_le_same same_rounds_def)

lemma skip_le:
  assumes "skip_workflow_barrier_lane ck db rid executor attempt n lane query at = Inr db'"
  shows "rounds_le db db'"
proof -
  let ?p = "lane_in_status rid n lane query ''pending''"
  let ?f = "\<lambda>l :: barrier_lane_row. l\<lparr>wl_status := ''skipped'', wl_settled_at := Some at\<rparr>"
  have "db' = db \<or> db' = update_barrier_lanes ?p ?f db"
    using assms by (auto simp: skip_workflow_barrier_lane_def sbind_eq_Inr Let_def split: if_splits option.splits)
  moreover have "grows lane_moved (t_barrier_lanes db) (update_where ?p ?f (t_barrier_lanes db))"
    by (rule grows_update) (auto simp: lane_moved_def lane_in_status_def barrier_lane_key_def intro: lane_move.intros)
  ultimately show ?thesis
    by (auto simp: rounds_le_def update_barrier_lanes_def grows_refl moved_on_refl lane_moved_refl)
qed

lemma write_checkpoint_le:
  assumes "write_checkpoint_v2 ck sha projection db c = Inr db'"
  shows "rounds_le db db'"
  using assms
proof (rule write_checkpoint_parts)
  fix run same_payload db1 db2 db3
  assume cc: "commit_source_operations_with_ref db (ck_run c) (ck_checkpoint_id c) (ck_operation_ids c)
       ''source_operation_checkpoint_conflict'' = Inr db1"
    and b: "checkpoint_workflow_round_barrier sha db1 (ck_run c) (ck_round_no c) (ck_created_at c) = Inr db2"
    and p: "write_checkpoint_participant same_payload (checkpoint_row_of c) db2 = Inr db3"
    and u: "update_checkpoint_pointer c (run_state_revision run + 1) db3 = Inr db'"
  obtain cs where q: "db3 = db2\<lparr>t_checkpoints := cs\<rparr>" using participant_parts(1)[OF p] by blast
  have "rounds_le db1 db2"
    using b
  proof (cases rule: checkpoint_parts)
    case (settled n x keys)
    note e = settle_parts[OF settled(8)]
    have "grows moved_on (t_transitions db1) (update_where (\<lambda>r. (wt_run r, wt_round_no r) = (ck_run c, n) \<and> is_active r)
        (settle_transition ''checkpointed'' (ck_created_at c)) (t_transitions db1))"
      by (rule grows_update) (auto intro: moved_on_refl moved_on_settle)
    then show ?thesis unfolding e by (simp add: rounds_le_def grows_refl lane_moved_refl)
  qed (simp add: rounds_le_same same_rounds_def)
  moreover have "same_rounds db2 db'" unfolding pointer_parts(1)[OF u] q by (simp add: same_rounds_def)
  ultimately show ?thesis
    using commit_with_ref_parts[OF cc] rounds_le_same rounds_le_trans unfolding same_flow_def by blast
qed

lemma system_step_le:
  assumes s: "system_step env db c = Inr (db', r)"
  shows "rounds_le db db'"
proof (cases c)
  case (Control d)
  then obtain a where "control_step (with_workflow (sy_control env) (sy_advance env)) db d = Inr (db', a)"
    using s by (auto simp: system_step_def sbind_eq_Inr)
  then show ?thesis
  proof (cases rule: control_flow)
    case (advance db1 acc kind at)
    then show ?thesis using advance_le rounds_le_same rounds_le_trans unfolding same_flow_def by blast
  qed (simp add: rounds_le_same same_flow_def)
next
  case (Flow d)
  then obtain a where "workflow_step (flow_env env) db d = Inr (db', a)"
    using s by (auto simp: system_step_def sbind_eq_Inr)
  then show ?thesis
    by (cases d) (auto simp: workflow_step_def sbind_eq_Inr intro: open_le skip_le write_le write_checkpoint_le)
qed

lemma run_system_le: "rounds_le db (run_txns (system_step env) db calls)"
proof (induction calls arbitrary: db)
  case Nil
  then show ?case by (simp add: rounds_le_same same_rounds_def)
next
  case (Cons c calls)
  show ?case
  proof (cases "system_step env db c")
    case (Inr p)
    obtain db1 r where p: "p = (db1, r)" by (cases p)
    have "rounds_le db db1" using system_step_le Inr p by blast
    then show ?thesis using Cons[of db1] rounds_le_trans Inr p by auto
  qed (simp add: Cons)
qed

text \<open>
  The log of transitions is append-only and its rows move one way, as the trigger of the table
  demands: after any calls of all components every row is still at its place, unchanged or moved
  once from \<open>active\<close> to \<open>superseded\<close> or \<open>checkpointed\<close> with its settlement time, and nothing else
  of it changed. So the trigger never aborts a call.
\<close>

theorem transitions_one_way:
  assumes db': "db' = run_txns (system_step env) db calls" and i: "i < length (t_transitions db)"
  shows "i < length (t_transitions db') \<and>
    (t_transitions db' ! i = t_transitions db ! i \<or> one_way (t_transitions db ! i) (t_transitions db' ! i))"
proof -
  obtain us new where u: "t_transitions db' = us @ new" "list_all2 moved_on (t_transitions db) us"
    using run_system_le[of db env calls] unfolding db' rounds_le_def grows_def by blast
  then have "i < length us" "moved_on (t_transitions db ! i) (us ! i)"
    using i list_all2_lengthD list_all2_nthD by fastforce+
  then show ?thesis using u(1) by (auto simp: nth_append moved_on_def)
qed

theorem transitions_one_way_witness:
  "one_way (t_transitions demo_round ! 1) (t_transitions demo_completed ! 1)"
proof -
  note t = demo_round_tables[unfolded demo_round_summary_def] and u = demo_completed_tables[unfolded demo_completed_summary_def]
  have l: "1 < length (t_transitions demo_round)" using t by auto
  have "map wt_status (t_transitions demo_round) ! 1 = ''active''" "map wt_status (t_transitions demo_completed) ! 1 = ''superseded''"
    using t u by simp_all
  moreover have "1 < length (t_transitions demo_completed)" using u by auto
  ultimately have "wt_status (t_transitions demo_round ! 1) = ''active''" "wt_status (t_transitions demo_completed ! 1) = ''superseded''"
    using l by (simp_all only: nth_map)
  then show ?thesis using transitions_one_way[OF demo_completed_def l] by auto
qed

text \<open>
  The lanes of a round follow the automaton \<open>lane_move\<close>: pending, then active, then completed, or
  pending, then skipped. After any calls every lane row is still at its place under its key, in the
  same state or in a later one.
\<close>

theorem lanes_follow_automaton:
  assumes db': "db' = run_txns (system_step env) db calls" and i: "i < length (t_barrier_lanes db)"
  shows "i < length (t_barrier_lanes db') \<and>
    barrier_lane_key (t_barrier_lanes db' ! i) = barrier_lane_key (t_barrier_lanes db ! i) \<and>
    lane_move\<^sup>*\<^sup>* (wl_status (t_barrier_lanes db ! i)) (wl_status (t_barrier_lanes db' ! i))"
proof -
  obtain us new where u: "t_barrier_lanes db' = us @ new" "list_all2 lane_moved (t_barrier_lanes db) us"
    using run_system_le[of db env calls] unfolding db' rounds_le_def grows_def by blast
  then have "i < length us" "lane_moved (t_barrier_lanes db ! i) (us ! i)"
    using i list_all2_lengthD list_all2_nthD by fastforce+
  then show ?thesis using u(1) by (auto simp: nth_append lane_moved_def dest: tranclp_into_rtranclp)
qed

theorem lanes_follow_automaton_witness:
  "lane_move\<^sup>*\<^sup>* (wl_status (t_barrier_lanes demo_round ! 0)) (wl_status (t_barrier_lanes demo_completed ! 0)) \<and>
   wl_status (t_barrier_lanes demo_round ! 0) \<noteq> wl_status (t_barrier_lanes demo_completed ! 0)"
proof -
  note t = demo_round_tables[unfolded demo_round_summary_def] and u = demo_completed_tables[unfolded demo_completed_summary_def]
  have l: "0 < length (t_barrier_lanes demo_round)" "0 < length (t_barrier_lanes demo_completed)" using t u by auto
  have "map wl_status (t_barrier_lanes demo_round) ! 0 = ''active''" "map wl_status (t_barrier_lanes demo_completed) ! 0 = ''completed''"
    using t u by simp_all
  then have "wl_status (t_barrier_lanes demo_round ! 0) = ''active''" "wl_status (t_barrier_lanes demo_completed ! 0) = ''completed''"
    using l by (simp_all only: nth_map)
  then show ?thesis using lanes_follow_automaton[OF demo_completed_def l(1)] by simp
qed

section \<open>A step is written once\<close>

lemma committed_stays:
  "commit_operations rid ref reason oids x = Inr y \<Longrightarrow> r \<in> set (t_operations x) \<Longrightarrow> op_main_commit_ref r \<noteq> None \<Longrightarrow>
   r \<in> set (t_operations y)"
proof (induction oids arbitrary: x)
  case (Cons oid oids)
  from Cons.prems(1) obtain p f where p: "commit_operations rid ref reason oids (update_operations p f x) = Inr y"
      "\<not> p r" using Cons.prems(3) by (auto simp: sbind_eq_Inr Let_def split: if_splits)
  have "r \<in> set (t_operations (update_operations p f x))"
    using Cons.prems(2) p(2) by (auto simp: update_operations_def set_update_where)
  then show ?case using Cons.IH[OF p(1)] Cons.prems(3) by blast
qed simp

lemma committed_rows:
  "commit_operations rid ref reason oids x = Inr y \<Longrightarrow> oid \<in> set oids \<Longrightarrow>
   \<exists>r \<in> set (t_operations y). op_key r = (rid, oid) \<and> op_phase r = ''main_committed'' \<and> op_main_commit_ref r = Some ref"
proof (induction oids arbitrary: x)
  case (Cons o1 oids)
  define f :: "operation_row \<Rightarrow> operation_row" where "f = (\<lambda>x. x\<lparr>op_phase := ''main_committed'', op_main_commit_ref := Some ref,
      op_ledger_revision := op_ledger_revision x + 1\<rparr>)"
  from Cons.prems(1) obtain p where p: "commit_operations rid ref reason oids (update_operations p f x) = Inr y"
      "rowcount p (t_operations x) = 1" "\<And>u. p u \<Longrightarrow> op_key u = (rid, o1)"
    by (auto simp: sbind_eq_Inr Let_def f_def op_key_def split: if_splits)
  show ?case
  proof (cases "oid = o1")
    case True
    obtain u where u: "u \<in> set (t_operations x)" "p u" using p(2) rowcount_pos[of p "t_operations x"] by auto
    then have "f u \<in> set (t_operations (update_operations p f x))"
      by (auto simp: update_operations_def set_update_where)
    moreover have "op_key (f u) = (rid, o1)" using p(3)[OF u(2)] by (simp add: f_def op_key_def)
    ultimately show ?thesis
      using committed_stays[OF p(1), of "f u"] True by (intro bexI[of _ "f u"]) (simp_all add: f_def)
  next
    case False
    then show ?thesis using Cons.IH[OF p(1)] Cons.prems(2) by simp
  qed
qed simp

lemma commits_required:
  assumes "ledger_inv db"
    and "\<And>oid. oid \<in> set oids \<Longrightarrow> \<exists>r \<in> set (t_operations db). op_key r = (rid, oid) \<and>
      op_phase r = ''main_committed'' \<and> op_main_commit_ref r = Some tid"
  shows "require_transition_source_commits db rid tid oids = Inr ()"
  using assms(2)
proof (induction oids)
  case (Cons oid oids)
  obtain r where r: "r \<in> set (t_operations db)" "op_key r = (rid, oid)" "op_phase r = ''main_committed''"
      "op_main_commit_ref r = Some tid" using Cons.prems[of oid] by auto
  have "fetch_operation db rid oid = Some r"
    using fetchone_keyed[OF ledger_invD(1)[OF assms(1)] r(1), of "\<lambda>x. op_run x = rid \<and> op_operation_id x = oid"] r(2)
    by (auto simp: fetch_operation_def op_key_def)
  moreover have "require_transition_source_commits db rid tid oids = Inr ()" using Cons by simp
  ultimately show ?case using r(3,4) by simp
qed simp

lemma write_guards:
  assumes "write_workflow_transition ck sha db w fresh = Inr (db', t, inserted)"
  shows "validate_transition_identity (sw_run w) (sw_lane_run_id w) (sw_query_id w) (sw_round_no w) (sw_step_kind w) = Inr ()"
    "\<exists>payload. workflow_transition_payload sha (sw_continuation w) (sw_artifact_refs w) = Inr payload"
    "distinct (sw_operation_ids w)"
    "\<exists>l. require_active_executor ck db (sw_run w) (sw_executor_id w) (Some (sw_attempt_no w)) (Some (sw_created_at w)) = Inr l"
    "\<exists>run. require_workflow_run db (sw_run w) = Inr run"
  using assms unfolding write_workflow_transition_def Let_def by (auto simp: sbind_eq_Inr split: if_splits)

text \<open>The active step is asked for again.\<close>

lemma write_again:
  assumes "write_workflow_transition ck sha db w fresh = Inr (db0, t0, inserted)"
    and "t_leases db' = t_leases db" "t_runs db' = t_runs db"
    and "get_active_workflow_transition sha db' (sw_run w) (sw_lane_run_id w) (sw_query_id w) = Inr (Some t)"
    and "same_step t w" "require_transition_source_commits db' (sw_run w) (tr_transition_id t) (sw_operation_ids w) = Inr ()"
  shows "write_workflow_transition ck sha db' w again = Inr (db', t, False)"
proof -
  note g = write_guards[OF assms(1)]
  obtain l where l: "require_active_executor ck db' (sw_run w) (sw_executor_id w) (Some (sw_attempt_no w)) (Some (sw_created_at w)) = Inr l"
    using g(4) assms(2) by (auto simp: require_active_executor_def)
  obtain run where "require_workflow_run db' (sw_run w) = Inr run"
    using g(5) assms(3) by (auto simp: require_workflow_run_def fetch_run_def)
  then show ?thesis
    using g(1-3) l assms(4-6) unfolding write_workflow_transition_def Let_def by (auto simp: sbind_eq_Inr)
qed

text \<open>The step that was appended is the active one of its lane, and its operations are committed.\<close>

lemma append_written:
  assumes s: "append_step sha db run active w tid payload = Inr (db', t)" and inv: "round_inv sha db" "round_inv sha db'"
    and p: "workflow_transition_payload sha (sw_continuation w) (sw_artifact_refs w) = Inr payload"
    and wf: "py_wf (sw_continuation w)" "\<not> has_tuple (sw_continuation w)"
  shows "get_active_workflow_transition sha db' (sw_run w) (sw_lane_run_id w) (sw_query_id w) = Inr (Some t) \<and>
    same_step t w \<and> tr_transition_id t = tid"
  using s
proof (rule append_parts)
  fix db1 row db2 db3 db4 stored
  assume pl: "place_step db run active w tid payload = Inr (db1, row)"
    and i: "insert_transition row db1 = Inr db2" and e: "enter_lane w (active = None) db2 = Inr db3"
    and c: "commit_source_operations_with_ref db3 (sw_run w) tid (sw_operation_ids w)
        ''runtime_workflow_transition_source_commit_conflict'' = Inr db4"
    and l: "leave_lane w db4 = Inr db'"
    and f: "fetchone (\<lambda>x. wt_transition_id x = tid) (t_transitions db') = Some stored"
    and t: "workflow_transition_from_row sha stored = Inr t"
  have same: "t_transitions db' = t_transitions db2"
    using enter_parts(1)[OF e] commit_with_ref_rounds[OF c] leave_parts(1)[OF l] by (simp add: same_rounds_def)
  have st: "stored = row" by (rule append_readable[OF s inv(1) pl i same f])
  obtain base parent where row: "row = step_row w tid parent base payload"
    using pl by (cases rule: place_parts) blast+
  have "row \<in> set (t_transitions db')" using insert_transition_parts(1)[OF i] same by simp
  then have "fetch_active db' (sw_run w) (sw_lane_run_id w) (sw_query_id w) = Some row"
    by (rule fetch_active_row[OF round_invD(1)[OF inv(2)]]) (simp_all add: row)
  moreover have "payload_columns sha (sw_continuation w) (sw_artifact_refs w) row"
    using p by (simp add: payload_columns_def row step_row_def)
  moreover have "columns_ok row" using t st by (auto elim!: from_row_parts)
  ultimately have "t = transition_of row (canon (sw_continuation w)) (sw_artifact_refs w)"
    using from_row_written wf(1) t st by fastforce
  then show ?thesis
    using t st \<open>fetch_active db' _ _ _ = _\<close> py_eq_canon[OF wf(2)]
    by (simp add: same_step_def row get_active_workflow_transition_def)
qed

lemma append_committed:
  assumes "append_step sha db run active w tid payload = Inr (db', t)" and inv: "ledger_inv db'"
  shows "require_transition_source_commits db' (sw_run w) tid (sw_operation_ids w) = Inr ()"
  using assms(1)
proof (rule append_parts)
  fix db3 db4
  assume c: "commit_source_operations_with_ref db3 (sw_run w) tid (sw_operation_ids w)
        ''runtime_workflow_transition_source_commit_conflict'' = Inr db4" and l: "leave_lane w db4 = Inr db'"
  have "commit_operations (sw_run w) tid ''runtime_workflow_transition_source_commit_conflict'' (sw_operation_ids w) db3 = Inr db4"
    using c by (simp add: commit_source_operations_with_ref_def split: if_splits)
  moreover have "t_operations db' = t_operations db4"
    using l move_lane_rest by (auto simp: leave_lane_def rest_defs split: if_splits)
  ultimately show ?thesis using commits_required[OF inv] committed_rows by metis
qed

text \<open>
  C26: Writing a step is idempotent: a call of \<open>write_workflow_transition\<close> that succeeded and is repeated
  (under whatever fresh transition id) returns the same transition, reports that nothing was
  inserted, and leaves the database as it is, the committed source operations included. The
  continuation is a JSON value without tuples, which come back as lists.
\<close>

theorem write_step_idempotent:
  assumes inv: "system_inv env db" and sha: "sha = sy_sha env"
    and wf: "py_wf (sw_continuation w)" "\<not> has_tuple (sw_continuation w)"
    and s: "write_workflow_transition ck sha db w fresh = Inr (db', t, inserted)"
  shows "write_workflow_transition ck sha db' w again = Inr (db', t, False)"
  using s
proof (cases rule: write_parts)
  case replay
  show ?thesis unfolding replay(1) by (rule write_again[OF s refl refl replay(3-5)])
next
  case (new run active payload)
  have r: "round_inv sha db" "control_inv db" using inv sha by (simp_all add: system_inv_def)
  note W = write_rest[OF s]
  have "ledger_inv db'" using W r(2) by (simp add: control_inv_def keeps_ledger_def)
  then have c: "require_transition_source_commits db' (sw_run w) (stored_transition_id w fresh) (sw_operation_ids w) = Inr ()"
    by (rule append_committed[OF new(5)])
  note a = append_written[OF new(5) r(1) write_inv[OF s r(1)] new(3) wf]
  show ?thesis using write_again[OF s, of db' t] a c W by (simp add: same_owners_def)
qed

definition demo_done :: step_write where
  "demo_done = demo_write ''lane_completed'' (PyDict [(''done'', PyBool True)]) [''op1''] ''t2''"

theorem write_step_idempotent_witness:
  "\<exists>t. write_workflow_transition tally_clock (sy_sha demo_system) demo_completed demo_done ''fresh'' =
     Inr (demo_completed, t, False) \<and> tr_step_kind t = ''lane_completed''"
proof -
  have "\<not> isl (write_workflow_transition tally_clock (sy_sha demo_system) demo_completed demo_done ''other'')"
    using demo_completed_tables unfolding demo_completed_summary_def demo_done_def by blast
  then obtain db' t i where s: "write_workflow_transition tally_clock (sy_sha demo_system) demo_completed demo_done ''other'' = Inr (db', t, i)"
    by (auto simp: isl_def) (metis prod_cases3 sum.exhaust)
  have inv: "system_inv demo_system demo_completed" using demo_completed_inv by (simp add: recovery_inv_def)
  have wf: "py_wf (sw_continuation demo_done)" "\<not> has_tuple (sw_continuation demo_done)" by code_simp+
  have e: "case write_workflow_transition tally_clock (sy_sha demo_system) demo_completed demo_done ''other'' of
      Inr (d, t, i) \<Rightarrow> \<not> i \<and> tr_step_kind t = ''lane_completed'' | Inl _ \<Rightarrow> False" by code_simp
  then have i: "\<not> i" "tr_step_kind t = ''lane_completed''" using s by simp_all
  have "db' = demo_completed" using s i(1) by (cases rule: write_parts) simp_all
  then show ?thesis using write_step_idempotent[OF inv refl wf s, of "''fresh''"] i(2) by auto
qed

end
