(* ===== verification/RecoveryGate.thy ===== *)
theory RecoveryGate
  imports WorkflowSystem
begin

text \<open>
  The gate of the recovery: after an executor died, may its run go on from the checkpoint it wrote
  last? \<open>_source_operations_recoverable_at_checkpoint\<close> of \<open>store.py\<close> and its helpers compare the
  active round (barrier, lanes, active transitions) with the source operations that the main process
  did not commit: each of them must belong to one active lane whose continuation names it in its
  newest dispatch, and what is known of it must allow to go on without a second effect.
  A run that does not pass needs the attention of an operator.
\<close>

section \<open>Reading a continuation\<close>

text \<open>\<open>continuation.get(key)\<close> and its comparisons; \<open>len\<close> of a text counts code points.\<close>

definition py_len :: "string \<Rightarrow> int" where
  "py_len s = int (length (code_points s))"

definition continues :: "transition \<Rightarrow> string \<Rightarrow> pyval \<Rightarrow> bool" where
  "continues t k v \<longleftrightarrow> py_eq (py_get (tr_continuation t) k) v"

definition text_of :: "transition \<Rightarrow> string \<Rightarrow> string option" where
  "text_of t k = (case py_get (tr_continuation t) k of PyStr s \<Rightarrow> Some s | _ \<Rightarrow> None)"

definition int_of :: "transition \<Rightarrow> string \<Rightarrow> int option" where
  "int_of t k = (case py_get (tr_continuation t) k of PyInt i \<Rightarrow> Some i | _ \<Rightarrow> None)"

section \<open>The dispatch of an active lane\<close>

text \<open>The comparison of the continuation with the newest dispatch and its expectation.\<close>

definition names_dispatch :: "transition \<Rightarrow> acceptance \<Rightarrow> bool" where
  "names_dispatch t acc \<longleftrightarrow> list_all (\<lambda>(k, v). continues t k v) (target_values acc)"

definition safe_retry_reconciliation :: "rcdb \<Rightarrow> operation_row \<Rightarrow> reconciliation_row option" where
  "safe_retry_reconciliation db r =
     (case rev (filter (\<lambda>n. rn_run n = op_run r \<and> rn_operation_id n = op_operation_id r \<and>
          rn_committed_reconciliation_revision n = op_reconciliation_revision r \<and>
          rn_decision_kind n = ''no_dispatch_proved'' \<and> rn_retry_posture n = ''safe_retry'' \<and>
          rn_dispatch_intent_ref n = None \<and> rn_observation_ref n = None \<and> rn_disposition n = None)
        (t_reconciliations db)) of
        [] \<Rightarrow> None | n # _ \<Rightarrow> Some n)"

text \<open>
  The second half of \<open>_source_dispatch_is_recoverable\<close>, which \<open>_detail_dispatch_is_recoverable\<close>
  repeats word for word: what the ledger knows of the operation \<open>r\<close> whose newest dispatch is \<open>d\<close>.
\<close>

definition effect_is_settled :: "rcdb \<Rightarrow> operation_row \<Rightarrow> dispatch_row \<Rightarrow> bool" where
  "effect_is_settled db r d \<longleftrightarrow>
     (if op_phase r = ''observed''
      then op_retry_posture r = ''no_retry'' \<and> op_observation_ref r \<noteq> None \<and> op_disposition r \<noteq> None \<and>
           ds_status d = ''acknowledged''
      else if op_dispatch_intent_ref r \<noteq> None \<or> op_observation_ref r \<noteq> None \<or> op_disposition r \<noteq> None \<or>
              ds_status d \<notin> {''pending'', ''acknowledged''}
      then False
      else
        let reconciliation = (if 0 < op_reconciliation_revision r then safe_retry_reconciliation db r else None)
        in if 0 < op_reconciliation_revision r \<and> reconciliation = None then False
           else if op_retry_posture r = ''safe_retry''
           then op_phase r = ''reconciled'' \<and>
             (case reconciliation of None \<Rightarrow> False
              | Some n \<Rightarrow> rn_committed_ledger_revision n = op_ledger_revision r)
           else if op_retry_posture r \<noteq> ''no_retry'' \<or> op_phase r \<notin> {''accepted'', ''reconciled''} then False
           else
             (case ds_safe_retry_commit_ref d of
                None \<Rightarrow> op_phase r = ''accepted'' \<and> op_reconciliation_revision r = 0
              | Some ref \<Rightarrow>
                  (case reconciliation of None \<Rightarrow> False | Some n \<Rightarrow> ref = rn_reconciliation_id n)))"

text \<open>The read of the newest epoch; a \<open>RuntimeControlError\<close> of it means not recoverable.\<close>

definition dispatch_is_settled :: "digest \<Rightarrow> rcdb \<Rightarrow> transition \<Rightarrow> operation_row \<Rightarrow> bool" where
  "dispatch_is_settled digest db t operation \<longleftrightarrow>
     (case fetch_operation db (op_run operation) (op_operation_id operation) of
        None \<Rightarrow> False
      | Some row \<Rightarrow>
          (case source_operation_acceptance digest db row of
             Inl e \<Rightarrow> False
           | Inr acc \<Rightarrow> names_dispatch t acc \<and> effect_is_settled db operation (snd (snd acc))))"

definition queued_source_dispatch_is_recoverable :: "rcdb \<Rightarrow> transition \<Rightarrow> string \<Rightarrow> string \<Rightarrow> bool" where
  "queued_source_dispatch_is_recoverable db t plan_ref plan_hash \<longleftrightarrow>
     continues t ''schemaVersion'' (PyStr ''runtime-source-dispatch-continuation/v1'') \<and>
     (case (text_of t ''operationId'', text_of t ''requestHash'') of
        (Some oid, Some request_hash) \<Rightarrow>
          py_len request_hash = 64 \<and> continues t ''queryFingerprint'' (PyStr request_hash) \<and>
          continues t ''roundWorkPlanArtifactRef'' (PyStr plan_ref) \<and>
          continues t ''roundWorkPlanArtifactHash'' (PyStr plan_hash) \<and>
          plan_ref \<in> set (tr_artifact_refs t) \<and> fetch_operation db (tr_run t) oid = None
      | _ \<Rightarrow> False)"

definition source_dispatch_is_recoverable ::
  "digest \<Rightarrow> rcdb \<Rightarrow> transition \<Rightarrow> operation_row \<Rightarrow> string \<Rightarrow> string \<Rightarrow> bool" where
  "source_dispatch_is_recoverable digest db t operation plan_ref plan_hash \<longleftrightarrow>
     continues t ''schemaVersion'' (PyStr ''runtime-source-dispatch-continuation/v1'') \<and>
     continues t ''operationId'' (PyStr (op_operation_id operation)) \<and>
     continues t ''requestHash'' (PyStr (op_request_hash operation)) \<and>
     continues t ''queryFingerprint'' (PyStr (op_request_hash operation)) \<and>
     continues t ''roundWorkPlanArtifactRef'' (PyStr plan_ref) \<and>
     continues t ''roundWorkPlanArtifactHash'' (PyStr plan_hash) \<and>
     plan_ref \<in> set (tr_artifact_refs t) \<and> op_operation_kind operation = ''cards'' \<and>
     op_main_commit_ref operation = None \<and> dispatch_is_settled digest db t operation"

section \<open>The details of an active lane\<close>

definition detail_transition_artifacts_are_bound :: "transition \<Rightarrow> bool" where
  "detail_transition_artifacts_are_bound t \<longleftrightarrow>
     list_all (\<lambda>k. case text_of t k of None \<Rightarrow> False | Some ref \<Rightarrow> ref \<in> set (tr_artifact_refs t))
       [''requestArtifactRef'', ''workPlanArtifactRef'', ''cardsArtifactRef''] \<and>
     (case text_of t ''workPlanHash'' of None \<Rightarrow> False | Some h \<Rightarrow> py_len h = 64) \<and>
     (continues t ''workPlanPhase'' (PyStr ''locators'') \<or> continues t ''workPlanPhase'' (PyStr ''captures'')) \<and>
     (case (int_of t ''detailCursor'', int_of t ''detailCompletedHighWatermark'') of
        (Some cursor, Some high_watermark) \<Rightarrow> 0 \<le> cursor \<and> high_watermark = cursor - 1
      | _ \<Rightarrow> False)"

definition queued_detail_transition_is_recoverable :: "rcdb \<Rightarrow> transition \<Rightarrow> bool" where
  "queued_detail_transition_is_recoverable db t \<longleftrightarrow>
     continues t ''schemaVersion'' (PyStr ''runtime-detail-queued-continuation/v1'') \<and>
     (case (text_of t ''operationId'', text_of t ''requestHash'') of
        (Some oid, Some request_hash) \<Rightarrow>
          py_len request_hash = 64 \<and> detail_transition_artifacts_are_bound t \<and>
          fetch_operation db (tr_run t) oid = None
      | _ \<Rightarrow> False)"

definition detail_dispatch_is_recoverable :: "digest \<Rightarrow> rcdb \<Rightarrow> transition \<Rightarrow> operation_row \<Rightarrow> bool" where
  "detail_dispatch_is_recoverable digest db t operation \<longleftrightarrow>
     continues t ''schemaVersion'' (PyStr ''runtime-detail-dispatch-continuation/v1'') \<and>
     continues t ''operationId'' (PyStr (op_operation_id operation)) \<and>
     continues t ''requestHash'' (PyStr (op_request_hash operation)) \<and>
     detail_transition_artifacts_are_bound t \<and> op_main_commit_ref operation = None \<and>
     dispatch_is_settled digest db t operation"

definition completed_lane_transition_is_recoverable :: "rcdb \<Rightarrow> transition \<Rightarrow> bool" where
  "completed_lane_transition_is_recoverable db t \<longleftrightarrow>
     continues t ''schemaVersion'' (PyStr ''runtime-lane-completed-continuation/v1'') \<and>
     (case text_of t ''operationId'' of
        None \<Rightarrow> False
      | Some oid \<Rightarrow>
          (continues t ''laneResultKind'' (PyStr ''cards_only'') \<or>
           continues t ''laneResultKind'' (PyStr ''liepin_detail_work_plan'')) \<and>
          (case fetch_operation db (tr_run t) oid of
             None \<Rightarrow> False
           | Some r \<Rightarrow>
               op_phase r = ''main_committed'' \<and> op_main_commit_ref r = Some (tr_transition_id t) \<and>
               (case op_observation_ref r of None \<Rightarrow> False | Some ref \<Rightarrow> ref \<in> set (tr_artifact_refs t))))"

section \<open>The gate\<close>

text \<open>
  The active transitions by lane: the loop that fills the dict and returns \<open>False\<close> (here \<open>None\<close>)
  at the first transition that is corrupt or does not belong to the round.
\<close>

fun active_by_lane ::
  "sha \<Rightarrow> string \<Rightarrow> int \<Rightarrow> (string \<times> string) list \<Rightarrow> string \<Rightarrow> transition_row list \<Rightarrow>
   ((string \<times> string) \<times> transition) list \<Rightarrow> ((string \<times> string) \<times> transition) list option" where
  "active_by_lane sha ckpt n keys plan_ref [] acc = Some acc"
| "active_by_lane sha ckpt n keys plan_ref (row # rows) acc =
     (case workflow_transition_from_row sha row of
        Inl e \<Rightarrow> None
      | Inr t \<Rightarrow>
          let k = (tr_lane_run_id t, tr_query_id t)
          in if tr_base_checkpoint_id t \<noteq> ckpt \<or> tr_round_no t \<noteq> n \<or> k \<notin> set keys \<or>
                map_of acc k \<noteq> None \<or> plan_ref \<notin> set (tr_artifact_refs t)
             then None
             else active_by_lane sha ckpt n keys plan_ref rows (acc @ [(k, t)]))"

definition unresolved_operations :: "rcdb \<Rightarrow> string \<Rightarrow> operation_row list" where
  "unresolved_operations db rid =
     sort_key op_operation_id (filter (\<lambda>r. op_run r = rid \<and>
       (op_phase r \<noteq> ''main_committed'' \<or> op_main_commit_ref r = None)) (t_operations db))"

text \<open>
  One lane: \<open>None\<close> where the code returns \<open>False\<close>, else the operation the lane accounts for (none
  where the code continues without one).
\<close>

definition lane_account ::
  "digest \<Rightarrow> rcdb \<Rightarrow> barrier_row \<Rightarrow> (string \<rightharpoonup> operation_row) \<Rightarrow> string \<Rightarrow> transition option \<Rightarrow> string option option" where
  "lane_account digest db b unresolved status active =
     (if status \<in> {''pending'', ''skipped''} then (if active \<noteq> None then None else Some None)
      else
        case active of
          None \<Rightarrow> None
        | Some t \<Rightarrow>
            if status = ''completed''
            then (if tr_step_kind t = ''lane_completed'' \<and> completed_lane_transition_is_recoverable db t
                  then Some None else None)
            else if status \<noteq> ''active'' then None
            else if tr_step_kind t = ''source_dispatch''
            then (case text_of t ''operationId'' of
                    None \<Rightarrow> None
                  | Some oid \<Rightarrow>
                      (case unresolved oid of
                         None \<Rightarrow> if queued_source_dispatch_is_recoverable db t (wb_work_plan_ref b) (wb_work_plan_hash b)
                                 then Some None else None
                       | Some r \<Rightarrow> if source_dispatch_is_recoverable digest db t r (wb_work_plan_ref b) (wb_work_plan_hash b)
                                   then Some (Some oid) else None))
            else if tr_step_kind t = ''detail_queued''
            then (if queued_detail_transition_is_recoverable db t then Some None else None)
            else if tr_step_kind t = ''detail_dispatch''
            then (case text_of t ''operationId'' of
                    None \<Rightarrow> None
                  | Some oid \<Rightarrow>
                      (case unresolved oid of
                         None \<Rightarrow> None
                       | Some r \<Rightarrow> if detail_dispatch_is_recoverable digest db t r then Some (Some oid) else None))
            else None)"

text \<open>The loop over the lanes collects the operations in a set.\<close>

fun lane_accounts ::
  "digest \<Rightarrow> rcdb \<Rightarrow> barrier_row \<Rightarrow> (string \<rightharpoonup> operation_row) \<Rightarrow> ((string \<times> string) \<times> transition) list \<Rightarrow>
   barrier_lane_row list \<Rightarrow> string list option" where
  "lane_accounts digest db b unresolved active [] = Some []"
| "lane_accounts digest db b unresolved active (l # lanes) =
     (case lane_account digest db b unresolved (wl_status l) (map_of active (lane_key l)) of
        None \<Rightarrow> None
      | Some oid \<Rightarrow>
          (case lane_accounts digest db b unresolved active lanes of
             None \<Rightarrow> None
           | Some oids \<Rightarrow> Some ((case oid of None \<Rightarrow> [] | Some x \<Rightarrow> [x]) @ oids)))"

definition source_operations_recoverable_at_checkpoint ::
  "sha \<Rightarrow> digest \<Rightarrow> rcdb \<Rightarrow> string \<Rightarrow> string \<Rightarrow> bool" where
  "source_operations_recoverable_at_checkpoint sha digest db rid ckpt =
     (case active_barriers db rid of
        [] \<Rightarrow> active_rows db rid = [] \<and> all_source_operations_main_committed db rid
      | b # others \<Rightarrow>
          if others \<noteq> [] \<or> wb_base_checkpoint_id b \<noteq> ckpt \<or> wb_work_plan_ref b = [] \<or>
             py_len (wb_work_plan_hash b) \<noteq> 64
          then False
          else
            let lanes = round_lanes db rid (wb_round_no b); keys = map lane_key lanes
            in if int (length lanes) \<noteq> wb_expected_lane_count b then False
               else if sha (lane_set_payload keys) \<noteq> wb_lane_set_hash b then False
               else
                 case active_by_lane sha ckpt (wb_round_no b) keys (wb_work_plan_ref b) (active_rows db rid) [] of
                   None \<Rightarrow> False
                 | Some active \<Rightarrow>
                     let unresolved = unresolved_operations db rid
                     in case lane_accounts digest db b (map_of (map (\<lambda>r. (op_operation_id r, r)) (rev unresolved)))
                               active lanes of
                          None \<Rightarrow> False
                        | Some oids \<Rightarrow> set oids = set (map op_operation_id unresolved))"

section \<open>What passing the gate means\<close>

text \<open>
  An operation the main process did not commit, whose effect is known: it was observed, or nothing
  was dispatched for it, be it that the ledger has no intent or that a reconciliation proved it.
\<close>

definition effect_known :: "rcdb \<Rightarrow> operation_row \<Rightarrow> bool" where
  "effect_known db r \<longleftrightarrow>
     (op_phase r = ''observed'' \<and> op_retry_posture r = ''no_retry'' \<and> op_observation_ref r \<noteq> None \<and>
      op_disposition r \<noteq> None) \<or>
     (op_dispatch_intent_ref r = None \<and> op_observation_ref r = None \<and> op_disposition r = None \<and>
      (op_retry_posture r = ''no_retry'' \<and> op_phase r = ''accepted'' \<or>
       op_retry_posture r \<in> {''no_retry'', ''safe_retry''} \<and> op_phase r = ''reconciled'' \<and>
       safe_retry_reconciliation db r \<noteq> None))"

lemma effect_is_settled_known:
  assumes "effect_is_settled db r d"
  shows "effect_known db r"
proof (cases "op_phase r = ''observed''")
  case True
  then show ?thesis using assms by (simp add: effect_is_settled_def effect_known_def)
next
  case False
  note s = assms[unfolded effect_is_settled_def if_not_P[OF False] Let_def]
  have none: "op_dispatch_intent_ref r = None" "op_observation_ref r = None" "op_disposition r = None"
    using s by (auto split: if_splits)
  show ?thesis
  proof (cases "0 < op_reconciliation_revision r")
    case True
    then show ?thesis using s none by (auto simp: effect_known_def split: if_splits option.splits)
  next
    case False
    then show ?thesis using s none by (auto simp: effect_known_def split: if_splits option.splits)
  qed
qed

lemma lane_account_operation:
  assumes "lane_account digest db b unresolved status active = Some (Some oid)"
  shows "\<exists>t r. unresolved oid = Some r \<and> dispatch_is_settled digest db t r"
  using assms
  by (auto simp: lane_account_def source_dispatch_is_recoverable_def detail_dispatch_is_recoverable_def
      split: if_splits option.splits)

lemma lane_accounts_operations:
  assumes "lane_accounts digest db b unresolved active lanes = Some oids" "oid \<in> set oids"
  shows "\<exists>t r. unresolved oid = Some r \<and> dispatch_is_settled digest db t r"
  using assms
proof (induction lanes arbitrary: oids)
  case (Cons l lanes)
  then obtain x ys where x: "lane_account digest db b unresolved (wl_status l) (map_of active (lane_key l)) = Some x"
      and ys: "lane_accounts digest db b unresolved active lanes = Some ys"
      and oids: "oids = (case x of None \<Rightarrow> [] | Some y \<Rightarrow> [y]) @ ys"
    by (auto split: option.splits)
  show ?case
  proof (cases "oid \<in> set ys")
    case True
    then show ?thesis by (rule Cons.IH[OF ys])
  next
    case False
    then have "x = Some oid" using Cons.prems(2) oids by (auto split: option.splits)
    then show ?thesis using lane_account_operation x by blast
  qed
qed simp

lemma unresolved_operations_mem:
  "r \<in> set (unresolved_operations db rid) \<longleftrightarrow>
   r \<in> set (t_operations db) \<and> op_run r = rid \<and> (op_phase r \<noteq> ''main_committed'' \<or> op_main_commit_ref r = None)"
  by (auto simp: unresolved_operations_def)

lemma all_committed_iff: "all_source_operations_main_committed db rid \<longleftrightarrow> unresolved_operations db rid = []"
proof -
  have "unresolved_operations db rid = [] \<longleftrightarrow> set (unresolved_operations db rid) = {}" by simp
  also have "\<dots> \<longleftrightarrow> all_source_operations_main_committed db rid"
    by (auto simp: all_source_operations_main_committed_def list_ex_iff unresolved_operations_def)
  finally show ?thesis by simp
qed

lemma recoverable_effects_known:
  assumes inv: "ledger_inv db"
    and g: "source_operations_recoverable_at_checkpoint sha digest db rid ckpt"
    and r: "r \<in> set (unresolved_operations db rid)"
  shows "effect_known db r"
proof -
  have some: "unresolved_operations db rid \<noteq> []" using r by auto
  then obtain b others where b: "active_barriers db rid = b # others"
    using g by (auto simp: source_operations_recoverable_at_checkpoint_def all_committed_iff split: list.splits)
  define unresolved where "unresolved =
    map_of (map (\<lambda>r. (op_operation_id r, r)) (rev (unresolved_operations db rid)))"
  let ?lanes = "round_lanes db rid (wb_round_no b)"
  let ?active = "active_by_lane sha ckpt (wb_round_no b) (map lane_key ?lanes) (wb_work_plan_ref b) (active_rows db rid) []"
  have accounts: "case ?active of None \<Rightarrow> False | Some active \<Rightarrow>
      (case lane_accounts digest db b unresolved active ?lanes of None \<Rightarrow> False
       | Some oids \<Rightarrow> set oids = set (map op_operation_id (unresolved_operations db rid)))"
    using g unfolding source_operations_recoverable_at_checkpoint_def b list.case Let_def unresolved_def[symmetric]
    by (metis (full_types))
  then obtain active where "?active = Some active" by (cases ?active) simp_all
  with accounts obtain oids where acc: "lane_accounts digest db b unresolved active ?lanes = Some oids"
      and all: "set oids = set (map op_operation_id (unresolved_operations db rid))"
    by (cases "lane_accounts digest db b unresolved active ?lanes") simp_all
  have "op_operation_id r \<in> set oids" using r all by simp
  from lane_accounts_operations[OF acc this] obtain t r2 where
      u: "unresolved (op_operation_id r) = Some r2" and s: "dispatch_is_settled digest db t r2" by blast
  from u have "(op_operation_id r, r2) \<in> set (map (\<lambda>r. (op_operation_id r, r)) (rev (unresolved_operations db rid)))"
    unfolding unresolved_def by (rule map_of_SomeD)
  then have "r2 \<in> set (unresolved_operations db rid)" "op_operation_id r2 = op_operation_id r" by auto
  then have "r2 = r"
    using r distinct_key_eq[of op_key "t_operations db" r2 r] inv
    by (simp add: unresolved_operations_mem ledger_inv_def op_key_def)
  then show ?thesis
    using s effect_is_settled_known by (auto simp: dispatch_is_settled_def split: option.splits sum.splits)
qed

end
