(* ===== verification/EventLog.thy ===== *)
theory EventLog
  imports ExecutorLease SourceHistory PyJson
begin

text \<open>
  The event log of a run: \<open>_append_event_in_transaction\<close> of \<open>store.py\<close> and the methods built on
  it. An event gets the next number of its run, and the same transaction writes the status, stage
  and checkpoint pointer the event carries into the run's row, so the log and the row never
  disagree. Readers page through the log with a cursor; the projection to the workbench marks the
  events it took, and old payloads of ended runs are compacted.

  An event read back is its row (its payload is the text \<open>payload_json\<close>), and
  \<open>json.dumps(value, ensure_ascii=False, ..)\<close> is \<open>dumps_raw\<close>.
\<close>

section \<open>The text of a payload\<close>

text \<open>With \<open>ensure_ascii=False\<close> only the quote, the backslash and the control characters are escaped.\<close>

definition escape_raw :: "char \<Rightarrow> string" where
  "escape_raw c =
     (case map_of short_escapes (of_char c) of
        Some e \<Rightarrow> [CHR 0x5C, e]
      | None \<Rightarrow> if of_char c < (32 :: int) then CHR 0x5C # CHR ''u'' # hex4 (of_char c) else [c])"

definition raw_text :: "string \<Rightarrow> string" where
  "raw_text s = CHR 0x22 # concat (map escape_raw s) @ [CHR 0x22]"

definition raw_member :: "string \<times> string \<Rightarrow> string" where
  "raw_member = (\<lambda>(k, t). raw_text k @ CHR '':'' # t)"

primrec dumps_raw :: "pyval \<Rightarrow> string" where
  "dumps_raw PyNone = ''null''"
| "dumps_raw (PyBool b) = (if b then ''true'' else ''false'')"
| "dumps_raw (PyInt i) = str_int i"
| "dumps_raw (PyStr s) = raw_text s"
| "dumps_raw (PyList vs) = CHR ''['' # join_comma (map dumps_raw vs) @ '']''"
| "dumps_raw (PyTuple vs) = CHR ''['' # join_comma (map dumps_raw vs) @ '']''"
| "dumps_raw (PyDict kvs) =
     CHR ''{'' # join_comma (map raw_member (sort_key fst (map (map_prod (\<lambda>k. k) dumps_raw) kvs))) @ ''}''"

definition MAX_RUNTIME_CONTROL_JSON_BYTES :: int where
  "MAX_RUNTIME_CONTROL_JSON_BYTES = 16384"

definition json_with_size :: "pyval \<Rightarrow> string \<Rightarrow> rc_error + (string \<times> int)" where
  "json_with_size v reason =
     (let text = dumps_raw v; payload_size = int (length text)
      in if MAX_RUNTIME_CONTROL_JSON_BYTES < payload_size
         then Inl (RuntimeControlError reason [(''payloadSizeBytes'', str_int payload_size)])
         else Inr (text, payload_size))"

section \<open>Appending\<close>

text \<open>The model class \<open>RuntimeControlEventInput\<close>, without the size the caller may give (it is not used).\<close>

record event_input =
  ei_event_id :: string
  ei_run :: string
  ei_type :: string
  ei_stage :: string
  ei_round_no :: "int option"
  ei_source_id :: "string option"
  ei_status :: string
  ei_summary :: string
  ei_payload :: pyval
  ei_schema_version :: string
  ei_visibility :: string
  ei_idempotency_key :: "string option"
  ei_payload_kind :: string
  ei_projection_attempts :: int
  ei_last_projection_error :: "string option"
  ei_projected_at :: "string option"
  ei_workbench_seq :: "int option"
  ei_created_at :: string

text \<open>The model class \<open>RuntimeRunSnapshot\<close>; its event number is replaced by that of the event.\<close>

record run_snapshot =
  rs_run :: string
  rs_status :: string
  rs_current_stage :: string
  rs_current_round :: "int option"
  rs_snapshot :: pyval
  rs_updated_at :: string

definition event_row_of :: "event_input \<Rightarrow> int \<Rightarrow> string \<Rightarrow> int \<Rightarrow> event_row" where
  "event_row_of e seq payload_json payload_size =
     \<lparr>ev_event_id = ei_event_id e, ev_run = ei_run e, ev_seq = seq, ev_type = ei_type e,
      ev_stage = ei_stage e, ev_round_no = ei_round_no e, ev_source_id = ei_source_id e,
      ev_status = ei_status e, ev_summary = ei_summary e, ev_payload_json = payload_json,
      ev_schema_version = ei_schema_version e, ev_visibility = ei_visibility e,
      ev_idempotency_key = ei_idempotency_key e, ev_payload_kind = ei_payload_kind e,
      ev_payload_size_bytes = payload_size, ev_projection_attempts = ei_projection_attempts e,
      ev_last_projection_error = ei_last_projection_error e, ev_projected_at = ei_projected_at e,
      ev_workbench_seq = ei_workbench_seq e, ev_created_at = ei_created_at e\<rparr>"

definition event_row_by_idempotency_key :: "rcdb \<Rightarrow> string \<Rightarrow> string \<Rightarrow> event_row option" where
  "event_row_by_idempotency_key db rid key =
     fetchone (\<lambda>x. ev_run x = rid \<and> ev_idempotency_key x = Some key) (t_events db)"

definition fetch_event :: "rcdb \<Rightarrow> string \<Rightarrow> string \<Rightarrow> event_row option" where
  "fetch_event db rid eid = fetchone (\<lambda>x. ev_run x = rid \<and> ev_event_id x = eid) (t_events db)"

text \<open>The keys of the events table; the index on the idempotency key leaves out the rows without one.\<close>

definition insert_event :: "event_row \<Rightarrow> rcdb \<Rightarrow> rc_error + rcdb" where
  "insert_event x db =
     (if list_ex (\<lambda>y. ev_event_id y = ev_event_id x \<or>
           (ev_run y = ev_run x \<and> (ev_seq y = ev_seq x \<or>
             (ev_idempotency_key x \<noteq> None \<and> ev_idempotency_key y = ev_idempotency_key x)))) (t_events db)
      then Inl IntegrityError else Inr (db\<lparr>t_events := t_events db @ [x]\<rparr>))"

definition snapshot_row_of :: "run_snapshot \<Rightarrow> int \<Rightarrow> snapshot_row" where
  "snapshot_row_of s latest_event_seq =
     \<lparr>sn_run = rs_run s, sn_status = rs_status s, sn_current_stage = rs_current_stage s,
      sn_current_round = rs_current_round s, sn_latest_event_seq = latest_event_seq,
      sn_snapshot_json = dumps_raw (rs_snapshot s), sn_updated_at = rs_updated_at s\<rparr>"

definition replace_snapshot :: "run_snapshot \<Rightarrow> int \<Rightarrow> rcdb \<Rightarrow> rcdb" where
  "replace_snapshot s latest_event_seq db =
     (let x = snapshot_row_of s latest_event_seq
      in db\<lparr>t_snapshots :=
           (if list_ex (\<lambda>y. sn_run y = rs_run s) (t_snapshots db)
            then update_where (\<lambda>y. sn_run y = rs_run s) (\<lambda>_. x) (t_snapshots db)
            else t_snapshots db @ [x])\<rparr>)"

text \<open>The row the UPDATE of the run writes over \<open>r\<close>.\<close>

definition advance_run ::
  "event_input \<Rightarrow> int \<Rightarrow> string \<Rightarrow> string option \<Rightarrow> string option \<Rightarrow> string option \<Rightarrow> run_row \<Rightarrow> run_row" where
  "advance_run e seq target stop_reason_code completed_at latest_checkpoint_id r =
     bump_run (r\<lparr>
       run_latest_event_seq := seq, run_status := target, run_current_stage := ei_stage e,
       run_current_round := ei_round_no e, run_updated_at := ei_created_at e,
       run_stop_reason_code := coalesce stop_reason_code (run_stop_reason_code r),
       run_completed_at := coalesce completed_at (run_completed_at r),
       run_latest_checkpoint_id := coalesce latest_checkpoint_id (run_latest_checkpoint_id r)\<rparr>)"

definition keyed_event :: "rcdb \<Rightarrow> event_input \<Rightarrow> event_row option" where
  "keyed_event db e =
     (case ei_idempotency_key e of None \<Rightarrow> None | Some key \<Rightarrow> event_row_by_idempotency_key db (ei_run e) key)"

definition append_event_in_transaction ::
  "rcdb \<Rightarrow> event_input \<Rightarrow> run_snapshot option \<Rightarrow> string option \<Rightarrow> string option \<Rightarrow> string option \<Rightarrow>
   string option \<Rightarrow> rc_error + (rcdb \<times> event_row)" where
  "append_event_in_transaction db e snapshot status stop_reason_code completed_at latest_checkpoint_id =
     (case keyed_event db e of
        Some existing \<Rightarrow> Inr (db, existing)
      | None \<Rightarrow>
          sbind (or_raise (RuntimeControlLookupError ''runtime_run_not_found'') (fetch_run db (ei_run e))) (\<lambda>row.
          sbind (require_run_truth_mutable row) (\<lambda>_.
          let target = (case status of None \<Rightarrow> run_status row | Some s \<Rightarrow> s)
          in sbind (require_run_transition (run_status row) target) (\<lambda>_.
             sbind (json_with_size (ei_payload e) ''runtime_event_payload_too_large'') (\<lambda>(payload_json, payload_size).
             let seq = run_latest_event_seq row + 1
             in case insert_event (event_row_of e seq payload_json payload_size) db of
                  Inl err \<Rightarrow> (case keyed_event db e of Some existing \<Rightarrow> Inr (db, existing) | None \<Rightarrow> Inl err)
                | Inr db1 \<Rightarrow>
                    (case update_run (ei_run e) outcome_clear
                            (advance_run e seq target stop_reason_code completed_at latest_checkpoint_id) db1 of
                       (n, db2) \<Rightarrow>
                         if n \<noteq> 1 then rc_fail ''runtime_failed_outcome_terminal_immutable''
                         else
                           let db3 = (case snapshot of None \<Rightarrow> db2 | Some s \<Rightarrow> replace_snapshot s seq db2)
                           in sbind (or_raise (PyTypeError ''object is not subscriptable'')
                                (fetch_event db3 (ei_run e) (ei_event_id e))) (\<lambda>stored. Inr (db3, stored))))))))"

definition append_event :: "rcdb \<Rightarrow> event_input \<Rightarrow> run_snapshot option \<Rightarrow> rc_error + (rcdb \<times> event_row)" where
  "append_event db e snapshot = append_event_in_transaction db e snapshot None None None None"

definition append_executor_event ::
  "clock \<Rightarrow> rcdb \<Rightarrow> event_input \<Rightarrow> string \<Rightarrow> run_snapshot option \<Rightarrow> string option \<Rightarrow> string option \<Rightarrow>
   string option \<Rightarrow> string option \<Rightarrow> int option \<Rightarrow> rc_error + (rcdb \<times> event_row)" where
  "append_executor_event ck db e executor_id snapshot status stop_reason_code completed_at
       latest_checkpoint_id attempt_no =
     sbind (require_active_executor ck db (ei_run e) executor_id attempt_no (Some (ei_created_at e))) (\<lambda>_.
     append_event_in_transaction db e snapshot status stop_reason_code completed_at latest_checkpoint_id)"

section \<open>Reading\<close>

definition get_event :: "rcdb \<Rightarrow> string \<Rightarrow> string \<Rightarrow> rc_error + event_row" where
  "get_event db rid eid = or_raise (RuntimeControlError ''runtime_event_not_found'' []) (fetch_event db rid eid)"

definition has_event :: "rcdb \<Rightarrow> string \<Rightarrow> string \<Rightarrow> int option \<Rightarrow> bool" where
  "has_event db rid event_type round_no \<longleftrightarrow>
     list_ex (\<lambda>x. ev_run x = rid \<and> ev_type x = event_type \<and> ev_round_no x = round_no) (t_events db)"

definition get_snapshot :: "rcdb \<Rightarrow> string \<Rightarrow> snapshot_row option" where
  "get_snapshot db rid = fetchone (\<lambda>x. sn_run x = rid) (t_snapshots db)"

text \<open>The model class \<open>RuntimeControlEventPage\<close>.\<close>

record event_page =
  pg_events :: "event_row list"
  pg_next_cursor :: int
  pg_reason_code :: "string option"

definition safe_limit :: "int \<Rightarrow> nat" where
  "safe_limit limit = nat (max 1 (min limit 500))"

text \<open>\<open>SELECT .. ORDER BY event_seq ASC LIMIT ?\<close>.\<close>

definition select_events :: "rcdb \<Rightarrow> (event_row \<Rightarrow> bool) \<Rightarrow> nat \<Rightarrow> event_row list" where
  "select_events db p n = take n (sort_key ev_seq (filter p (t_events db)))"

definition page_of :: "int \<Rightarrow> event_row list \<Rightarrow> event_page" where
  "page_of after_seq rows =
     \<lparr>pg_events = rows, pg_next_cursor = (if rows = [] then after_seq else ev_seq (last rows)),
      pg_reason_code = None\<rparr>"

definition gap_page :: "int \<Rightarrow> event_page" where
  "gap_page after_seq =
     \<lparr>pg_events = [], pg_next_cursor = after_seq, pg_reason_code = Some ''runtime_event_gap_detected''\<rparr>"

definition list_events :: "rcdb \<Rightarrow> string \<Rightarrow> int \<Rightarrow> int \<Rightarrow> rc_error + event_page" where
  "list_events db rid after_seq limit =
     sbind (or_raise (RuntimeControlLookupError ''runtime_run_not_found'') (fetch_run db rid)) (\<lambda>run.
     let rows = select_events db (\<lambda>x. ev_run x = rid \<and> after_seq < ev_seq x) (safe_limit limit)
     in if rows \<noteq> [] \<and> after_seq + 1 < ev_seq (hd rows) then Inr (gap_page after_seq)
        else if rows = [] \<and> after_seq < run_latest_event_seq run then Inr (gap_page after_seq)
        else Inr (page_of after_seq rows))"

definition list_public_events :: "rcdb \<Rightarrow> string \<Rightarrow> int \<Rightarrow> int \<Rightarrow> rc_error + event_page" where
  "list_public_events db rid after_seq limit =
     sbind (or_raise (RuntimeControlLookupError ''runtime_run_not_found'') (fetch_run db rid)) (\<lambda>_.
     Inr (page_of after_seq (select_events db
       (\<lambda>x. ev_run x = rid \<and> after_seq < ev_seq x \<and> ev_visibility x = ''public'') (safe_limit limit))))"

definition unprojected :: "string \<Rightarrow> event_row \<Rightarrow> bool" where
  "unprojected rid x \<longleftrightarrow> ev_run x = rid \<and> ev_visibility x = ''public'' \<and> ev_workbench_seq x = None"

definition list_unprojected_public_events :: "rcdb \<Rightarrow> string \<Rightarrow> int \<Rightarrow> rc_error + event_row list" where
  "list_unprojected_public_events db rid limit =
     sbind (or_raise (RuntimeControlLookupError ''runtime_run_not_found'') (fetch_run db rid)) (\<lambda>_.
     Inr (select_events db (unprojected rid) (safe_limit limit)))"

section \<open>Projection and compaction\<close>

definition update_events :: "(event_row \<Rightarrow> bool) \<Rightarrow> (event_row \<Rightarrow> event_row) \<Rightarrow> rcdb \<Rightarrow> rcdb" where
  "update_events p f db = db\<lparr>t_events := update_where p f (t_events db)\<rparr>"

definition is_event :: "string \<Rightarrow> string \<Rightarrow> event_row \<Rightarrow> bool" where
  "is_event rid eid x \<longleftrightarrow> ev_run x = rid \<and> ev_event_id x = eid"

definition mark_event_projection_success ::
  "rcdb \<Rightarrow> string \<Rightarrow> string \<Rightarrow> int \<Rightarrow> string option \<Rightarrow> rc_error + (rcdb \<times> event_row)" where
  "mark_event_projection_success db rid eid workbench_seq projected_at =
     (let clash = (case fetch_event db rid eid of
                     None \<Rightarrow> None
                   | Some x \<Rightarrow> (case ev_workbench_seq x of
                         None \<Rightarrow> None
                       | Some n \<Rightarrow> if n \<noteq> workbench_seq then Some n else None))
      in case clash of
           Some n \<Rightarrow> Inl (RuntimeControlError ''runtime_event_projection_conflict''
             [(''existingWorkbenchEventGlobalSeq'', str_int n),
              (''workbenchEventGlobalSeq'', str_int workbench_seq)])
         | None \<Rightarrow>
             let db' = update_events (is_event rid eid)
                   (\<lambda>x. x\<lparr>ev_workbench_seq := coalesce (ev_workbench_seq x) (Some workbench_seq),
                          ev_projected_at := coalesce (ev_projected_at x) projected_at,
                          ev_last_projection_error := None\<rparr>) db
             in sbind (get_event db' rid eid) (\<lambda>x. Inr (db', x)))"

definition mark_event_projection_failure ::
  "rcdb \<Rightarrow> string \<Rightarrow> string \<Rightarrow> string \<Rightarrow> rc_error + (rcdb \<times> event_row)" where
  "mark_event_projection_failure db rid eid error_code =
     (let db' = update_events (is_event rid eid)
           (\<lambda>x. if ev_workbench_seq x = None
                then x\<lparr>ev_projection_attempts := ev_projection_attempts x + 1,
                       ev_last_projection_error := Some error_code\<rparr>
                else x) db
      in sbind (get_event db' rid eid) (\<lambda>x. Inr (db', x)))"

text \<open>
  The rows \<open>compact_terminal_event_payloads\<close> takes. \<open>LIKE\<close> compares ASCII letters without their case;
  a row of the events table appears once in the join, since the run id is a key.
\<close>

definition lower_ascii :: "char \<Rightarrow> char" where
  "lower_ascii c = (if CHR ''A'' \<le> c \<and> c \<le> CHR ''Z'' then char_of (of_char c + (32 :: int)) else c)"

definition compacted_text :: "string \<Rightarrow> bool" where
  "compacted_text s \<longleftrightarrow> occurs_in (CHR 0x22 # ''compacted'' @ CHR 0x22 # '':true'') (map lower_ascii s)"

definition compactable :: "rcdb \<Rightarrow> string \<Rightarrow> event_row \<Rightarrow> bool" where
  "compactable db older_than x \<longleftrightarrow>
     list_ex (\<lambda>r. run_id r = ev_run x \<and> run_status r \<in> {''cancelled'', ''completed'', ''failed''}) (t_runs db) \<and>
     active_leases db (ev_run x) = [] \<and> ev_created_at x < older_than \<and> ev_visibility x \<noteq> ''public'' \<and>
     \<not> compacted_text (ev_payload_json x)"

definition compact_event :: "event_row \<Rightarrow> event_row" where
  "compact_event x = x\<lparr>ev_payload_json := dumps_raw (PyDict [(''compacted'', PyBool True),
     (''sourceId'', case ev_source_id x of None \<Rightarrow> PyNone | Some s \<Rightarrow> PyStr s)])\<rparr>"

definition compact_terminal_event_payloads :: "rcdb \<Rightarrow> string \<Rightarrow> int \<Rightarrow> rcdb \<times> nat" where
  "compact_terminal_event_payloads db older_than batch_size =
     (let rows = take (nat (max 1 (min batch_size 1000)))
                   (sort_key ev_created_at (filter (compactable db older_than) (t_events db)))
      in (fold (\<lambda>row. update_events (is_event (ev_run row) (ev_event_id row))
                   (\<lambda>x. x\<lparr>ev_payload_json := ev_payload_json (compact_event row)\<rparr>)) rows db, length rows))"

section \<open>Yielding to the reconciliation\<close>

text \<open>
  \<open>yield_executor_for_automatic_source_reconciliation\<close>: the event, the status and the end of the
  lease are one transaction; what the final \<open>get_run\<close> answers or raises comes after the commit.
\<close>

definition get_run :: "integrity \<Rightarrow> rcdb \<Rightarrow> string \<Rightarrow> rc_error + run_row" where
  "get_run integrity db rid =
     sbind (or_raise (RuntimeControlLookupError ''runtime_run_not_found'') (fetch_run db rid)) (\<lambda>row.
     sbind (raise_opt (integrity db row)) (\<lambda>_. Inr row))"

definition awaits_reconciliation :: "string \<Rightarrow> operation_row \<Rightarrow> bool" where
  "awaits_reconciliation rid r \<longleftrightarrow> op_run r = rid \<and> op_retry_posture r = ''reconcile_first'' \<and>
     op_phase r = ''reconciled'' \<and> op_main_commit_ref r = None"

definition yield_executor ::
  "clock \<Rightarrow> integrity \<Rightarrow> rcdb \<Rightarrow> event_input \<Rightarrow> string \<Rightarrow> int \<Rightarrow> rc_error + (rcdb \<times> (rc_error + run_row))" where
  "yield_executor ck integrity db e executor_id attempt_no =
     (if ei_type e \<noteq> ''runtime_source_reconciliation_required'' \<or> ei_status e \<noteq> ''resume_requested'' \<or>
         ei_stage e \<noteq> ''source_reconciliation''
      then rc_fail ''runtime_source_reconciliation_event_invalid''
      else
        sbind (require_active_executor ck db (ei_run e) executor_id (Some attempt_no) (Some (ei_created_at e))) (\<lambda>lease.
        sbind (or_raise (RuntimeControlLookupError ''runtime_run_not_found'') (fetch_run db (ei_run e))) (\<lambda>row.
        sbind (require_run_truth_mutable row) (\<lambda>_.
        if \<not> list_ex (awaits_reconciliation (ei_run e)) (t_operations db)
        then rc_fail ''runtime_source_operation_unresolved_evidence_missing''
        else
          sbind (append_event_in_transaction db e None (Some ''resume_requested'') None None None) (\<lambda>(db1, _).
          let p = (\<lambda>l. ls_lease_id l = ls_lease_id lease \<and> ls_run l = ei_run e \<and> ls_executor_id l = executor_id \<and>
                    ls_attempt_no l = attempt_no \<and> ls_status l = ''active'');
              db2 = update_leases p (\<lambda>l. l\<lparr>ls_status := ''revoked'', ls_released_at := Some (ei_created_at e),
                      ls_reason_code := Some ''runtime_source_operation_unresolved''\<rparr>) db1
          in if rowcount p (t_leases db1) \<noteq> 1 then rc_fail ''runtime_executor_stale''
             else Inr (db2, get_run integrity db2 (ei_run e)))))))"

section \<open>The calls\<close>

datatype event_call =
    Append event_input "run_snapshot option"
  | AppendExecutor event_input string "run_snapshot option" "string option" "string option" "string option"
      "string option" "int option"
  | Projected string string int "string option"
  | ProjectionFailed string string string
  | Compact string int
  | Yield event_input string int

datatype event_result = OneEvent event_row | Compacted nat | Yielded "rc_error + run_row"

definition eventing :: "('r \<Rightarrow> event_result) \<Rightarrow> rc_error + (rcdb \<times> 'r) \<Rightarrow> rc_error + (rcdb \<times> event_result)" where
  "eventing f m = sbind m (\<lambda>(db, r). Inr (db, f r))"

fun event_step :: "clock \<Rightarrow> integrity \<Rightarrow> rcdb \<Rightarrow> event_call \<Rightarrow> rc_error + (rcdb \<times> event_result)" where
  "event_step ck integ db (Append e snapshot) = eventing OneEvent (append_event db e snapshot)"
| "event_step ck integ db (AppendExecutor e ex snapshot status stop completed ckpt n) =
     eventing OneEvent (append_executor_event ck db e ex snapshot status stop completed ckpt n)"
| "event_step ck integ db (Projected rid eid n at) =
     eventing OneEvent (mark_event_projection_success db rid eid n at)"
| "event_step ck integ db (ProjectionFailed rid eid code) =
     eventing OneEvent (mark_event_projection_failure db rid eid code)"
| "event_step ck integ db (Compact older_than batch) =
     (case compact_terminal_event_payloads db older_than batch of (db', n) \<Rightarrow> Inr (db', Compacted n))"
| "event_step ck integ db (Yield e ex n) = eventing Yielded (yield_executor ck integ db e ex n)"

section \<open>What a transaction does to the log\<close>

definition run_events :: "rcdb \<Rightarrow> string \<Rightarrow> event_row list" where
  "run_events db rid = filter (\<lambda>x. ev_run x = rid) (t_events db)"

definition log_heads :: "rcdb \<Rightarrow> (string \<times> int) list" where
  "log_heads db = map (\<lambda>r. (run_id r, run_latest_event_seq r)) (t_runs db)"

definition event_key :: "event_row \<Rightarrow> (string \<times> string) option" where
  "event_key x = map_option (Pair (ev_run x)) (ev_idempotency_key x)"

text \<open>The columns of an event that no later call changes.\<close>

definition event_core :: "event_row \<Rightarrow> event_row" where
  "event_core x = x\<lparr>ev_payload_json := '''', ev_projection_attempts := 0, ev_last_projection_error := None,
     ev_projected_at := None, ev_workbench_seq := None\<rparr>"

text \<open>
  A row after some calls: what was appended stays, a place in the workbench once given stays, and a
  public event keeps its payload.
\<close>

definition event_le :: "event_row \<Rightarrow> event_row \<Rightarrow> bool" where
  "event_le x y \<longleftrightarrow> event_core y = event_core x \<and>
     (ev_workbench_seq x \<noteq> None \<longrightarrow> ev_workbench_seq y = ev_workbench_seq x) \<and>
     (ev_visibility x = ''public'' \<longrightarrow> ev_payload_json y = ev_payload_json x)"

definition log_le :: "rcdb \<Rightarrow> rcdb \<Rightarrow> bool" where
  "log_le db db' \<longleftrightarrow> (\<exists>M ys. t_events db' = M @ ys \<and> list_all2 event_le (t_events db) M)"

definition same_log :: "rcdb \<Rightarrow> rcdb \<Rightarrow> bool" where
  "same_log db db' \<longleftrightarrow> t_events db' = t_events db \<and> log_heads db' = log_heads db"

text \<open>Each run has its events numbered from 1 to the number its row holds, in the order of the table.\<close>

definition events_inv :: "rcdb \<Rightarrow> bool" where
  "events_inv db \<longleftrightarrow>
     distinct (map fst (log_heads db)) \<and>
     distinct (map ev_event_id (t_events db)) \<and>
     distinct (List.map_filter event_key (t_events db)) \<and>
     ev_run ` set (t_events db) \<subseteq> fst ` set (log_heads db) \<and>
     (\<forall>(rid, n) \<in> set (log_heads db). 0 \<le> n \<and> map ev_seq (run_events db rid) = [1 .. n])"

lemma log_heads_ids: "map fst (log_heads db) = map run_id (t_runs db)"
  by (simp add: log_heads_def)

lemma same_log_inv: "same_log db db' \<Longrightarrow> events_inv db' = events_inv db"
  by (simp add: same_log_def events_inv_def run_events_def)

lemma same_log_refl [simp]: "same_log db db"
  by (simp add: same_log_def)

lemma same_log_trans: "same_log a b \<Longrightarrow> same_log b c \<Longrightarrow> same_log a c"
  by (simp add: same_log_def)

lemma same_log_le: "same_log db db' \<Longrightarrow> log_le db db'"
  by (simp add: same_log_def log_le_def event_le_def list_all2_refl exI[of _ "t_events db"])

lemma event_le_refl [simp]: "event_le x x"
  by (simp add: event_le_def)

lemma event_core_fields:
  assumes "event_core y = event_core x"
  shows "ev_event_id y = ev_event_id x" "ev_run y = ev_run x" "ev_seq y = ev_seq x" "ev_type y = ev_type x"
    "ev_visibility y = ev_visibility x" "ev_idempotency_key y = ev_idempotency_key x"
    "ev_source_id y = ev_source_id x" "ev_created_at y = ev_created_at x" "event_key y = event_key x"
    "ev_stage y = ev_stage x" "ev_round_no y = ev_round_no x"
  using assms by (cases x; cases y; simp add: event_core_def event_key_def)+

lemma event_le_trans: "event_le x y \<Longrightarrow> event_le y z \<Longrightarrow> event_le x z"
  by (auto simp: event_le_def dest: event_core_fields(5))

lemma log_le_refl [simp]: "log_le db db"
  by (rule same_log_le) simp

lemma log_le_trans:
  assumes "log_le a b" "log_le b c"
  shows "log_le a c"
proof -
  obtain M ys where b: "t_events b = M @ ys" "list_all2 event_le (t_events a) M"
    using assms(1) by (auto simp: log_le_def)
  obtain N zs where c: "t_events c = N @ zs" "list_all2 event_le (t_events b) N"
    using assms(2) by (auto simp: log_le_def)
  then obtain N1 N2 where N: "N = N1 @ N2" "list_all2 event_le M N1"
    using b(1) by (auto simp: list_all2_append1)
  have "list_all2 event_le (t_events a) N1"
    by (rule list_all2_trans[OF event_le_trans b(2) N(2)])
  then show ?thesis using c(1) N(1) by (auto simp: log_le_def)
qed

lemma lease_same_log:
  assumes "lease_step ck integ db c = Inr (db', res)"
  shows "same_log db db'"
proof -
  have fold: "same_log db (fold (expire_one now) rows db)" for now rows db
  proof (induction rows arbitrary: db)
    case (Cons row rows)
    have "same_log db (expire_one now row db)"
      by (simp add: expire_one_def same_log_def log_heads_def bump_run_def update_leases_def update_run_def
          update_where_def)
    then show ?case using Cons[of "expire_one now row db"] same_log_trans by simp
  qed simp
  show ?thesis
  proof (cases c)
    case (Expire now batch)
    then show ?thesis using assms fold
      by (auto simp: returning_Inr expire_executor_leases_def Let_def split: if_splits)
  qed (use assms in \<open>auto simp: returning_Inr acquire_executor_lease_def heartbeat_executor_lease_def
        release_executor_lease_def release_executor_lease_txn_def update_run_status_def set_run_status_def
        link_workbench_session_def insert_lease_def update_run_def update_leases_def Let_def sbind_eq_Inr
        split_beta same_log_def log_heads_def bump_run_def update_where_def split: if_splits sum.splits\<close>)
qed

lemma keyed_eventD:
  "keyed_event db e = Some x \<Longrightarrow>
   x \<in> set (t_events db) \<and> ev_run x = ei_run e \<and> ei_idempotency_key e \<noteq> None \<and> ev_idempotency_key x = ei_idempotency_key e"
  by (auto simp: keyed_event_def event_row_by_idempotency_key_def split: option.splits dest!: fetchone_SomeD)

lemma replace_snapshot_simps [simp]:
  "t_events (replace_snapshot s n db) = t_events db" "t_runs (replace_snapshot s n db) = t_runs db"
  "t_leases (replace_snapshot s n db) = t_leases db"
  by (simp_all add: replace_snapshot_def Let_def)

text \<open>An append either answers with the event of its key, or adds one row and moves the run.\<close>

lemma append_cases:
  assumes "append_event_in_transaction db e snapshot status stop completed ckpt = Inr (db', x)"
  obtains (replay) "db' = db" "keyed_event db e = Some x"
    | (new) row n json sz target where
      "keyed_event db e = None" "fetch_run db (ei_run e) = Some row" "outcome_clear row" "run_current_action_id row = None"
      "target = (case status of None \<Rightarrow> run_status row | Some s \<Rightarrow> s)" "run_transition (run_status row) target"
      "n = run_latest_event_seq row + 1" "json = dumps_raw (ei_payload e)" "sz = int (length json)" "sz \<le> 16384"
      "ei_event_id e \<notin> ev_event_id ` set (t_events db)"
      "\<not> list_ex (\<lambda>y. ev_run y = ei_run e \<and> ei_idempotency_key e \<noteq> None \<and>
         ev_idempotency_key y = ei_idempotency_key e) (t_events db)"
      "x = event_row_of e n json sz" "t_events db' = t_events db @ [x]"
      "t_runs db' = update_where (\<lambda>r. run_id r = ei_run e \<and> outcome_clear r)
         (advance_run e n target stop completed ckpt) (t_runs db)"
      "t_leases db' = t_leases db"
proof (cases "keyed_event db e")
  case (Some y)
  then show thesis using assms replay by (auto simp: append_event_in_transaction_def)
next
  case None
  then obtain row where row: "fetch_run db (ei_run e) = Some row" "outcome_clear row" "run_current_action_id row = None"
    using assms by (auto simp: append_event_in_transaction_def sbind_eq_Inr)
  define target where "target = (case status of None \<Rightarrow> run_status row | Some s \<Rightarrow> s)"
  define n where "n = run_latest_event_seq row + 1"
  define json where "json = dumps_raw (ei_payload e)"
  define y where "y = event_row_of e n json (int (length json))"
  have mutable: "require_run_truth_mutable row = Inr ()" using row by simp
  obtain st where st: "require_run_transition (run_status row) target = Inr st" and le: "int (length json) \<le> 16384"
    using assms None row(1) mutable
    by (auto simp: append_event_in_transaction_def sbind_eq_Inr Let_def target_def[symmetric] json_with_size_def
        json_def[symmetric] MAX_RUNTIME_CONTROL_JSON_BYTES_def split: if_splits)
  have tr: "run_transition (run_status row) target" using st require_run_transition_Inr_iff by blast
  have jw: "json_with_size (ei_payload e) ''runtime_event_payload_too_large'' = Inr (json, int (length json))"
    using le by (simp add: json_with_size_def Let_def json_def MAX_RUNTIME_CONTROL_JSON_BYTES_def)
  obtain db1 where ins: "insert_event y db = Inr db1"
    using assms None row(1) mutable st jw
    by (cases "insert_event y db")
      (simp_all add: append_event_in_transaction_def target_def[symmetric] n_def[symmetric] y_def Let_def)
  define db2 where "db2 = snd (update_run (ei_run e) outcome_clear (advance_run e n target stop completed ckpt) db1)"
  define db3 where "db3 = (case snapshot of None \<Rightarrow> db2 | Some s \<Rightarrow> replace_snapshot s n db2)"
  have a: "fetch_event db3 (ei_run e) (ei_event_id e) = Some x" "db' = db3"
    unfolding db3_def n_def using assms None row(1) mutable st jw ins
    by (auto simp: append_event_in_transaction_def target_def[symmetric] n_def[symmetric] y_def[symmetric] Let_def
        sbind_eq_Inr split_beta db2_def[symmetric] split: if_splits)
  have db1: "db1 = db\<lparr>t_events := t_events db @ [y]\<rparr>"
    and fresh: "ei_event_id e \<notin> ev_event_id ` set (t_events db)"
      "\<not> list_ex (\<lambda>z. ev_run z = ei_run e \<and> ei_idempotency_key e \<noteq> None \<and>
         ev_idempotency_key z = ei_idempotency_key e) (t_events db)"
    using ins by (auto simp: insert_event_def y_def event_row_of_def list_ex_iff split: if_splits)
  have t3: "t_events db3 = t_events db @ [y]" "t_leases db3 = t_leases db"
      "t_runs db3 = update_where (\<lambda>r. run_id r = ei_run e \<and> outcome_clear r)
         (advance_run e n target stop completed ckpt) (t_runs db)"
    by (auto simp: db3_def db2_def db1 update_run_def split: option.splits)
  have "fetchone (\<lambda>z. ev_run z = ei_run e \<and> ev_event_id z = ei_event_id e) (t_events db) = None"
    using fresh(1) by (auto simp: fetchone_None_iff image_iff)
  then have "fetchone (\<lambda>z. ev_run z = ei_run e \<and> ev_event_id z = ei_event_id e) (t_events db @ [y]) = Some y"
    by (simp add: fetchone_append y_def event_row_of_def)
  then have "x = y" using a(1) t3(1) by (simp add: fetch_event_def)
  then show thesis
    using new[OF None row target_def tr n_def json_def refl le fresh] t3 a(2) by (simp add: y_def)
qed

lemma advance_run_simps [simp]:
  "run_id (advance_run e n t stop completed ckpt r) = run_id r"
  "run_latest_event_seq (advance_run e n t stop completed ckpt r) = n"
  "run_status (advance_run e n t stop completed ckpt r) = t"
  "outcome_clear (advance_run e n t stop completed ckpt r) = outcome_clear r"
  "run_state_revision (advance_run e n t stop completed ckpt r) = run_state_revision r + 1"
  "run_current_action_id (advance_run e n t stop completed ckpt r) = run_current_action_id r"
  by (simp_all add: advance_run_def bump_run_def outcome_clear_def)

lemma event_row_of_simps [simp]:
  "ev_event_id (event_row_of e n json sz) = ei_event_id e" "ev_run (event_row_of e n json sz) = ei_run e"
  "ev_seq (event_row_of e n json sz) = n" "ev_idempotency_key (event_row_of e n json sz) = ei_idempotency_key e"
  "ev_visibility (event_row_of e n json sz) = ei_visibility e"
  "ev_payload_json (event_row_of e n json sz) = json" "ev_workbench_seq (event_row_of e n json sz) = ei_workbench_seq e"
  by (simp_all add: event_row_of_def)

lemma events_invD:
  assumes "events_inv db"
  shows "distinct (map run_id (t_runs db))" "distinct (map ev_event_id (t_events db))"
    "distinct (List.map_filter event_key (t_events db))"
    "x \<in> set (t_events db) \<Longrightarrow> \<exists>r \<in> set (t_runs db). run_id r = ev_run x"
    "r \<in> set (t_runs db) \<Longrightarrow> 0 \<le> run_latest_event_seq r \<and>
       map ev_seq (run_events db (run_id r)) = [1 .. run_latest_event_seq r]"
  using assms unfolding events_inv_def log_heads_ids by (fastforce simp: log_heads_def)+

lemma append_events_inv:
  assumes inv: "events_inv db"
    and s: "append_event_in_transaction db e snapshot status stop completed ckpt = Inr (db', x)"
  shows "events_inv db' \<and> log_le db db'"
  using s
proof (cases rule: append_cases)
  case replay
  then show ?thesis using inv by simp
next
  case (new row n json sz target)
  let ?move = "\<lambda>h. if fst h = ei_run e then (ei_run e, n) else h"
  note ids = events_invD(1)[OF inv]
  have row: "row \<in> set (t_runs db)" "run_id row = ei_run e" using fetch_run_SomeD[OF new(2)] by simp_all
  have heads: "log_heads db' = map ?move (log_heads db)"
    using run_row_unique[OF ids new(2)] new(3) by (auto simp: log_heads_def new(15) update_where_def)
  have fsts: "map fst (log_heads db') = map fst (log_heads db)" by (auto simp: heads)
  have seqs: "map ev_seq (run_events db (ei_run e)) = [1 .. run_latest_event_seq row]" "0 \<le> run_latest_event_seq row"
    using events_invD(5)[OF inv row(1)] row(2) by simp_all
  have x: "ev_run x = ei_run e" "ev_seq x = n" "ev_event_id x = ei_event_id e" "ev_idempotency_key x = ei_idempotency_key e"
    by (simp_all add: new(13))
  have numbered: "0 \<le> m \<and> map ev_seq (run_events db' rid) = [1 .. m]" if h: "(rid, m) \<in> set (log_heads db')" for rid m
  proof (cases "rid = ei_run e")
    case True
    then have "m = n" using h by (auto simp: heads split: if_splits)
    then show ?thesis using True seqs x new(7) by (simp add: run_events_def new(14) upto_snoc)
  next
    case False
    then have "(rid, m) \<in> set (log_heads db)" using h by (auto simp: heads split: if_splits)
    then show ?thesis using False inv x by (auto simp: events_inv_def run_events_def new(14))
  qed
  have keys: "distinct (List.map_filter event_key (t_events db'))"
    using events_invD(3)[OF inv] new(12) x
    by (auto simp: new(14) map_filter_snoc map_filter_mem event_key_def list_ex_iff split: option.splits)
  have "ei_run e \<in> fst ` set (log_heads db)" using row by (force simp: log_heads_def)
  then have runs: "ev_run ` set (t_events db') \<subseteq> fst ` set (log_heads db')"
    using inv x fsts by (simp add: events_inv_def new(14) flip: set_map)
  have "distinct (map ev_event_id (t_events db'))" using events_invD(2)[OF inv] new(11) x by (simp add: new(14))
  then have "events_inv db'"
    using keys runs numbered fsts inv unfolding events_inv_def by auto
  moreover have "log_le db db'"
    unfolding log_le_def new(14) by (rule exI[of _ "t_events db"]) (simp add: list_all2_refl)
  ultimately show ?thesis ..
qed

text \<open>A marking or compaction of rows leaves their cores, so the log stays numbered.\<close>

lemma event_leD:
  "event_le x y \<Longrightarrow> ev_event_id y = ev_event_id x \<and> ev_run y = ev_run x \<and> ev_seq y = ev_seq x \<and>
     event_key y = event_key x \<and> ev_visibility y = ev_visibility x"
  using event_core_fields unfolding event_le_def by blast

lemma event_lists:
  assumes "list_all2 event_le es es'"
  shows "map ev_event_id es' = map ev_event_id es" "map ev_run es' = map ev_run es"
    "List.map_filter event_key es' = List.map_filter event_key es"
    "map ev_seq (filter (\<lambda>x. ev_run x = rid) es') = map ev_seq (filter (\<lambda>x. ev_run x = rid) es)"
  using assms
  by (induction rule: list_all2_induct)
    (simp_all add: List.map_filter_simps event_leD split: option.split)

lemma cores_events_inv:
  assumes inv: "events_inv db" and es: "list_all2 event_le (t_events db) (t_events db')" and h: "log_heads db' = log_heads db"
  shows "events_inv db' \<and> log_le db db'"
proof -
  have "ev_run ` set (t_events db') = ev_run ` set (t_events db)" using event_lists(2)[OF es] by (simp flip: set_map)
  then have "events_inv db'"
    using inv event_lists[OF es] by (simp add: events_inv_def h run_events_def)
  moreover have "log_le db db'" using es by (auto simp: log_le_def)
  ultimately show ?thesis ..
qed

lemma update_events_le:
  "(\<And>x. x \<in> set (t_events db) \<Longrightarrow> p x \<Longrightarrow> event_le x (f x)) \<Longrightarrow> list_all2 event_le (t_events db) (t_events (update_events p f db))"
  by (simp add: update_events_def list_all2_update_where)

lemma update_events_simps [simp]:
  "t_events (update_events p f db) = update_where p f (t_events db)"
  "t_runs (update_events p f db) = t_runs db" "t_leases (update_events p f db) = t_leases db"
  "log_heads (update_events p f db) = log_heads db"
  by (simp_all add: update_events_def log_heads_def)

lemma compact_fold:
  fixes db rows
  defines "up \<equiv> \<lambda>row. update_events (is_event (ev_run row) (ev_event_id row))
      (\<lambda>x. x\<lparr>ev_payload_json := ev_payload_json (compact_event row)\<rparr>)"
  assumes "\<forall>row \<in> set rows. \<forall>x \<in> set (t_events db). is_event (ev_run row) (ev_event_id row) x \<longrightarrow> ev_visibility x \<noteq> ''public''"
  shows "list_all2 event_le (t_events db) (t_events (fold up rows db)) \<and> log_heads (fold up rows db) = log_heads db \<and>
    t_runs (fold up rows db) = t_runs db \<and> t_leases (fold up rows db) = t_leases db"
  using assms(2)
proof (induction rows arbitrary: db)
  case Nil
  then show ?case by (simp add: list_all2_refl)
next
  case (Cons row rows)
  have le: "list_all2 event_le (t_events db) (t_events (up row db))"
    unfolding up_def by (rule update_events_le) (use Cons.prems in \<open>auto simp: event_le_def event_core_def\<close>)
  have "\<forall>r \<in> set rows. \<forall>x \<in> set (t_events (up row db)). is_event (ev_run r) (ev_event_id r) x \<longrightarrow> ev_visibility x \<noteq> ''public''"
    using Cons.prems by (auto simp: up_def set_update_where is_event_def)
  from Cons.IH[OF this] le show ?case
    using list_all2_trans[OF event_le_trans le] by (auto simp: up_def)
qed

lemma compact_evolves:
  assumes inv: "events_inv db" and s: "compact_terminal_event_payloads db older_than batch = (db', n)"
  shows "list_all2 event_le (t_events db) (t_events db') \<and> log_heads db' = log_heads db \<and> t_runs db' = t_runs db \<and>
    t_leases db' = t_leases db"
proof -
  define rows where "rows = take (nat (max 1 (min batch 1000)))
    (sort_key ev_created_at (filter (compactable db older_than) (t_events db)))"
  have rows: "row \<in> set (t_events db) \<and> ev_visibility row \<noteq> ''public''" if "row \<in> set rows" for row
    using that by (auto simp: rows_def compactable_def dest!: in_set_takeD)
  have "x = row" if "x \<in> set (t_events db)" "row \<in> set (t_events db)" "is_event (ev_run row) (ev_event_id row) x" for x row
    using distinct_key_eq[OF events_invD(2)[OF inv] that(1,2)] that(3) by (simp add: is_event_def)
  then have "\<forall>row \<in> set rows. \<forall>x \<in> set (t_events db). is_event (ev_run row) (ev_event_id row) x \<longrightarrow> ev_visibility x \<noteq> ''public''"
    using rows by blast
  from compact_fold[OF this] s show ?thesis
    by (auto simp: compact_terminal_event_payloads_def Let_def rows_def)
qed

text \<open>Every call keeps the log: numbered, and grown at its end only.\<close>

lemma event_step_log:
  assumes inv: "events_inv db" and s: "event_step ck integ db c = Inr (db', res)"
  shows "events_inv db' \<and> log_le db db'"
proof (cases c)
  case (Append e snapshot)
  then show ?thesis using s append_events_inv[OF inv] by (auto simp: eventing_def append_event_def sbind_eq_Inr)
next
  case (AppendExecutor e ex snapshot status stop completed ckpt n)
  then show ?thesis using s append_events_inv[OF inv]
    by (auto simp: eventing_def append_executor_event_def sbind_eq_Inr)
next
  case (Projected rid eid n at)
  then obtain x where x: "mark_event_projection_success db rid eid n at = Inr (db', x)"
    using s by (auto simp: eventing_def sbind_eq_Inr)
  define f where "f = (\<lambda>x :: event_row. x\<lparr>ev_workbench_seq := coalesce (ev_workbench_seq x) (Some n),
      ev_projected_at := coalesce (ev_projected_at x) at, ev_last_projection_error := None\<rparr>)"
  have db': "db' = update_events (is_event rid eid) f db"
    using x by (auto simp: mark_event_projection_success_def Let_def f_def sbind_eq_Inr split: option.splits if_splits)
  have "event_le y (f y)" for y
    by (auto simp: f_def event_le_def event_core_def coalesce_def)
  then show ?thesis using cores_events_inv[OF inv update_events_le] unfolding db' by simp
next
  case (ProjectionFailed rid eid code)
  then show ?thesis using s cores_events_inv[OF inv update_events_le]
    by (auto simp: eventing_def mark_event_projection_failure_def Let_def sbind_eq_Inr event_le_def event_core_def)
next
  case (Compact older_than batch)
  then show ?thesis using s compact_evolves[OF inv] cores_events_inv[OF inv]
    by (auto split: prod.splits)
next
  case (Yield e ex n)
  then obtain y r db1 where "append_event_in_transaction db e None (Some ''resume_requested'') None None None = Inr (db1, y)"
      "same_log db1 db'"
    using s by (auto simp: eventing_def yield_executor_def sbind_eq_Inr Let_def same_log_def log_heads_def
        update_leases_def split: if_splits)
  then show ?thesis using append_events_inv[OF inv] same_log_inv same_log_le log_le_trans by blast
qed

text \<open>The runs and leases: an event moves its run along an allowed transition, a yield ends its own lease.\<close>

lemma append_evolves:
  assumes ids: "distinct (map run_id (t_runs db))"
    and s: "append_event_in_transaction db e snapshot status stop completed ckpt = Inr (db', x)"
  shows "list_all2 run_le (t_runs db) (t_runs db') \<and> t_leases db' = t_leases db"
  using s
proof (cases rule: append_cases)
  case replay
  then show ?thesis by (simp add: runs_refl)
next
  case (new row n json sz target)
  have "run_le r (advance_run e n target stop completed ckpt r)"
    if "r \<in> set (t_runs db)" "run_id r = ei_run e \<and> outcome_clear r" for r
  proof -
    have "r = row" using run_row_unique[OF ids new(2) that(1)] that(2) by blast
    then show ?thesis using r_into_rtranclp[of run_transition, OF new(6)] that(2) by (simp add: run_le_def)
  qed
  then show ?thesis
    using new(16) unfolding new(15) by (auto intro!: list_all2_update_where)
qed

lemma event_step_evolves:
  assumes ids: "distinct (map run_id (t_runs db))" and inv: "events_inv db" and s: "event_step ck integ db c = Inr (db', res)"
  shows "evolves db [] db'"
proof (cases c)
  case (Append e snapshot)
  then show ?thesis using s append_evolves[OF ids]
    by (auto simp: eventing_def append_event_def sbind_eq_Inr intro!: evolvesI_update list_all2_refl)
next
  case (AppendExecutor e ex snapshot status stop completed ckpt n)
  then show ?thesis using s append_evolves[OF ids]
    by (auto simp: eventing_def append_executor_event_def sbind_eq_Inr intro!: evolvesI_update list_all2_refl)
next
  case (Projected rid eid n at)
  then show ?thesis using s
    by (auto simp: eventing_def mark_event_projection_success_def Let_def sbind_eq_Inr list_all2_refl
        split: option.splits if_splits intro!: evolvesI_update)
next
  case (ProjectionFailed rid eid code)
  then show ?thesis using s
    by (auto simp: eventing_def mark_event_projection_failure_def Let_def sbind_eq_Inr list_all2_refl
        intro!: evolvesI_update)
next
  case (Compact older_than batch)
  then show ?thesis using s compact_evolves[OF inv]
    by (auto split: prod.splits simp: list_all2_refl intro!: evolvesI_update)
next
  case (Yield e ex n)
  then obtain y db1 p f row where a: "append_event_in_transaction db e None (Some ''resume_requested'') None None None = Inr (db1, y)"
      and row: "fetch_run db (ei_run e) = Some row" "outcome_clear row"
      and db': "db' = update_leases p f db1"
      and p: "\<And>l. p l \<Longrightarrow> ls_run l = ei_run e \<and> ls_status l = ''active''" "\<And>l. lease_key (f l) = lease_key l"
    using s by (auto simp: eventing_def yield_executor_def sbind_eq_Inr Let_def lease_key_def split: if_splits)
  have runs: "list_all2 run_le (t_runs db) (t_runs db1)" "t_leases db1 = t_leases db"
    using append_evolves[OF ids a] by simp_all
  have "list_all2 (lease_le db) (t_leases db) (update_where p f (t_leases db))"
    by (rule leases_update_evolves) (use p fetch_run_clear[OF row] in auto)
  then show ?thesis using runs by (auto simp: db' intro!: evolvesI_update)
qed

section \<open>The log beside the leases\<close>

text \<open>Lease methods and event methods work on the same runs; any process may interleave them.\<close>

datatype store_call = OfLease lease_call | OfEvent event_call

datatype store_result = LeaseResult lease_result | EventResult event_result

fun store_step :: "clock \<Rightarrow> integrity \<Rightarrow> rcdb \<Rightarrow> store_call \<Rightarrow> rc_error + (rcdb \<times> store_result)" where
  "store_step ck integ db (OfLease c) = sbind (lease_step ck integ db c) (\<lambda>(db', r). Inr (db', LeaseResult r))"
| "store_step ck integ db (OfEvent c) = sbind (event_step ck integ db c) (\<lambda>(db', r). Inr (db', EventResult r))"

definition store_inv :: "rcdb \<Rightarrow> bool" where
  "store_inv db \<longleftrightarrow> lease_inv db \<and> events_inv db"

lemma store_step_inv:
  assumes "store_inv db" "store_step ck integ db c = Inr (db', res)"
  shows "store_inv db'" "log_le db db'" "list_all2 run_le (t_runs db) (t_runs db')"
proof -
  have inv: "lease_inv db" "events_inv db" using assms(1) by (simp_all add: store_inv_def)
  have "store_inv db' \<and> log_le db db' \<and> list_all2 run_le (t_runs db) (t_runs db')"
  proof (cases c)
    case (OfLease a)
    then obtain r where r: "lease_step ck integ db a = Inr (db', r)" using assms(2) by (auto simp: sbind_eq_Inr)
    then show ?thesis
      using lease_store.step_inv[OF inv(1) r] step_evolves[OF inv(1) r] lease_same_log[OF r] same_log_inv same_log_le inv(2)
      by (auto simp: store_inv_def evolves_def)
  next
    case (OfEvent a)
    then obtain r where r: "event_step ck integ db a = Inr (db', r)" using assms(2) by (auto simp: sbind_eq_Inr)
    have e: "evolves db [] db'" by (rule event_step_evolves[OF events_invD(1)[OF inv(2)] inv(2) r])
    from evolves_inv[OF inv(1) e] e show ?thesis
      using event_step_log[OF inv(2) r] by (simp add: store_inv_def evolves_def)
  qed
  then show "store_inv db'" "log_le db db'" "list_all2 run_le (t_runs db) (t_runs db')" by simp_all
qed

interpretation event_store: txn_system "store_step ck integ" store_inv for ck integ
  by unfold_locales (rule store_step_inv(1))

lemma run_store_inv: "store_inv db \<Longrightarrow> store_inv (run_txns (store_step ck integ) db calls)"
  by (rule event_store.run_inv)

lemma run_store_le: "store_inv db \<Longrightarrow> log_le db (run_txns (store_step ck integ) db calls)"
  by (rule event_store.run_preorder[where R = log_le]) (use store_step_inv(2) log_le_trans in auto)

lemma run_store_runs:
  "store_inv db \<Longrightarrow> list_all2 run_le (t_runs db) (t_runs (run_txns (store_step ck integ) db calls))"
  by (rule event_store.run_preorder[where R = "\<lambda>x y. list_all2 run_le (t_runs x) (t_runs y)"])
    (use store_step_inv(3) runs_refl runs_trans in blast)+

section \<open>Reading with a cursor\<close>

lemma numbered_filter:
  assumes "map f xs = [1 .. n]" "0 \<le> a"
  shows "filter (\<lambda>x. a < f x) xs = drop (nat a) xs"
  using assms(1)
proof (induction xs arbitrary: n rule: rev_induct)
  case (snoc x xs)
  have pos: "1 \<le> n" using snoc.prems by (cases "1 \<le> n") simp_all
  then have e: "[1 .. n] = [1 .. n - 1] @ [n]" using upto_snoc[of "n - 1"] by simp
  then have xs: "map f xs = [1 .. n - 1]" "f x = n" using snoc.prems by simp_all
  have "int (length xs) = n - 1" using arg_cong[OF xs(1), of length] pos by simp
  then show ?case using snoc.IH[OF xs(1)] xs(2) assms(2) by auto
qed simp

lemma numbered_events:
  assumes "store_inv db" "fetch_run db rid = Some r"
  shows "map ev_seq (run_events db rid) = [1 .. run_latest_event_seq r]" "0 \<le> run_latest_event_seq r"
    "int (length (run_events db rid)) = run_latest_event_seq r"
proof -
  have "r \<in> set (t_runs db)" "run_id r = rid" using fetch_run_SomeD[OF assms(2)] by simp_all
  then show s: "map ev_seq (run_events db rid) = [1 .. run_latest_event_seq r]" and n: "0 \<le> run_latest_event_seq r"
    using events_invD(5)[of db r] assms(1) by (auto simp: store_inv_def)
  show "int (length (run_events db rid)) = run_latest_event_seq r" using arg_cong[OF s, of length] n by simp
qed

lemma select_after:
  assumes "store_inv db" "fetch_run db rid = Some r" "0 \<le> after"
  shows "select_events db (\<lambda>x. ev_run x = rid \<and> after < ev_seq x) n = take n (drop (nat after) (run_events db rid))"
proof -
  note num = numbered_events[OF assms(1,2)]
  have "filter (\<lambda>x. ev_run x = rid \<and> after < ev_seq x) (t_events db) = filter (\<lambda>x. after < ev_seq x) (run_events db rid)"
    by (simp add: run_events_def conj_commute)
  also have "\<dots> = drop (nat after) (run_events db rid)" by (rule numbered_filter[OF num(1) assms(3)])
  finally have e: "filter (\<lambda>x. ev_run x = rid \<and> after < ev_seq x) (t_events db) = drop (nat after) (run_events db rid)" .
  have "sorted (map ev_seq (drop (nat after) (run_events db rid)))"
    by (simp add: num(1) flip: drop_map)
  then show ?thesis by (simp add: select_events_def e sorted_sort_id sort_key_id_if_sorted)
qed

lemma event_number:
  assumes "store_inv db" "fetch_run db rid = Some r" "i < length (run_events db rid)"
  shows "ev_seq (run_events db rid ! i) = int i + 1"
proof -
  note num = numbered_events[OF assms(1,2)]
  have "map ev_seq (run_events db rid) ! i = [1 .. run_latest_event_seq r] ! i" by (simp add: num(1))
  then show ?thesis using assms(3) num(3) by simp
qed

lemma page_after:
  assumes inv: "store_inv db" and r: "fetch_run db rid = Some r" and a: "0 \<le> after" "after \<le> run_latest_event_seq r"
  shows "list_events db rid after limit = Inr (page_of after (take (safe_limit limit) (drop (nat after) (run_events db rid))))"
    "pg_next_cursor (page_of after (take (safe_limit limit) (drop (nat after) (run_events db rid)))) =
       after + int (length (take (safe_limit limit) (drop (nat after) (run_events db rid))))"
proof -
  let ?es = "run_events db rid"
  let ?rows = "take (safe_limit limit) (drop (nat after) ?es)"
  note num = numbered_events[OF inv r]
  have pos: "0 < safe_limit limit" by (simp add: safe_limit_def)
  have hd: "ev_seq (hd ?rows) = after + 1" if "?rows \<noteq> []"
  proof -
    have i: "nat after < length ?es" using that pos by auto
    then have "hd ?rows = ?es ! nat after" using pos by (simp add: hd_take hd_drop_conv_nth)
    then show ?thesis using event_number[OF inv r i] a(1) by simp
  qed
  have none: "after = run_latest_event_seq r" if "?rows = []"
    using that pos a num(3) by auto
  show "list_events db rid after limit = Inr (page_of after ?rows)"
    unfolding list_events_def select_after[OF inv r a(1)] r or_raise_simps sbind_Inr Let_def
    using hd none by (cases "?rows = []") (simp_all only: if_False if_True order_less_irrefl not_False_eq_True simp_thms)
  show "pg_next_cursor (page_of after ?rows) = after + int (length ?rows)"
  proof (cases "?rows = []")
    case False
    let ?k = "nat after + length ?rows - 1"
    have l: "length ?rows \<le> length ?es - nat after" "0 < length ?rows" using False by auto
    then have k: "?k < length ?es" by auto
    have "last ?rows = ?rows ! (length ?rows - 1)" using False by (rule last_conv_nth)
    also have "\<dots> = ?es ! ?k" using False l by (subst nth_take) auto
    finally have "ev_seq (last ?rows) = int ?k + 1" using event_number[OF inv r k] by metis
    moreover have "int ?k + 1 = after + int (length ?rows)" using l(2) a(1) by linarith
    moreover have "pg_next_cursor (page_of after ?rows) = ev_seq (last ?rows)" using False by (simp add: page_of_def)
    ultimately show ?thesis by metis
  qed (auto simp: page_of_def)
qed

lemma run_txns_append: "run_txns step s (as @ bs) = run_txns step (run_txns step s as) bs"
  by (induction as arbitrary: s) (auto split: sum.splits)

text \<open>The log of a run only grows: what was there is a prefix, up to marks and compaction.\<close>

lemma log_prefix:
  assumes "log_le db db'"
  obtains zs where "map event_core (run_events db' rid) = map event_core (run_events db rid) @ zs"
proof -
  obtain M ys where M: "t_events db' = M @ ys" "list_all2 event_le (t_events db) M"
    using assms by (auto simp: log_le_def)
  have "map event_core (filter (\<lambda>x. ev_run x = rid) M) = map event_core (filter (\<lambda>x. ev_run x = rid) (t_events db))"
    using M(2) by (induction rule: list_all2_induct) (auto simp: event_le_def dest: event_core_fields(2))
  then show thesis using that M(1) by (simp add: run_events_def)
qed

text \<open>A reader that polls with its cursor, while the calls of each batch run between two polls.\<close>

fun follow :: "clock \<Rightarrow> integrity \<Rightarrow> string \<Rightarrow> int \<Rightarrow> rcdb \<Rightarrow> int \<Rightarrow> store_call list list \<Rightarrow> event_row list" where
  "follow ck integ rid limit db cursor [] = []"
| "follow ck integ rid limit db cursor (calls # batches) =
     (let db' = run_txns (store_step ck integ) db calls
      in case list_events db' rid cursor limit of
           Inl e \<Rightarrow> follow ck integ rid limit db' cursor batches
         | Inr page \<Rightarrow> pg_events page @ follow ck integ rid limit db' (pg_next_cursor page) batches)"

lemma page_of_events [simp]: "pg_events (page_of a rows) = rows"
  by (simp add: page_of_def)

lemma store_run_found:
  assumes inv: "store_inv db" and r: "fetch_run db rid = Some r" and db': "db' = run_txns (store_step ck integ) db calls"
  obtains r' where "fetch_run db' rid = Some r'" "store_inv db'" "log_le db db'" "run_latest_event_seq r \<le> run_latest_event_seq r'"
    "run_le r r'"
proof -
  have i: "store_inv db'" "log_le db db'" "list_all2 run_le (t_runs db) (t_runs db')"
    unfolding db' by (rule run_store_inv[OF inv], rule run_store_le[OF inv], rule run_store_runs[OF inv])
  obtain r' where r': "fetch_run db' rid = Some r'" "run_le r r'" using runs_fetch[OF i(3) r] by blast
  obtain zs where "map event_core (run_events db' rid) = map event_core (run_events db rid) @ zs"
    using log_prefix[OF i(2)] by blast
  from arg_cong[OF this, of length] have "length (run_events db rid) \<le> length (run_events db' rid)" by simp
  then show thesis
    using that[OF r'(1) i(1,2) _ r'(2)] numbered_events(3)[OF inv r] numbered_events(3)[OF i(1) r'(1)] by simp
qed

lemma take_drop_add: "take k (drop c xs) @ take m (drop (c + k) xs) = take (k + m) (drop c xs)"
  by (simp add: take_add add.commute)

lemma slice_of_prefix:
  assumes "rows = take n (drop c xs)" "c \<le> length xs"
  shows "map f rows = take (length rows) (drop c (map f xs @ zs))"
proof -
  have "length rows \<le> length xs - c" "rows = take (length rows) (drop c xs)"
    unfolding assms(1) by (simp, metis append_eq_conv_conj append_take_drop_id)
  then show ?thesis using assms(2) by (metis (no_types, lifting) drop_append diff_is_0_eq' drop0 drop_map length_drop
        length_map take_append take_0 append_Nil2 take_map)
qed

lemma follow_prefix:
  assumes "store_inv db" "fetch_run db rid = Some r" "0 \<le> c" "c \<le> run_latest_event_seq r"
  shows "map event_core (follow ck integ rid limit db c batches) =
    take (length (follow ck integ rid limit db c batches))
      (drop (nat c) (map event_core (run_events (run_txns (store_step ck integ) db (concat batches)) rid)))"
  using assms
proof (induction batches arbitrary: db r c)
  case (Cons calls batches)
  define db1 where "db1 = run_txns (store_step ck integ) db calls"
  obtain r1 where r1: "fetch_run db1 rid = Some r1" "store_inv db1" "run_latest_event_seq r \<le> run_latest_event_seq r1"
    using store_run_found[OF Cons.prems(1,2) db1_def] by metis
  have c1: "c \<le> run_latest_event_seq r1" using Cons.prems(4) r1(3) by simp
  define rows where "rows = take (safe_limit limit) (drop (nat c) (run_events db1 rid))"
  define c2 where "c2 = c + int (length rows)"
  note page = page_after[OF r1(2,1) Cons.prems(3) c1, of limit, folded rows_def]
  have f: "follow ck integ rid limit db c (calls # batches) = rows @ follow ck integ rid limit db1 c2 batches"
    by (simp add: Let_def db1_def[symmetric] page(1) page(2)[folded c2_def])
  have c2: "0 \<le> c2" "c2 \<le> run_latest_event_seq r1" "nat c2 = nat c + length rows"
    using Cons.prems(3) c1 numbered_events(3)[OF r1(2,1)] by (auto simp: c2_def rows_def)
  define es where "es = map event_core (run_events (run_txns (store_step ck integ) db1 (concat batches)) rid)"
  define seen where "seen = follow ck integ rid limit db1 c2 batches"
  have IH: "map event_core seen = take (length seen) (drop (nat c2) es)"
    using Cons.IH[OF r1(2,1) c2(1,2)] by (simp add: seen_def es_def)
  obtain zs where zs: "es = map event_core (run_events db1 rid) @ zs"
    using log_prefix[OF run_store_le[OF r1(2)]] unfolding es_def by metis
  have "map event_core rows = take (length rows) (drop (nat c) es)"
    unfolding zs by (rule slice_of_prefix[OF rows_def]) (use c1 numbered_events(3)[OF r1(2,1)] in simp)
  then have "map event_core (rows @ seen) = take (length rows + length seen) (drop (nat c) es)"
    by (simp add: IH c2(3) take_drop_add)
  then show ?case
    unfolding f seen_def[symmetric]
    by (simp add: db1_def[symmetric] es_def[symmetric] run_txns_append)
qed simp

lemma follow_idle:
  assumes "store_inv db" "fetch_run db rid = Some r" "0 \<le> c" "c \<le> run_latest_event_seq r"
  shows "follow ck integ rid limit db c (replicate n []) = take (n * safe_limit limit) (drop (nat c) (run_events db rid))"
  using assms(3,4)
proof (induction n arbitrary: c)
  case (Suc n)
  define rows where "rows = take (safe_limit limit) (drop (nat c) (run_events db rid))"
  define c2 where "c2 = c + int (length rows)"
  note page = page_after[OF assms(1,2) Suc.prems, of limit, folded rows_def]
  have c2: "0 \<le> c2" "c2 \<le> run_latest_event_seq r" "nat c2 = nat c + length rows"
    using Suc.prems numbered_events(3)[OF assms(1,2)] by (auto simp: c2_def rows_def)
  have "follow ck integ rid limit db c (replicate (Suc n) []) = rows @ follow ck integ rid limit db c2 (replicate n [])"
    by (simp add: Let_def page(1) page(2)[folded c2_def])
  also have "\<dots> = rows @ take (n * safe_limit limit) (drop (nat c + length rows) (run_events db rid))"
    by (simp add: Suc.IH[OF c2(1,2)] c2(3))
  also have "\<dots> = take (Suc n * safe_limit limit) (drop (nat c) (run_events db rid))"
    by (auto simp: rows_def take_add min_def add.commute)
  finally show ?case .
qed simp

lemma follow_append:
  assumes "store_inv db" "fetch_run db rid = Some r" "0 \<le> c" "c \<le> run_latest_event_seq r"
  shows "follow ck integ rid limit db c (as @ bs) =
    follow ck integ rid limit db c as @
    follow ck integ rid limit (run_txns (store_step ck integ) db (concat as))
      (c + int (length (follow ck integ rid limit db c as))) bs"
  using assms
proof (induction as arbitrary: db r c)
  case (Cons calls batches)
  define db1 where "db1 = run_txns (store_step ck integ) db calls"
  obtain r1 where r1: "fetch_run db1 rid = Some r1" "store_inv db1" "run_latest_event_seq r \<le> run_latest_event_seq r1"
    using store_run_found[OF Cons.prems(1,2) db1_def] by metis
  have c1: "c \<le> run_latest_event_seq r1" using Cons.prems(4) r1(3) by simp
  define rows where "rows = take (safe_limit limit) (drop (nat c) (run_events db1 rid))"
  define c2 where "c2 = c + int (length rows)"
  note page = page_after[OF r1(2,1) Cons.prems(3) c1, of limit, folded rows_def]
  have c2: "0 \<le> c2" "c2 \<le> run_latest_event_seq r1"
    using Cons.prems(3) c1 numbered_events(3)[OF r1(2,1)] by (auto simp: c2_def rows_def)
  from Cons.IH[OF r1(2,1) c2] show ?case
    by (simp add: Let_def db1_def[symmetric] page(1) page(2)[folded c2_def] run_txns_append c2_def add.assoc)
qed simp

section \<open>Compaction\<close>

lemma compact_text: "compacted_text (ev_payload_json (compact_event x))"
proof -
  have s: "sort_key fst [(''compacted'', a), (''sourceId'', b)] = [(''compacted'', a), (''sourceId'', b)]" for a b :: string
    by (simp add: less_list_code)
  have t: "CHR ''{'' # raw_text ''compacted'' @ '':true'' =
      CHR ''{'' # CHR 0x22 # ''compacted'' @ CHR 0x22 # '':true''" by code_simp
  have l: "map lower_ascii (CHR ''{'' # CHR 0x22 # ''compacted'' @ CHR 0x22 # '':true'') =
      CHR ''{'' # CHR 0x22 # ''compacted'' @ CHR 0x22 # '':true''" by code_simp
  obtain rest where "ev_payload_json (compact_event x) = CHR ''{'' # CHR 0x22 # ''compacted'' @ CHR 0x22 # '':true'' @ rest"
    using t by (simp add: compact_event_def s raw_member_def)
  then show ?thesis using l by (simp add: compacted_text_def)
qed

lemma compact_event_row:
  assumes "distinct (map ev_event_id es)" "x \<in> set es" "set rows \<subseteq> set es" "y = x \<or> y = compact_event x"
  shows "fold (\<lambda>row x. if is_event (ev_run row) (ev_event_id row) x
      then x\<lparr>ev_payload_json := ev_payload_json (compact_event row)\<rparr> else x) rows y =
    (if x \<in> set rows then compact_event x else y)"
  using assms(3,4)
proof (induction rows arbitrary: y)
  case (Cons row rows)
  have ids: "ev_event_id y = ev_event_id x" "ev_run y = ev_run x" using Cons.prems(2) by (auto simp: compact_event_def)
  have hit: "is_event (ev_run row) (ev_event_id row) y \<longleftrightarrow> row = x"
    using distinct_key_eq[OF assms(1) assms(2), of row] Cons.prems(1) ids by (auto simp: is_event_def)
  have same: "y\<lparr>ev_payload_json := ev_payload_json (compact_event x)\<rparr> = compact_event x"
    using Cons.prems(2) by (auto simp: compact_event_def)
  show ?case using Cons.IH Cons.prems hit same by auto
qed simp

lemma compact_fold_map:
  "t_events (fold (\<lambda>row. update_events (is_event (ev_run row) (ev_event_id row))
      (\<lambda>x. x\<lparr>ev_payload_json := ev_payload_json (compact_event row)\<rparr>)) rows db) =
   map (fold (\<lambda>row x. if is_event (ev_run row) (ev_event_id row) x
      then x\<lparr>ev_payload_json := ev_payload_json (compact_event row)\<rparr> else x) rows) (t_events db)"
  by (induction rows arbitrary: db) (simp_all add: update_where_def)

lemma compact_events:
  assumes inv: "events_inv db" and s: "compact_terminal_event_payloads db older_than batch = (db', k)"
  defines "rows \<equiv> take (nat (max 1 (min batch 1000))) (sort_key ev_created_at (filter (compactable db older_than) (t_events db)))"
  shows "t_events db' = map (\<lambda>x. if x \<in> set rows then compact_event x else x) (t_events db)" "k = length rows"
proof -
  have sub: "set rows \<subseteq> set (t_events db)" by (auto simp: rows_def dest: in_set_takeD)
  have "t_events db' = map (fold (\<lambda>row x. if is_event (ev_run row) (ev_event_id row) x
      then x\<lparr>ev_payload_json := ev_payload_json (compact_event row)\<rparr> else x) rows) (t_events db)"
    using s by (auto simp: compact_terminal_event_payloads_def Let_def rows_def compact_fold_map)
  then show "t_events db' = map (\<lambda>x. if x \<in> set rows then compact_event x else x) (t_events db)"
    using compact_event_row[OF events_invD(2)[OF inv] _ sub] by simp
  show "k = length rows" using s by (auto simp: compact_terminal_event_payloads_def Let_def rows_def)
qed

lemma filter_map_other:
  "(\<And>x. x \<in> set xs \<Longrightarrow> q (f x) \<longleftrightarrow> p x \<and> x \<notin> R) \<Longrightarrow> length (filter q (map f xs)) = length (filter (\<lambda>x. x \<notin> R) (filter p xs))"
  by (induction xs) auto

lemma length_filter_notin:
  assumes "distinct xs" "set ys \<subseteq> set xs" "distinct ys"
  shows "length (filter (\<lambda>x. x \<notin> set ys) xs) = length xs - length ys"
proof -
  have "length (filter (\<lambda>x. x \<notin> set ys) xs) = card (set xs - set ys)"
    using assms(1) distinct_card[of "filter (\<lambda>x. x \<notin> set ys) xs"] by (simp add: set_diff_eq)
  then show ?thesis using assms by (simp add: card_Diff_subset distinct_card)
qed

section \<open>A story\<close>

definition demo_event :: "string \<Rightarrow> string option \<Rightarrow> event_input" where
  "demo_event eid key = \<lparr>ei_event_id = eid, ei_run = ''r1'', ei_type = ''runtime_round'', ei_stage = ''rounds'',
     ei_round_no = Some 1, ei_source_id = None, ei_status = ''completed'', ei_summary = ''done'',
     ei_payload = PyDict [(''count'', PyInt 3)], ei_schema_version = ''runtime-control-event/v1'',
     ei_visibility = ''public'', ei_idempotency_key = key, ei_payload_kind = ''compact'',
     ei_projection_attempts = 0, ei_last_projection_error = None, ei_projected_at = None,
     ei_workbench_seq = None, ei_created_at = ''+''\<rparr>"

definition demo_batches :: "store_call list list" where
  "demo_batches =
     [[OfLease (Acquire ''r1'' ''a'' ''+'' ''+iii'' ''l1''), OfEvent (Append (demo_event ''e1'' (Some ''k1'')) None)],
      [OfEvent (AppendExecutor (demo_event ''e2'' None) ''a'' None (Some ''completed'') None (Some ''+'') None None),
       OfEvent (Append (demo_event ''e3'' (Some ''k1'')) None)],
      [OfEvent (Projected ''r1'' ''e1'' 7 None)]]"

definition demo_log :: rcdb where
  "demo_log = run_txns (store_step tally_clock (\<lambda>_ _. None)) (demo_db []) (concat demo_batches)"

lemma demo_store_inv: "store_inv (demo_db [])"
  using demo_inv(1) by (simp add: store_inv_def events_inv_def log_heads_def run_events_def demo_db_def empty_db_def demo_run_def)

lemma demo_log_inv: "store_inv demo_log"
  unfolding demo_log_def by (rule run_store_inv[OF demo_store_inv])

lemma demo_log_tables:
  "map ev_event_id (t_events demo_log) = [''e1'', ''e2''] \<and> map ev_workbench_seq (t_events demo_log) = [Some 7, None] \<and>
   map (\<lambda>r. (run_id r, run_status r, run_latest_event_seq r)) (t_runs demo_log) = [(''r1'', ''completed'', 2)]"
  by code_simp

section \<open>Properties\<close>

lemma seqs_of_cores: "map event_core xs = map event_core ys \<Longrightarrow> map ev_seq xs = map ev_seq ys"
proof -
  have "map ev_seq zs = map ev_seq (map event_core zs)" for zs by (simp add: event_core_def)
  then show "map event_core xs = map event_core ys \<Longrightarrow> map ev_seq xs = map ev_seq ys" by metis
qed

lemma take_upto: "int k \<le> n \<Longrightarrow> take k [1 .. n] = [1 .. int k]"
  using upto_split2[of 1 "int k" n] by (cases k) simp_all





lemma store_step_evolves:
  assumes "store_inv db" "store_step ck integ db c = Inr (db', res)"
  shows "\<exists>new. evolves db new db'"
proof (cases c)
  case (OfLease a)
  then show ?thesis using assms step_evolves[of db ck integ a db'] by (auto simp: store_inv_def sbind_eq_Inr)
next
  case (OfEvent a)
  then obtain r where r: "event_step ck integ db a = Inr (db', r)" using assms(2) by (auto simp: sbind_eq_Inr)
  then show ?thesis using event_step_evolves[OF events_invD(1) _ r] assms(1) unfolding store_inv_def by blast
qed

text \<open>
  C21: An executor that lost its lease writes nothing more. Once a lease ended, then after any lease
  and event calls its attempt number is refused as stale by the heartbeat, by the append of an event
  (and so by every change of the run's status an event carries) and by the yield.
\<close>

theorem retired_executor_appends_nothing:
  assumes inv: "store_inv db" and l: "l \<in> set (t_leases db)" "ls_status l \<noteq> ''active''"
    and db': "db' = run_txns (store_step ck integ) db calls" and e: "ei_run e = ls_run l"
  shows "heartbeat_executor_lease ck db' (ls_run l) ex (Some (ls_attempt_no l)) at expires = rc_fail ''runtime_executor_stale'' \<and>
    append_executor_event ck db' e ex sn st stop cp ckpt (Some (ls_attempt_no l)) = rc_fail ''runtime_executor_stale'' \<and>
    isl (yield_executor ck integ db' e ex (ls_attempt_no l))"
proof -
  let ?R = "\<lambda>x y. \<forall>l \<in> set (t_leases x). ls_status l \<noteq> ''active'' \<longrightarrow> l \<in> set (t_leases y)"
  have "?R x y" if "store_inv x" "store_step ck integ x a = Inr (y, r)" for x a y r
    using store_step_evolves[OF that] evolves_lease by (fastforce simp: lease_le_def)
  then have "?R db db'" unfolding db' using event_store.run_preorder[of ?R ck integ db calls] inv by blast
  then have "l \<in> set (t_leases db')" using l by blast
  from retired_stale[OF _ this l(2)] run_store_inv[OF inv] show ?thesis
    by (simp add: db' store_inv_def heartbeat_executor_lease_def append_executor_event_def yield_executor_def e)
qed

theorem retired_executor_appends_nothing_witness:
  "append_executor_event tally_clock (run_txns (store_step tally_clock (\<lambda>_ _. None))
       (demo_db [demo_lease ''l1'' 1 ''expired'']) [OfLease (Acquire ''r1'' ''ex'' ''+'' ''+ii'' ''l2'')])
     (demo_event ''e1'' None) ''ex'' None (Some ''completed'') None None None (Some 1) =
   rc_fail ''runtime_executor_stale''"
proof -
  have "store_inv (demo_db [demo_lease ''l1'' 1 ''expired''])"
    using demo_inv(2) by (simp add: store_inv_def events_inv_def log_heads_def run_events_def demo_db_def empty_db_def demo_run_def)
  from retired_executor_appends_nothing[OF this, of "demo_lease ''l1'' 1 ''expired''" _ tally_clock "\<lambda>_ _. None"
      "[OfLease (Acquire ''r1'' ''ex'' ''+'' ''+ii'' ''l2'')]" "demo_event ''e1'' None"]
  show ?thesis by (simp add: demo_event_def)
qed



text \<open>
  C23: An event is shown once. After the workbench took an event under a number, then after any calls
  it still has that number and its payload, another number is refused, the same one is accepted
  again, and the event is not listed for projection any more.
\<close>

theorem projected_once:
  assumes inv: "store_inv db" and x: "fetch_event db rid eid = Some x" "ev_workbench_seq x = Some n" "ev_visibility x = ''public''"
    and db': "db' = run_txns (store_step ck integ) db calls"
  shows "(\<exists>y. fetch_event db' rid eid = Some y \<and> event_core y = event_core x \<and> ev_payload_json y = ev_payload_json x \<and>
      ev_workbench_seq y = Some n) \<and>
    (isl (mark_event_projection_success db' rid eid m at) \<longleftrightarrow> m \<noteq> n) \<and>
    (list_unprojected_public_events db' rid limit = Inr ys \<longrightarrow> eid \<notin> ev_event_id ` set ys)"
proof -
  have inv': "store_inv db'" and le: "log_le db db'"
    unfolding db' by (rule run_store_inv[OF inv], rule run_store_le[OF inv])
  have xm: "x \<in> set (t_events db)" "ev_run x = rid" "ev_event_id x = eid"
    using x(1) by (auto simp: fetch_event_def dest!: fetchone_SomeD)
  obtain M zs where M: "t_events db' = M @ zs" "list_all2 event_le (t_events db) M" using le by (auto simp: log_le_def)
  obtain y where y: "y \<in> set (t_events db')" "event_le x y" using list_all2_setD1[OF M(2) xm(1)] M(1) by auto
  have yk: "ev_run y = rid" "ev_event_id y = eid" "ev_workbench_seq y = Some n" "ev_payload_json y = ev_payload_json x"
      "event_core y = event_core x"
    using y(2) event_leD[OF y(2)] x(2,3) xm by (auto simp: event_le_def)
  have ids: "distinct (map ev_event_id (t_events db'))" using inv' events_invD(2) by (simp add: store_inv_def)
  have f: "fetch_event db' rid eid = Some y"
    unfolding fetch_event_def by (rule fetchone_keyed[OF ids y(1)]) (use yk in auto)
  have only: "z = y" if "z \<in> set (t_events db')" "ev_event_id z = eid" for z
    using distinct_key_eq[OF ids that(1) y(1)] that(2) yk(2) by simp
  have "isl (mark_event_projection_success db' rid eid m at) \<longleftrightarrow> m \<noteq> n"
  proof -
    define g where "g = (\<lambda>x :: event_row. x\<lparr>ev_workbench_seq := coalesce (ev_workbench_seq x) (Some m),
      ev_projected_at := coalesce (ev_projected_at x) at, ev_last_projection_error := None\<rparr>)"
    have "g y \<in> set (t_events (update_events (is_event rid eid) g db'))"
      using y(1) yk by (auto simp: set_update_where is_event_def intro!: image_eqI[of _ _ y])
    moreover have "ev_run (g y) = rid" "ev_event_id (g y) = eid" using yk by (simp_all add: g_def)
    ultimately have "fetch_event (update_events (is_event rid eid) g db') rid eid \<noteq> None"
      by (auto simp: fetch_event_def fetchone_None_iff)
    then show ?thesis
      using f yk(3) by (auto simp: mark_event_projection_success_def get_event_def Let_def g_def)
  qed
  moreover have "eid \<notin> ev_event_id ` set ys" if "list_unprojected_public_events db' rid limit = Inr ys"
  proof
    assume "eid \<in> ev_event_id ` set ys"
    then obtain z where "z \<in> set ys" "ev_event_id z = eid" by auto
    then show False using that only yk(3)
      by (auto simp: list_unprojected_public_events_def sbind_eq_Inr select_events_def unprojected_def dest!: in_set_takeD)
  qed
  ultimately show ?thesis using f yk(3-5) by blast
qed

theorem projected_once_witness:
  "isl (mark_event_projection_success (run_txns (store_step tally_clock (\<lambda>_ _. None)) demo_log (concat demo_batches))
     ''r1'' ''e1'' 8 None)"
proof -
  have "case fetch_event demo_log ''r1'' ''e1'' of
      Some x \<Rightarrow> ev_workbench_seq x = Some 7 \<and> ev_visibility x = ''public'' | None \<Rightarrow> False" by code_simp
  then obtain x where "fetch_event demo_log ''r1'' ''e1'' = Some x" "ev_workbench_seq x = Some 7" "ev_visibility x = ''public''"
    by (auto split: option.splits)
  from projected_once[OF demo_log_inv this refl, of tally_clock "\<lambda>_ _. None" "concat demo_batches" 8 None 1 "[]"]
  show ?thesis by simp
qed

text \<open>
  C24: Compaction makes progress and ends. A batch compacts as many payloads as its limit and the
  compactable events allow, each of them is not compactable any more and no other becomes so; hence
  calls in a row reach the point where nothing is left, and then a call changes nothing.
\<close>

theorem compaction_progress:
  assumes inv: "store_inv db" and s: "compact_terminal_event_payloads db older_than batch = (db', k)"
  shows "k = min (nat (max 1 (min batch 1000))) (rowcount (compactable db older_than) (t_events db)) \<and>
    rowcount (compactable db' older_than) (t_events db') = rowcount (compactable db older_than) (t_events db) - k \<and>
    (k = 0 \<longrightarrow> t_events db' = t_events db) \<and> t_runs db' = t_runs db \<and> t_leases db' = t_leases db"
proof -
  have ev: "events_inv db" using inv by (simp add: store_inv_def)
  let ?todo = "filter (compactable db older_than) (t_events db)"
  define rows where "rows = take (nat (max 1 (min batch 1000))) (sort_key ev_created_at ?todo)"
  note es = compact_events[OF ev s, folded rows_def]
  have same: "t_runs db' = t_runs db" "t_leases db' = t_leases db" using compact_evolves[OF ev s] by simp_all
  have c: "compactable db' older_than y \<longleftrightarrow> compactable db older_than y" for y
    by (simp add: compactable_def same active_leases_def)
  have dis: "distinct (t_events db)" using events_invD(2)[OF ev] by (simp add: distinct_map)
  have rows: "set rows \<subseteq> set ?todo" "distinct rows"
    using dis by (auto simp: rows_def dest: in_set_takeD)
  have k: "k = min (nat (max 1 (min batch 1000))) (length ?todo)" unfolding es(2) by (simp add: rows_def min.commute)
  have gone: "\<not> compactable db older_than (compact_event x)" for x
    using compact_text[of x] by (simp add: compactable_def)
  have "rowcount (compactable db' older_than) (t_events db') =
      length (filter (\<lambda>x. x \<notin> set rows) ?todo)"
    unfolding rowcount_def es(1) c by (rule filter_map_other) (simp add: gone)
  also have "\<dots> = length ?todo - length rows"
    using dis by (intro length_filter_notin rows) simp_all
  finally have left: "rowcount (compactable db' older_than) (t_events db') = length ?todo - k" unfolding es(2) .
  have "t_events db' = t_events db" if "k = 0" using that es by simp
  then show ?thesis using k left same unfolding rowcount_def by blast
qed

theorem compaction_progress_witness:
  "snd (compact_terminal_event_payloads (demo_log\<lparr>t_events := map (\<lambda>x. x\<lparr>ev_visibility := ''internal''\<rparr>) (t_events demo_log),
     t_leases := []\<rparr>) ''++'' 5) = 2"
proof -
  let ?db = "demo_log\<lparr>t_events := map (\<lambda>x. x\<lparr>ev_visibility := ''internal''\<rparr>) (t_events demo_log), t_leases := []\<rparr>"
  have k: "event_key (x\<lparr>ev_visibility := ''internal''\<rparr>) = event_key x" for x by (simp add: event_key_def)
  have "List.map_filter event_key (t_events ?db) = List.map_filter event_key (t_events demo_log)"
    by (simp add: List.map_filter_def filter_map comp_def k)
  moreover have "map ev_seq (run_events ?db rid) = map ev_seq (run_events demo_log rid)" for rid
    by (simp add: run_events_def filter_map comp_def)
  ultimately have "store_inv ?db"
    using demo_log_inv by (simp add: store_inv_def events_inv_def log_heads_def lease_inv_def comp_def image_image)
  moreover obtain db' n where c: "compact_terminal_event_payloads ?db ''++'' 5 = (db', n)" by fastforce
  moreover have "rowcount (compactable ?db ''++'') (t_events ?db) = 2" by code_simp
  ultimately show ?thesis using compaction_progress[of ?db "''++''" 5 db' n] by simp
qed

end
