(* ===== verification/CheckpointRecovery.thy ===== *)
theory CheckpointRecovery
  imports RecoveryGate EventLog
begin

text \<open>
  \<open>checkpoint_recovery.py\<close>, \<open>recovery_attention.py\<close> and the readers of a checkpoint in \<open>store.py\<close>:
  which checkpoint a run whose executor was lost may go on from, what becomes of the run when it
  may not, and the attention rows of the runs that wait for an answer about an external effect.
\<close>

section \<open>Reading a checkpoint\<close>

text \<open>The model class \<open>RuntimeCheckpoint\<close>, with the fields the validators read.\<close>

record checkpoint =
  rc_checkpoint_id :: string
  rc_run :: string
  rc_stage :: string
  rc_round_no :: "int option"
  rc_safe_boundary :: string
  rc_run_state :: pyval
  rc_source_plan :: pyval
  rc_durable_refs :: pyval
  rc_schema_version :: string
  rc_candidate_truth_revision :: int
  rc_candidate_truth_hash :: "string option"

text \<open>\<open>RuntimeCheckpoint | RuntimeCheckpointLoadFailure | None\<close>.\<close>

datatype checkpoint_load = NoCheckpoint | LoadFailure string string | LoadedCheckpoint checkpoint

text \<open>Where \<open>_strict_json_object\<close> and the other readers raise, there is no value.\<close>

definition strict_json_object :: "string \<Rightarrow> pyval option" where
  "strict_json_object text =
     (case loads text of Some (PyDict kvs) \<Rightarrow> Some (PyDict kvs) | _ \<Rightarrow> None)"

definition strict_json_object_list :: "string \<Rightarrow> pyval option" where
  "strict_json_object_list text =
     (case loads text of
        Some (PyList vs) \<Rightarrow>
          if list_all (\<lambda>v. case v of PyDict kvs \<Rightarrow> True | _ \<Rightarrow> False) vs then Some (PyList vs) else None
      | _ \<Rightarrow> None)"

fun nonempty_texts :: "pyval list \<Rightarrow> string list option" where
  "nonempty_texts [] = Some []"
| "nonempty_texts (v # vs) =
     (case v of
        PyStr s \<Rightarrow> if s = [] then None else map_option ((#) s) (nonempty_texts vs)
      | _ \<Rightarrow> None)"

definition strict_json_string_list :: "string \<Rightarrow> string list option" where
  "strict_json_string_list text =
     (case loads text of Some (PyList vs) \<Rightarrow> nonempty_texts vs | _ \<Rightarrow> None)"

definition strict_run_source_ids :: "string \<Rightarrow> string list \<times> bool" where
  "strict_run_source_ids text =
     (case strict_json_string_list text of None \<Rightarrow> ([], False) | Some ids \<Rightarrow> (ids, True))"

definition CHECKPOINT_V1 :: string where
  "CHECKPOINT_V1 = ''runtime-control-checkpoint/v1''"

definition CHECKPOINT_V2 :: string where
  "CHECKPOINT_V2 = ''runtime-control-checkpoint/v2''"

definition v2_binding_invalid :: "sha \<Rightarrow> checkpoint_row \<Rightarrow> pyval \<Rightarrow> bool" where
  "v2_binding_invalid sha row run_state \<longleftrightarrow>
     cc_control_state_hash (cp_content row) \<noteq> Some (sha (dumps_raw run_state)) \<or>
     cp_requirement_revision_id row = None \<or> cc_candidate_truth_revision (cp_content row) < 1 \<or>
     cc_candidate_truth_hash (cp_content row) = None"

definition recoverable_checkpoint_from_row_or_failure :: "sha \<Rightarrow> checkpoint_row \<Rightarrow> checkpoint_load" where
  "recoverable_checkpoint_from_row_or_failure sha row =
     (let c = cp_content row; corrupt = LoadFailure (cp_checkpoint_id row) ''runtime_checkpoint_corrupt''
      in if cp_schema_version row \<notin> {CHECKPOINT_V1, CHECKPOINT_V2}
         then LoadFailure (cp_checkpoint_id row) ''runtime_checkpoint_schema_unsupported''
         else
           case (strict_json_object (cc_run_state_json c), strict_json_object (cc_source_plan_json c),
                 strict_json_object_list (cc_pending_commands_json c),
                 strict_json_object (cc_durable_refs_json c), strict_json_object (cc_field_bytes_json c)) of
             (Some run_state, Some source_plan, Some pending_commands, Some durable_refs, Some field_bytes) \<Rightarrow>
               if cp_schema_version row = CHECKPOINT_V2 \<and> v2_binding_invalid sha row run_state then corrupt
               else LoadedCheckpoint
                 \<lparr>rc_checkpoint_id = cp_checkpoint_id row, rc_run = cp_run row, rc_stage = cp_stage row,
                  rc_round_no = cp_round_no row, rc_safe_boundary = cp_safe_boundary row,
                  rc_run_state = run_state, rc_source_plan = source_plan, rc_durable_refs = durable_refs,
                  rc_schema_version = cp_schema_version row,
                  rc_candidate_truth_revision = cc_candidate_truth_revision c,
                  rc_candidate_truth_hash = cc_candidate_truth_hash c\<rparr>
           | _ \<Rightarrow> corrupt)"

section \<open>Safe boundaries\<close>

text \<open>\<open>RuntimeCheckpointValidationContext\<close>.\<close>

record validation_context =
  vx_run_status :: string
  vx_run_stage :: string
  vx_run_round_no :: "int option"
  vx_run_source_ids :: "string list"
  vx_run_source_ids_valid :: bool
  vx_candidate_truth_valid :: bool
  vx_source_operations_main_committed :: bool

type_synonym safe_boundary_validator = "checkpoint \<Rightarrow> validation_context \<Rightarrow> bool"

definition cursor_matches :: "string \<Rightarrow> checkpoint \<Rightarrow> bool" where
  "cursor_matches next_phase c \<longleftrightarrow>
     (case py_get (rc_durable_refs c) ''continuationCursor'' of
        PyDict kvs \<Rightarrow>
          py_eq (py_get (PyDict kvs) ''nextPhase'') (PyStr next_phase) \<and>
          py_eq (py_get (PyDict kvs) ''completedRounds'') (py_get (rc_durable_refs c) ''roundLedgerHighWatermark'')
      | _ \<Rightarrow> False)"

definition checkpoint_matches_run :: safe_boundary_validator where
  "checkpoint_matches_run c x \<longleftrightarrow>
     (vx_run_status x = ''starting'' \<or> (rc_stage c = vx_run_stage x \<and> rc_round_no c = vx_run_round_no x)) \<and>
     vx_run_source_ids_valid x \<and>
     (case py_get (rc_source_plan c) ''sourceIds'' of
        PyList vs \<Rightarrow> nonempty_texts vs = Some (vx_run_source_ids x)
      | _ \<Rightarrow> False)"

definition round_marker_matches :: "checkpoint \<Rightarrow> bool" where
  "round_marker_matches c \<longleftrightarrow>
     (case rc_round_no c of
        None \<Rightarrow> py_get (rc_run_state c) ''round'' = PyNone
      | Some n \<Rightarrow> py_get (rc_run_state c) ''round'' = PyInt n)"

definition before_source_dispatch_is_valid :: safe_boundary_validator where
  "before_source_dispatch_is_valid c x \<longleftrightarrow> False"

definition runtime_candidate_checkpoint_is_valid :: safe_boundary_validator where
  "runtime_candidate_checkpoint_is_valid c x \<longleftrightarrow> False"

definition after_source_result_is_valid :: safe_boundary_validator where
  "after_source_result_is_valid c x \<longleftrightarrow> False"

definition after_round_controller_is_valid :: safe_boundary_validator where
  "after_round_controller_is_valid c x \<longleftrightarrow>
     checkpoint_matches_run c x \<and>
     (case rc_round_no c of
        None \<Rightarrow> False
      | Some n \<Rightarrow>
          if rc_schema_version c = CHECKPOINT_V1 then round_marker_matches c
          else py_eq (py_get (rc_durable_refs c) ''roundLedgerHighWatermark'') (PyInt n)) \<and>
     vx_candidate_truth_valid x \<and> vx_source_operations_main_committed x \<and> cursor_matches ''rounds'' c"

definition before_round_controller_is_valid :: safe_boundary_validator where
  "before_round_controller_is_valid c x \<longleftrightarrow>
     checkpoint_matches_run c x \<and>
     (case rc_round_no c of
        None \<Rightarrow> False
      | Some n \<Rightarrow> py_eq (py_get (rc_durable_refs c) ''roundLedgerHighWatermark'') (PyInt (n - 1))) \<and>
     vx_candidate_truth_valid x \<and> vx_source_operations_main_committed x \<and> cursor_matches ''rounds'' c"

definition before_finalization_is_valid :: safe_boundary_validator where
  "before_finalization_is_valid c x \<longleftrightarrow>
     checkpoint_matches_run c x \<and> vx_candidate_truth_valid x \<and> vx_source_operations_main_committed x \<and>
     cursor_matches ''finalization'' c"

definition after_finalization_is_valid :: safe_boundary_validator where
  "after_finalization_is_valid c x \<longleftrightarrow>
     checkpoint_matches_run c x \<and> rc_stage c = ''finalization'' \<and> rc_round_no c = None \<and>
     (case py_get (rc_durable_refs c) ''finalizationRevision'' of PyInt n \<Rightarrow> 0 < n | _ \<Rightarrow> False) \<and>
     vx_candidate_truth_valid x \<and> vx_source_operations_main_committed x \<and> cursor_matches ''complete'' c"

definition paused_boundary_is_valid :: safe_boundary_validator where
  "paused_boundary_is_valid c x \<longleftrightarrow>
     checkpoint_matches_run c x \<and> vx_candidate_truth_valid x \<and> vx_source_operations_main_committed x \<and>
     cursor_matches ''rounds'' c"

definition SAFE_BOUNDARY_REGISTRY :: "(string \<times> safe_boundary_validator) list" where
  "SAFE_BOUNDARY_REGISTRY =
     [(''before_source_dispatch'', before_source_dispatch_is_valid),
      (''runtime_candidate_checkpoint'', runtime_candidate_checkpoint_is_valid),
      (''after_source_result_commit'', after_source_result_is_valid),
      (''after_round_controller'', after_round_controller_is_valid),
      (''before_round_controller'', before_round_controller_is_valid),
      (''before_finalization'', before_finalization_is_valid),
      (''after_finalization_commit'', after_finalization_is_valid),
      (''entering_pause'', paused_boundary_is_valid),
      (''entering_needs_attention'', paused_boundary_is_valid)]"

definition validate_recoverable_checkpoint :: "checkpoint \<Rightarrow> validation_context \<Rightarrow> string option" where
  "validate_recoverable_checkpoint c x =
     (case map_of SAFE_BOUNDARY_REGISTRY (rc_safe_boundary c) of
        None \<Rightarrow> Some ''runtime_checkpoint_safe_boundary_unregistered''
      | Some validator \<Rightarrow>
          if validator c x then None else Some ''runtime_checkpoint_safe_boundary_invalid'')"

section \<open>The checkpoint of a run\<close>

text \<open>
  What the recovery of a run uses beyond the tables: the hash, the digest of an authorization, and
  \<open>candidate_truth\<close> for \<open>_candidate_truth_matches_checkpoint\<close>, which compares the checkpoint with the
  candidate ledgers.
\<close>

record recovery_env =
  rv_sha :: sha
  rv_digest :: digest
  rv_candidate_truth :: "rcdb \<Rightarrow> checkpoint \<Rightarrow> bool"

definition UNRESOLVED :: string where
  "UNRESOLVED = ''runtime_source_operation_unresolved''"

definition TRUTH_BOUNDARIES :: "string list" where
  "TRUTH_BOUNDARIES =
     [''runtime_candidate_checkpoint'', ''after_source_result_commit'', ''after_round_controller'',
      ''before_round_controller'', ''before_finalization'', ''after_finalization_commit'',
      ''entering_pause'', ''entering_needs_attention'']"

definition context_of :: "recovery_env \<Rightarrow> rcdb \<Rightarrow> run_row \<Rightarrow> checkpoint \<Rightarrow> validation_context" where
  "context_of env db run c =
     (case strict_run_source_ids (run_source_ids_json run) of (ids, valid) \<Rightarrow>
        \<lparr>vx_run_status = run_status run, vx_run_stage = run_current_stage run,
         vx_run_round_no = run_current_round run, vx_run_source_ids = ids, vx_run_source_ids_valid = valid,
         vx_candidate_truth_valid =
           (if rc_safe_boundary c \<in> set TRUTH_BOUNDARIES then rv_candidate_truth env db c else True),
         vx_source_operations_main_committed = True\<rparr>)"

text \<open>A failure that stands behind the unresolved operations, when there are any.\<close>

definition unless_committed :: "bool \<Rightarrow> string \<Rightarrow> string \<Rightarrow> checkpoint_load" where
  "unless_committed committed ckpt reason = LoadFailure ckpt (if committed then reason else UNRESOLVED)"

definition recoverable_checkpoint_from_run_row :: "recovery_env \<Rightarrow> rcdb \<Rightarrow> run_row \<Rightarrow> checkpoint_load" where
  "recoverable_checkpoint_from_run_row env db run =
     (let committed = all_source_operations_main_committed db (run_id run)
      in case run_latest_checkpoint_id run of
           None \<Rightarrow> if committed then NoCheckpoint else LoadFailure (''source-operation:'' @ run_id run) UNRESOLVED
         | Some ckpt \<Rightarrow>
             (case fetchone (\<lambda>r. cp_checkpoint_id r = ckpt) (t_checkpoints db) of
                None \<Rightarrow> unless_committed committed ckpt ''runtime_checkpoint_missing''
              | Some row \<Rightarrow>
                  if cp_run row \<noteq> run_id run then unless_committed committed ckpt ''runtime_checkpoint_run_mismatch''
                  else
                    case recoverable_checkpoint_from_row_or_failure (rv_sha env) row of
                      NoCheckpoint \<Rightarrow> NoCheckpoint
                    | LoadFailure c reason \<Rightarrow> unless_committed committed ckpt reason
                    | LoadedCheckpoint c \<Rightarrow>
                        if \<not> source_operations_recoverable_at_checkpoint (rv_sha env) (rv_digest env) db
                              (run_id run) (rc_checkpoint_id c)
                        then LoadFailure (rc_checkpoint_id c) UNRESOLVED
                        else
                          case validate_recoverable_checkpoint c (context_of env db run c) of
                            Some reason \<Rightarrow> LoadFailure ckpt reason
                          | None \<Rightarrow> LoadedCheckpoint c))"

section \<open>The decision\<close>

text \<open>\<open>RuntimeRecoveryPlan\<close>.\<close>

record recovery_plan =
  rp_reason_code :: string
  rp_target_status :: string
  rp_event_type :: string
  rp_event_status :: string
  rp_summary :: string
  rp_checkpoint_id :: "string option"

definition crash_plan :: "string \<Rightarrow> checkpoint option \<Rightarrow> recovery_plan" where
  "crash_plan status checkpoint =
     \<lparr>rp_reason_code = (if status = ''starting'' then ''runtime_executor_start_timeout''
                        else ''runtime_executor_crash_timeout''),
      rp_target_status = ''failed'',
      rp_event_type = (if status = ''starting'' then ''runtime_executor_start_failed''
                       else ''runtime_executor_crashed''),
      rp_event_status = ''failed'',
      rp_summary = (if status = ''starting'' then ''executor did not acknowledge start before lease timeout''
        else if checkpoint = None then ''executor lease expired without a recoverable checkpoint''
        else ''executor lease expired; recoverable checkpoint was not resumed by recovery policy''),
      rp_checkpoint_id = map_option rc_checkpoint_id checkpoint\<rparr>"

definition decide_expired_lease_recovery :: "string \<Rightarrow> checkpoint_load \<Rightarrow> bool \<Rightarrow> recovery_plan" where
  "decide_expired_lease_recovery status loaded resume_recoverable =
     (if status = ''cancellation_requested'' then
        \<lparr>rp_reason_code = ''runtime_cancel_after_executor_lost'', rp_target_status = ''cancelled'',
         rp_event_type = ''runtime_run_cancelled'', rp_event_status = ''completed'',
         rp_summary = ''run cancelled after executor lease expired'', rp_checkpoint_id = None\<rparr>
      else if status = ''pause_requested'' then
        \<lparr>rp_reason_code = ''runtime_pause_after_executor_lost'', rp_target_status = ''failed'',
         rp_event_type = ''runtime_executor_crashed'', rp_event_status = ''failed'',
         rp_summary = ''executor lease expired before the pending pause reached a safe boundary'',
         rp_checkpoint_id = None\<rparr>
      else
        case loaded of
          LoadFailure ckpt reason \<Rightarrow>
            if reason = UNRESOLVED then
              \<lparr>rp_reason_code = reason, rp_target_status = ''needs_attention'',
               rp_event_type = ''runtime_source_operation_needs_reconciliation'', rp_event_status = ''blocked'',
               rp_summary = ''source operation requires reconciliation'', rp_checkpoint_id = Some ckpt\<rparr>
            else
              \<lparr>rp_reason_code = reason, rp_target_status = ''failed'',
               rp_event_type = ''runtime_checkpoint_restore_failed'', rp_event_status = ''failed'',
               rp_summary = ''checkpoint restore failed'', rp_checkpoint_id = Some ckpt\<rparr>
        | NoCheckpoint \<Rightarrow> crash_plan status None
        | LoadedCheckpoint c \<Rightarrow>
            if resume_recoverable then
              \<lparr>rp_reason_code = ''runtime_checkpoint_restored'', rp_target_status = ''resume_requested'',
               rp_event_type = ''runtime_checkpoint_restored'', rp_event_status = ''completed'',
               rp_summary = ''checkpoint restored'', rp_checkpoint_id = Some (rc_checkpoint_id c)\<rparr>
            else crash_plan status (Some c))"

section \<open>Attention\<close>

text \<open>
  \<open>recovery_attention.py\<close>. The table has one row per run, its INSERT checks the boundary and the
  digest; the trigger on updates lets through what \<open>resolve_recovery_attention\<close> does and nothing else.
\<close>

definition attention_check :: "attention_row \<Rightarrow> bool" where
  "attention_check a \<longleftrightarrow> ra_reason_code a = UNRESOLVED \<and>
     ra_effect_boundary a \<in> {''accepted'', ''dispatch_intent'', ''observed'', ''reconciled''} \<and>
     py_len (ra_evidence_digest a) = 64 \<and> ra_status a \<in> {''active'', ''resolved''} \<and>
     (ra_status a = ''active'' \<longleftrightarrow> ra_resolved_at a = None)"

definition enter_recovery_attention :: "rcdb \<Rightarrow> string \<Rightarrow> string \<Rightarrow> rc_error + rcdb" where
  "enter_recovery_attention db rid entered_at =
     (case unresolved_operations db rid of
        [] \<Rightarrow> rc_fail ''runtime_source_operation_unresolved_evidence_missing''
      | operation # _ \<Rightarrow>
          (case fetchone (\<lambda>a. ra_run a = rid) (t_attention db) of
             Some existing \<Rightarrow>
               if ra_status existing \<noteq> ''active'' \<or>
                  (ra_operation_id existing, ra_effect_boundary existing, ra_evidence_digest existing) \<noteq>
                  (op_operation_id operation, op_phase operation, op_request_hash operation)
               then rc_fail ''runtime_recovery_attention_conflict'' else Inr db
           | None \<Rightarrow>
               let a = \<lparr>ra_run = rid, ra_operation_id = op_operation_id operation, ra_reason_code = UNRESOLVED,
                        ra_effect_boundary = op_phase operation, ra_evidence_digest = op_request_hash operation,
                        ra_status = ''active'', ra_entered_at = entered_at, ra_resolved_at = None\<rparr>
               in if attention_check a then Inr (db\<lparr>t_attention := t_attention db @ [a]\<rparr>) else Inl IntegrityError))"

definition proved_not_dispatched :: "rcdb \<Rightarrow> operation_row \<Rightarrow> bool" where
  "proved_not_dispatched db r \<longleftrightarrow>
     op_retry_posture r = ''safe_retry'' \<and> op_observation_ref r = None \<and>
     list_ex (\<lambda>n. rn_run n = op_run r \<and> rn_operation_id n = op_operation_id r \<and>
         rn_committed_reconciliation_revision n = op_reconciliation_revision r \<and>
         rn_decision_kind n = ''no_dispatch_proved'' \<and>
         rn_history_conclusion n = Some ''accepted_no_dispatch'' \<and> rn_retry_posture n = ''safe_retry'')
       (t_reconciliations db)"

definition resolve_recovery_attention :: "rcdb \<Rightarrow> string \<Rightarrow> string \<Rightarrow> rc_error + rcdb" where
  "resolve_recovery_attention db rid resolved_at =
     (if \<not> list_ex (\<lambda>a. ra_run a = rid \<and> ra_status a = ''active'') (t_attention db)
      then rc_fail ''runtime_recovery_attention_not_active''
      else if list_ex (\<lambda>r. \<not> proved_not_dispatched db r) (unresolved_operations db rid)
      then rc_fail UNRESOLVED
      else Inr (db\<lparr>t_attention := update_where (\<lambda>a. ra_run a = rid \<and> ra_status a = ''active'')
             (\<lambda>a. a\<lparr>ra_status := ''resolved'', ra_resolved_at := Some resolved_at\<rparr>) (t_attention db)\<rparr>))"

end
