(* ===== verification/RunClaims.thy ===== *)
theory RunClaims
  imports EventLog Workflow
begin

text \<open>
  How a run comes into the store and how a worker takes it: \<open>run_acceptance.py\<close> with \<open>accept_run\<close>,
  and \<open>claim_next_runnable_run\<close> with \<open>_next_runnable_run_row\<close> of \<open>store.py\<close>. Accepting writes the run,
  its first event and its snapshot in one transaction, keyed by the intent and the start key of the
  caller; claiming picks the oldest run that may go on, gives it a lease and moves it to \<open>starting\<close>.
\<close>

section \<open>Acceptance\<close>

text \<open>
  The arguments of \<open>accept_run\<close>: the model class \<open>RuntimeRunRecord\<close> as a row, whose two keys and source
  list come in the form the caller gave them, and the snapshot with its event number.
\<close>

record start_request =
  sq_run :: run_row
  sq_run_intent_id :: "string option"
  sq_start_idempotency_key :: "string option"
  sq_source_ids :: "string list"
  sq_initial_event :: event_input
  sq_snapshot :: run_snapshot
  sq_snapshot_latest_event_seq :: int

text \<open>\<open>a or b\<close> of Python on an optional text.\<close>

definition or_text :: "string option \<Rightarrow> string \<Rightarrow> string" where
  "or_text a b = (case a of None \<Rightarrow> b | Some s \<Rightarrow> if s = [] then b else s)"

definition normalize_run_record :: "start_request \<Rightarrow> run_row" where
  "normalize_run_record q =
     (let r = sq_run q
      in r\<lparr>run_intent_id := or_text (sq_run_intent_id q) (run_id r),
           run_start_idempotency_key :=
             or_text (sq_start_idempotency_key q) (or_text (sq_run_intent_id q) (run_id r)),
           run_kind := (if run_kind r = [] then ''primary'' else run_kind r),
           run_source_ids_json := dumps_raw (PyList (map PyStr (sq_source_ids q)))\<rparr>)"

definition validate_initial_run_truth :: "run_row \<Rightarrow> rc_error + unit" where
  "validate_initial_run_truth r =
     (if \<not> outcome_clear r \<or> run_current_action_id r \<noteq> None \<or> run_state_revision r \<noteq> 0
      then rc_fail ''runtime_run_initial_canonical_truth_forbidden'' else Inr ())"

definition queued_key :: "string \<Rightarrow> string" where
  "queued_key rid = ''runtime-run-queued:'' @ rid"

definition validate_run_acceptance :: "run_row \<Rightarrow> start_request \<Rightarrow> rc_error + unit" where
  "validate_run_acceptance r q =
     (let e = sq_initial_event q; s = sq_snapshot q
      in if run_status r \<noteq> ''queued'' \<or> run_current_stage r \<noteq> ''queued'' \<or> run_latest_event_seq r \<noteq> 0 \<or>
            ei_run e \<noteq> run_id r \<or> ei_type e \<noteq> ''runtime_run_queued'' \<or> ei_stage e \<noteq> ''queued'' \<or>
            ei_status e \<noteq> ''queued'' \<or> ei_idempotency_key e \<noteq> Some (queued_key (run_id r)) \<or>
            rs_run s \<noteq> run_id r \<or> rs_status s \<noteq> ''queued'' \<or> rs_current_stage s \<noteq> ''queued'' \<or>
            sq_snapshot_latest_event_seq q \<noteq> 0
         then rc_fail ''runtime_run_acceptance_invalid'' else Inr ())"

definition existing_run_for_start :: "rcdb \<Rightarrow> run_row \<Rightarrow> rc_error + run_row option" where
  "existing_run_for_start db r =
     (let by_intent = fetchone (\<lambda>x. run_intent_id x = run_intent_id r) (t_runs db);
          by_key = fetchone (\<lambda>x. run_start_idempotency_key x = run_start_idempotency_key r) (t_runs db)
      in case (by_intent, by_key) of
           (Some a, Some b) \<Rightarrow>
             if run_id a \<noteq> run_id b then rc_fail ''runtime_run_start_idempotency_conflict'' else Inr (Some a)
         | (Some a, None) \<Rightarrow> Inr (Some a)
         | (None, b) \<Rightarrow> Inr b)"

text \<open>INSERT of a run row: its primary key, the two unique indexes and the check of the kind.\<close>

definition insert_run :: "run_row \<Rightarrow> rcdb \<Rightarrow> rc_error + rcdb" where
  "insert_run r db =
     (if list_ex (\<lambda>x. run_id x = run_id r \<or> run_intent_id x = run_intent_id r \<or>
           run_start_idempotency_key x = run_start_idempotency_key r) (t_runs db) \<or>
         run_kind r \<notin> {''primary'', ''rerun'', ''fork''}
      then Inl IntegrityError else Inr (db\<lparr>t_runs := t_runs db @ [r]\<rparr>))"

text \<open>\<open>RUN_ACCEPTANCE_JOINS\<close>: the run has its snapshot and its first event.\<close>

definition has_acceptance :: "rcdb \<Rightarrow> run_row \<Rightarrow> bool" where
  "has_acceptance db r \<longleftrightarrow>
     list_ex (\<lambda>s. sn_run s = run_id r \<and> 0 < sn_latest_event_seq s) (t_snapshots db) \<and>
     list_ex (\<lambda>x. ev_run x = run_id r \<and> ev_seq x = 1 \<and> ev_type x = ''runtime_run_queued'' \<and>
         ev_stage x = ''queued'' \<and> ev_status x = ''queued'' \<and>
         ev_idempotency_key x = Some (queued_key (run_id r))) (t_events db)"

definition accepted_run_row :: "rcdb \<Rightarrow> string \<Rightarrow> run_row option" where
  "accepted_run_row db rid =
     fetchone (\<lambda>r. has_acceptance db r \<and> run_id r = rid \<and> 0 < run_latest_event_seq r) (t_runs db)"

definition read_accepted :: "integrity \<Rightarrow> rcdb \<Rightarrow> string \<Rightarrow> rc_error + (rcdb \<times> run_row)" where
  "read_accepted integrity db rid =
     sbind (or_raise (RuntimeControlError ''runtime_run_acceptance_incomplete'' []) (accepted_run_row db rid)) (\<lambda>r.
     sbind (raise_opt (integrity db r)) (\<lambda>_. Inr (db, r)))"

definition accept_run :: "integrity \<Rightarrow> rcdb \<Rightarrow> start_request \<Rightarrow> rc_error + (rcdb \<times> run_row)" where
  "accept_run integrity db q =
     (let r = normalize_run_record q
      in sbind (validate_initial_run_truth r) (\<lambda>_.
         sbind (validate_run_acceptance r q) (\<lambda>_.
         sbind (existing_run_for_start db r) (\<lambda>existing.
         case existing of
           Some x \<Rightarrow> read_accepted integrity db (run_id x)
         | None \<Rightarrow>
             sbind (insert_run r db) (\<lambda>db1.
             sbind (append_event_in_transaction db1 (sq_initial_event q) (Some (sq_snapshot q)) (Some ''queued'')
                      None None None) (\<lambda>(db2, e).
             read_accepted integrity db2 (run_id r)))))))"

section \<open>Claiming\<close>

text \<open>
  \<open>recently at created\<close> stands for the \<open>julianday\<close> arithmetic of SQLite: less than half a second
  lies between the two texts.
\<close>

definition awaits_resource :: "(string \<Rightarrow> string \<Rightarrow> bool) \<Rightarrow> rcdb \<Rightarrow> run_row \<Rightarrow> string \<Rightarrow> bool" where
  "awaits_resource recently db r claimed_at \<longleftrightarrow>
     list_ex (\<lambda>x. ev_run x = run_id r \<and> ev_seq x = run_latest_event_seq r \<and>
       ev_type x = ''runtime_resource_waiting'' \<and> recently claimed_at (ev_created_at x)) (t_events db)"

definition runnable ::
  "(string \<Rightarrow> string \<Rightarrow> bool) \<Rightarrow> rcdb \<Rightarrow> string option \<Rightarrow> string \<Rightarrow> run_row \<Rightarrow> bool" where
  "runnable recently db rid claimed_at r \<longleftrightarrow>
     run_status r \<in> {''queued'', ''resume_requested''} \<and> (rid = None \<or> rid = Some (run_id r)) \<and>
     has_acceptance db r \<and> 0 < run_latest_event_seq r \<and> active_leases db (run_id r) = [] \<and>
     (run_status r \<noteq> ''resume_requested'' \<or>
      \<not> list_ex (\<lambda>x. op_run x = run_id r \<and> op_retry_posture x = ''reconcile_first'') (t_operations db)) \<and>
     \<not> awaits_resource recently db r claimed_at"

definition next_runnable_run_row ::
  "(string \<Rightarrow> string \<Rightarrow> bool) \<Rightarrow> rcdb \<Rightarrow> string option \<Rightarrow> string \<Rightarrow> run_row option" where
  "next_runnable_run_row recently db rid claimed_at =
     (case sort_key (\<lambda>r. (run_created_at r, run_id r)) (filter (runnable recently db rid claimed_at) (t_runs db)) of
        [] \<Rightarrow> None | r # _ \<Rightarrow> Some r)"

text \<open>The model class \<open>RuntimeWorkerClaim\<close>.\<close>

record worker_claim =
  wc_run :: run_row
  wc_lease :: lease_row
  wc_event :: event_row
  wc_reason :: string

definition claim_reason :: "rcdb \<Rightarrow> run_row \<Rightarrow> string" where
  "claim_reason db r =
     (if run_status r = ''resume_requested'' then
        (case max_by ev_seq (run_events db (run_id r)) of
           None \<Rightarrow> ''resume_requested''
         | Some x \<Rightarrow> if ev_type x = ''runtime_resource_waiting'' then ''resource_wait'' else ''resume_requested'')
      else run_status r)"

text \<open>\<open>_json_object\<close> of the snapshot: a text that is no JSON raises, a value that is no dict reads as empty.\<close>

definition snapshot_payload :: "rcdb \<Rightarrow> string \<Rightarrow> rc_error + (string \<times> pyval) list" where
  "snapshot_payload db rid =
     (case get_snapshot db rid of
        None \<Rightarrow> Inr []
      | Some s \<Rightarrow>
          (case loads (sn_snapshot_json s) of
             None \<Rightarrow> py_fail ''Expecting value''
           | Some v \<Rightarrow> Inr (py_items v)))"

definition claim_lease :: "rcdb \<Rightarrow> run_row \<Rightarrow> string \<Rightarrow> string \<Rightarrow> string \<Rightarrow> string \<Rightarrow> lease_row" where
  "claim_lease db r executor_id claimed_at lease_expires_at fresh_lease =
     \<lparr>ls_lease_id = fresh_lease, ls_run = run_id r, ls_executor_id = executor_id,
      ls_attempt_no = latest_attempt db (run_id r) + 1, ls_status = ''active'', ls_acquired_at = claimed_at,
      ls_heartbeat_at = None, ls_lease_expires_at = lease_expires_at, ls_released_at = None,
      ls_reason_code = None\<rparr>"

definition claim_snapshot :: "run_row \<Rightarrow> lease_row \<Rightarrow> string \<Rightarrow> (string \<times> pyval) list \<Rightarrow> run_snapshot" where
  "claim_snapshot r l reason payload =
     \<lparr>rs_run = run_id r, rs_status = ''starting'', rs_current_stage = ''starting'',
      rs_current_round = run_current_round r,
      rs_snapshot = PyDict (dict_update payload
        [(''executorId'', PyStr (ls_executor_id l)), (''leaseId'', PyStr (ls_lease_id l)),
         (''claimStatus'', PyStr ''starting''), (''claimReason'', PyStr reason)]),
      rs_updated_at = ls_acquired_at l\<rparr>"

definition claim_event :: "run_row \<Rightarrow> lease_row \<Rightarrow> string \<Rightarrow> string \<Rightarrow> event_input" where
  "claim_event r l reason fresh_event =
     \<lparr>ei_event_id = fresh_event, ei_run = run_id r, ei_type = ''runtime_worker_claimed'', ei_stage = ''starting'',
      ei_round_no = run_current_round r, ei_source_id = None, ei_status = ''completed'',
      ei_summary = ''runtime worker claimed run'',
      ei_payload = PyDict [(''executorId'', PyStr (ls_executor_id l)), (''leaseId'', PyStr (ls_lease_id l)),
        (''attemptNo'', PyInt (ls_attempt_no l)), (''claimReason'', PyStr reason)],
      ei_schema_version = ''runtime-control-event/v1'', ei_visibility = ''developer'',
      ei_idempotency_key = Some (''runtime-claim:'' @ ls_lease_id l), ei_payload_kind = ''compact'',
      ei_projection_attempts = 0, ei_last_projection_error = None, ei_projected_at = None,
      ei_workbench_seq = None, ei_created_at = ls_acquired_at l\<rparr>"

definition claim_next_runnable_run ::
  "(string \<Rightarrow> string \<Rightarrow> bool) \<Rightarrow> integrity \<Rightarrow> rcdb \<Rightarrow> string \<Rightarrow> string \<Rightarrow> string \<Rightarrow> string option \<Rightarrow>
   string \<Rightarrow> string \<Rightarrow> rc_error + (rcdb \<times> worker_claim option)" where
  "claim_next_runnable_run recently integrity db executor_id claimed_at lease_expires_at rid
       fresh_lease fresh_event =
     (case next_runnable_run_row recently db rid claimed_at of
        None \<Rightarrow> Inr (db, None)
      | Some r \<Rightarrow>
          let reason = claim_reason db r;
              l = claim_lease db r executor_id claimed_at lease_expires_at fresh_lease
          in sbind (insert_lease l db) (\<lambda>db1.
             sbind (snapshot_payload db1 (run_id r)) (\<lambda>payload.
             sbind (append_event_in_transaction db1 (claim_event r l reason fresh_event)
                      (Some (claim_snapshot r l reason payload)) (Some ''starting'') None None None) (\<lambda>(db2, e).
             sbind (or_raise (PyTypeError ''object is not subscriptable'') (fetch_run db2 (run_id r))) (\<lambda>updated.
             sbind (raise_opt (integrity db2 updated)) (\<lambda>_.
             Inr (db2, Some \<lparr>wc_run = updated, wc_lease = l, wc_event = e, wc_reason = reason\<rparr>)))))))"

section \<open>How these transactions change the tables\<close>

text \<open>The first row in an order.\<close>

lemma first_sortedD:
  assumes "(case sort_key k (filter p xs) of [] \<Rightarrow> None | y # _ \<Rightarrow> Some y) = Some r"
  shows "r \<in> set xs" "p r" "\<And>x. x \<in> set xs \<Longrightarrow> p x \<Longrightarrow> k r \<le> k x"
proof -
  obtain ys where ys: "sort_key k (filter p xs) = r # ys"
    using assms by (auto split: list.splits)
  then have mem: "set (r # ys) = {x \<in> set xs. p x}" by (metis set_sort set_filter)
  then show "r \<in> set xs" "p r" by auto
  have "sorted (map k (r # ys))" using ys by (metis sorted_sort_key)
  moreover fix x assume "x \<in> set xs" "p x"
  ultimately show "k r \<le> k x" using mem by auto
qed

lemma first_sorted_None:
  "(case sort_key k (filter p xs) of [] \<Rightarrow> None | y # _ \<Rightarrow> Some y) = None \<longleftrightarrow> (\<forall>x \<in> set xs. \<not> p x)"
  by (metis (no_types, lifting) filter_False filter_empty_conv list.case_eq_if option.distinct(1) set_empty
      set_sort sort_key_simps(1))

lemma fetchone_update_hit:
  "fetchone p t = Some v \<Longrightarrow> q v \<Longrightarrow> p (f v) \<Longrightarrow> fetchone p (update_where (\<lambda>x. p x \<and> q x) f t) = Some (f v)"
  by (induction t) (auto split: if_splits)

lemma fetchone_filter: "fetchone (\<lambda>x. p x \<and> q x) t = fetchone q (filter p t)"
  by (induction t) auto

text \<open>An appended event leaves all tables but runs, events and snapshots.\<close>

lemma insert_event_frame: "insert_event y db = Inr db' \<Longrightarrow> t_snapshots db' = t_snapshots db"
  by (auto simp: insert_event_def split: if_splits)

lemma append_frame:
  assumes "append_event_in_transaction db e snapshot status stop completed ckpt = Inr (db', x)"
  shows "db' = db\<lparr>t_runs := t_runs db', t_events := t_events db', t_snapshots := t_snapshots db'\<rparr>"
    "snapshot = None \<Longrightarrow> t_snapshots db' = t_snapshots db"
proof -
  let ?rest = "\<lambda>d. d\<lparr>t_runs := [], t_events := [], t_snapshots := []\<rparr>"
  have replace: "?rest (replace_snapshot s n d) = ?rest d" for s n d by (simp add: replace_snapshot_def Let_def)
  have insert: "insert_event y d = Inr d' \<Longrightarrow> ?rest d' = ?rest d" for y d d'
    by (auto simp: insert_event_def split: if_splits)
  have update: "?rest (snd (update_run rid g f d)) = ?rest d" for rid g f d by (simp add: update_run_def)
  have "?rest db' = ?rest db \<and> (snapshot = None \<longrightarrow> t_snapshots db' = t_snapshots db)"
  proof (cases "keyed_event db e")
    case (Some y)
    then show ?thesis using assms by (simp add: append_event_in_transaction_def)
  next
    case None
    define up where "up = (\<lambda>(row :: run_row) y n. snd (update_run (ei_run e) outcome_clear (advance_run e n
        (case status of None \<Rightarrow> run_status row | Some s \<Rightarrow> s) stop completed ckpt) y))"
    obtain row where row: "fetch_run db (ei_run e) = Some row" "require_run_truth_mutable row = Inr ()"
      using assms None by (auto simp: append_event_in_transaction_def sbind_eq_Inr)
    then obtain json sz st where
        st: "require_run_transition (run_status row) (case status of None \<Rightarrow> run_status row | Some s \<Rightarrow> s) = Inr st"
        and json: "json_with_size (ei_payload e) ''runtime_event_payload_too_large'' = Inr (json, sz)"
      using assms None by (auto simp: append_event_in_transaction_def sbind_eq_Inr Let_def)
    define n where "n = run_latest_event_seq row + 1"
    obtain db1 where ins: "insert_event (event_row_of e n json sz) db = Inr db1"
      using assms None row st json
      by (cases "insert_event (event_row_of e n json sz) db") (simp_all add: append_event_in_transaction_def Let_def n_def)
    have "db' = (case snapshot of None \<Rightarrow> up row db1 n | Some s \<Rightarrow> replace_snapshot s n (up row db1 n))"
      using assms None row st json ins
      by (cases snapshot)
        (auto simp: append_event_in_transaction_def Let_def split_beta sbind_eq_Inr up_def n_def split: if_splits)
    then show ?thesis
      by (simp add: up_def replace update insert[OF ins] insert_event_frame[OF ins] update_run_def split: option.split)
  qed
  then show "db' = db\<lparr>t_runs := t_runs db', t_events := t_events db', t_snapshots := t_snapshots db'\<rparr>"
    "snapshot = None \<Longrightarrow> t_snapshots db' = t_snapshots db"
    by (cases db; cases db'; simp)+
qed

text \<open>What stays of a run, and how it moves.\<close>

definition run_core :: "run_row \<Rightarrow> string \<times> string \<times> string \<times> string" where
  "run_core r = (run_id r, run_intent_id r, run_start_idempotency_key r, run_created_at r)"

definition run_moves :: "run_row \<Rightarrow> run_row \<Rightarrow> bool" where
  "run_moves r r' \<longleftrightarrow> run_core r' = run_core r \<and> run_state_revision r \<le> run_state_revision r' \<and>
     run_transition\<^sup>*\<^sup>* (run_status r) (run_status r')"

definition runs_le :: "rcdb \<Rightarrow> rcdb \<Rightarrow> bool" where
  "runs_le db db' \<longleftrightarrow> (\<exists>M new. t_runs db' = M @ new \<and> list_all2 run_moves (t_runs db) M)"

definition run_cores :: "rcdb \<Rightarrow> (string \<times> string \<times> string \<times> string) list" where
  "run_cores db = map run_core (t_runs db)"

lemma run_moves_refl [simp]: "run_moves r r"
  by (simp add: run_moves_def)

lemma run_moves_trans: "run_moves a b \<Longrightarrow> run_moves b c \<Longrightarrow> run_moves a c"
  by (auto simp: run_moves_def)

lemma run_le_moves: "run_le r r' \<Longrightarrow> run_core r' = run_core r \<Longrightarrow> run_moves r r'"
  by (auto simp: run_le_def run_moves_def)

lemma runs_le_refl [simp]: "runs_le db db"
  by (simp add: runs_le_def list_all2_refl exI[of _ "t_runs db"])

lemma runs_le_trans:
  assumes "runs_le a b" "runs_le b c"
  shows "runs_le a c"
proof -
  obtain M ys where b: "t_runs b = M @ ys" "list_all2 run_moves (t_runs a) M"
    using assms(1) by (auto simp: runs_le_def)
  obtain N zs where c: "t_runs c = N @ zs" "list_all2 run_moves (t_runs b) N"
    using assms(2) by (auto simp: runs_le_def)
  then obtain N1 N2 where N: "N = N1 @ N2" "list_all2 run_moves M N1"
    using b(1) by (auto simp: list_all2_append1)
  have "list_all2 run_moves (t_runs a) N1"
    by (rule list_all2_trans[OF run_moves_trans b(2) N(2)])
  then show ?thesis using c(1) N(1) by (auto simp: runs_le_def)
qed

lemma cores_runs_le:
  assumes "list_all2 run_le (t_runs db) (t_runs db')" "run_cores db' = run_cores db"
  shows "runs_le db db'"
proof -
  have l: "length (t_runs db') = length (t_runs db)" using list_all2_lengthD[OF assms(1)] by simp
  have "run_core (t_runs db' ! i) = run_core (t_runs db ! i)" if "i < length (t_runs db)" for i
    using arg_cong[OF assms(2)[unfolded run_cores_def], of "\<lambda>xs. xs ! i"] that l by simp
  then have "list_all2 run_moves (t_runs db) (t_runs db')"
    using assms(1) by (auto simp: list_all2_conv_all_nth intro: run_le_moves)
  then show ?thesis by (auto simp: runs_le_def)
qed

lemma runs_le_fetch:
  assumes "runs_le db db'" "fetch_run db rid = Some r"
  obtains r' where "fetch_run db' rid = Some r'" "run_moves r r'"
proof -
  obtain M new where M: "t_runs db' = M @ new" "list_all2 run_moves (t_runs db) M"
    using assms(1) by (auto simp: runs_le_def)
  have "\<exists>r'. fetchone (\<lambda>x. run_id x = rid) M = Some r' \<and> run_moves r r'"
    by (rule list_all2_fetchone[OF M(2) _ assms(2)[unfolded fetch_run_def]]) (auto simp: run_moves_def run_core_def)
  then show thesis using that by (auto simp: fetch_run_def M(1) fetchone_append)
qed

lemma lease_cores:
  assumes "lease_step ck integ db c = Inr (db', res)"
  shows "run_cores db' = run_cores db"
proof -
  have bump: "run_core (bump_run r) = run_core r" for r by (simp add: run_core_def bump_run_def)
  have fold: "run_cores (fold (expire_one now) rows db) = run_cores db" for now rows db
  proof (induction rows arbitrary: db)
    case (Cons row rows)
    have "run_cores (expire_one now row db) = run_cores db"
      by (simp add: expire_one_def run_cores_def bump update_leases_def update_run_def update_where_def)
    then show ?case using Cons[of "expire_one now row db"] by simp
  qed simp
  show ?thesis
  proof (cases c)
    case (Expire now batch)
    then show ?thesis using assms fold
      by (auto simp: returning_Inr expire_executor_leases_def Let_def split: if_splits)
  qed (use assms in \<open>auto simp: returning_Inr acquire_executor_lease_def heartbeat_executor_lease_def
        release_executor_lease_def release_executor_lease_txn_def update_run_status_def set_run_status_def
        link_workbench_session_def insert_lease_def update_run_def update_leases_def Let_def sbind_eq_Inr
        split_beta run_cores_def run_core_def bump_run_def update_where_def split: if_splits sum.splits\<close>)
qed

lemma append_cores:
  assumes "append_event_in_transaction db e snapshot status stop completed ckpt = Inr (db', x)"
  shows "run_cores db' = run_cores db"
  using assms
proof (cases rule: append_cases)
  case (new row n json sz target)
  have "run_core (advance_run e n target stop completed ckpt r) = run_core r" for r
    by (simp add: run_core_def advance_run_def bump_run_def)
  then show ?thesis by (simp add: run_cores_def new(15) update_where_def)
qed simp

lemma event_cores:
  assumes inv: "events_inv db" and s: "event_step ck integ db c = Inr (db', res)"
  shows "run_cores db' = run_cores db"
proof (cases c)
  case (Compact older_than batch)
  then have "t_runs db' = t_runs db" using s compact_evolves[OF inv] by (auto split: prod.splits)
  then show ?thesis by (simp add: run_cores_def)
next
  case (Append e snapshot)
  then show ?thesis using s append_cores by (auto simp: eventing_def append_event_def sbind_eq_Inr)
next
  case (AppendExecutor e ex snapshot status stop completed ckpt n)
  then show ?thesis using s append_cores by (auto simp: eventing_def append_executor_event_def sbind_eq_Inr)
next
  case (Yield e ex n)
  then show ?thesis using s append_cores
    by (auto simp: eventing_def yield_executor_def sbind_eq_Inr Let_def update_leases_def run_cores_def
        split: if_splits)
next
  case (Projected rid eid n at)
  then show ?thesis using s
    by (auto simp: eventing_def mark_event_projection_success_def Let_def sbind_eq_Inr run_cores_def
        split: option.splits if_splits)
next
  case (ProjectionFailed rid eid code)
  then show ?thesis using s
    by (auto simp: eventing_def mark_event_projection_failure_def Let_def sbind_eq_Inr run_cores_def)
qed

section \<open>The invariant of the runs\<close>

definition life_inv :: "rcdb \<Rightarrow> bool" where
  "life_inv db \<longleftrightarrow> store_inv db \<and> distinct (map run_intent_id (t_runs db)) \<and>
     distinct (map run_start_idempotency_key (t_runs db))"

lemma cores_life_inv:
  assumes "life_inv db" "store_inv db'" "run_cores db' = run_cores db"
  shows "life_inv db'"
proof -
  have "map run_intent_id (t_runs d) = map (\<lambda>(a, b, c, x). b) (run_cores d)"
    "map run_start_idempotency_key (t_runs d) = map (\<lambda>(a, b, c, x). c) (run_cores d)" for d
    by (simp_all add: run_cores_def run_core_def)
  then show ?thesis using assms by (simp add: life_inv_def)
qed

lemma store_life:
  assumes inv: "life_inv db" and s: "store_step ck integ db c = Inr (db', res)"
  shows "life_inv db' \<and> runs_le db db' \<and> log_le db db'"
proof -
  have st: "store_inv db" using inv by (simp add: life_inv_def)
  note step = store_step_inv[OF st s]
  have "run_cores db' = run_cores db"
    using s st lease_cores event_cores by (cases c) (auto simp: sbind_eq_Inr store_inv_def)
  then show ?thesis using step cores_life_inv[OF inv] cores_runs_le by blast
qed

section \<open>Accepting\<close>

lemma accept_cases:
  assumes "accept_run integ db q = Inr (db', x)"
  obtains (replay) y where "existing_run_for_start db (normalize_run_record q) = Inr (Some y)" "db' = db"
      "accepted_run_row db (run_id y) = Some x"
    | (new) db1 e where "existing_run_for_start db (normalize_run_record q) = Inr None"
      "insert_run (normalize_run_record q) db = Inr db1"
      "append_event_in_transaction db1 (sq_initial_event q) (Some (sq_snapshot q)) (Some ''queued'') None None None
         = Inr (db', e)"
      "accepted_run_row db' (run_id (normalize_run_record q)) = Some x"
      "run_status (normalize_run_record q) = ''queued''" "run_latest_event_seq (normalize_run_record q) = 0"
      "ei_run (sq_initial_event q) = run_id (normalize_run_record q)"
proof -
  obtain ex where ex: "existing_run_for_start db (normalize_run_record q) = Inr ex"
    and valid: "validate_run_acceptance (normalize_run_record q) q = Inr ()"
    and rest: "(case ex of
           Some x \<Rightarrow> read_accepted integ db (run_id x)
         | None \<Rightarrow>
             sbind (insert_run (normalize_run_record q) db) (\<lambda>db1.
             sbind (append_event_in_transaction db1 (sq_initial_event q) (Some (sq_snapshot q)) (Some ''queued'')
                      None None None) (\<lambda>(db2, e).
             read_accepted integ db2 (run_id (normalize_run_record q))))) = Inr (db', x)"
    using assms by (auto simp: accept_run_def Let_def sbind_eq_Inr)
  show thesis
  proof (cases ex)
    case (Some y)
    then show thesis using rest ex by (intro replay) (auto simp: read_accepted_def sbind_eq_Inr)
  next
    case None
    then obtain db1 e where "insert_run (normalize_run_record q) db = Inr db1"
        "append_event_in_transaction db1 (sq_initial_event q) (Some (sq_snapshot q)) (Some ''queued'') None None None
           = Inr (db', e)"
        "accepted_run_row db' (run_id (normalize_run_record q)) = Some x"
      using rest by (auto simp: read_accepted_def sbind_eq_Inr)
    then show thesis using ex None valid new
      by (auto simp: validate_run_acceptance_def Let_def split: if_splits)
  qed
qed

lemma insert_run_inv:
  assumes inv: "store_inv db" and s: "insert_run r db = Inr db1" and head: "run_latest_event_seq r = 0"
  shows "store_inv db1" "t_events db1 = t_events db" "t_runs db1 = t_runs db @ [r]"
proof -
  have db1: "db1 = db\<lparr>t_runs := t_runs db @ [r]\<rparr>" and fresh: "run_id r \<notin> run_id ` set (t_runs db)"
    using s by (auto simp: insert_run_def list_ex_iff split: if_splits)
  then show "t_events db1 = t_events db" "t_runs db1 = t_runs db @ [r]" by simp_all
  have ev: "events_inv db" and le: "lease_inv db" using inv by (simp_all add: store_inv_def)
  have none: "filter (\<lambda>x. ev_run x = run_id r) (t_events db) = []"
    unfolding filter_empty_conv using events_invD(4)[OF ev] fresh by (metis imageI)
  have "events_inv db1"
    using ev fresh head unfolding db1 events_inv_def
    by (auto simp: log_heads_def run_events_def none image_iff)
  moreover have "lease_inv db1" using le fresh by (simp add: db1 lease_inv_def)
  ultimately show "store_inv db1" by (simp add: store_inv_def)
qed

lemma append_life:
  assumes inv: "life_inv db"
    and s: "append_event_in_transaction db e snapshot status stop completed ckpt = Inr (db', x)"
  shows "life_inv db' \<and> runs_le db db' \<and> log_le db db'"
proof -
  have st: "store_inv db" using inv by (simp add: life_inv_def)
  note ids = events_invD(1)[OF st[unfolded store_inv_def, THEN conjunct2]]
  note runs = append_evolves[OF ids s]
  have "evolves db [] db'" by (rule evolvesI_update) (use runs in \<open>auto simp: list_all2_refl\<close>)
  then have "store_inv db'"
    using evolves_inv st append_events_inv[OF _ s] by (auto simp: store_inv_def)
  then show ?thesis
    using cores_life_inv[OF inv _ append_cores[OF s]] cores_runs_le[OF _ append_cores[OF s]] runs
      append_events_inv[OF _ s] st by (auto simp: store_inv_def)
qed

lemma accept_life:
  assumes inv: "life_inv db" and s: "accept_run integ db q = Inr (db', x)"
  shows "life_inv db' \<and> runs_le db db' \<and> log_le db db'"
  using s
proof (cases rule: accept_cases)
  case (replay y)
  then show ?thesis using inv by simp
next
  case (new db1 e)
  have st: "store_inv db" using inv by (simp add: life_inv_def)
  note i = insert_run_inv[OF st new(2,6)]
  have "life_inv db1"
    using i inv new(2) by (auto simp: life_inv_def insert_run_def list_ex_iff split: if_splits)
  moreover have "runs_le db db1" by (simp add: runs_le_def i list_all2_refl exI[of _ "t_runs db"])
  moreover have "log_le db db1" by (simp add: log_le_def i(2) list_all2_refl exI[of _ "t_events db"])
  ultimately show ?thesis
    using append_life[OF _ new(3)] runs_le_trans log_le_trans by blast
qed

section \<open>Claiming keeps the invariant\<close>

lemma insert_lease_inv:
  assumes inv: "lease_inv db" and s: "insert_lease l db = Inr db1"
    and none: "active_leases db (ls_run l) = []" and pos: "1 \<le> ls_attempt_no l"
  shows "lease_inv db1"
proof -
  have db1: "db1 = db\<lparr>t_leases := t_leases db @ [l]\<rparr>"
    and fresh: "ls_lease_id l \<notin> ls_lease_id ` set (t_leases db)"
      "(ls_run l, ls_attempt_no l) \<notin> (\<lambda>r. (ls_run r, ls_attempt_no r)) ` set (t_leases db)"
    using s by (auto simp: insert_lease_def list_ex_iff split: if_splits)
  have z: "rowcount (\<lambda>r. ls_run r = ls_run l \<and> ls_status r = ''active'') (t_leases db) = 0"
    using none by (simp add: active_leases_def rowcount_def)
  have "rowcount (\<lambda>r. ls_run r = rid \<and> ls_status r = ''active'') (t_leases db @ [l]) \<le> 1" for rid
    using z inv by (cases "rid = ls_run l") (auto simp: lease_inv_def)
  then show ?thesis using inv fresh pos by (auto simp: lease_inv_def db1)
qed

lemma claim_cases:
  assumes "claim_next_runnable_run recently integ db ex at exp rid fl fe = Inr (db', c)"
  obtains (nothing) "next_runnable_run_row recently db rid at = None" "db' = db" "c = None"
    | (claimed) r l reason payload db1 x updated where
      "next_runnable_run_row recently db rid at = Some r" "l = claim_lease db r ex at exp fl"
      "reason = claim_reason db r" "insert_lease l db = Inr db1" "snapshot_payload db1 (run_id r) = Inr payload"
      "append_event_in_transaction db1 (claim_event r l reason fe) (Some (claim_snapshot r l reason payload))
         (Some ''starting'') None None None = Inr (db', x)"
      "fetch_run db' (run_id r) = Some updated"
      "c = Some \<lparr>wc_run = updated, wc_lease = l, wc_event = x, wc_reason = reason\<rparr>"
proof (cases "next_runnable_run_row recently db rid at")
  case None
  show thesis by (rule nothing) (use None assms in \<open>auto simp: claim_next_runnable_run_def\<close>)
next
  case (Some r)
  define l where "l = claim_lease db r ex at exp fl"
  define reason where "reason = claim_reason db r"
  obtain db1 payload x updated where "insert_lease l db = Inr db1" "snapshot_payload db1 (run_id r) = Inr payload"
      "append_event_in_transaction db1 (claim_event r l reason fe) (Some (claim_snapshot r l reason payload))
         (Some ''starting'') None None None = Inr (db', x)"
      "fetch_run db' (run_id r) = Some updated"
      "c = Some \<lparr>wc_run = updated, wc_lease = l, wc_event = x, wc_reason = reason\<rparr>"
    using assms Some
    by (auto simp: claim_next_runnable_run_def Let_def sbind_eq_Inr l_def[symmetric] reason_def[symmetric])
  then show thesis by (rule claimed[OF Some l_def reason_def])
qed

lemma next_runnableD:
  assumes "next_runnable_run_row recently db rid at = Some r"
  shows "r \<in> set (t_runs db)" "runnable recently db rid at r"
    "\<And>x. x \<in> set (t_runs db) \<Longrightarrow> runnable recently db rid at x \<Longrightarrow>
       (run_created_at r, run_id r) \<le> (run_created_at x, run_id x)"
  using first_sortedD[OF assms[unfolded next_runnable_run_row_def]] by blast+

lemma insert_lease_frame:
  assumes "insert_lease l db = Inr db1"
  shows "db1 = db\<lparr>t_leases := t_leases db @ [l]\<rparr>"
  using assms by (auto simp: insert_lease_def split: if_splits)

lemma claim_life:
  assumes inv: "life_inv db"
    and s: "claim_next_runnable_run recently integ db ex at exp rid fl fe = Inr (db', c)"
  shows "life_inv db' \<and> runs_le db db' \<and> log_le db db'"
  using s
proof (cases rule: claim_cases)
  case nothing
  then show ?thesis using inv by simp
next
  case (claimed r l reason payload db1 x updated)
  have st: "lease_inv db" "events_inv db" using inv by (simp_all add: life_inv_def store_inv_def)
  have l: "ls_run l = run_id r" "ls_attempt_no l = latest_attempt db (run_id r) + 1"
    by (simp_all add: claimed(2) claim_lease_def)
  have "active_leases db (ls_run l) = []" using next_runnableD(2)[OF claimed(1)] l by (simp add: runnable_def)
  then have "lease_inv db1"
    using insert_lease_inv[OF st(1) claimed(4)] latest_attempt_nonneg[OF st(1)] l by simp
  then have "life_inv db1"
    using inv by (simp add: insert_lease_frame[OF claimed(4)] life_inv_def store_inv_def events_inv_def
        log_heads_def run_events_def)
  moreover have "runs_le db db1" "log_le db db1"
    by (simp_all add: insert_lease_frame[OF claimed(4)] runs_le_def log_le_def list_all2_refl
        exI[of _ "t_runs db"] exI[of _ "t_events db"])
  ultimately show ?thesis using append_life[OF _ claimed(6)] runs_le_trans log_le_trans by blast
qed

end
