(* ===== verification/LeaseRecovery.thy ===== *)
theory LeaseRecovery
  imports CheckpointRecovery RunClaims
begin

text \<open>
  What becomes of a run whose executor is gone: \<open>settle_next_expired_executor_lease\<close> of \<open>store.py\<close>,
  the loop of \<open>recovery.py\<close> around it, and \<open>resolve_source_operation_recovery_attention\<close>. One
  transaction ends the lease, writes two events, moves the run along the lifecycle and, where an
  external effect is open, enters the attention table.
\<close>

section \<open>The next lease to settle\<close>

definition RECOVERY_STATUSES :: "string list" where
  "RECOVERY_STATUSES =
     [''queued'', ''starting'', ''running'', ''pause_requested'', ''paused'', ''resume_requested'',
      ''cancellation_requested'', ''cancelled'', ''completed'', ''failed'']"

definition LEASE_ONLY_CLEANUP_RUN_STATUSES :: "string list" where
  "LEASE_ONLY_CLEANUP_RUN_STATUSES = TERMINAL_RUN_STATUSES @ [''queued'', ''paused'', ''resume_requested'']"

definition decision_key :: "lease_row \<Rightarrow> string" where
  "decision_key l = ''runtime-recovery:'' @ ls_lease_id l @ '':decision''"

definition expiry_key :: "lease_row \<Rightarrow> string" where
  "expiry_key l = ''runtime-recovery:'' @ ls_lease_id l @ '':lease-expired''"

text \<open>The run \<open>r\<close> joined to the lease \<open>l\<close>: an active lease past its end, or a stranded one.\<close>

definition expired_active :: "string \<Rightarrow> lease_row \<Rightarrow> run_row \<Rightarrow> bool" where
  "expired_active now l r \<longleftrightarrow> ls_status l = ''active'' \<and> ls_lease_expires_at l \<le> now \<and>
     run_status r \<in> set RECOVERY_STATUSES"

definition stranded :: "rcdb \<Rightarrow> lease_row \<Rightarrow> run_row \<Rightarrow> bool" where
  "stranded db l r \<longleftrightarrow> ls_status l = ''expired'' \<and>
     run_status r \<in> {''starting'', ''running'', ''cancellation_requested''} \<and>
     ls_attempt_no l = latest_attempt db (ls_run l) \<and> active_leases db (ls_run l) = [] \<and>
     event_row_by_idempotency_key db (ls_run l) (decision_key l) = None"

definition needs_recovery :: "rcdb \<Rightarrow> string \<Rightarrow> lease_row \<Rightarrow> bool" where
  "needs_recovery db now l \<longleftrightarrow>
     list_ex (\<lambda>r. run_id r = ls_run l \<and> (expired_active now l r \<or> stranded db l r)) (t_runs db)"

definition next_recovery_lease_row :: "rcdb \<Rightarrow> string \<Rightarrow> lease_row option" where
  "next_recovery_lease_row db now =
     (case sort_key (\<lambda>l. (if ls_status l = ''active'' then 0 else 1 :: int, ls_lease_expires_at l, - ls_attempt_no l))
             (filter (needs_recovery db now) (t_leases db)) of
        [] \<Rightarrow> None | l # _ \<Rightarrow> Some l)"

section \<open>The events of a settlement\<close>

definition recovery_event_id :: "sha \<Rightarrow> lease_row \<Rightarrow> string \<Rightarrow> string" where
  "recovery_event_id sha l kind = ''rtevt_recovery_'' @ take 24 (sha (ls_lease_id l @ '':'' @ kind))"

text \<open>\<open>_recovery_event_payload\<close>: no JSON reads as \<open>None\<close>, no dict as the empty dict.\<close>

definition recovery_event_payload :: "event_row \<Rightarrow> pyval option" where
  "recovery_event_payload x = map_option (\<lambda>v. PyDict (py_items v)) (loads (ev_payload_json x))"

definition has_key :: "pyval \<Rightarrow> string \<Rightarrow> bool" where
  "has_key v k \<longleftrightarrow> k \<in> fst ` set (py_items v)"

definition matching_legacy_expiry_event :: "rcdb \<Rightarrow> lease_row \<Rightarrow> event_row option" where
  "matching_legacy_expiry_event db l =
     fetchone (\<lambda>x. case recovery_event_payload x of
         None \<Rightarrow> False
       | Some p \<Rightarrow> py_eq (py_get p ''executorId'') (PyStr (ls_executor_id l)) \<and>
                   py_eq (py_get p ''attemptNo'') (PyInt (ls_attempt_no l)))
       (sort_key (\<lambda>x. - ev_seq x)
         (filter (\<lambda>x. ev_run x = ls_run l \<and> ev_type x = ''runtime_executor_lease_expired'') (t_events db)))"

definition LEGACY_DECISION_TYPES :: "string list" where
  "LEGACY_DECISION_TYPES =
     [''runtime_executor_crashed'', ''runtime_executor_start_failed'', ''runtime_run_cancelled'',
      ''runtime_checkpoint_restore_failed'', ''runtime_checkpoint_restored'']"

definition legacy_decision_event_belongs_to_lease :: "string \<Rightarrow> pyval \<Rightarrow> lease_row \<Rightarrow> bool" where
  "legacy_decision_event_belongs_to_lease event_type p l \<longleftrightarrow>
     (has_key p ''leaseId'' \<longrightarrow> py_eq (py_get p ''leaseId'') (PyStr (ls_lease_id l))) \<and>
     (has_key p ''attemptNo'' \<longrightarrow> py_eq (py_get p ''attemptNo'') (PyInt (ls_attempt_no l))) \<and>
     (py_eq (py_get p ''executorId'') (PyStr (ls_executor_id l)) \<or>
      (event_type \<notin> {''runtime_executor_crashed'', ''runtime_executor_start_failed'', ''runtime_run_cancelled''} \<and>
       py_get p ''executorId'' = PyNone))"

text \<open>The events after \<open>after_event_seq\<close>, up to the next expiry of the run.\<close>

definition before_next_expiry :: "rcdb \<Rightarrow> string \<Rightarrow> int \<Rightarrow> int \<Rightarrow> bool" where
  "before_next_expiry db rid after_event_seq seq \<longleftrightarrow>
     seq < 9223372036854775807 \<and>
     \<not> list_ex (\<lambda>b. ev_run b = rid \<and> ev_type b = ''runtime_executor_lease_expired'' \<and>
         after_event_seq < ev_seq b \<and> ev_seq b \<le> seq) (t_events db)"

definition paired_legacy_decision_event :: "rcdb \<Rightarrow> lease_row \<Rightarrow> int \<Rightarrow> event_row option" where
  "paired_legacy_decision_event db l after_event_seq =
     fetchone (\<lambda>x. case recovery_event_payload x of
         None \<Rightarrow> False | Some p \<Rightarrow> legacy_decision_event_belongs_to_lease (ev_type x) p l)
       (sort_key ev_seq
         (filter (\<lambda>x. ev_run x = ls_run l \<and> after_event_seq < ev_seq x \<and>
             before_next_expiry db (ls_run l) after_event_seq (ev_seq x) \<and>
             ev_type x \<in> set LEGACY_DECISION_TYPES \<and> ev_idempotency_key x = None) (t_events db)))"

definition legacy_decision_payload_matches :: "pyval \<Rightarrow> lease_row \<Rightarrow> recovery_plan \<Rightarrow> bool" where
  "legacy_decision_payload_matches p l plan \<longleftrightarrow>
     legacy_decision_event_belongs_to_lease (rp_event_type plan) p l \<and>
     (py_eq (py_get p ''reasonCode'') (PyStr (rp_reason_code plan)) \<or>
      (rp_event_type plan = ''runtime_checkpoint_restored'' \<and> py_get p ''reasonCode'' = PyNone)) \<and>
     (case rp_checkpoint_id plan of
        None \<Rightarrow> \<not> has_key p ''checkpointId''
      | Some c \<Rightarrow> py_eq (py_get p ''checkpointId'') (PyStr c))"

text \<open>The input of a recovery event; the remaining fields have their defaults.\<close>

definition recovery_event ::
  "string \<Rightarrow> string \<Rightarrow> string \<Rightarrow> string \<Rightarrow> int option \<Rightarrow> string \<Rightarrow> string \<Rightarrow> pyval \<Rightarrow> string \<Rightarrow> string \<Rightarrow> event_input" where
  "recovery_event eid rid event_type stage round_no status summary payload key now =
     \<lparr>ei_event_id = eid, ei_run = rid, ei_type = event_type, ei_stage = stage, ei_round_no = round_no,
      ei_source_id = None, ei_status = status, ei_summary = summary, ei_payload = payload,
      ei_schema_version = ''runtime-control-event/v1'', ei_visibility = ''developer'',
      ei_idempotency_key = Some key, ei_payload_kind = ''compact'', ei_projection_attempts = 0,
      ei_last_projection_error = None, ei_projected_at = None, ei_workbench_seq = None, ei_created_at = now\<rparr>"

definition expiry_event :: "sha \<Rightarrow> lease_row \<Rightarrow> run_row \<Rightarrow> string \<Rightarrow> event_input" where
  "expiry_event sha l r now =
     recovery_event (recovery_event_id sha l ''lease-expired'') (run_id r) ''runtime_executor_lease_expired''
       (run_current_stage r) (run_current_round r) ''failed'' ''executor lease expired''
       (PyDict [(''leaseId'', PyStr (ls_lease_id l)), (''executorId'', PyStr (ls_executor_id l)),
         (''attemptNo'', PyInt (ls_attempt_no l))]) (expiry_key l) now"

definition append_recovery_expiry_event ::
  "sha \<Rightarrow> rcdb \<Rightarrow> lease_row \<Rightarrow> run_row \<Rightarrow> string \<Rightarrow> rc_error + (rcdb \<times> event_row)" where
  "append_recovery_expiry_event sha db l r now =
     (case matching_legacy_expiry_event db l of
        Some x \<Rightarrow> Inr (db, x)
      | None \<Rightarrow> append_event_in_transaction db (expiry_event sha l r now) None None None None None)"

text \<open>The stage and round of the decision event and of the run after it.\<close>

definition recovery_stage :: "checkpoint_load \<Rightarrow> recovery_plan \<Rightarrow> run_row \<Rightarrow> string \<times> int option" where
  "recovery_stage loaded plan r =
     (case loaded of
        LoadedCheckpoint c \<Rightarrow>
          if rp_target_status plan = ''resume_requested'' then (rc_stage c, rc_round_no c)
          else (run_current_stage r, run_current_round r)
      | _ \<Rightarrow> (run_current_stage r, run_current_round r))"

definition decision_event ::
  "sha \<Rightarrow> lease_row \<Rightarrow> run_row \<Rightarrow> checkpoint_load \<Rightarrow> recovery_plan \<Rightarrow> string \<Rightarrow> event_input" where
  "decision_event sha l r loaded plan now =
     (case recovery_stage loaded plan r of (stage, round_no) \<Rightarrow>
        recovery_event (recovery_event_id sha l ''decision'') (run_id r) (rp_event_type plan) stage round_no
          (rp_event_status plan) (rp_summary plan)
          (PyDict ([(''reasonCode'', PyStr (rp_reason_code plan)), (''leaseId'', PyStr (ls_lease_id l)),
             (''executorId'', PyStr (ls_executor_id l)), (''attemptNo'', PyInt (ls_attempt_no l))] @
            (case rp_checkpoint_id plan of None \<Rightarrow> [] | Some c \<Rightarrow> [(''checkpointId'', PyStr c)])))
          (decision_key l) now)"

definition legacy_decision_stands :: "rcdb \<Rightarrow> lease_row \<Rightarrow> recovery_plan \<Rightarrow> int \<Rightarrow> bool" where
  "legacy_decision_stands db l plan after_event_seq \<longleftrightarrow>
     (case paired_legacy_decision_event db l after_event_seq of
        None \<Rightarrow> False
      | Some x \<Rightarrow>
          ev_type x = rp_event_type plan \<and> ev_status x = rp_event_status plan \<and>
          (case recovery_event_payload x of
             None \<Rightarrow> False | Some p \<Rightarrow> legacy_decision_payload_matches p l plan))"

definition append_recovery_decision_event ::
  "sha \<Rightarrow> rcdb \<Rightarrow> lease_row \<Rightarrow> run_row \<Rightarrow> checkpoint_load \<Rightarrow> recovery_plan \<Rightarrow> int \<Rightarrow> string \<Rightarrow> rc_error + rcdb" where
  "append_recovery_decision_event sha db l r loaded plan after_event_seq now =
     (if legacy_decision_stands db l plan after_event_seq then Inr db
      else sbind (append_event_in_transaction db (decision_event sha l r loaded plan now) None None None None None)
             (\<lambda>(db', _). Inr db'))"

section \<open>Settling one lease\<close>

text \<open>
  Taking the lease: an active one is expired and the run's revision counted up. \<open>False\<close> where the
  method commits and returns \<open>None\<close>.
\<close>

definition take_recovery_lease :: "rcdb \<Rightarrow> lease_row \<Rightarrow> run_row \<Rightarrow> string \<Rightarrow> rcdb \<times> bool" where
  "take_recovery_lease db l r now =
     (if ls_status l = ''active''
      then
        let p = (\<lambda>x. ls_lease_id x = ls_lease_id l \<and> ls_status x = ''active'' \<and> ls_lease_expires_at x \<le> now);
            db1 = update_leases p (expire_lease now) db
        in if rowcount p (t_leases db) \<noteq> 1 then (db1, False)
           else (snd (update_run (run_id r) (\<lambda>_. True) bump_run db1), True)
      else (db, active_lease_row db (ls_run l) = None))"

text \<open>The row the final UPDATE writes over \<open>x\<close>; \<open>COALESCE(completed_at, ?)\<close> keeps an earlier time.\<close>

definition recovered_run :: "recovery_plan \<Rightarrow> string \<times> int option \<Rightarrow> string \<Rightarrow> run_row \<Rightarrow> run_row" where
  "recovered_run plan position now x =
     (let terminal = rp_target_status plan \<in> set TERMINAL_RUN_STATUSES
      in bump_run (x\<lparr>
           run_status := rp_target_status plan, run_current_stage := fst position,
           run_current_round := snd position, run_updated_at := now,
           run_stop_reason_code := (if terminal then Some (rp_reason_code plan) else run_stop_reason_code x),
           run_completed_at := (if terminal then coalesce (run_completed_at x) (Some now) else run_completed_at x)\<rparr>))"

definition recovery_checkpoint :: "recovery_env \<Rightarrow> rcdb \<Rightarrow> run_row \<Rightarrow> checkpoint_load" where
  "recovery_checkpoint env db r =
     (if run_status r \<in> {''cancellation_requested'', ''pause_requested''} then NoCheckpoint
      else recoverable_checkpoint_from_run_row env db r)"

definition decide_and_move ::
  "recovery_env \<Rightarrow> rcdb \<Rightarrow> lease_row \<Rightarrow> run_row \<Rightarrow> string \<Rightarrow> bool \<Rightarrow> rc_error + (rcdb \<times> recovery_plan)" where
  "decide_and_move env db l r now resume_recoverable =
     (let loaded = recovery_checkpoint env db r;
          plan = decide_expired_lease_recovery (run_status r) loaded resume_recoverable
      in sbind (append_recovery_expiry_event (rv_sha env) db l r now) (\<lambda>(db1, expiry).
         sbind (append_recovery_decision_event (rv_sha env) db1 l r loaded plan (ev_seq expiry) now) (\<lambda>db2.
         sbind (require_run_transition (run_status r) (rp_target_status plan)) (\<lambda>_.
         sbind (if rp_target_status plan = ''needs_attention'' then enter_recovery_attention db2 (run_id r) now
                else Inr db2) (\<lambda>db3.
         Inr (snd (update_run (run_id r) (\<lambda>x. run_status x = run_status r)
                (recovered_run plan (recovery_stage loaded plan r) now) db3), plan))))))"

text \<open>
  \<open>settle_next_expired_executor_lease\<close>: \<open>None\<close> where nothing is left to settle, else the decision
  (the run and the reason code), if there was one to take. The fault injector of the tests is left out.
\<close>

definition settle_next_expired_executor_lease ::
  "recovery_env \<Rightarrow> rcdb \<Rightarrow> string \<Rightarrow> bool \<Rightarrow> rc_error + (rcdb \<times> (string \<times> string) option option)" where
  "settle_next_expired_executor_lease env db now resume_recoverable =
     (case next_recovery_lease_row db now of
        None \<Rightarrow> Inr (db, None)
      | Some l \<Rightarrow>
          (case fetch_run db (ls_run l) of
             None \<Rightarrow> Inr (db, None)
           | Some r \<Rightarrow>
               sbind (require_run_truth_mutable r) (\<lambda>_.
               case take_recovery_lease db l r now of (db1, taken) \<Rightarrow>
                 if \<not> taken then Inr (db1, None)
                 else if run_status r \<in> set LEASE_ONLY_CLEANUP_RUN_STATUSES then Inr (db1, Some None)
                 else sbind (decide_and_move env db1 l r now resume_recoverable) (\<lambda>(db2, plan).
                   Inr (db2, Some (Some (run_id r, rp_reason_code plan)))))))"

text \<open>
  The loop of \<open>recover_start_timeouts\<close>: every settlement is a transaction of its own, an exception
  ends the loop and passes. The result is the database, the decisions taken and the exception.
\<close>

fun settle_loop ::
  "recovery_env \<Rightarrow> string \<Rightarrow> bool \<Rightarrow> nat \<Rightarrow> rcdb \<Rightarrow> rcdb \<times> (string \<times> string) list \<times> rc_error option" where
  "settle_loop env now resume 0 db = (db, [], None)"
| "settle_loop env now resume (Suc n) db =
     (case settle_next_expired_executor_lease env db now resume of
        Inl e \<Rightarrow> (db, [], Some e)
      | Inr (db', None) \<Rightarrow> (db', [], None)
      | Inr (db', Some d) \<Rightarrow>
          (case settle_loop env now resume n db' of (db'', ds, e) \<Rightarrow>
             (db'', (case d of None \<Rightarrow> ds | Some x \<Rightarrow> x # ds), e)))"

definition recover_start_timeouts ::
  "recovery_env \<Rightarrow> rcdb \<Rightarrow> string \<Rightarrow> bool \<Rightarrow> rcdb \<times> (string \<times> string) list \<times> rc_error option" where
  "recover_start_timeouts env db now resume = settle_loop env now resume 100 db"

section \<open>Leaving the attention\<close>

definition resolve_source_operation_recovery_attention ::
  "integrity \<Rightarrow> rcdb \<Rightarrow> string \<Rightarrow> string \<Rightarrow> rc_error + (rcdb \<times> (rc_error + run_row))" where
  "resolve_source_operation_recovery_attention integrity db rid resolved_at =
     (case fetch_run db rid of
        None \<Rightarrow> rc_fail ''runtime_recovery_attention_not_active''
      | Some r \<Rightarrow>
          if run_status r \<noteq> ''needs_attention'' \<or> run_current_action_id r \<noteq> None \<or>
             active_lease_row db rid \<noteq> None
          then rc_fail ''runtime_recovery_attention_not_active''
          else
            sbind (resolve_recovery_attention db rid resolved_at) (\<lambda>db1.
            sbind (require_run_transition ''needs_attention'' ''resume_requested'') (\<lambda>_.
            let db2 = snd (update_run rid
                  (\<lambda>x. run_status x = ''needs_attention'' \<and> run_current_action_id x = None)
                  (\<lambda>x. bump_run (x\<lparr>run_status := ''resume_requested'', run_product_outcome := None,
                       run_updated_at := resolved_at\<rparr>)) db1)
            in Inr (db2, get_run integrity db2 rid))))"

section \<open>What a settlement does\<close>

lemma evolves_leases_only:
  assumes "evolves db [] db1" "list_all2 run_le (t_runs db1) (t_runs db2)" "t_leases db2 = t_leases db1"
  shows "evolves db [] db2"
  using assms runs_trans by (auto simp: evolves_def)

lemma next_recoveryD:
  assumes "next_recovery_lease_row db now = Some l"
  shows "l \<in> set (t_leases db)" "needs_recovery db now l"
  using first_sortedD(1,2)[OF assms[unfolded next_recovery_lease_row_def]] by blast+

lemma next_recovery_None: "next_recovery_lease_row db now = None \<longleftrightarrow> (\<forall>l \<in> set (t_leases db). \<not> needs_recovery db now l)"
  unfolding next_recovery_lease_row_def by (rule first_sorted_None)

lemma needs_recovery_run:
  assumes inv: "store_inv db" and n: "needs_recovery db now l"
  obtains r where "fetch_run db (ls_run l) = Some r" "expired_active now l r \<or> stranded db l r"
proof -
  obtain r where r: "r \<in> set (t_runs db)" "run_id r = ls_run l" "expired_active now l r \<or> stranded db l r"
    using n by (auto simp: needs_recovery_def list_ex_iff)
  then obtain u where "fetch_run db (ls_run l) = Some u"
    by (cases "fetch_run db (ls_run l)") (auto simp: fetch_run_def fetchone_None_iff)
  then show thesis
    using that r run_row_unique[OF _ _ r(1,2)] inv by (auto simp: store_inv_def lease_inv_def)
qed

definition taken_lease :: "string \<Rightarrow> lease_row \<Rightarrow> lease_row \<Rightarrow> lease_row" where
  "taken_lease now l x = (if ls_lease_id x = ls_lease_id l then expire_lease now x else x)"

text \<open>Taking the selected lease always succeeds: nothing else can have ended it in the transaction.\<close>

lemma take_lease_selected:
  assumes inv: "store_inv db" and l: "l \<in> set (t_leases db)" and r: "fetch_run db (ls_run l) = Some r"
    and n: "expired_active now l r \<or> stranded db l r"
    and t: "take_recovery_lease db l r now = (db1, taken)"
  shows "taken"
    "ls_status l = ''active'' \<Longrightarrow> db1 = db\<lparr>t_leases := map (taken_lease now l) (t_leases db),
       t_runs := update_where (\<lambda>x. run_id x = run_id r) bump_run (t_runs db)\<rparr>"
    "ls_status l \<noteq> ''active'' \<Longrightarrow> db1 = db"
proof -
  let ?p = "\<lambda>x. ls_lease_id x = ls_lease_id l \<and> ls_status x = ''active'' \<and> ls_lease_expires_at x \<le> now"
  have D: "distinct (map ls_lease_id (t_leases db))" using inv by (simp add: store_inv_def lease_inv_def)
  have taken: "ls_status l = ''active'' \<longrightarrow> rowcount ?p (t_leases db) = 1"
    using rowcount_keyed_iff[OF D, of ?p "ls_lease_id l"] l n by (auto simp: expired_active_def stranded_def)
  show "taken"
    using t taken n by (auto simp: take_recovery_lease_def Let_def expired_active_def stranded_def
        active_lease_row_def split: if_splits)
  assume a: "ls_status l = ''active''"
  have "(if ?p x then expire_lease now x else x) = taken_lease now l x" if "x \<in> set (t_leases db)" for x
    using distinct_key_eq[OF D that l] n a by (auto simp: taken_lease_def expired_active_def stranded_def)
  then have "update_where ?p (expire_lease now) (t_leases db) = map (taken_lease now l) (t_leases db)"
    by (simp add: update_where_def)
  then show "db1 = db\<lparr>t_leases := map (taken_lease now l) (t_leases db),
       t_runs := update_where (\<lambda>x. run_id x = run_id r) bump_run (t_runs db)\<rparr>"
    using t a taken by (simp add: take_recovery_lease_def Let_def update_leases_def update_run_def)
next
  show "ls_status l \<noteq> ''active'' \<Longrightarrow> db1 = db" using t by (simp add: take_recovery_lease_def)
qed

lemma take_evolves:
  assumes inv: "store_inv db" and l: "l \<in> set (t_leases db)" and r: "fetch_run db (ls_run l) = Some r" "outcome_clear r"
    and n: "expired_active now l r \<or> stranded db l r"
    and t: "take_recovery_lease db l r now = (db1, taken)"
  shows "evolves db [] db1" "same_log db db1" "run_cores db1 = run_cores db"
proof -
  have D: "distinct (map ls_lease_id (t_leases db))" "distinct (map run_id (t_runs db))"
    using inv by (simp_all add: store_inv_def lease_inv_def)
  note taken = take_lease_selected[OF inv l r(1) n t]
  have "evolves db [] db1 \<and> same_log db db1 \<and> run_cores db1 = run_cores db"
  proof (cases "ls_status l = ''active''")
    case True
    note db1 = taken(2)[OF True]
    have "lease_le db x (taken_lease now l x)" if "x \<in> set (t_leases db)" for x
      using distinct_key_eq[OF D(1) that l] True fetch_run_clear[OF r]
      by (auto simp: taken_lease_def lease_le_def lease_key_def expire_lease_def)
    then have "list_all2 (lease_le db) (t_leases db) (t_leases db1)"
      by (auto simp: db1 list_all2_conv_all_nth)
    moreover have "list_all2 run_le (t_runs db) (t_runs db1)"
      using bump_all_evolves[of db "run_id r" "\<lambda>_. True"] run_row_unique[OF D(2) r(1)] r(2) fetch_run_SomeD[OF r(1)]
      by (auto simp: db1)
    moreover have "run_cores db1 = run_cores db" "same_log db db1"
      by (auto simp: db1 run_cores_def run_core_def same_log_def log_heads_def bump_run_def update_where_def)
    ultimately show ?thesis by (auto intro: evolvesI_update)
  next
    case False
    then show ?thesis using taken(3) by (auto intro!: evolvesI_update simp: runs_refl list_all2_refl)
  qed
  then show "evolves db [] db1" "same_log db db1" "run_cores db1 = run_cores db" by simp_all
qed

lemma enter_attention_frame:
  "enter_recovery_attention db rid at = Inr db' \<Longrightarrow> \<exists>attention. db' = db\<lparr>t_attention := attention\<rparr>"
  by (cases "db") (auto simp: enter_recovery_attention_def Let_def split: list.splits option.splits if_splits)

lemma attention_keeps:
  "db' = db\<lparr>t_attention := a\<rparr> \<Longrightarrow> same_log db db' \<and> run_cores db' = run_cores db \<and>
     t_runs db' = t_runs db \<and> t_leases db' = t_leases db"
  by (simp add: same_log_def log_heads_def run_cores_def)

text \<open>The steps of a decision, with the tables between them.\<close>

lemma decide_cases:
  assumes "decide_and_move env db l r now resume = Inr (db', plan)"
  obtains loaded db1 expiry db2 db3 where
    "loaded = recovery_checkpoint env db r" "plan = decide_expired_lease_recovery (run_status r) loaded resume"
    "append_recovery_expiry_event (rv_sha env) db l r now = Inr (db1, expiry)"
    "append_recovery_decision_event (rv_sha env) db1 l r loaded plan (ev_seq expiry) now = Inr db2"
    "run_transition (run_status r) (rp_target_status plan)"
    "(rp_target_status plan \<noteq> ''needs_attention'' \<and> db3 = db2) \<or>
     (rp_target_status plan = ''needs_attention'' \<and> enter_recovery_attention db2 (run_id r) now = Inr db3)"
    "db' = snd (update_run (run_id r) (\<lambda>x. run_status x = run_status r)
                (recovered_run plan (recovery_stage loaded plan r) now) db3)"
proof -
  define loaded where "loaded = recovery_checkpoint env db r"
  define p where "p = decide_expired_lease_recovery (run_status r) loaded resume"
  obtain db1 expiry db2 db3 st where s: "plan = p"
    "append_recovery_expiry_event (rv_sha env) db l r now = Inr (db1, expiry)"
    "append_recovery_decision_event (rv_sha env) db1 l r loaded p (ev_seq expiry) now = Inr db2"
    "require_run_transition (run_status r) (rp_target_status p) = Inr st"
    "(if rp_target_status p = ''needs_attention'' then enter_recovery_attention db2 (run_id r) now else Inr db2) = Inr db3"
    "db' = snd (update_run (run_id r) (\<lambda>x. run_status x = run_status r)
                (recovered_run p (recovery_stage loaded p r) now) db3)"
    using assms unfolding decide_and_move_def Let_def loaded_def[symmetric] p_def[symmetric]
    by (auto simp: sbind_eq_Inr)
  have "run_transition (run_status r) (rp_target_status p)" using s(4) require_run_transition_Inr_iff by blast
  then show thesis
    using that[of loaded db1 expiry db2 db3] s by (auto simp: loaded_def p_def split: if_splits)
qed

text \<open>One or several of these steps: leases and runs evolve, no run is replaced, the log is kept.\<close>

definition moves_on :: "rcdb \<Rightarrow> rcdb \<Rightarrow> bool" where
  "moves_on db db' \<longleftrightarrow> evolves db [] db' \<and> run_cores db' = run_cores db \<and>
     (events_inv db \<longrightarrow> events_inv db' \<and> log_le db db')"

lemma evolves_trans:
  assumes "evolves a [] b" "evolves b [] c"
  shows "evolves a [] c"
proof -
  have runs: "list_all2 run_le (t_runs a) (t_runs b)" "list_all2 run_le (t_runs b) (t_runs c)"
    and leases: "list_all2 (lease_le a) (t_leases a) (t_leases b)" "list_all2 (lease_le b) (t_leases b) (t_leases c)"
    using assms by (auto simp: evolves_def)
  have "lease_le b x y \<Longrightarrow> lease_le a w x \<Longrightarrow> lease_le a w y" for w x y
    using runs_clear_run[OF runs(1)] by (auto simp: lease_le_def lease_key_eq)
  then have "list_all2 (lease_le a) (t_leases a) (t_leases c)"
    using list_all2_trans[of "lease_le a" "lease_le b" "lease_le a", OF _ leases] by blast
  then show ?thesis using runs_trans[OF runs] by (rule evolvesI_update[rotated])
qed

lemma moves_on_trans: "moves_on a b \<Longrightarrow> moves_on b c \<Longrightarrow> moves_on a c"
  unfolding moves_on_def using evolves_trans log_le_trans by metis

lemma moves_on_refl [simp]: "moves_on db db"
  by (auto simp: moves_on_def runs_refl list_all2_refl intro: evolvesI_update)

lemma moves_on_store: "moves_on db db' \<Longrightarrow> store_inv db \<Longrightarrow> store_inv db'"
  unfolding moves_on_def store_inv_def using evolves_inv by blast

lemma moves_on_life:
  assumes "moves_on db db'" "life_inv db"
  shows "life_inv db' \<and> runs_le db db' \<and> log_le db db'"
proof -
  have "store_inv db" using assms(2) by (simp add: life_inv_def)
  then show ?thesis
    using moves_on_store[OF assms(1)] cores_life_inv[OF assms(2)] cores_runs_le assms(1)
    by (auto simp: moves_on_def evolves_def store_inv_def)
qed

lemma append_moves:
  assumes "distinct (map run_id (t_runs db))"
    and s: "append_event_in_transaction db e snapshot status stop completed ckpt = Inr (db', x)"
  shows "moves_on db db'"
  using append_evolves[OF assms] append_cores[OF s] append_events_inv[OF _ s]
  by (auto simp: moves_on_def list_all2_refl intro!: evolvesI_update)

lemma moves_on_ids: "moves_on db db' \<Longrightarrow> map run_id (t_runs db') = map run_id (t_runs db)"
proof -
  assume "moves_on db db'"
  then have "map fst (run_cores db') = map fst (run_cores db)" by (simp add: moves_on_def)
  then show ?thesis by (simp add: run_cores_def run_core_def comp_def)
qed

text \<open>What a run's row keeps while the events of the recovery are appended.\<close>

definition standing :: "run_row \<Rightarrow> string \<times> string \<times> bool \<times> string option" where
  "standing r = (run_id r, run_status r, outcome_clear r, run_current_action_id r)"

lemma append_standing:
  assumes ids: "distinct (map run_id (t_runs db))"
    and s: "append_event_in_transaction db e snapshot None stop completed ckpt = Inr (db', x)"
  shows "map standing (t_runs db') = map standing (t_runs db)"
  using s
proof (cases rule: append_cases)
  case (new row n json sz target)
  have "standing (advance_run e n target stop completed ckpt r) = standing r"
    if "r \<in> set (t_runs db)" "run_id r = ei_run e" for r
    using run_row_unique[OF ids new(2) that] new(5) by (simp add: standing_def)
  then show ?thesis by (auto simp: new(15) update_where_def)
qed simp

lemma expiry_moves:
  assumes "distinct (map run_id (t_runs db))" "append_recovery_expiry_event sha db l r now = Inr (db', x)"
  shows "moves_on db db'" "map standing (t_runs db') = map standing (t_runs db)"
  using assms append_moves append_standing by (auto simp: append_recovery_expiry_event_def split: option.splits)

lemma decision_moves:
  assumes "distinct (map run_id (t_runs db))"
    "append_recovery_decision_event sha db l r loaded plan n now = Inr db'"
  shows "moves_on db db'" "map standing (t_runs db') = map standing (t_runs db)"
  using assms append_moves append_standing
  by (auto simp: append_recovery_decision_event_def sbind_eq_Inr split: if_splits)

lemma enter_moves:
  assumes "enter_recovery_attention db rid at = Inr db'"
  shows "moves_on db db'" "t_runs db' = t_runs db"
proof -
  obtain a where "db' = db\<lparr>t_attention := a\<rparr>" using enter_attention_frame[OF assms] by blast
  note e = attention_keeps[OF this]
  show "t_runs db' = t_runs db" using e by simp
  show "moves_on db db'"
    using e same_log_inv[of db db'] same_log_le[of db db']
    by (auto simp: moves_on_def list_all2_refl runs_refl intro!: evolvesI_update)
qed

lemma recovered_run_simps [simp]:
  "run_id (recovered_run plan pos now x) = run_id x"
  "run_status (recovered_run plan pos now x) = rp_target_status plan"
  "run_state_revision (recovered_run plan pos now x) = run_state_revision x + 1"
  "outcome_clear (recovered_run plan pos now x) = outcome_clear x"
  "run_core (recovered_run plan pos now x) = run_core x"
  "run_latest_event_seq (recovered_run plan pos now x) = run_latest_event_seq x"
  by (simp_all add: recovered_run_def Let_def bump_run_def outcome_clear_def run_core_def)

lemma move_run_moves:
  assumes "run_transition st (rp_target_status plan)"
    and "\<And>u. u \<in> set (t_runs db) \<Longrightarrow> run_id u = rid \<Longrightarrow> outcome_clear u"
  shows "moves_on db (snd (update_run rid (\<lambda>x. run_status x = st) (recovered_run plan pos now) db))"
proof -
  let ?db = "snd (update_run rid (\<lambda>x. run_status x = st) (recovered_run plan pos now) db)"
  have "list_all2 run_le (t_runs db) (t_runs ?db)"
    unfolding update_run_simps
    by (rule list_all2_update_where) (use assms in \<open>auto simp: run_le_def intro: r_into_rtranclp\<close>)
  moreover have "run_cores ?db = run_cores db" "same_log db ?db"
    by (auto simp: run_cores_def same_log_def log_heads_def update_run_def update_where_def)
  ultimately show ?thesis
    using same_log_inv[of db ?db] same_log_le[of db ?db]
    by (auto simp: moves_on_def list_all2_refl intro!: evolvesI_update)
qed

text \<open>The whole decision, seen at the run.\<close>

lemma decide_moves:
  assumes ids: "distinct (map run_id (t_runs db))"
    and u: "fetch_run db (run_id r) = Some u" "run_status u = run_status r" "outcome_clear u"
    and s: "decide_and_move env db l r now resume = Inr (db', plan)"
  shows "moves_on db db'" "\<exists>u'. fetch_run db' (run_id r) = Some u' \<and> run_status u' = rp_target_status plan"
proof -
  obtain loaded db1 expiry db2 db3 where
    e1: "append_recovery_expiry_event (rv_sha env) db l r now = Inr (db1, expiry)" and
    e2: "append_recovery_decision_event (rv_sha env) db1 l r loaded plan (ev_seq expiry) now = Inr db2" and
    tr: "run_transition (run_status r) (rp_target_status plan)" and
    e3: "(rp_target_status plan \<noteq> ''needs_attention'' \<and> db3 = db2) \<or>
     (rp_target_status plan = ''needs_attention'' \<and> enter_recovery_attention db2 (run_id r) now = Inr db3)" and
    db': "db' = snd (update_run (run_id r) (\<lambda>x. run_status x = run_status r)
                (recovered_run plan (recovery_stage loaded plan r) now) db3)"
    by (rule decide_cases[OF s])
  note m1 = expiry_moves[OF ids e1]
  have ids1: "distinct (map run_id (t_runs db1))" using moves_on_ids[OF m1(1)] ids by simp
  note m2 = decision_moves[OF ids1 e2]
  have m3: "moves_on db2 db3" "t_runs db3 = t_runs db2" using e3 enter_moves by auto
  have st: "map standing (t_runs db3) = map standing (t_runs db)" using m1 m2 m3 by simp
  have ids3: "distinct (map run_id (t_runs db3))"
    using ids arg_cong[OF st, of "map fst"] by (simp add: standing_def comp_def)
  have mem: "standing v \<in> standing ` set (t_runs db)" if "v \<in> set (t_runs db3)" for v
    using that arg_cong[OF st, of set] by auto
  have same: "run_status v = run_status r \<and> outcome_clear v" if v: "v \<in> set (t_runs db3)" "run_id v = run_id r" for v
  proof -
    obtain w where w: "w \<in> set (t_runs db)" "standing v = standing w" using mem[OF v(1)] by blast
    then have "w = u" using run_row_unique[OF ids u(1) w(1)] v(2) by (simp add: standing_def)
    then show ?thesis using w u by (simp add: standing_def)
  qed
  show "moves_on db db'"
    unfolding db'
    by (rule moves_on_trans[OF moves_on_trans[OF moves_on_trans[OF m1(1) m2(1)] m3(1)] move_run_moves[OF tr]])
      (use same in blast)
  have "run_id r \<in> run_id ` set (t_runs db)" using fetch_run_SomeD[OF u(1)] by (metis imageI)
  then have "run_id r \<in> run_id ` set (t_runs db3)"
    using arg_cong[OF st, of "\<lambda>xs. set (map fst xs)"] by (simp add: standing_def image_image)
  then obtain v where v: "v \<in> set (t_runs db3)" "run_id v = run_id r" by auto
  have "fetch_run db3 (run_id r) = Some v"
    using run_row_unique[OF ids3 _ v] v by (cases "fetch_run db3 (run_id r)") (auto simp: fetch_run_def fetchone_None_iff)
  then have "fetch_run db' (run_id r) = Some (recovered_run plan (recovery_stage loaded plan r) now v)"
    using same[OF v] v(2) unfolding db' fetch_run_def update_run_def snd_conv
    by (simp add: fetchone_update_hit)
  then show "\<exists>u'. fetch_run db' (run_id r) = Some u' \<and> run_status u' = rp_target_status plan" by simp
qed

lemma settle_cases:
  assumes inv: "store_inv db" and s: "settle_next_expired_executor_lease env db now resume = Inr (db', res)"
  obtains (nothing) "next_recovery_lease_row db now = None" "db' = db" "res = None"
    | (cleaned) l r where "next_recovery_lease_row db now = Some l" "fetch_run db (ls_run l) = Some r"
      "outcome_clear r" "expired_active now l r \<or> stranded db l r"
      "take_recovery_lease db l r now = (db', True)" "run_status r \<in> set LEASE_ONLY_CLEANUP_RUN_STATUSES"
      "res = Some None"
    | (decided) l r db1 plan where "next_recovery_lease_row db now = Some l" "fetch_run db (ls_run l) = Some r"
      "outcome_clear r" "expired_active now l r \<or> stranded db l r"
      "take_recovery_lease db l r now = (db1, True)" "run_status r \<notin> set LEASE_ONLY_CLEANUP_RUN_STATUSES"
      "decide_and_move env db1 l r now resume = Inr (db', plan)"
      "res = Some (Some (run_id r, rp_reason_code plan))"
proof (cases "next_recovery_lease_row db now")
  case None
  show thesis by (rule nothing) (use None s in \<open>auto simp: settle_next_expired_executor_lease_def\<close>)
next
  case (Some l)
  note l = next_recoveryD[OF Some]
  obtain r where r: "fetch_run db (ls_run l) = Some r" "expired_active now l r \<or> stranded db l r"
    using needs_recovery_run[OF inv l(2)] .
  obtain db1 taken where t: "take_recovery_lease db l r now = (db1, taken)" by fastforce
  have taken: "taken = True" using take_lease_selected(1)[OF inv l(1) r t] by simp
  have clear: "outcome_clear r"
    and rest: "(if run_status r \<in> set LEASE_ONLY_CLEANUP_RUN_STATUSES then Inr (db1, Some None)
        else sbind (decide_and_move env db1 l r now resume) (\<lambda>(db2, plan).
          Inr (db2, Some (Some (run_id r, rp_reason_code plan))))) = Inr (db', res)"
    using s Some r(1) t taken by (auto simp: settle_next_expired_executor_lease_def sbind_eq_Inr)
  show thesis
  proof (cases "run_status r \<in> set LEASE_ONLY_CLEANUP_RUN_STATUSES")
    case True
    then show thesis using cleaned[OF Some r(1) clear r(2)] t taken rest by simp
  next
    case False
    then obtain plan where "decide_and_move env db1 l r now resume = Inr (db', plan)"
        "res = Some (Some (run_id r, rp_reason_code plan))"
      using rest by (auto simp: sbind_eq_Inr)
    then show thesis using decided[OF Some r(1) clear r(2)] t taken False by simp
  qed
qed

lemma take_standing:
  assumes inv: "store_inv db" and l: "l \<in> set (t_leases db)" and r: "fetch_run db (ls_run l) = Some r"
    and n: "expired_active now l r \<or> stranded db l r"
    and t: "take_recovery_lease db l r now = (db1, taken)"
  shows "\<exists>u. fetch_run db1 (run_id r) = Some u \<and> standing u = standing r"
proof (cases "ls_status l = ''active''")
  case True
  have "fetchone (\<lambda>x. run_id x = run_id r) (t_runs db) = Some r"
    using r fetch_run_SomeD[OF r] by (simp add: fetch_run_def)
  from fetchone_update_hit[OF this, of "\<lambda>_. True" bump_run]
  have "fetch_run db1 (run_id r) = Some (bump_run r)"
    by (simp add: take_lease_selected(2)[OF inv l r n t True] fetch_run_def)
  then show ?thesis by (auto simp: standing_def)
next
  case False
  then show ?thesis
    using take_lease_selected(3)[OF inv l r n t] r fetch_run_SomeD[OF r] by auto
qed

lemma settle_moves:
  assumes inv: "store_inv db" and s: "settle_next_expired_executor_lease env db now resume = Inr (db', res)"
  shows "moves_on db db'"
proof -
  have took: "moves_on db db1" if "next_recovery_lease_row db now = Some l" "fetch_run db (ls_run l) = Some r"
      "outcome_clear r" "expired_active now l r \<or> stranded db l r" "take_recovery_lease db l r now = (db1, True)" for l r db1
    using take_evolves[OF inv next_recoveryD(1)[OF that(1)] that(2-5)] same_log_inv same_log_le
    by (auto simp: moves_on_def)
  show ?thesis
    using inv s
  proof (cases rule: settle_cases)
    case (decided l r db1 plan)
    note t = took[OF decided(1-5)]
    obtain u where u: "fetch_run db1 (run_id r) = Some u" "standing u = standing r"
      using take_standing[OF inv next_recoveryD(1)[OF decided(1)] decided(2,4,5)] by blast
    have "distinct (map run_id (t_runs db1))" using moves_on_store[OF t inv] by (simp add: store_inv_def lease_inv_def)
    then show ?thesis
      using moves_on_trans[OF t decide_moves(1)[OF _ u(1) _ _ decided(7)]] u(2) decided(3) by (simp add: standing_def)
  qed (use took in auto)
qed

section \<open>One run at a time\<close>

definition same_run :: "string \<Rightarrow> rcdb \<Rightarrow> rcdb \<Rightarrow> bool" where
  "same_run rid db db' \<longleftrightarrow>
     filter (\<lambda>r. run_id r = rid) (t_runs db') = filter (\<lambda>r. run_id r = rid) (t_runs db) \<and>
     filter (\<lambda>l. ls_run l = rid) (t_leases db') = filter (\<lambda>l. ls_run l = rid) (t_leases db) \<and>
     run_events db' rid = run_events db rid"

lemma same_run_refl [simp]: "same_run rid db db"
  by (simp add: same_run_def)

lemma same_run_trans: "same_run rid a b \<Longrightarrow> same_run rid b c \<Longrightarrow> same_run rid a c"
  by (simp add: same_run_def)

lemma update_where_other:
  "(\<And>x. p x \<Longrightarrow> k x = c \<and> k (f x) = c) \<Longrightarrow> c \<noteq> d \<Longrightarrow>
   filter (\<lambda>x. k x = d) (update_where p f t) = filter (\<lambda>x. k x = d) t"
  by (induction t) auto

lemma append_same_run:
  assumes s: "append_event_in_transaction db e snapshot status stop completed ckpt = Inr (db', x)"
    and rid: "rid \<noteq> ei_run e"
  shows "same_run rid db db'"
  using s
proof (cases rule: append_cases)
  case (new row n json sz target)
  then show ?thesis
    using rid update_where_other[of "\<lambda>r. run_id r = ei_run e \<and> outcome_clear r" run_id "ei_run e"]
    by (simp add: same_run_def run_events_def)
qed simp

lemma recovery_event_run [simp]: "ei_run (recovery_event eid rid ty st n stat summ p k now) = rid"
  by (simp add: recovery_event_def)

lemma event_runs [simp]: "ei_run (expiry_event sha l r now) = run_id r" "ei_run (decision_event sha l r loaded plan now) = run_id r"
  by (simp_all add: expiry_event_def decision_event_def split: prod.split)

lemma decide_same_run:
  assumes s: "decide_and_move env db l r now resume = Inr (db', plan)" and rid: "rid \<noteq> run_id r"
  shows "same_run rid db db'" "t_leases db' = t_leases db"
proof -
  obtain loaded db1 expiry db2 db3 where
    e1: "append_recovery_expiry_event (rv_sha env) db l r now = Inr (db1, expiry)" and
    e2: "append_recovery_decision_event (rv_sha env) db1 l r loaded plan (ev_seq expiry) now = Inr db2" and
    e3: "(rp_target_status plan \<noteq> ''needs_attention'' \<and> db3 = db2) \<or>
     (rp_target_status plan = ''needs_attention'' \<and> enter_recovery_attention db2 (run_id r) now = Inr db3)" and
    db': "db' = snd (update_run (run_id r) (\<lambda>x. run_status x = run_status r)
                (recovered_run plan (recovery_stage loaded plan r) now) db3)"
    by (rule decide_cases[OF s])
  have leases: "append_event_in_transaction d e None None None None None = Inr (d', x) \<Longrightarrow> t_leases d' = t_leases d"
    for d e d' x by (erule append_cases) simp_all
  have 1: "same_run rid db db1 \<and> t_leases db1 = t_leases db"
    using e1 rid append_same_run leases by (auto simp: append_recovery_expiry_event_def split: option.splits)
  have 2: "same_run rid db1 db2 \<and> t_leases db2 = t_leases db1"
    using e2 rid append_same_run leases
    by (auto simp: append_recovery_decision_event_def sbind_eq_Inr split: if_splits)
  have 3: "same_run rid db2 db3 \<and> t_leases db3 = t_leases db2"
    using e3 enter_attention_frame by (fastforce simp: same_run_def run_events_def)
  have 4: "same_run rid db3 db' \<and> t_leases db' = t_leases db3"
    using rid update_where_other[of "\<lambda>x. run_id x = run_id r \<and> run_status x = run_status r" run_id "run_id r"
        "recovered_run plan (recovery_stage loaded plan r) now"]
    by (simp add: db' same_run_def run_events_def update_run_def)
  show "same_run rid db db'" using 1 2 3 4 same_run_trans by metis
  show "t_leases db' = t_leases db" using 1 2 3 4 by simp
qed

lemma same_run_needs:
  assumes "same_run (ls_run x) db db'"
  shows "needs_recovery db' now x = needs_recovery db now x"
proof -
  have f: "list_ex (\<lambda>r. run_id r = ls_run x \<and> P r) t = list_ex P (filter (\<lambda>r. run_id r = ls_run x) t)" for P t
    by (auto simp: list_ex_iff)
  have a: "active_leases d (ls_run x) = filter (\<lambda>l. ls_status l = ''active'') (filter (\<lambda>l. ls_run l = ls_run x) (t_leases d))" for d
    by (simp add: active_leases_def)
  have k: "event_row_by_idempotency_key d (ls_run x) key = fetchone (\<lambda>e. ev_idempotency_key e = Some key) (run_events d (ls_run x))" for d key
    by (simp add: event_row_by_idempotency_key_def run_events_def fetchone_filter)
  show ?thesis
    using assms unfolding needs_recovery_def f stranded_def a k latest_attempt_def same_run_def by simp
qed

section \<open>Progress\<close>

definition backlog :: "rcdb \<Rightarrow> string \<Rightarrow> nat" where
  "backlog db now = rowcount (needs_recovery db now) (t_leases db)"

lemma rowcount_less:
  assumes "\<And>x. x \<in> set t \<Longrightarrow> q (f x) \<Longrightarrow> p x" "x0 \<in> set t" "p x0" "\<not> q (f x0)"
  shows "rowcount q (map f t) < rowcount p t"
proof -
  have le: "(\<And>x. x \<in> set u \<Longrightarrow> q (f x) \<Longrightarrow> p x) \<Longrightarrow> rowcount q (map f u) \<le> rowcount p u" for u
  proof (induction u)
    case (Cons y u)
    have "rowcount q (map f u) \<le> rowcount p u" by (rule Cons.IH) (use Cons.prems in auto)
    then show ?case using Cons.prems[of y] by auto
  qed simp
  obtain a b where t: "t = a @ x0 # b" using split_list[OF assms(2)] by blast
  have "rowcount q (map f a) \<le> rowcount p a" "rowcount q (map f b) \<le> rowcount p b"
    using assms(1) by (auto intro!: le simp: t)
  then show ?thesis using assms(3,4) by (simp add: t)
qed

lemma taken_no_active:
  assumes inv: "store_inv db" and l: "l \<in> set (t_leases db)" and r: "fetch_run db (ls_run l) = Some r"
    and n: "expired_active now l r \<or> stranded db l r"
    and t: "take_recovery_lease db l r now = (db1, taken)"
  shows "active_leases db1 (ls_run l) = []" "\<exists>g. t_leases db1 = map g (t_leases db) \<and>
    (\<forall>x \<in> set (t_leases db). (ls_run (g x) = ls_run x \<and> ls_lease_id (g x) = ls_lease_id x) \<and>
       (ls_run x \<noteq> ls_run l \<longrightarrow> g x = x))"
proof -
  have D: "distinct (map ls_lease_id (t_leases db))" using inv by (simp add: store_inv_def lease_inv_def)
  have one: "rowcount (\<lambda>x. ls_run x = ls_run l \<and> ls_status x = ''active'') (t_leases db) \<le> 1"
    using inv by (simp add: store_inv_def lease_inv_def)
  have "active_leases db1 (ls_run l) = [] \<and> (\<exists>g. t_leases db1 = map g (t_leases db) \<and>
    (\<forall>x \<in> set (t_leases db). (ls_run (g x) = ls_run x \<and> ls_lease_id (g x) = ls_lease_id x) \<and>
       (ls_run x \<noteq> ls_run l \<longrightarrow> g x = x)))"
  proof (cases "ls_status l = ''active''")
    case True
    note db1 = take_lease_selected(2)[OF inv l r n t True]
    have "ls_status (taken_lease now l x) \<noteq> ''active''"
      if "x \<in> set (t_leases db)" "ls_run (taken_lease now l x) = ls_run l" for x
    proof
      assume a: "ls_status (taken_lease now l x) = ''active''"
      then have "x \<noteq> l" "ls_status x = ''active''" "ls_run x = ls_run l"
        using that(2) by (auto simp: taken_lease_def expire_lease_def split: if_splits)
      then show False using rowcount_le1_eq[OF one that(1) _ l] True by simp
    qed
    then have "active_leases db1 (ls_run l) = []" by (auto simp: active_leases_def db1 filter_empty_conv)
    moreover have "(ls_run (taken_lease now l x) = ls_run x \<and> ls_lease_id (taken_lease now l x) = ls_lease_id x) \<and>
        (ls_run x \<noteq> ls_run l \<longrightarrow> taken_lease now l x = x)" if "x \<in> set (t_leases db)" for x
      using distinct_key_eq[OF D that l] by (auto simp: taken_lease_def expire_lease_def)
    ultimately show ?thesis by (auto simp: db1)
  next
    case False
    then have "db1 = db" "active_leases db (ls_run l) = []"
      using take_lease_selected(3)[OF inv l r n t] n by (simp_all add: expired_active_def stranded_def)
    then show ?thesis by (auto intro!: exI[of _ "\<lambda>x. x"])
  qed
  then show "active_leases db1 (ls_run l) = []" "\<exists>g. t_leases db1 = map g (t_leases db) \<and>
    (\<forall>x \<in> set (t_leases db). (ls_run (g x) = ls_run x \<and> ls_lease_id (g x) = ls_lease_id x) \<and>
       (ls_run x \<noteq> ls_run l \<longrightarrow> g x = x))" by blast+
qed

lemma decided_target:
  "rp_target_status (decide_expired_lease_recovery st loaded resume) \<in>
     {''cancelled'', ''failed'', ''needs_attention'', ''resume_requested''}"
  by (simp add: decide_expired_lease_recovery_def crash_plan_def split: checkpoint_load.split)

text \<open>The decision is in the log, under the key of the lease or as an earlier release wrote it.\<close>

lemma decision_recorded:
  assumes d: "decide_and_move env db l r now resume = Inr (db', plan)" and id: "run_id r = ls_run l"
  shows "\<exists>x \<in> set (run_events db' (ls_run l)). ev_idempotency_key x = Some (decision_key l) \<or>
    ev_idempotency_key x = None \<and> ev_type x \<in> set LEGACY_DECISION_TYPES"
proof -
  obtain loaded db1 expiry db2 db3 where
    "loaded = recovery_checkpoint env db r" and
    plan: "plan = decide_expired_lease_recovery (run_status r) loaded resume" and
    "append_recovery_expiry_event (rv_sha env) db l r now = Inr (db1, expiry)" and
    e2: "append_recovery_decision_event (rv_sha env) db1 l r loaded plan (ev_seq expiry) now = Inr db2" and
    "run_transition (run_status r) (rp_target_status plan)" and
    e3: "(rp_target_status plan \<noteq> ''needs_attention'' \<and> db3 = db2) \<or>
     (rp_target_status plan = ''needs_attention'' \<and> enter_recovery_attention db2 (run_id r) now = Inr db3)" and
    db': "db' = snd (update_run (run_id r) (\<lambda>x. run_status x = run_status r)
                (recovered_run plan (recovery_stage loaded plan r) now) db3)"
    by (rule decide_cases[OF d])
  have events: "t_events db' = t_events db2"
    using e3 enter_attention_frame by (fastforce simp: db' update_run_def)
  show ?thesis
  proof (cases "legacy_decision_stands db1 l plan (ev_seq expiry)")
    case True
    then obtain x where x: "paired_legacy_decision_event db1 l (ev_seq expiry) = Some x"
      by (auto simp: legacy_decision_stands_def split: option.splits)
    then have "x \<in> set (t_events db1)" "ev_run x = ls_run l" "ev_type x \<in> set LEGACY_DECISION_TYPES"
        "ev_idempotency_key x = None"
      using fetchone_SomeD[OF x[unfolded paired_legacy_decision_event_def]] by auto
    moreover have "db2 = db1" using e2 True by (simp add: append_recovery_decision_event_def)
    ultimately show ?thesis using events id by (force simp: run_events_def)
  next
    case False
    then obtain x where a: "append_event_in_transaction db1 (decision_event (rv_sha env) l r loaded plan now) None None
        None None None = Inr (db2, x)"
      using e2 by (auto simp: append_recovery_decision_event_def sbind_eq_Inr)
    have k: "ei_idempotency_key (decision_event (rv_sha env) l r loaded plan now) = Some (decision_key l)"
      by (simp add: decision_event_def recovery_event_def split: prod.split)
    have "x \<in> set (t_events db2) \<and> ev_run x = run_id r \<and> ev_idempotency_key x = Some (decision_key l)"
      using a
    proof (cases rule: append_cases)
      case replay
      then show ?thesis using keyed_eventD[OF replay(2)] k by simp
    next
      case (new row n json sz target)
      then show ?thesis using k by simp
    qed
    then show ?thesis using events id by (force simp: run_events_def)
  qed
qed

lemma filter_map_other_key:
  "(\<And>x. x \<in> set t \<Longrightarrow> k (f x) = k x \<and> (k x \<noteq> c \<longrightarrow> f x = x)) \<Longrightarrow> d \<noteq> c \<Longrightarrow>
   filter (\<lambda>x. k x = d) (map f t) = filter (\<lambda>x. k x = d) t"
  by (induction t) auto

text \<open>The run after a decision.\<close>

lemma decided_run:
  assumes inv: "store_inv db" and l: "next_recovery_lease_row db now = Some l" "fetch_run db (ls_run l) = Some r"
    and r: "outcome_clear r" "expired_active now l r \<or> stranded db l r"
    and t: "take_recovery_lease db l r now = (db1, True)" and d: "decide_and_move env db1 l r now resume = Inr (db', plan)"
  obtains u where "fetch_run db' (ls_run l) = Some u" "run_status u = rp_target_status plan" "run_id r = ls_run l"
    "plan = decide_expired_lease_recovery (run_status r) (recovery_checkpoint env db1 r) resume"
proof -
  note mem = next_recoveryD(1)[OF l(1)]
  have id: "run_id r = ls_run l" using fetch_run_SomeD[OF l(2)] by simp
  obtain w where w: "fetch_run db1 (run_id r) = Some w" "standing w = standing r"
    using take_standing[OF inv mem l(2) r(2) t] by blast
  have "moves_on db db1"
    using take_evolves[OF inv mem l(2) r t] same_log_inv same_log_le by (auto simp: moves_on_def)
  then have ids: "distinct (map run_id (t_runs db1))" using moves_on_store inv by (auto simp: store_inv_def lease_inv_def)
  obtain u where "fetch_run db' (run_id r) = Some u" "run_status u = rp_target_status plan"
    using decide_moves(2)[OF ids w(1) _ _ d] w(2) r(1) by (auto simp: standing_def)
  moreover have "plan = decide_expired_lease_recovery (run_status r) (recovery_checkpoint env db1 r) resume"
    by (rule decide_cases[OF d]) simp
  ultimately show thesis using that id by simp
qed

text \<open>The state of the run whose lease was settled, and of the other runs.\<close>

lemma settled:
  assumes inv: "store_inv db" and s: "settle_next_expired_executor_lease env db now resume = Inr (db', Some d)"
  obtains l r u g where "next_recovery_lease_row db now = Some l" "fetch_run db (ls_run l) = Some r"
    "fetch_run db' (ls_run l) = Some u" "run_status u \<notin> {''starting'', ''running'', ''cancellation_requested''}"
    "active_leases db' (ls_run l) = []" "t_leases db' = map g (t_leases db)"
    "\<And>x. x \<in> set (t_leases db) \<Longrightarrow> ls_run (g x) = ls_run x \<and> ls_lease_id (g x) = ls_lease_id x"
    "\<And>rid. rid \<noteq> ls_run l \<Longrightarrow> same_run rid db db'"
proof -
  have cleanup: "st \<in> set LEASE_ONLY_CLEANUP_RUN_STATUSES \<Longrightarrow> st \<notin> {''starting'', ''running'', ''cancellation_requested''}" for st
    by (auto simp: LEASE_ONLY_CLEANUP_RUN_STATUSES_def TERMINAL_RUN_STATUSES_def)
  have other: "same_run rid db db1" if n: "next_recovery_lease_row db now = Some l" "fetch_run db (ls_run l) = Some r"
      "expired_active now l r \<or> stranded db l r" "take_recovery_lease db l r now = (db1, True)"
      and rid: "rid \<noteq> ls_run l" for l r db1 rid
  proof (cases "ls_status l = ''active''")
    case True
    note db1 = take_lease_selected(2)[OF inv next_recoveryD(1)[OF n(1)] n(2-4) True]
    have D: "distinct (map ls_lease_id (t_leases db))" using inv by (simp add: store_inv_def lease_inv_def)
    have "ls_run (taken_lease now l x) = ls_run x \<and> (ls_run x \<noteq> ls_run l \<longrightarrow> taken_lease now l x = x)"
      if "x \<in> set (t_leases db)" for x
      using distinct_key_eq[OF D that next_recoveryD(1)[OF n(1)]] by (auto simp: taken_lease_def expire_lease_def)
    then have "filter (\<lambda>x. ls_run x = rid) (map (taken_lease now l) (t_leases db)) = filter (\<lambda>x. ls_run x = rid) (t_leases db)"
      using rid filter_map_other_key[of "t_leases db" ls_run] by blast
    then show ?thesis
      using rid fetch_run_SomeD[OF n(2)] update_where_other[of "\<lambda>x. run_id x = run_id r" run_id "run_id r" bump_run rid]
      by (simp add: same_run_def db1 run_events_def)
  next
    case False
    then show ?thesis using take_lease_selected(3)[OF inv next_recoveryD(1)[OF n(1)] n(2-4)] by simp
  qed
  from inv s show thesis
  proof (cases rule: settle_cases)
    case (cleaned l r)
    note l = next_recoveryD(1)[OF cleaned(1)]
    note no = taken_no_active[OF inv l cleaned(2,4,5)]
    have id: "run_id r = ls_run l" using fetch_run_SomeD[OF cleaned(2)] by simp
    obtain u where u: "fetch_run db' (run_id r) = Some u" "standing u = standing r"
      using take_standing[OF inv l cleaned(2,4,5)] by blast
    then have st: "run_status u \<notin> {''starting'', ''running'', ''cancellation_requested''}"
      using cleanup[OF cleaned(6)] by (simp add: standing_def)
    show thesis
      using no(2) that[OF cleaned(1,2) u(1)[unfolded id] st no(1) _ _ other[OF cleaned(1,2,4,5)]] by blast
  next
    case (decided l r db1 plan)
    note no = taken_no_active[OF inv next_recoveryD(1)[OF decided(1)] decided(2,4,5)]
    obtain v where v: "fetch_run db' (ls_run l) = Some v" "run_status v = rp_target_status plan" "run_id r = ls_run l"
        "plan = decide_expired_lease_recovery (run_status r) (recovery_checkpoint env db1 r) resume"
      by (rule decided_run[OF inv decided(1-5,7)])
    have st: "run_status v \<notin> {''starting'', ''running'', ''cancellation_requested''}"
      using decided_target[of "run_status r" "recovery_checkpoint env db1 r" resume] v(2,4) by auto
    have leases: "t_leases db' = t_leases db1" by (rule decide_same_run(2)[OF decided(7), of "run_id r @ ''x''"]) simp
    have "active_leases db' (ls_run l) = []" using no(1) leases by (simp add: active_leases_def)
    moreover obtain g where "t_leases db' = map g (t_leases db)"
        "\<And>x. x \<in> set (t_leases db) \<Longrightarrow> ls_run (g x) = ls_run x \<and> ls_lease_id (g x) = ls_lease_id x"
      using no(2) leases by metis
    moreover have "same_run rid db db'" if "rid \<noteq> ls_run l" for rid
      by (rule same_run_trans[OF other[OF decided(1,2,4,5) that] decide_same_run(1)[OF decided(7)]]) (use that v(3) in simp)
    ultimately show thesis
      using that[OF decided(1,2) v(1) st] by blast
  qed simp
qed

lemma settled_backlog:
  assumes inv: "store_inv db" and s: "settle_next_expired_executor_lease env db now resume = Inr (db', Some d)"
  shows "backlog db' now < backlog db now"
proof -
  show ?thesis
  proof (rule settled[OF inv s], goal_cases)
  case (1 l r u g)
  note n = 1(1,2) and u = 1(3,4) and a = 1(5) and g = 1(6,7) and other = 1(8)
  have inv': "store_inv db'" by (rule moves_on_store[OF settle_moves[OF inv s] inv])
  have own: "\<not> needs_recovery db' now x" if "x \<in> set (t_leases db')" "ls_run x = ls_run l" for x
  proof
    assume "needs_recovery db' now x"
    then obtain v where v: "fetch_run db' (ls_run x) = Some v" "expired_active now x v \<or> stranded db' x v"
      by (rule needs_recovery_run[OF inv'])
    then have "v = u" using u that by simp
    then have "ls_status x = ''active''" using v u(2) by (auto simp: expired_active_def stranded_def)
    then show False using a that by (auto simp: active_leases_def filter_empty_conv)
  qed
  have D: "distinct (map ls_lease_id (t_leases db))" "distinct (map ls_lease_id (t_leases db'))"
    using inv inv' by (simp_all add: store_inv_def lease_inv_def)
  show ?thesis
    unfolding backlog_def g(1)
  proof (rule rowcount_less)
    show "l \<in> set (t_leases db)" "needs_recovery db now l" using next_recoveryD[OF n(1)] by simp_all
    then show "\<not> needs_recovery db' now (g l)" using own[of "g l"] g by auto
  next
    fix x assume x: "x \<in> set (t_leases db)" "needs_recovery db' now (g x)"
    then have ne: "ls_run x \<noteq> ls_run l" using own[of "g x"] g by auto
    have "g x \<in> set (filter (\<lambda>y. ls_run y = ls_run x) (t_leases db'))" using x g by auto
    also have "\<dots> = set (filter (\<lambda>y. ls_run y = ls_run x) (t_leases db))"
      using other[OF ne] unfolding same_run_def by argo
    finally have "g x \<in> set (t_leases db)" by simp
    then have "g x = x" using distinct_key_eq[OF D(1) _ x(1)] g(2)[OF x(1)] by blast
    then show "needs_recovery db now x" using x(2) same_run_needs[OF other[OF ne]] by simp
  qed
  qed
qed

text \<open>A settlement writes runs, leases, events and attention rows, and nothing else.\<close>

definition recovery_frame :: "rcdb \<Rightarrow> rcdb \<Rightarrow> bool" where
  "recovery_frame db db' \<longleftrightarrow>
     db' = db\<lparr>t_runs := t_runs db', t_leases := t_leases db', t_events := t_events db', t_attention := t_attention db'\<rparr>"

lemma recovery_frame_trans: "recovery_frame a b \<Longrightarrow> recovery_frame b c \<Longrightarrow> recovery_frame a c"
  unfolding recovery_frame_def by (cases a; cases b; cases c; simp)

lemma recovery_frameD:
  assumes "recovery_frame db db'"
  shows "t_operations db' = t_operations db" "t_reconciliations db' = t_reconciliations db"
    "t_snapshots db' = t_snapshots db" "t_checkpoints db' = t_checkpoints db" "t_outbox db' = t_outbox db"
    "t_expectations db' = t_expectations db"
  using assms unfolding recovery_frame_def by (cases db; cases db'; simp)+

lemma append_recovery_frame:
  assumes "append_event_in_transaction db e None status stop completed ckpt = Inr (db', x)"
  shows "recovery_frame db db'"
  using append_frame[OF assms] unfolding recovery_frame_def by (cases db; cases db'; simp)

lemma take_frame: "take_recovery_lease db l r now = (db1, taken) \<Longrightarrow> recovery_frame db db1"
  by (auto simp: take_recovery_lease_def Let_def recovery_frame_def update_leases_def update_run_def split: if_splits)

lemma decide_frame:
  assumes "decide_and_move env db l r now resume = Inr (db', plan)"
  shows "recovery_frame db db'"
proof -
  obtain loaded db1 expiry db2 db3 where
    e1: "append_recovery_expiry_event (rv_sha env) db l r now = Inr (db1, expiry)" and
    e2: "append_recovery_decision_event (rv_sha env) db1 l r loaded plan (ev_seq expiry) now = Inr db2" and
    e3: "(rp_target_status plan \<noteq> ''needs_attention'' \<and> db3 = db2) \<or>
     (rp_target_status plan = ''needs_attention'' \<and> enter_recovery_attention db2 (run_id r) now = Inr db3)" and
    db': "db' = snd (update_run (run_id r) (\<lambda>x. run_status x = run_status r)
                (recovered_run plan (recovery_stage loaded plan r) now) db3)"
    by (rule decide_cases[OF assms])
  have refl: "recovery_frame d d" for d by (simp add: recovery_frame_def)
  have 1: "recovery_frame db db1"
    using e1 append_recovery_frame refl by (auto simp: append_recovery_expiry_event_def split: option.splits)
  have 2: "recovery_frame db1 db2"
    using e2 append_recovery_frame refl
    by (auto simp: append_recovery_decision_event_def sbind_eq_Inr split: if_splits)
  have 3: "recovery_frame db2 db3"
    using e3 enter_attention_frame refl by (fastforce simp: recovery_frame_def)
  have 4: "recovery_frame db3 db'" by (simp add: db' recovery_frame_def update_run_def)
  show ?thesis using 1 2 3 4 recovery_frame_trans by blast
qed

lemma settle_frame:
  assumes inv: "store_inv db" and s: "settle_next_expired_executor_lease env db now resume = Inr (db', res)"
  shows "recovery_frame db db'"
  using assms
proof (cases rule: settle_cases)
  case nothing
  then show ?thesis by (simp add: recovery_frame_def)
next
  case (cleaned l r)
  then show ?thesis by (simp add: take_frame)
next
  case (decided l r db1 plan)
  then show ?thesis using take_frame decide_frame recovery_frame_trans by blast
qed

lemma effect_known_frame: "recovery_frame db db' \<Longrightarrow> effect_known db' r = effect_known db r"
  by (simp add: effect_known_def safe_retry_reconciliation_def recovery_frameD)

lemma unresolved_frame: "recovery_frame db db' \<Longrightarrow> unresolved_operations db' rid = unresolved_operations db rid"
  by (simp add: unresolved_operations_def recovery_frameD)

lemma recovery_frame_ledger: "recovery_frame db db' \<Longrightarrow> same_ledger db db'"
  by (simp add: same_ledger_def recovery_frameD)

text \<open>A checkpoint that loads stands behind no open effect of its run.\<close>

lemma loaded_checkpoint:
  assumes "recoverable_checkpoint_from_run_row env db run = LoadedCheckpoint c"
  shows "\<exists>row. row \<in> set (t_checkpoints db) \<and> run_latest_checkpoint_id run = Some (cp_checkpoint_id row) \<and>
      cp_run row = run_id run \<and> recoverable_checkpoint_from_row_or_failure (rv_sha env) row = LoadedCheckpoint c"
    "source_operations_recoverable_at_checkpoint (rv_sha env) (rv_digest env) db (run_id run) (rc_checkpoint_id c)"
    "validate_recoverable_checkpoint c (context_of env db run c) = None"
  using assms
  by (auto simp: recoverable_checkpoint_from_run_row_def unless_committed_def Let_def
      split: option.splits if_splits checkpoint_load.splits dest!: fetchone_SomeD)

lemma resumed_plan:
  assumes "rp_target_status (decide_expired_lease_recovery st loaded resume) = ''resume_requested''"
  obtains c where "loaded = LoadedCheckpoint c" "resume"
    "rp_reason_code (decide_expired_lease_recovery st loaded resume) = ''runtime_checkpoint_restored''"
    "rp_checkpoint_id (decide_expired_lease_recovery st loaded resume) = Some (rc_checkpoint_id c)"
    "rp_event_type (decide_expired_lease_recovery st loaded resume) = ''runtime_checkpoint_restored''"
  using assms
  by (auto simp: decide_expired_lease_recovery_def crash_plan_def split: checkpoint_load.splits if_splits)

end
