(* ===== verification/RunLifecycle.thy ===== *)
theory RunLifecycle
  imports LeaseRecovery
begin

text \<open>
  The life of the runs in one system: accepting, claiming, the methods of leases and events, the
  settlement of lost executors and the way out of the attention, called by any processes in any order.
  What holds of every such sequence, and what a recovery does.
\<close>

section \<open>The calls\<close>

record life_env =
  lf_clock :: clock
  lf_integrity :: integrity
  lf_recently :: "string \<Rightarrow> string \<Rightarrow> bool"
  lf_recovery :: recovery_env

datatype life_call =
    StoreCall store_call
  | AcceptRun start_request
  | ClaimRun string string string "string option" string string
  | SettleLease string bool
  | ResolveAttention string string

datatype life_result =
    StoreAnswer store_result
  | RunAccepted run_row
  | RunClaimed "worker_claim option"
  | LeaseSettled "(string \<times> string) option option"
  | AttentionResolved "rc_error + run_row"

definition answering :: "('r \<Rightarrow> life_result) \<Rightarrow> rc_error + (rcdb \<times> 'r) \<Rightarrow> rc_error + (rcdb \<times> life_result)" where
  "answering f m = sbind m (\<lambda>(db, r). Inr (db, f r))"

lemma answering_Inr: "answering f m = Inr (db', res) \<longleftrightarrow> (\<exists>r. m = Inr (db', r) \<and> res = f r)"
  by (auto simp: answering_def sbind_eq_Inr)

fun life_step :: "life_env \<Rightarrow> rcdb \<Rightarrow> life_call \<Rightarrow> rc_error + (rcdb \<times> life_result)" where
  "life_step env db (StoreCall c) = answering StoreAnswer (store_step (lf_clock env) (lf_integrity env) db c)"
| "life_step env db (AcceptRun q) = answering RunAccepted (accept_run (lf_integrity env) db q)"
| "life_step env db (ClaimRun ex at exp rid fl fe) =
     answering RunClaimed (claim_next_runnable_run (lf_recently env) (lf_integrity env) db ex at exp rid fl fe)"
| "life_step env db (SettleLease now resume) =
     answering LeaseSettled (settle_next_expired_executor_lease (lf_recovery env) db now resume)"
| "life_step env db (ResolveAttention rid at) =
     answering AttentionResolved (resolve_source_operation_recovery_attention (lf_integrity env) db rid at)"

lemma resolve_cases:
  assumes "resolve_source_operation_recovery_attention integ db rid at = Inr (db', res)"
  obtains r db1 where "fetch_run db rid = Some r" "run_status r = ''needs_attention''"
    "run_current_action_id r = None" "active_lease_row db rid = None"
    "resolve_recovery_attention db rid at = Inr db1"
    "db' = snd (update_run rid (\<lambda>x. run_status x = ''needs_attention'' \<and> run_current_action_id x = None)
       (\<lambda>x. bump_run (x\<lparr>run_status := ''resume_requested'', run_product_outcome := None,
          run_updated_at := at\<rparr>)) db1)"
  using assms
  by (auto simp: resolve_source_operation_recovery_attention_def sbind_eq_Inr Let_def
      split: option.splits if_splits)

lemma resolve_attention_frame:
  "resolve_recovery_attention db rid at = Inr db1 \<Longrightarrow> \<exists>attention. db1 = db\<lparr>t_attention := attention\<rparr>"
  by (auto simp: resolve_recovery_attention_def split: if_splits)

lemma resolve_life:
  assumes inv: "life_inv db" and s: "resolve_source_operation_recovery_attention integ db rid at = Inr (db', res)"
  shows "life_inv db' \<and> runs_le db db' \<and> log_le db db'"
proof -
  define f where "f = (\<lambda>x :: run_row. bump_run (x\<lparr>run_status := ''resume_requested'',
      run_product_outcome := None, run_updated_at := at\<rparr>))"
  define p where "p = (\<lambda>x :: run_row. run_status x = ''needs_attention'' \<and> run_current_action_id x = None)"
  obtain r db1 where "resolve_recovery_attention db rid at = Inr db1" and db': "db' = snd (update_run rid p f db1)"
    unfolding f_def p_def by (rule resolve_cases[OF s])
  then obtain attention where db1: "db1 = db\<lparr>t_attention := attention\<rparr>" using resolve_attention_frame by blast
  have f: "run_core (f x) = run_core x" "run_id (f x) = run_id x" "run_latest_event_seq (f x) = run_latest_event_seq x"
      "run_state_revision (f x) = run_state_revision x + 1" "run_status (f x) = ''resume_requested''" for x
    by (simp_all add: f_def run_core_def bump_run_def)
  have t: "run_transition ''needs_attention'' ''resume_requested''" by (simp add: run_transition_def ALLOWED_TRANSITIONS_def)
  have "run_moves x (f x)" if "p x" for x
    using that f r_into_rtranclp[of run_transition, OF t] by (simp add: run_moves_def p_def)
  then have "list_all2 run_moves (t_runs db) (t_runs db')"
    by (simp add: db' db1) (rule list_all2_update_where, auto)
  then have runs: "runs_le db db'" by (auto simp: runs_le_def)
  have same: "same_log db db'" "run_cores db' = run_cores db" "t_leases db' = t_leases db"
    by (auto simp: db' db1 same_log_def log_heads_def run_cores_def f update_run_def update_where_def)
  have ids: "map run_id (t_runs db') = map run_id (t_runs db)"
    by (auto simp: db' db1 f update_where_def)
  have "store_inv db'"
    using inv same ids same_log_inv[OF same(1)] by (simp add: life_inv_def store_inv_def lease_inv_def)
  then show ?thesis using cores_life_inv[OF inv _ same(2)] runs same_log_le[OF same(1)] by blast
qed

lemma life_step_keeps:
  assumes inv: "life_inv db" and s: "life_step env db c = Inr (db', res)"
  shows "life_inv db' \<and> runs_le db db' \<and> log_le db db'"
proof (cases c)
  case (StoreCall a)
  then show ?thesis using s store_life[OF inv] by (auto simp: answering_Inr)
next
  case (AcceptRun q)
  then show ?thesis using s accept_life[OF inv] by (auto simp: answering_Inr)
next
  case (ClaimRun ex at exp rid fl fe)
  then show ?thesis using s claim_life[OF inv] by (auto simp: answering_Inr)
next
  case (SettleLease now resume)
  then show ?thesis using s settle_moves inv moves_on_life[OF _ inv] by (auto simp: answering_Inr life_inv_def)
next
  case (ResolveAttention rid at)
  then show ?thesis using s resolve_life[OF inv] by (auto simp: answering_Inr)
qed

interpretation life: txn_system "life_step env" life_inv for env
  by unfold_locales (use life_step_keeps in blast)

lemma run_life_inv: "life_inv db \<Longrightarrow> life_inv (run_txns (life_step env) db calls)"
  by (rule life.run_inv)

lemma run_life_runs: "life_inv db \<Longrightarrow> runs_le db (run_txns (life_step env) db calls)"
  by (rule life.run_preorder[where R = runs_le]) (use life_step_keeps runs_le_trans runs_le_refl in blast)+

lemma run_life_log: "life_inv db \<Longrightarrow> log_le db (run_txns (life_step env) db calls)"
  by (rule life.run_preorder[where R = log_le]) (use life_step_keeps log_le_trans log_le_refl in blast)+

lemma empty_life_inv: "life_inv (empty_db\<lparr>t_checkpoints := c, t_operations := os, t_reconciliations := rs\<rparr>)"
  by (simp add: life_inv_def store_inv_def lease_inv_def events_inv_def empty_db_def log_heads_def run_events_def
      rowcount_def)

section \<open>A story\<close>

text \<open>
  A run with a checkpoint behind a round, and one whose source operation is open although the
  history proved that nothing was dispatched.
\<close>

definition demo_life :: life_env where
  "demo_life = \<lparr>lf_clock = tally_clock, lf_integrity = (\<lambda>_ _. None), lf_recently = (\<lambda>_ _. False),
     lf_recovery = \<lparr>rv_sha = (\<lambda>s. s), rv_digest = (\<lambda>_. []), rv_candidate_truth = (\<lambda>_ _. True)\<rparr>\<rparr>"

definition plain_event :: "string \<Rightarrow> string \<Rightarrow> string \<Rightarrow> string \<Rightarrow> string \<Rightarrow> int option \<Rightarrow> string option \<Rightarrow> event_input" where
  "plain_event rid eid event_type stage status round_no key =
     (recovery_event eid rid event_type stage round_no status [] (PyDict []) [] ''+'')\<lparr>ei_idempotency_key := key\<rparr>"

definition demo_start_request :: "string \<Rightarrow> string option \<Rightarrow> start_request" where
  "demo_start_request rid ckpt =
     \<lparr>sq_run = (demo_run rid)\<lparr>run_status := ''queued'', run_current_stage := ''queued'',
        run_latest_checkpoint_id := ckpt, run_state_revision := 0\<rparr>,
      sq_run_intent_id = Some (''intent-'' @ rid), sq_start_idempotency_key = None, sq_source_ids = [''liepin''],
      sq_initial_event = plain_event rid (''queued-'' @ rid) ''runtime_run_queued'' ''queued'' ''queued'' None
        (Some (queued_key rid)),
      sq_snapshot = \<lparr>rs_run = rid, rs_status = ''queued'', rs_current_stage = ''queued'', rs_current_round = None,
        rs_snapshot = PyDict [], rs_updated_at = ''+''\<rparr>,
      sq_snapshot_latest_event_seq = 0\<rparr>"

definition demo_ledger :: rcdb where
  "demo_ledger = empty_db\<lparr>t_checkpoints := [\<lparr>cp_checkpoint_id = ''cp1'', cp_run = ''r1'', cp_stage = ''rounds'',
       cp_round_no = Some 1, cp_safe_boundary = ''after_round_controller'', cp_schema_version = CHECKPOINT_V2,
       cp_requirement_revision_id = Some ''req'',
       cp_content = \<lparr>cc_run_state_json = ''{}'',
         cc_source_plan_json = dumps_raw (PyDict [(''sourceIds'', PyList [PyStr ''liepin''])]),
         cc_pending_commands_json = ''[]'', cc_control_state_hash = Some ''{}'', cc_candidate_truth_revision = 1,
         cc_candidate_truth_hash = Some ''h'',
         cc_durable_refs_json = dumps_raw (PyDict [(''continuationCursor'',
             PyDict [(''completedRounds'', PyInt 1), (''nextPhase'', PyStr ''rounds'')]),
           (''roundLedgerHighWatermark'', PyInt 1)]),
         cc_field_bytes_json = ''{}''\<rparr>\<rparr>],
     t_operations := [\<lparr>op_run = ''r2'', op_operation_id = ''op1'', op_source_id = ''liepin'', op_operation_kind = ''cards'',
       op_request_hash = hex64 CHR ''0'', op_idempotency_key = ''k'', op_requirement_revision_id = ''req'', op_attempt_no = 1,
       op_attempt_authority_ref = ''a'', op_phase = ''reconciled'', op_dispatch_intent_ref = None, op_observation_ref = None,
       op_disposition = None, op_retry_posture = ''safe_retry'', op_reconciliation_revision = 1,
       op_main_commit_ref = None, op_ledger_revision = 2\<rparr>],
     t_reconciliations := [\<lparr>rn_reconciliation_id = ''rc1'', rn_run = ''r2'', rn_operation_id = ''op1'', rn_source_id = ''liepin'',
       rn_operation_kind = ''cards'', rn_request_hash = hex64 CHR ''0'', rn_idempotency_key = ''k'',
       rn_requirement_revision_id = ''req'', rn_attempt_no = 1, rn_attempt_authority_ref = ''a'',
       rn_history_result_ref = ''h'', rn_history_result_digest = hex64 CHR ''1'', rn_decision_kind = ''no_dispatch_proved'',
       rn_history_outcome = ''conclusive'', rn_history_conclusion = Some ''accepted_no_dispatch'',
       rn_dispatch_intent_ref = None, rn_observation_ref = None, rn_disposition = None, rn_retry_posture = ''safe_retry'',
       rn_expected_ledger_revision = 1, rn_expected_reconciliation_revision = 0, rn_committed_at = ''+'',
       rn_committed_phase = ''reconciled'', rn_committed_ledger_revision = 2, rn_committed_reconciliation_revision = 1\<rparr>]\<rparr>"

lemma demo_ledger_inv: "life_inv demo_ledger"
  unfolding demo_ledger_def by (rule empty_life_inv)

text \<open>Both runs are accepted, claimed, started and lost.\<close>

definition demo_launch :: "life_call list" where
  "demo_launch =
     [AcceptRun (demo_start_request ''r1'' (Some ''cp1'')), AcceptRun (demo_start_request ''r2'' None),
      ClaimRun ''a'' ''+'' ''+i'' (Some ''r1'') ''l1'' ''c1'', ClaimRun ''b'' ''+'' ''+ii'' (Some ''r2'') ''l2'' ''c2'',
      StoreCall (OfEvent (AppendExecutor (plain_event ''r1'' ''s1'' ''started'' ''rounds'' ''running'' (Some 1) None)
        ''a'' None (Some ''running'') None None None None)),
      StoreCall (OfEvent (AppendExecutor (plain_event ''r2'' ''s2'' ''started'' ''rounds'' ''running'' (Some 1) None)
        ''b'' None (Some ''running'') None None None None))]"

definition demo_lost :: rcdb where
  "demo_lost = run_txns (life_step demo_life) demo_ledger demo_launch"

lemma demo_lost_inv: "life_inv demo_lost"
  unfolding demo_lost_def by (rule run_life_inv[OF demo_ledger_inv])

lemma demo_lost_runs:
  "map (\<lambda>r. (run_id r, run_status r, run_latest_event_seq r)) (t_runs demo_lost) =
     [(''r1'', ''running'', 3), (''r2'', ''running'', 3)]"
  by code_simp

definition demo_resume :: "life_call list" where
  "demo_resume =
     [SettleLease ''+iii'' True, SettleLease ''+iii'' True, ResolveAttention ''r2'' ''+iii'',
      ClaimRun ''c'' ''+iii'' ''+iiiii'' (Some ''r1'') ''l3'' ''c3'', ClaimRun ''d'' ''+iii'' ''+iiii'' (Some ''r2'') ''l4'' ''c4'']"

definition demo_resumed :: rcdb where
  "demo_resumed = run_txns (life_step demo_life) demo_lost demo_resume"

lemma demo_resumed_inv: "life_inv demo_resumed"
  unfolding demo_resumed_def by (rule run_life_inv[OF demo_lost_inv])

definition life_summary :: "rcdb \<Rightarrow> (string \<times> string \<times> int) list \<times> string list \<times> string list" where
  "life_summary db =
     (map (\<lambda>r. (run_id r, run_status r, run_latest_event_seq r)) (t_runs db),
      map ls_lease_id (filter (\<lambda>l. ls_status l = ''active'') (t_leases db)), map ra_status (t_attention db))"

lemma demo_resumed_summary:
  "life_summary demo_resumed =
     ([(''r1'', ''starting'', 6), (''r2'', ''starting'', 6)], [''l3'', ''l4''], [''resolved''])"
  by code_simp

section \<open>Properties of every sequence of calls\<close>




lemma fetchone_unique:
  assumes "distinct (map k t)" "x \<in> set t" "k x = c"
  shows "fetchone (\<lambda>y. k y = c) t = Some x"
proof -
  obtain y where y: "fetchone (\<lambda>y. k y = c) t = Some y"
    using assms(2,3) by (cases "fetchone (\<lambda>y. k y = c) t") (auto simp: fetchone_None_iff)
  then show ?thesis using fetchone_SomeD[OF y] distinct_key_eq[OF assms(1) _ assms(2), of y] assms(3) by simp
qed

text \<open>The run that a request stands for, by its intent or by its start key.\<close>

definition started_by :: "start_request \<Rightarrow> run_row \<Rightarrow> bool" where
  "started_by q x \<longleftrightarrow> run_intent_id x = run_intent_id (normalize_run_record q) \<or>
     run_start_idempotency_key x = run_start_idempotency_key (normalize_run_record q)"

lemma accepted_run_id: "accepted_run_row db rid = Some r \<Longrightarrow> r \<in> set (t_runs db) \<and> run_id r = rid"
  by (auto simp: accepted_run_row_def dest!: fetchone_SomeD)

lemma existing_started:
  assumes "existing_run_for_start db (normalize_run_record q) = Inr (Some y)"
  shows "y \<in> set (t_runs db)" "started_by q y"
  using assms
  by (auto simp: existing_run_for_start_def started_by_def Let_def split: option.splits if_splits dest!: fetchone_SomeD)

lemma accept_started:
  assumes s: "accept_run integ db q = Inr (db1, r)"
  shows "\<exists>x \<in> set (t_runs db1). run_id x = run_id r \<and> started_by q x"
  using s
proof (cases rule: accept_cases)
  case (replay y)
  then show ?thesis using existing_started[OF replay(1)] accepted_run_id[OF replay(3)] by auto
next
  case (new db0 e)
  have "normalize_run_record q \<in> set (t_runs db0)" using new(2) by (auto simp: insert_run_def split: if_splits)
  then have "run_core (normalize_run_record q) \<in> set (run_cores db1)"
    using append_cores[OF new(3)] by (auto simp: run_cores_def)
  then obtain x where "x \<in> set (t_runs db1)" "run_core x = run_core (normalize_run_record q)"
    by (auto simp: run_cores_def)
  then show ?thesis using accepted_run_id[OF new(4)] by (auto simp: run_core_def started_by_def)
qed

lemma existing_for_started:
  assumes inv: "life_inv db" and x: "x \<in> set (t_runs db)" "started_by q x"
    and e: "existing_run_for_start db (normalize_run_record q) = Inr ex"
  shows "\<exists>y. ex = Some y \<and> run_id y = run_id x"
proof -
  have D: "distinct (map run_intent_id (t_runs db))" "distinct (map run_start_idempotency_key (t_runs db))"
    using inv by (simp_all add: life_inv_def)
  from x(2) show ?thesis
    unfolding started_by_def
  proof
    assume "run_intent_id x = run_intent_id (normalize_run_record q)"
    note f = fetchone_unique[OF D(1) x(1) this]
    show ?thesis
      using e unfolding existing_run_for_start_def Let_def f by (auto split: option.splits if_splits)
  next
    assume "run_start_idempotency_key x = run_start_idempotency_key (normalize_run_record q)"
    note f = fetchone_unique[OF D(2) x(1) this]
    define by_intent where "by_intent = fetchone (\<lambda>x. run_intent_id x = run_intent_id (normalize_run_record q)) (t_runs db)"
    show ?thesis
      using e unfolding existing_run_for_start_def Let_def f by_intent_def[symmetric]
      by (cases by_intent) (auto split: if_splits)
  qed
qed



text \<open>
  C15: A claim takes the oldest run that may go on and takes it alone: the run was queued or asked to
  resume, had no live lease, and no run that qualifies was created before it; if it resumes, none of
  its source operations waits for a reconciliation. Afterwards it is starting under exactly one live
  lease, whose attempt number is the next one. The event of the claim is new because its key
  carries the fresh lease id.
\<close>

theorem claim_exact:
  assumes inv: "life_inv db"
    and s: "claim_next_runnable_run recently integ db ex at exp rid fl fe = Inr (db', Some c)"
    and key: "list_all (\<lambda>x. ev_idempotency_key x \<noteq> Some (''runtime-claim:'' @ fl)) (t_events db)"
  shows "\<exists>r \<in> set (t_runs db). runnable recently db rid at r \<and> run_id r = run_id (wc_run c) \<and>
      (\<forall>x \<in> set (t_runs db). runnable recently db rid at x \<longrightarrow>
         (run_created_at r, run_id r) \<le> (run_created_at x, run_id x)) \<and>
      active_leases db (run_id r) = [] \<and>
      (run_status r = ''resume_requested'' \<longrightarrow>
         list_all (\<lambda>x. op_run x = run_id r \<longrightarrow> op_retry_posture x \<noteq> ''reconcile_first'') (t_operations db)) \<and>
      fetch_run db' (run_id r) = Some (wc_run c) \<and> run_status (wc_run c) = ''starting'' \<and>
      active_leases db' (run_id r) = [wc_lease c] \<and>
      ls_attempt_no (wc_lease c) = latest_attempt db (run_id r) + 1"
  using s
proof (cases rule: claim_cases)
  case (claimed r l reason payload db1 x updated)
  have D: "distinct (map run_id (t_runs db))" using inv by (simp add: life_inv_def store_inv_def lease_inv_def)
  note n = next_runnableD[OF claimed(1)]
  have idle: "active_leases db (run_id r) = []" using n(2) by (simp add: runnable_def)
  note db1 = insert_lease_frame[OF claimed(4)]
  have l: "ls_run l = run_id r" "ls_status l = ''active''" "ls_attempt_no l = latest_attempt db (run_id r) + 1"
      "ls_lease_id l = fl"
    by (simp_all add: claimed(2) claim_lease_def)
  have e: "ei_run (claim_event r l reason fe) = run_id r"
      "ei_idempotency_key (claim_event r l reason fe) = Some (''runtime-claim:'' @ fl)"
    by (simp_all add: claim_event_def l)
  have none: "keyed_event db1 (claim_event r l reason fe) = None"
    using key by (auto simp: keyed_event_def e event_row_by_idempotency_key_def fetchone_None_iff list_all_iff db1)
  have "run_status updated = ''starting'' \<and> t_leases db' = t_leases db1"
    using claimed(6)
  proof (cases rule: append_cases)
    case (new row k json sz target)
    have "fetch_run db (run_id r) = Some row" using new(2) by (simp add: e fetch_run_def db1)
    from run_row_unique[OF D this n(1)] have row: "row = r" by simp
    have "fetchone (\<lambda>y. run_id y = run_id r) (t_runs db1) = Some r" using new(2) row by (simp add: e fetch_run_def)
    from fetchone_update_hit[OF this, of outcome_clear
        "advance_run (claim_event r l reason fe) k target None None None"]
    have "fetch_run db' (run_id r) = Some (advance_run (claim_event r l reason fe) k target None None None r)"
      using new(3) row by (simp add: fetch_run_def new(15) e)
    then have "updated = advance_run (claim_event r l reason fe) k target None None None r" using claimed(7) by simp
    then show ?thesis using new(5,16) by simp
  qed (use none in simp)
  then have "run_status updated = ''starting''" "active_leases db' (run_id r) = [l]"
    using idle l by (simp_all add: active_leases_def db1)
  moreover have "run_id updated = run_id r" using fetch_run_SomeD[OF claimed(7)] by simp
  moreover have "run_status r = ''resume_requested'' \<longrightarrow>
      list_all (\<lambda>x. op_run x = run_id r \<longrightarrow> op_retry_posture x \<noteq> ''reconcile_first'') (t_operations db)"
    using n(2) by (auto simp: runnable_def list_all_iff list_ex_iff)
  ultimately show ?thesis
    using n idle claimed(7,8) l by (intro bexI[of _ r]) auto
qed simp

theorem claim_exact_witness:
  "map_option (\<lambda>c. (run_id (wc_run c), run_status (wc_run c), ls_attempt_no (wc_lease c)))
     (snd (projr (claim_next_runnable_run (\<lambda>_ _. False) (\<lambda>_ _. None)
       (run_txns (life_step demo_life) demo_ledger (take 2 demo_launch)) ''a'' ''+'' ''+i'' None ''l1'' ''c1''))) =
   Some (''r1'', ''starting'', 1)"
proof -
  define db where "db = run_txns (life_step demo_life) demo_ledger (take 2 demo_launch)"
  let ?claim = "\<lambda>db. claim_next_runnable_run (\<lambda>_ _. False) (\<lambda>_ _. None) db ''a'' ''+'' ''+i'' None ''l1'' ''c1''"
  have inv: "life_inv db" unfolding db_def by (rule run_life_inv[OF demo_ledger_inv])
  have some: "(case ?claim db of Inl e \<Rightarrow> None | Inr (db', c) \<Rightarrow> map_option (\<lambda>c. run_id (wc_run c)) c) = Some ''r1''"
    unfolding db_def by code_simp
  then obtain db' c where c: "?claim db = Inr (db', Some c)" "run_id (wc_run c) = ''r1''"
    by (cases "?claim db") (auto split: prod.splits)
  have "list_all (\<lambda>x. ev_idempotency_key x \<noteq> Some (''runtime-claim:'' @ ''l1'')) (t_events db)"
    unfolding db_def by code_simp
  moreover have "latest_attempt db ''r1'' = 0" unfolding db_def by code_simp
  ultimately show ?thesis
    using claim_exact[OF inv c(1)] c by (auto simp flip: db_def)
qed

section \<open>Properties of the recovery\<close>

text \<open>
  C7: A recovery works off what is due. Each settlement takes one lease out of the backlog, so when
  \<open>recover_start_timeouts\<close> ends without an exception, no expired or stranded lease is left, or a hundred
  were settled and the next round goes on; when it ends with an exception, that is the one the next
  settlement raises again, and what was settled before stays.
\<close>

theorem recovery_clears_backlog:
  assumes inv: "store_inv db" and s: "recover_start_timeouts env db now resume = (db', ds, e)"
  shows "store_inv db' \<and> backlog db' now \<le> backlog db now \<and>
    (e = None \<longrightarrow> backlog db' now = 0 \<or> backlog db' now + 100 \<le> backlog db now) \<and>
    (e \<noteq> None \<longrightarrow> settle_next_expired_executor_lease env db' now resume = Inl (the e))"
proof -
  have "store_inv db' \<and> backlog db' now \<le> backlog db now \<and>
    (e = None \<longrightarrow> backlog db' now = 0 \<or> backlog db' now + n \<le> backlog db now) \<and>
    (e \<noteq> None \<longrightarrow> settle_next_expired_executor_lease env db' now resume = Inl (the e))"
    if "settle_loop env now resume n db = (db', ds, e)" for n
    using inv that
  proof (induction n arbitrary: db ds)
    case (Suc n)
    show ?case
    proof (cases "settle_next_expired_executor_lease env db now resume")
      case (Inl x)
      then show ?thesis using Suc.prems by auto
    next
      case (Inr p)
      obtain db1 d where p: "p = (db1, d)" by fastforce
      note inv1 = moves_on_store[OF settle_moves[OF Suc.prems(1) Inr[unfolded p]] Suc.prems(1)]
      show ?thesis
      proof (cases d)
        case None
        have "next_recovery_lease_row db now = None"
          using Suc.prems(1) Inr[unfolded p None] by (cases rule: settle_cases) auto
        moreover have "db1 = db" using Suc.prems(1) Inr[unfolded p None] by (cases rule: settle_cases) auto
        ultimately show ?thesis
          using Suc.prems Inr p None by (auto simp: backlog_def rowcount_0 next_recovery_None)
      next
        case (Some y)
        have "backlog db1 now < backlog db now" by (rule settled_backlog[OF Suc.prems(1) Inr[unfolded p Some]])
        moreover obtain ds' where "settle_loop env now resume n db1 = (db', ds', e)"
          using Suc.prems(2) Inr p Some by (cases "settle_loop env now resume n db1") auto
        ultimately show ?thesis using Suc.IH[OF inv1] by fastforce
      qed
    qed
  qed simp
  then show ?thesis using s by (simp add: recover_start_timeouts_def)
qed

lemma settle_loop_more:
  "settle_loop env now resume n db = (db', ds, None) \<Longrightarrow> next_recovery_lease_row db' now = None \<Longrightarrow>
   settle_loop env now resume (n + k) db = (db', ds, None)"
proof (induction n arbitrary: db ds)
  case 0
  then show ?case by (cases k) (simp_all add: settle_next_expired_executor_lease_def)
next
  case (Suc n)
  then show ?case by (auto split: sum.splits prod.splits option.splits)
qed

definition settled_within_two :: "rcdb \<Rightarrow> bool" where
  "settled_within_two db \<longleftrightarrow>
     (case settle_loop (lf_recovery demo_life) ''+iii'' True (Suc (Suc 0)) db of
        (db', ds, e) \<Rightarrow> e = None \<and> next_recovery_lease_row db' ''+iii'' = None)"

theorem recovery_clears_backlog_witness:
  "backlog (fst (recover_start_timeouts (lf_recovery demo_life) demo_lost ''+iii'' True)) ''+iii'' = 0 \<and>
   store_inv (fst (recover_start_timeouts (lf_recovery demo_life) demo_lost ''+iii'' True))"
proof -
  let ?r = "recover_start_timeouts (lf_recovery demo_life) demo_lost ''+iii'' True"
  have two: "settled_within_two demo_lost" unfolding demo_lost_def by code_simp
  then have "snd (snd ?r) = None"
    using settle_loop_more[of "lf_recovery demo_life" "''+iii''" True "Suc (Suc 0)" demo_lost _ _ 98]
    by (auto simp: settled_within_two_def recover_start_timeouts_def split: prod.splits)
  moreover have "backlog demo_lost ''+iii'' = 2" by code_simp
  moreover have "store_inv demo_lost" using demo_lost_inv by (simp add: life_inv_def)
  moreover obtain db' ds e where r: "?r = (db', ds, e)" by (rule prod_cases3)
  ultimately show ?thesis using recovery_clears_backlog[OF _ r] by simp
qed

text \<open>
  C11: A settlement is one recorded decision about one run. The lease is over, the log of its run has the
  decision under the key of the lease (or the unkeyed decision an earlier release wrote), the run has
  left the states an executor works in, and every other run has the row, the leases and the events it had.
\<close>

theorem settlement_recorded:
  assumes inv: "store_inv db"
    and s: "settle_next_expired_executor_lease env db now resume = Inr (db', Some (Some (rid, code)))"
  shows "\<exists>l x u. next_recovery_lease_row db now = Some l \<and> ls_run l = rid \<and>
    x \<in> set (run_events db' rid) \<and>
    (ev_idempotency_key x = Some (decision_key l) \<or>
     ev_idempotency_key x = None \<and> ev_type x \<in> set LEGACY_DECISION_TYPES) \<and>
    fetch_run db' rid = Some u \<and>
    run_status u \<in> {''cancelled'', ''failed'', ''needs_attention'', ''resume_requested''} \<and>
    active_leases db' rid = [] \<and>
    (\<forall>other. other \<noteq> rid \<longrightarrow> same_run other db db')"
  using inv s
proof (cases rule: settle_cases)
  case (decided l r db1 plan)
  have id: "run_id r = ls_run l" "rid = ls_run l" using fetch_run_SomeD[OF decided(2)] decided(8) by simp_all
  have rest: "active_leases db' rid = [] \<and> (\<forall>other. other \<noteq> rid \<longrightarrow> same_run other db db')"
  proof (rule settled[OF inv s], goal_cases)
    case (1 l' r' u g)
    then have "l' = l" using decided(1) by simp
    then show ?case using 1(5,8) id(2) by simp
  qed
  obtain v where v: "fetch_run db' (ls_run l) = Some v" "run_status v = rp_target_status plan"
      "plan = decide_expired_lease_recovery (run_status r) (recovery_checkpoint env db1 r) resume"
    by (rule decided_run[OF inv decided(1-5,7)])
  show ?thesis
    using decided(1) id v rest decision_recorded[OF decided(7) id(1)]
      decided_target[of "run_status r" "recovery_checkpoint env db1 r" resume] by metis
qed simp_all

theorem settlement_recorded_witness:
  "\<exists>db' u. settle_next_expired_executor_lease (lf_recovery demo_life) demo_lost ''+iii'' True =
     Inr (db', Some (Some (''r1'', ''runtime_checkpoint_restored''))) \<and>
     fetch_run db' ''r1'' = Some u \<and> active_leases db' ''r1'' = [] \<and> same_run ''r2'' demo_lost db'"
proof -
  let ?s = "settle_next_expired_executor_lease (lf_recovery demo_life) demo_lost ''+iii'' True"
  have "(case ?s of Inl e \<Rightarrow> None | Inr (db', d) \<Rightarrow> d) = Some (Some (''r1'', ''runtime_checkpoint_restored''))"
    unfolding demo_lost_def by code_simp
  then obtain db' where s: "?s = Inr (db', Some (Some (''r1'', ''runtime_checkpoint_restored'')))"
    by (cases ?s) (auto split: prod.splits)
  have "store_inv demo_lost" using demo_lost_inv by (simp add: life_inv_def)
  from settlement_recorded[OF this s] show ?thesis using s by auto
qed

end
