(* ===== verification/RecoverySafety.thy ===== *)
theory RecoverySafety
  imports RunLifecycle
begin

text \<open>
  When a recovery lets a run go on, when it must not, and where it stops: a run resumes only from a
  valid checkpoint with every external effect accounted for, and can then be claimed at once; a
  run leaves the attention only on proofs. Two cases in which the settlement of one run fails for
  good are proved to hold up the recovery of all others.
\<close>

section \<open>The run after a decision\<close>

lemma settled_run:
  assumes inv: "store_inv db"
    and s: "settle_next_expired_executor_lease env db now resume = Inr (db', Some (Some (rid, code)))"
    and u: "fetch_run db' rid = Some u"
  obtains l r db1 loaded plan where "next_recovery_lease_row db now = Some l" "fetch_run db rid = Some r" "ls_run l = rid"
    "take_recovery_lease db l r now = (db1, True)" "loaded = recovery_checkpoint env db1 r"
    "plan = decide_expired_lease_recovery (run_status r) loaded resume" "run_status u = rp_target_status plan"
    "code = rp_reason_code plan"
  using inv s
proof (cases rule: settle_cases)
  case (decided l r db1 plan)
  obtain v where v: "fetch_run db' (ls_run l) = Some v" "run_status v = rp_target_status plan" "run_id r = ls_run l"
      "plan = decide_expired_lease_recovery (run_status r) (recovery_checkpoint env db1 r) resume"
    by (rule decided_run[OF inv decided(1-5,7)])
  have id: "rid = ls_run l" "code = rp_reason_code plan" using decided(8) v(3) by simp_all
  have "v = u" using v(1) u id(1) by simp
  then have st: "run_status u = rp_target_status plan" using v(2) by simp
  show thesis by (rule that[OF decided(1) decided(2)[folded id(1)] id(1)[symmetric] decided(5) refl v(4) st id(2)])
qed simp_all

section \<open>Going on\<close>

lemma effect_known_posture: "effect_known db x \<Longrightarrow> op_retry_posture x \<noteq> ''reconcile_first''"
  by (auto simp: effect_known_def)

lemma resumed_account:
  assumes inv: "store_inv db" and ledger: "ledger_inv db"
    and s: "settle_next_expired_executor_lease env db now resume = Inr (db', Some (Some (rid, code)))"
    and u: "fetch_run db' rid = Some u" "run_status u = ''resume_requested''"
  obtains r row c where "resume" "code = ''runtime_checkpoint_restored''" "fetch_run db rid = Some r"
    "row \<in> set (t_checkpoints db)" "run_latest_checkpoint_id r = Some (cp_checkpoint_id row)" "cp_run row = rid"
    "recoverable_checkpoint_from_row_or_failure (rv_sha env) row = LoadedCheckpoint c"
    "map_of SAFE_BOUNDARY_REGISTRY (rc_safe_boundary c) \<noteq> None"
    "\<forall>x \<in> set (unresolved_operations db rid). effect_known db x \<and> op_retry_posture x \<noteq> ''reconcile_first''"
proof -
  obtain l r db1 loaded plan where r: "next_recovery_lease_row db now = Some l" "fetch_run db rid = Some r" "ls_run l = rid"
    "take_recovery_lease db l r now = (db1, True)" and
    loaded: "loaded = recovery_checkpoint env db1 r" and
    plan: "plan = decide_expired_lease_recovery (run_status r) loaded resume" "run_status u = rp_target_status plan"
      "code = rp_reason_code plan"
    by (rule settled_run[OF inv s u(1)])
  obtain c where c: "loaded = LoadedCheckpoint c" "resume" "code = ''runtime_checkpoint_restored''"
    using resumed_plan[of "run_status r" loaded resume] plan(1,2,3) u(2) by metis
  have "recoverable_checkpoint_from_run_row env db1 r = LoadedCheckpoint c"
    using c(1) loaded by (simp add: recovery_checkpoint_def split: if_splits)
  note load = loaded_checkpoint[OF this]
  have frame: "recovery_frame db db1" by (rule take_frame[OF r(4)])
  have id: "run_id r = rid" using fetch_run_SomeD[OF r(2)] by simp
  obtain row where row: "row \<in> set (t_checkpoints db)" "run_latest_checkpoint_id r = Some (cp_checkpoint_id row)"
      "cp_run row = rid" "recoverable_checkpoint_from_row_or_failure (rv_sha env) row = LoadedCheckpoint c"
    using load(1) id recovery_frameD(4)[OF frame] by auto
  have reg: "map_of SAFE_BOUNDARY_REGISTRY (rc_safe_boundary c) \<noteq> None"
    using load(3) by (auto simp: validate_recoverable_checkpoint_def split: option.splits)
  have "ledger_inv db1" using same_ledger_keeps[OF recovery_frame_ledger[OF frame]] ledger by (simp add: keeps_ledger_def)
  from recoverable_effects_known[OF this load(2)]
  have "effect_known db x" if "x \<in> set (unresolved_operations db rid)" for x
    using that unfolding id unresolved_frame[OF frame] effect_known_frame[OF frame] .
  then show thesis using that[OF c(2,3) r(2) row reg] effect_known_posture by blast
qed

lemma settled_idle:
  assumes "store_inv db" "settle_next_expired_executor_lease env db now resume = Inr (db', Some (Some (rid, code)))"
  shows "active_leases db' rid = []"
  using assms
proof (cases rule: settle_cases)
  case (decided l r db1 plan)
  have rid: "rid = ls_run l" using fetch_run_SomeD[OF decided(2)] decided(8) by simp
  show ?thesis
  proof (rule settled[OF assms], goal_cases)
    case (1 l' r' u g)
    then show ?case using decided(1) rid by simp
  qed
qed simp_all


text \<open>
  A worker dies in the middle of a round: the first lane's operation was accepted and is open, and the
  second lane was skipped.
\<close>

text \<open>A stand-in for the hash that tells the texts of the story apart.\<close>

definition demo_sha :: sha where
  "demo_sha s = hex64 (last s)"

definition demo_binding :: checkpoint_content where
  "demo_binding = \<lparr>cc_run_state_json = ''{}'',
     cc_source_plan_json = dumps_raw (PyDict [(''sourceIds'', PyList [PyStr ''liepin''])]),
     cc_pending_commands_json = ''[]'', cc_control_state_hash = Some (demo_sha ''{}''),
     cc_candidate_truth_revision = 1, cc_candidate_truth_hash = Some ''h'',
     cc_durable_refs_json = dumps_raw (PyDict [(''continuationCursor'',
         PyDict [(''completedRounds'', PyInt 0), (''nextPhase'', PyStr ''rounds'')]),
       (''roundLedgerHighWatermark'', PyInt 0)]),
     cc_field_bytes_json = ''{}''\<rparr>"

definition demo_payload :: string where
  "demo_payload = dumps (payload_value (PyDict
     [(''schemaVersion'', PyStr ''runtime-source-dispatch-continuation/v1''), (''operationId'', PyStr ''op1''),
      (''requestHash'', PyStr (hex64 CHR ''0'')), (''queryFingerprint'', PyStr (hex64 CHR ''0'')),
      (''roundWorkPlanArtifactRef'', PyStr ''plan''), (''roundWorkPlanArtifactHash'', PyStr (hex64 CHR ''7'')),
      (''dispatchAuthorizationOrdinal'', PyInt 1), (''dispatchIntentId'', PyStr ''intent1''),
      (''dispatchIntentDigest'', PyStr (hex64 CHR ''2'')), (''runtimeAttemptNo'', PyInt 1),
      (''runtimeAttemptFenceRef'', PyStr (hex64 CHR ''1'')), (''browserControlScopeId'', PyStr ''scope'')]) [''plan''])"

definition demo_midway :: rcdb where
  "demo_midway = (demo_db [demo_lease ''l1'' 1 ''active''])\<lparr>
     t_operations := [new_operation demo_acceptance], t_expectations := [expectation_of demo_acceptance],
     t_outbox := [new_dispatch demo_acceptance],
     t_runs := [(demo_run ''r1'')\<lparr>run_latest_checkpoint_id := Some ''cp1'', run_current_round := Some 1,
       run_source_ids_json := dumps_raw (PyList [PyStr ''liepin''])\<rparr>],
     t_checkpoints := [\<lparr>cp_checkpoint_id = ''cp1'', cp_run = ''r1'', cp_stage = ''rounds'', cp_round_no = Some 1,
       cp_safe_boundary = ''before_round_controller'', cp_schema_version = CHECKPOINT_V2,
       cp_requirement_revision_id = Some ''req'', cp_content = demo_binding\<rparr>],
     t_barriers := [\<lparr>wb_run = ''r1'', wb_round_no = 1, wb_base_checkpoint_id = ''cp1'', wb_work_plan_ref = ''plan'',
       wb_work_plan_hash = hex64 CHR ''7'', wb_expected_lane_count = 2, wb_lane_set_hash = demo_sha (lane_set_payload [(''lane1'', ''query1''), (''lane2'', ''query2'')]),
       wb_status = ''active'', wb_attempt_no = 1, wb_created_at = ''+i'', wb_settled_at = None\<rparr>],
     t_barrier_lanes := [\<lparr>wl_run = ''r1'', wl_round_no = 1, wl_lane_run_id = ''lane1'', wl_query_id = ''query1'',
         wl_status = ''active'', wl_settled_at = None\<rparr>,
       \<lparr>wl_run = ''r1'', wl_round_no = 1, wl_lane_run_id = ''lane2'', wl_query_id = ''query2'',
         wl_status = ''skipped'', wl_settled_at = Some ''+i''\<rparr>],
     t_transitions := [\<lparr>wt_transition_id = ''t2'', wt_run = ''r1'', wt_lane_run_id = ''lane1'', wt_query_id = ''query1'',
       wt_parent_transition_id = Some ''t1'', wt_base_checkpoint_id = ''cp1'', wt_round_no = 1,
       wt_step_kind = ''source_dispatch'', wt_payload_json = demo_payload, wt_payload_hash = demo_sha demo_payload,
       wt_payload_size_bytes = int (length demo_payload), wt_status = ''active'', wt_attempt_no = 1,
       wt_created_at = ''+i'', wt_settled_at = None\<rparr>]\<rparr>"

definition demo_recovery :: recovery_env where
  "demo_recovery = \<lparr>rv_sha = demo_sha, rv_digest = (\<lambda>_. hex64 CHR ''3''), rv_candidate_truth = (\<lambda>_ _. True)\<rparr>"

definition resumed_midway :: "rcdb \<Rightarrow> bool" where
  "resumed_midway db \<longleftrightarrow>
     map op_operation_id (unresolved_operations db ''r1'') = [''op1''] \<and>
     (case settle_next_expired_executor_lease demo_recovery db ''+iiiii'' True of
        Inr (db', Some (Some (rid, code))) \<Rightarrow>
          rid = ''r1'' \<and> map_option run_status (fetch_run db' rid) = Some ''resume_requested''
      | _ \<Rightarrow> False)"

lemma demo_midway_resumed: "resumed_midway demo_midway"
  unfolding demo_midway_def by code_simp

lemma demo_midway_inv: "store_inv demo_midway" "ledger_inv demo_midway"
proof -
  have "ledger_inv demo_accepted" unfolding demo_accepted_def by (rule run_sources_inv[OF demo_env_ok demo_source_inv])
  then show "ledger_inv demo_midway"
    using same_ledger_keeps[of demo_accepted demo_midway]
    by (simp add: demo_accepted_eq demo_midway_def same_ledger_def keeps_ledger_def)
  show "store_inv demo_midway"
    using demo_inv(2)[of "''active''"]
    by (simp add: demo_midway_def store_inv_def lease_inv_def events_inv_def log_heads_def run_events_def demo_db_def
        empty_db_def demo_run_def)
qed


text \<open>What a run was accepted with stays.\<close>

lemma accepted_stays:
  assumes r: "has_acceptance db r" and log: "log_le db db'" and s: "t_snapshots db' = t_snapshots db" and u: "run_id u = run_id r"
  shows "has_acceptance db' u"
proof -
  obtain M ys where M: "t_events db' = M @ ys" "list_all2 event_le (t_events db) M"
    using log by (auto simp: log_le_def)
  let ?first = "\<lambda>x. ev_run x = run_id r \<and> ev_seq x = 1 \<and> ev_type x = ''runtime_run_queued'' \<and>
      ev_stage x = ''queued'' \<and> ev_status x = ''queued'' \<and> ev_idempotency_key x = Some (queued_key (run_id r))"
  obtain x where x: "x \<in> set (t_events db)" "?first x" using r by (auto simp: has_acceptance_def list_ex_iff)
  obtain y where y: "y \<in> set (t_events db')" "event_core y = event_core x"
    using list_all2_setD1[OF M(2) x(1)] M(1) by (auto simp: event_le_def)
  have "ev_status (event_core z) = ev_status z" for z by (simp add: event_core_def)
  then have "?first y" using event_core_fields[OF y(2)] x(2) y(2) by metis
  then show ?thesis using y(1) r s u by (auto simp: has_acceptance_def list_ex_iff)
qed

text \<open>
  C12: What a recovery resumes can be claimed. A run that a settlement asked to resume is at once the
  next run for a worker that asks for it, if it was accepted with its first event and snapshot, save
  for half a second when the last thing in its log is that it waits for a resource.
\<close>

theorem resumed_run_claimable:
  assumes inv: "store_inv db" and ledger: "ledger_inv db" and r: "fetch_run db rid = Some r" "has_acceptance db r"
    and s: "settle_next_expired_executor_lease env db now resume = Inr (db', Some (Some (rid, code)))"
    and u: "fetch_run db' rid = Some u" "run_status u = ''resume_requested''"
  shows "next_runnable_run_row recently db' (Some rid) at = Some u \<or> awaits_resource recently db' u at"
proof (cases "awaits_resource recently db' u at")
  case False
  note m = settle_moves[OF inv s]
  have inv': "store_inv db'" by (rule moves_on_store[OF m inv])
  note frame = recovery_frameD[OF settle_frame[OF inv s]]
  have ids: "run_id u = rid" "u \<in> set (t_runs db')" "run_id r = rid"
    using fetch_run_SomeD[OF u(1)] fetch_run_SomeD[OF r(1)] by simp_all
  have D: "distinct (map run_id (t_runs db'))" using inv' by (simp add: store_inv_def lease_inv_def)
  have "log_le db db'" using m inv by (simp add: moves_on_def store_inv_def)
  then have acc: "has_acceptance db' u" using accepted_stays[OF r(2) _ frame(3)] ids by simp
  then obtain x where "x \<in> set (run_events db' rid)" "ev_seq x = 1"
    using ids by (auto simp: has_acceptance_def list_ex_iff run_events_def)
  then have "1 \<in> set (map ev_seq (run_events db' rid))" by force
  then have latest: "0 < run_latest_event_seq u" using numbered_events(1)[OF inv' u(1)] by simp
  have idle: "active_leases db' rid = []"
    by (rule settled_idle[OF inv s])
  have known: "effect_known db x" if "x \<in> set (unresolved_operations db rid)" for x
    by (rule resumed_account[OF inv ledger s u]) (use that in blast)
  have "op_retry_posture x \<noteq> ''reconcile_first''" if "x \<in> set (t_operations db)" "op_run x = rid" for x
  proof (cases "x \<in> set (unresolved_operations db rid)")
    case True
    then show ?thesis using known effect_known_posture by blast
  next
    case False
    then have "op_phase x = ''main_committed''" using that by (simp add: unresolved_operations_mem)
    then show ?thesis using ledger_invD(2)[OF ledger that(1)] by (auto simp: op_ok_def)
  qed
  then have run: "runnable recently db' (Some rid) at u"
    using acc latest idle False ids(1) u(2) frame(1) by (auto simp: runnable_def list_ex_iff)
  then have "next_runnable_run_row recently db' (Some rid) at \<noteq> None"
    using first_sorted_None[of "\<lambda>r. (run_created_at r, run_id r)" "runnable recently db' (Some rid) at" "t_runs db'"] ids(2)
    by (auto simp: next_runnable_run_row_def)
  then obtain w where w: "next_runnable_run_row recently db' (Some rid) at = Some w" by blast
  then have "w \<in> set (t_runs db')" "run_id w = rid"
    using next_runnableD(1,2)[OF w] by (auto simp: runnable_def)
  then show ?thesis using w run_row_unique[OF D u(1)] by simp
qed simp

text \<open>The first run of the story of before, without the operation of the second.\<close>

definition demo_quiet :: rcdb where
  "demo_quiet = demo_lost\<lparr>t_operations := [], t_reconciliations := []\<rparr>"

definition resumed_quiet :: "rcdb \<Rightarrow> bool" where
  "resumed_quiet db \<longleftrightarrow> t_outbox db = [] \<and>
     (case fetch_run db ''r1'' of None \<Rightarrow> False | Some r \<Rightarrow> has_acceptance db r) \<and>
     (case settle_next_expired_executor_lease (lf_recovery demo_life) db ''+iii'' True of
        Inr (db', Some (Some (rid, code))) \<Rightarrow>
          rid = ''r1'' \<and> map_option run_status (fetch_run db' rid) = Some ''resume_requested''
      | _ \<Rightarrow> False)"

theorem resumed_run_claimable_witness:
  "\<exists>db' code u. settle_next_expired_executor_lease (lf_recovery demo_life) demo_quiet ''+iii'' True =
       Inr (db', Some (Some (''r1'', code))) \<and>
     next_runnable_run_row (\<lambda>_ _. False) db' (Some ''r1'') ''+iii'' = Some u"
proof -
  have "resumed_quiet demo_quiet" unfolding demo_quiet_def demo_lost_def by code_simp
  note resumed = this[unfolded resumed_quiet_def]
  have inv: "store_inv demo_quiet"
    using demo_lost_inv
    by (simp add: life_inv_def demo_quiet_def store_inv_def lease_inv_def events_inv_def log_heads_def run_events_def)
  have ledger: "ledger_inv demo_quiet" using resumed by (simp add: demo_quiet_def ledger_inv_def)
  obtain r where r: "fetch_run demo_quiet ''r1'' = Some r" "has_acceptance demo_quiet r"
    using resumed by (auto split: option.splits)
  obtain db' code u where s: "settle_next_expired_executor_lease (lf_recovery demo_life) demo_quiet ''+iii'' True =
       Inr (db', Some (Some (''r1'', code)))" "fetch_run db' ''r1'' = Some u" "run_status u = ''resume_requested''"
    using resumed by (auto split: sum.splits prod.splits option.splits)
  have "\<not> awaits_resource (\<lambda>_ _. False) db' u ''+iii''" by (simp add: awaits_resource_def list_ex_iff)
  then show ?thesis
    using resumed_run_claimable[OF inv ledger r s, of "\<lambda>_ _. False" "''+iii''"] s(1) by blast
qed

section \<open>Leaving the attention\<close>

lemma closed_attention:
  assumes "a \<in> set (update_where (\<lambda>a. ra_run a = rid \<and> ra_status a = ''active'')
      (\<lambda>a. a\<lparr>ra_status := ''resolved'', ra_resolved_at := at\<rparr>) t)"
  shows "ra_run a \<noteq> rid \<or> ra_status a \<noteq> ''active''"
proof -
  obtain x where "a = (if ra_run x = rid \<and> ra_status x = ''active''
      then x\<lparr>ra_status := ''resolved'', ra_resolved_at := at\<rparr> else x)"
    using assms unfolding update_where_def set_map by blast
  then show ?thesis by (cases "ra_run x = rid \<and> ra_status x = ''active''") simp_all
qed


section \<open>Where recovery stops\<close>

lemma recover_blocked:
  assumes "settle_next_expired_executor_lease env db now resume = Inl e"
  shows "recover_start_timeouts env db now resume = (db, [], Some e)"
proof -
  have "(100 :: nat) = Suc 99" by simp
  then show ?thesis using assms unfolding recover_start_timeouts_def by (simp only: settle_loop.simps sum.case)
qed

lemma settle_blocked:
  assumes "\<And>db' res. settle_next_expired_executor_lease env db now resume \<noteq> Inr (db', res)"
  shows "\<exists>e. recover_start_timeouts env db now resume = (db, [], Some e)"
proof -
  obtain e where "settle_next_expired_executor_lease env db now resume = Inl e"
    using assms by (cases "settle_next_expired_executor_lease env db now resume") auto
  then show ?thesis using recover_blocked by blast
qed

text \<open>
  C17: A starting run with a valid checkpoint holds up all recovery. When the worker of a run is lost
  before it acknowledged the start and the checkpoint of the run loads, the plan is to resume it, but
  the lifecycle has no transition from starting to resume_requested: the settlement raises and is rolled
  back, so the lease is still the next one and \<open>recover_start_timeouts\<close> settles nothing, of any run.
\<close>

theorem starting_resume_blocks_recovery:
  assumes inv: "store_inv db" and l: "next_recovery_lease_row db now = Some l" "fetch_run db (ls_run l) = Some r"
    and starting: "run_status r = ''starting''"
    and loads: "recovery_checkpoint env (fst (take_recovery_lease db l r now)) r = LoadedCheckpoint c"
  shows "\<exists>e. recover_start_timeouts env db now True = (db, [], Some e)"
proof (rule settle_blocked, rule notI)
  fix db' res
  assume s: "settle_next_expired_executor_lease env db now True = Inr (db', res)"
  from inv s show False
  proof (cases rule: settle_cases)
    case (cleaned l' r')
    then show False
      using l starting by (simp add: LEASE_ONLY_CLEANUP_RUN_STATUSES_def TERMINAL_RUN_STATUSES_def)
  next
    case (decided l' r' db1 plan)
    then have eq: "l' = l" "r' = r" "fst (take_recovery_lease db l r now) = db1" using l by auto
    obtain loaded where "plan = decide_expired_lease_recovery (run_status r) loaded True" "loaded = LoadedCheckpoint c"
        "run_transition (run_status r) (rp_target_status plan)"
      by (rule decide_cases[OF decided(7)]) (use loads eq in simp)
    then have "run_transition ''starting'' ''resume_requested''"
      using starting by (simp add: decide_expired_lease_recovery_def)
    then show False by (simp add: run_transition_def ALLOWED_TRANSITIONS_def)
  qed (use l in simp)
qed

definition starting_loads :: "rcdb \<Rightarrow> bool" where
  "starting_loads db \<longleftrightarrow>
     (case next_recovery_lease_row db ''+iiiiii'' of None \<Rightarrow> False
      | Some l \<Rightarrow> (case fetch_run db (ls_run l) of None \<Rightarrow> False
        | Some r \<Rightarrow> run_status r = ''starting'' \<and>
            (case recovery_checkpoint (lf_recovery demo_life) (fst (take_recovery_lease db l r ''+iiiiii'')) r of
               LoadedCheckpoint c \<Rightarrow> True | _ \<Rightarrow> False)))"

definition demo_restarted :: rcdb where
  "demo_restarted = run_txns (life_step demo_life) demo_lost (take 4 demo_resume)"

theorem starting_resume_blocks_recovery_witness:
  "\<exists>e. recover_start_timeouts (lf_recovery demo_life) demo_restarted ''+iiiiii'' True = (demo_restarted, [], Some e)"
proof -
  have "starting_loads demo_restarted" unfolding demo_restarted_def demo_lost_def by code_simp
  then obtain l r c where "next_recovery_lease_row demo_restarted ''+iiiiii'' = Some l"
      "fetch_run demo_restarted (ls_run l) = Some r" "run_status r = ''starting''"
      "recovery_checkpoint (lf_recovery demo_life) (fst (take_recovery_lease demo_restarted l r ''+iiiiii'')) r = LoadedCheckpoint c"
    by (auto simp: starting_loads_def split: option.splits checkpoint_load.splits)
  moreover have "store_inv demo_restarted"
    unfolding demo_restarted_def using run_life_inv[OF demo_lost_inv] by (simp only: life_inv_def)
  ultimately show ?thesis using starting_resume_blocks_recovery by blast
qed

lemma append_attention:
  assumes "append_event_in_transaction db e snapshot status stop completed ckpt = Inr (db', x)"
  shows "t_attention db' = t_attention db"
  using append_frame(1)[OF assms] by (cases db; cases db'; simp)

lemma expiry_attention:
  "append_recovery_expiry_event sha db l r now = Inr (db', x) \<Longrightarrow> t_attention db' = t_attention db"
  by (auto simp: append_recovery_expiry_event_def append_attention split: option.splits)

lemma decision_attention:
  "append_recovery_decision_event sha db l r loaded plan n now = Inr db' \<Longrightarrow> t_attention db' = t_attention db"
  by (auto simp: append_recovery_decision_event_def sbind_eq_Inr append_attention split: if_splits)

text \<open>
  C18: A run that was in the attention before and has an open operation again holds up all recovery. The
  attention row of a run is never opened again, so the settlement of its next lost executor raises a
  conflict and is rolled back, and \<open>recover_start_timeouts\<close> settles nothing, of any run.
\<close>

theorem attention_reentry_blocks_recovery:
  assumes inv: "store_inv db" and l: "next_recovery_lease_row db now = Some l" "fetch_run db (ls_run l) = Some r"
    and status: "run_status r \<in> {''starting'', ''running''}"
    and open_effect: "recovery_checkpoint env (fst (take_recovery_lease db l r now)) r = LoadFailure ckpt UNRESOLVED"
    and row: "fetchone (\<lambda>a. ra_run a = run_id r) (t_attention db) = Some a" "ra_status a \<noteq> ''active''"
  shows "\<exists>e. recover_start_timeouts env db now resume = (db, [], Some e)"
proof (rule settle_blocked, rule notI)
  fix db' res
  assume s: "settle_next_expired_executor_lease env db now resume = Inr (db', res)"
  from inv s show False
  proof (cases rule: settle_cases)
    case (cleaned l' r')
    then show False
      using l status by (auto simp: LEASE_ONLY_CLEANUP_RUN_STATUSES_def TERMINAL_RUN_STATUSES_def)
  next
    case (decided l' r' db1 plan)
    then have eq: "l' = l" "r' = r" "fst (take_recovery_lease db l r now) = db1" using l by auto
    obtain loaded db2 expiry db3 db4 where
      e: "loaded = LoadFailure ckpt UNRESOLVED" "plan = decide_expired_lease_recovery (run_status r) loaded resume"
      "append_recovery_expiry_event (rv_sha env) db1 l r now = Inr (db2, expiry)"
      "append_recovery_decision_event (rv_sha env) db2 l r loaded plan (ev_seq expiry) now = Inr db3"
      "(rp_target_status plan \<noteq> ''needs_attention'' \<and> db4 = db3) \<or>
       (rp_target_status plan = ''needs_attention'' \<and> enter_recovery_attention db3 (run_id r) now = Inr db4)"
      by (rule decide_cases[OF decided(7)]) (use open_effect eq in simp)
    have "t_attention db1 = t_attention db"
      using decided(5) by (auto simp: take_recovery_lease_def Let_def update_leases_def update_run_def split: if_splits)
    moreover have "t_attention db2 = t_attention db1" "t_attention db3 = t_attention db2"
      using expiry_attention[OF e(3)] decision_attention[OF e(4)] .
    ultimately have "fetchone (\<lambda>a. ra_run a = run_id r) (t_attention db3) = Some a" using row(1) by simp
    moreover have "rp_target_status plan = ''needs_attention''"
      using e(1,2) status by (auto simp: decide_expired_lease_recovery_def)
    ultimately show False
      using e(5) row(2) by (auto simp: enter_recovery_attention_def split: list.splits)
  qed (use l in simp)
qed

definition reentry_due :: "rcdb \<Rightarrow> bool" where
  "reentry_due db \<longleftrightarrow>
     (case next_recovery_lease_row db ''+iiiiii'' of None \<Rightarrow> False
      | Some l \<Rightarrow> (case fetch_run db (ls_run l) of None \<Rightarrow> False
        | Some r \<Rightarrow> run_status r \<in> {''starting'', ''running''} \<and>
            (case recovery_checkpoint (lf_recovery demo_life) (fst (take_recovery_lease db l r ''+iiiiii'')) r of
               LoadFailure ckpt reason \<Rightarrow> reason = UNRESOLVED | _ \<Rightarrow> False) \<and>
            (case fetchone (\<lambda>a. ra_run a = run_id r) (t_attention db) of
               None \<Rightarrow> False | Some a \<Rightarrow> ra_status a \<noteq> ''active'')))"

theorem attention_reentry_blocks_recovery_witness:
  "\<exists>e. recover_start_timeouts (lf_recovery demo_life) demo_resumed ''+iiiiii'' True = (demo_resumed, [], Some e)"
proof -
  have "reentry_due demo_resumed" unfolding demo_resumed_def demo_lost_def by code_simp
  then obtain l r ckpt a where "next_recovery_lease_row demo_resumed ''+iiiiii'' = Some l"
      "fetch_run demo_resumed (ls_run l) = Some r" "run_status r \<in> {''starting'', ''running''}"
      "recovery_checkpoint (lf_recovery demo_life) (fst (take_recovery_lease demo_resumed l r ''+iiiiii'')) r =
         LoadFailure ckpt UNRESOLVED"
      "fetchone (\<lambda>a. ra_run a = run_id r) (t_attention demo_resumed) = Some a" "ra_status a \<noteq> ''active''"
    by (auto simp: reentry_due_def split: option.splits checkpoint_load.splits)
  moreover have "store_inv demo_resumed" using demo_resumed_inv by (simp add: life_inv_def)
  ultimately show ?thesis using attention_reentry_blocks_recovery by blast
qed

definition resolves :: "rcdb \<Rightarrow> bool" where
  "resolves db \<longleftrightarrow> map op_operation_id (unresolved_operations db ''r2'') = [''op1''] \<and>
     \<not> isl (resolve_source_operation_recovery_attention (\<lambda>_ _. None) db ''r2'' ''+iii'')"

definition demo_waiting :: rcdb where
  "demo_waiting = run_txns (life_step demo_life) demo_lost (take 2 demo_resume)"


end
