(* ===== verification/Spec2Isabelle.thy ===== *)
theory Spec2Isabelle
  imports JournalQuery WorkflowRecovery RecoverySafety
begin

text \<open>
  SeekTalent searches recruiting sites through a browser, under a durable control plane. This
  development models the parts that decide whether an effect on the outside world may happen once
  more, and where a run goes on after a crash: the run lifecycle from the acceptance of a run over its
  claims to its outcome, the leases of the executors, the event log, the lease of the one browser lane,
  the ledger of source operations with its retries, the durable workflow of a search round with its
  checkpoint, the recovery of runs whose executor was lost, and the journal in which the browser sidecar
  records every command before and after its effect, with the queries that are answered from it.

  Parts and theories (paths under \<open>src/src/\<close>):

  \<^item> Prelude: results as \<open>error + value\<close>, tables as lists of rows with \<open>fetchone\<close>,
    \<open>update_where\<close>, \<open>rowcount\<close> and \<open>max_by\<close> for the SQL statements, runs of transactions, and three
    interfaces as locales: \<open>txn_system\<close> (a property kept by every call), \<open>fencing\<close> (tokens handed
    out grow) and \<open>append_log\<close> (a log is only extended). Each component interprets them on its own
    calls.
  \<^item> RunFsm: \<open>seektalent_runtime_control/fsm.py\<close> and \<open>errors.py\<close>.
  \<^item> Schema: the rows and tables of the SQLite store that the modelled methods read or write, and
    \<open>clock.py\<close>.
  \<^item> ExecutorLease: the lease methods, \<open>update_run_status\<close> and \<open>link_workbench_session\<close> of
    \<open>RuntimeControlStore\<close> in \<open>store.py\<close>.
  \<^item> EventLog: \<open>_append_event_in_transaction\<close> and the methods of \<open>store.py\<close> built on it, the readers with
    their cursors, the marks of the projection, the compaction of payloads, and the yield of an executor.
  \<^item> BrowserLane: \<open>browser_lane.py\<close>, the store methods of the lane and the exit of its guard.
  \<^item> SourceOperations: \<open>source_operations.py\<close>, \<open>source_reconciliation.py\<close>,
    \<open>safe_retry_turnover.py\<close>, the tables of \<open>source_epoch_schema.py\<close> and the methods of
    \<open>store.py\<close> that accept, acknowledge, observe, reconcile, retry, list and commit source operations.
  \<^item> SourceLedger: the invariant of these tables, that every method keeps it, and the properties of
    single methods.
  \<^item> ControlPlane: leases, lane and ledger on one database, their calls interleaved, and the
    properties that need more than one of them.
  \<^item> PyJson: values of Python, \<open>json.dumps\<close> with sorted keys and ASCII escapes, and \<open>json.loads\<close>, as
    the standard library documents them; the decoder reads back the canonical form of what was
    encoded.
  \<^item> WorkflowCodec: \<open>workflow_transition.py\<close>, the payload of a transition and the check of its row.
  \<^item> Workflow: round barriers, lanes and transitions in \<open>store.py\<close>: opening a round, skipping a lane,
    writing a step, the chain of a lane, the resume lanes, the advance of a transition by a
    dispatch, and the settlement by a checkpoint.
  \<^item> WorkflowRounds: the invariant of these tables and that every operation keeps it; the walk over
    the parents returns the chain; the lanes of an open round can be resumed.
  \<^item> WorkflowSystem: \<open>write_checkpoint_v2\<close>, the workflow's calls interleaved with those of the control
    plane (\<open>system_step\<close>), and that every call keeps all invariants; \<open>env_ok\<close> holds of the code's own
    participant.
  \<^item> WorkflowRecovery: what a restarted executor relies on, over all reachable databases.
  \<^item> RunClaims: \<open>run_acceptance.py\<close> with \<open>accept_run\<close>, and \<open>claim_next_runnable_run\<close>.
  \<^item> RecoveryGate: \<open>_source_operations_recoverable_at_checkpoint\<close> and its helpers: which open effects a
    run may go on with.
  \<^item> CheckpointRecovery: \<open>checkpoint_recovery.py\<close>, \<open>recovery_attention.py\<close> and the readers of a
    checkpoint: the boundary validators, the decision, the attention rows.
  \<^item> LeaseRecovery: \<open>settle_next_expired_executor_lease\<close> with its events, the loop of \<open>recovery.py\<close>, and
    \<open>resolve_source_operation_recovery_attention\<close>.
  \<^item> RunLifecycle: all these calls on one database (\<open>life_step\<close>), what holds of every sequence of them,
    and what a settlement records; RecoverySafety: when a recovery resumes a run, that the run can then
    be claimed, how a run leaves the attention, and two cases in which recovery stops.
  \<^item> SourceHistory: the rows, facts and consistency check of
    \<open>seektalent/source_port/history_sqlite_reader.py\<close>, \<open>history_contract.py\<close> and
    \<open>wire_primitives.py\<close>.
  \<^item> CommandJournal: the transactions of \<open>seektalent/source_port/_command_journal_engine.py\<close>.
  \<^item> JournalQuery: the answers of \<open>history_sqlite_reader.py\<close> to history queries.

  State. A table is a list of records in insertion order; a column is a field, \<open>option\<close> where it
  may be NULL; integers of Python and SQLite are \<open>int\<close>, with SQLite's maximum written out where the
  code checks it. A transaction is a function from the tables to \<open>error + tables \<times> result\<close>; an
  exception rolls back, so an error keeps the tables of before. \<open>lease_step\<close>, \<open>lane_step\<close>,
  \<open>source_step\<close>, \<open>workflow_step\<close>, \<open>control_step\<close>, \<open>system_step\<close>, \<open>event_step\<close>, \<open>store_step\<close>,
  \<open>life_step\<close> and \<open>journal_step\<close> give the calls of a component as data, and \<open>run_txns\<close> runs a sequence of calls of any processes: SQLite's \<open>BEGIN IMMEDIATE\<close> serialises
  them, so every interleaving is one such sequence.

  How the parts meet. An executor acquires a lease of its run and the browser lane, accepts an
  operation in the ledger, and hands its dispatch to the sidecar, which journals the command. When
  the executor dies, its lease ends but the fence of the lane stays. The recovery settles the lease:
  the run asks to resume from its checkpoint when every open effect is accounted for, and needs
  attention when one is not. A coordinator asks the journal
  what happened, commits the answer in the ledger as a reconciliation, and the lane is freed on that
  evidence; a proof that nothing was dispatched lets the next executor authorize one retry. Each
  search round is a barrier over its lanes: the steps of a lane are durable transitions, the
  acceptance of an operation advances the transition that names it in the same transaction, the last
  step of a lane commits the operations it consumed, and the checkpoint of the round is written only
  when all lanes are done. A restarted executor resumes the lanes from these tables.

  Parameters, all functions the code calls and the model does not define: the parsing and formatting
  of ISO timestamps (\<open>clock\<close>, with \<open>clock_ok\<close> where an order is needed), the integrity check of a
  run row against the failure tables, SHA-256 (\<open>sha\<close>, \<open>digest\<close>), the needs-attention admission
  checks (\<open>evidence\<close>, \<open>attention\<close>), the half second of the \<open>julianday\<close> arithmetic in a claim
  (\<open>recently\<close>), the comparison of a checkpoint with the candidate ledgers (\<open>candidate_truth\<close>), the synchronisation of the candidate, round, finalization and
  detail ledgers before a checkpoint (\<open>projection\<close>), and the fresh identifiers of \<open>secrets\<close> and
  \<open>uuid4\<close>, which are arguments. In the ledger alone the participant that advances a transition is a
  parameter too (\<open>advance\<close>, with \<open>env_ok\<close>: it writes workflow tables only); in WorkflowSystem it is the
  code's function. \<open>sha_ok\<close> says that a \<open>hexdigest\<close> is 64 lower-case hexadecimal digits.

  What the lemmas show. For every component: an invariant of its tables, that every call keeps it
  and how the tables evolve (\<open>evolves\<close>, \<open>lane_evolves\<close>, \<open>ledger_le\<close>, \<open>journal_evolves\<close>), and from
  these the safety of its tokens, epochs and observations over any further calls; the lane refines an
  abstract fence (inductive \<open>fence_step\<close>); the heads of the journal are the replay of its events, and
  the writer's tables always pass the reader's consistency check; every query is answered and what an
  answer means; the paged list of pending dispatches equals its reference; the events of a run are numbered without
  a gap and a reader with a cursor sees each once (\<open>events_inv\<close>, \<open>log_le\<close>); a run keeps its identity and
  moves only along the lifecycle (\<open>life_inv\<close>, \<open>runs_le\<close>); every settlement shrinks the backlog of lost
  executors, and a resumed run has no effect that is not known; a written payload is read
  back, chains and resume lanes are returned in every reachable database, and no round is settled
  half done. Every operation of the program is a total function, the paging loop and the walk over
  the parents of a transition by a measure. Only the JSON parser of PyJson takes fuel, the length of
  the text: \<open>loads_dumps\<close> shows that it is enough for every encoded value.

  Not modelled: threads, polling loops, files, pragmas and migrations, the wire protocol and its
  authentication, the v1 checkpoints with their upgrade and compaction, the failed outcome and the
  needs-attention ledger, the fault injectors of the tests, \<open>create_run\<close> (called by tests only),
  commands, requirements and candidates, HTTP and user interfaces, the search runtime and the providers. A text is its UTF-8
  bytes, so lone surrogates do not occur; floats do not occur in payloads.
\<close>

end
